(* ===== verification/Enc28_Prelude.thy ===== *)
theory Enc28_Prelude
  imports Main "HOL-Library.Word"
begin

text \<open>
  What every theory of the development shares: the machine integer types, the result type of
  a C function that may call through a null pointer or never return, the state-passing
  combinators the driver's functions are written in, and the rules that reason about them.
\<close>

unbundle bit_operations_syntax

section \<open>Machine integers\<close>

type_synonym u8 = "8 word"
type_synonym u16 = "16 word"
type_synonym u32 = "32 word"

text \<open>\<open>1 << n\<close> as an 8-bit mask, and the 16-bit value of two bytes.\<close>

definition BIT :: "nat \<Rightarrow> u8" where
  "BIT n = push_bit n 1"

definition bytes16 :: "u8 \<Rightarrow> u8 \<Rightarrow> u16" where
  "bytes16 hi lo = push_bit 8 (ucast hi) OR ucast lo"

definition lo8 :: "u16 \<Rightarrow> u8" where
  "lo8 w = ucast (w AND 0xFF)"

definition hi8 :: "u16 \<Rightarrow> u8" where
  "hi8 w = ucast (drop_bit 8 w)"

lemma bit_BIT: "bit (BIT n) i \<longleftrightarrow> i = n \<and> n < 8"
  by (auto simp: BIT_def bit_simps)

lemma and_BIT_iff:
  assumes "n < 8"
  shows "(x AND BIT n \<noteq> 0) = bit x n"
proof
  assume "x AND BIT n \<noteq> 0"
  then obtain i where "bit (x AND BIT n) i"
    using bit_eqI [of "x AND BIT n" 0] by auto
  then show "bit x n" by (auto simp: bit_and_iff bit_BIT)
next
  assume "bit x n"
  with assms have "bit (x AND BIT n) n" by (simp add: bit_and_iff bit_BIT)
  then show "x AND BIT n \<noteq> 0" by force
qed

lemma and_BIT_eq_0_iff: "n < 8 \<Longrightarrow> (x AND BIT n = 0) = (\<not> bit x n)"
  using and_BIT_iff by blast

lemma bit_0xFF16: "bit (0xFF :: u16) n \<longleftrightarrow> n < 8"
proof -
  have "(0xFF :: u16) = mask 8" by (simp add: mask_eq_exp_minus_1)
  then have "bit (0xFF :: u16) n = bit (mask 8 :: u16) n" by (simp only:)
  then show ?thesis by (auto simp: bit_mask_iff simp del: bit_numeral_word_iff)
qed

lemma bit_u8_lt: "bit (w :: u8) n \<Longrightarrow> n < 8"
  using bit_imp_le_length [of w n] by simp

lemma bit_bytes16: "bit (bytes16 hi lo) n \<longleftrightarrow> (if n < 8 then bit lo n else bit hi (n - 8))"
  by (auto simp: bytes16_def bit_simps dest: bit_u8_lt)

lemma lo8_bytes16 [simp]: "lo8 (bytes16 hi lo) = lo"
  by (rule bit_eqI) (simp add: lo8_def bit_ucast_iff bit_and_iff bit_0xFF16 bit_bytes16
      del: bit_numeral_word_iff)

lemma hi8_bytes16 [simp]: "hi8 (bytes16 hi lo) = hi"
  by (rule bit_eqI) (simp add: hi8_def bit_ucast_iff bit_drop_bit_eq bit_bytes16)

lemma bytes16_hi8_lo8 [simp]: "bytes16 (hi8 w) (lo8 w) = w"
  by (rule bit_eqI)
    (auto simp: bit_bytes16 lo8_def hi8_def bit_ucast_iff bit_and_iff bit_drop_bit_eq bit_0xFF16
      simp del: bit_numeral_word_iff)

lemma unat_u8_lt: "unat (x :: u8) < 256"
proof -
  have "unat x < 2 ^ LENGTH(8)" by (rule unsigned_less)
  then show ?thesis by simp
qed

lemma unat_u16_lt: "unat (x :: u16) < 65536"
proof -
  have "unat x < 2 ^ LENGTH(16)" by (rule unsigned_less)
  then show ?thesis by simp
qed

lemma unat_bytes16: "unat (bytes16 hi lo) = 256 * unat hi + unat lo"
proof -
  have "bytes16 hi lo = push_bit 8 (ucast hi) + (ucast lo :: u16)"
    unfolding bytes16_def
    by (rule disjunctive_add [symmetric]) (auto simp: bit_simps dest: bit_u8_lt)
  also have "unat \<dots> = 256 * unat hi + unat lo"
    using unat_u8_lt [of hi] unat_u8_lt [of lo]
    by (simp add: push_bit_eq_mult unat_word_ariths unsigned_ucast_eq take_bit_nat_eq_self)
  finally show ?thesis .
qed

section \<open>Outcomes of C code\<close>

text \<open>
  A call of C code from a state either returns (\<open>Some (Ret r)\<close>), does something the C
  standard leaves undefined, such as a call through a null function pointer
  (\<open>Some Undef\<close>), or does not return because a polling loop never ends (\<open>None\<close>).
\<close>

datatype 'a outcome = Ret 'a | Undef

text \<open>\<open>after r k\<close>: go on with \<open>k\<close> where \<open>r\<close> returned.\<close>

definition after :: "'a outcome option \<Rightarrow> ('a \<Rightarrow> 'b outcome option) \<Rightarrow> 'b outcome option" where
  "after r k = (case r of None \<Rightarrow> None | Some Undef \<Rightarrow> Some Undef | Some (Ret x) \<Rightarrow> k x)"

lemma after_simps [simp]:
  "after None k = None"
  "after (Some Undef) k = Some Undef"
  "after (Some (Ret x)) k = k x"
  by (simp_all add: after_def)

lemma after_mono [partial_function_mono]:
  assumes "\<And>x. mono_option (\<lambda>f. k f x)"
  shows "mono_option (\<lambda>f. after r (k f))"
  using assms by (auto simp: monotone_def after_def split: option.split outcome.split)
    (simp_all add: flat_ord_def)

lemma after_eq_Ret: "after r k = Some (Ret y) \<longleftrightarrow> (\<exists>x. r = Some (Ret x) \<and> k x = Some (Ret y))"
  by (auto simp: after_def split: option.splits outcome.splits)

lemma after_after: "after (after r k) h = after r (\<lambda>x. after (k x) h)"
  by (auto simp: after_def split: option.split outcome.split)

end
