(* ===== verification/Enc28_Types.thy ===== *)
theory Enc28_Types
  imports Enc28_Prelude
begin

text \<open>
  The constants and data types of \<^verbatim>\<open>src/enc28j60/enc28j60.h\<close>: SPI opcodes, register addresses, bit
  numbers, the configuration, the status code every driver function returns, the MAC address,
  the hardware revision and the receive status vector with its two bit-field bytes. A
  \<^verbatim>\<open>#define\<close> is an abbreviation: the preprocessor replaces it in the same way.
\<close>

section \<open>Register map and configuration\<close>

subsection \<open>SPI command encoding\<close>

abbreviation (input) ENC28_SPI_ARG_BITS :: nat where "ENC28_SPI_ARG_BITS \<equiv> 5"
abbreviation (input) ENC28_SPI_ARG_MASK :: u8 where "ENC28_SPI_ARG_MASK \<equiv> 0x1F"
abbreviation (input) ENC28_OP_RCR :: u8 where "ENC28_OP_RCR \<equiv> 0x0"
abbreviation (input) ENC28_OP_RBM :: u8 where "ENC28_OP_RBM \<equiv> 0x1"
abbreviation (input) ENC28_OP_WCR :: u8 where "ENC28_OP_WCR \<equiv> 0x2"
abbreviation (input) ENC28_OP_WBM :: u8 where "ENC28_OP_WBM \<equiv> 0x3"
abbreviation (input) ENC28_OP_BFS :: u8 where "ENC28_OP_BFS \<equiv> 0x4"
abbreviation (input) ENC28_OP_BFC :: u8 where "ENC28_OP_BFC \<equiv> 0x5"
abbreviation (input) ENC28_OP_SRC :: u8 where "ENC28_OP_SRC \<equiv> 0x7"

subsection \<open>Common control registers (every bank)\<close>

abbreviation (input) ENC28_CR_EPKTCNT :: u8 where "ENC28_CR_EPKTCNT \<equiv> 0x19"
abbreviation (input) ENC28_CR_EIE :: u8 where "ENC28_CR_EIE \<equiv> 0x1B"
abbreviation (input) ENC28_EIE_RXERIE :: nat where "ENC28_EIE_RXERIE \<equiv> 0"
abbreviation (input) ENC28_EIE_TXERIE :: nat where "ENC28_EIE_TXERIE \<equiv> 1"
abbreviation (input) ENC28_EIE_TXIE :: nat where "ENC28_EIE_TXIE \<equiv> 3"
abbreviation (input) ENC28_EIE_LINKIE :: nat where "ENC28_EIE_LINKIE \<equiv> 4"
abbreviation (input) ENC28_EIE_DMAIE :: nat where "ENC28_EIE_DMAIE \<equiv> 5"
abbreviation (input) ENC28_EIE_PKTIE :: nat where "ENC28_EIE_PKTIE \<equiv> 6"
abbreviation (input) ENC28_EIE_INTIE :: nat where "ENC28_EIE_INTIE \<equiv> 7"
abbreviation (input) ENC28_CR_EIR :: u8 where "ENC28_CR_EIR \<equiv> 0x1C"
abbreviation (input) ENC28_EIR_RXERIF :: nat where "ENC28_EIR_RXERIF \<equiv> 0"
abbreviation (input) ENC28_EIR_TXERIF :: nat where "ENC28_EIR_TXERIF \<equiv> 1"
abbreviation (input) ENC28_EIR_TXIF :: nat where "ENC28_EIR_TXIF \<equiv> 3"
abbreviation (input) ENC28_EIR_LINKIF :: nat where "ENC28_EIR_LINKIF \<equiv> 4"
abbreviation (input) ENC28_EIR_DMAIF :: nat where "ENC28_EIR_DMAIF \<equiv> 5"
abbreviation (input) ENC28_EIR_PKTIF :: nat where "ENC28_EIR_PKTIF \<equiv> 6"
abbreviation (input) ENC28_CR_ECON2 :: u8 where "ENC28_CR_ECON2 \<equiv> 0x1E"
abbreviation (input) ENC28_ECON2_VRPS :: nat where "ENC28_ECON2_VRPS \<equiv> 3"
abbreviation (input) ENC28_ECON2_PWRSV :: nat where "ENC28_ECON2_PWRSV \<equiv> 5"
abbreviation (input) ENC28_ECON2_PKTDEC :: nat where "ENC28_ECON2_PKTDEC \<equiv> 6"
abbreviation (input) ENC28_ECON2_AUTOINC :: nat where "ENC28_ECON2_AUTOINC \<equiv> 7"
abbreviation (input) ENC28_CR_ECON1 :: u8 where "ENC28_CR_ECON1 \<equiv> 0x1F"
abbreviation (input) ENC28_ECON1_BSEL :: u8 where "ENC28_ECON1_BSEL \<equiv> 0x3"
abbreviation (input) ENC28_ECON1_RXEN :: nat where "ENC28_ECON1_RXEN \<equiv> 2"
abbreviation (input) ENC28_ECON1_TXRTS :: nat where "ENC28_ECON1_TXRTS \<equiv> 3"
abbreviation (input) ENC28_ECON1_CSUM_EN :: nat where "ENC28_ECON1_CSUM_EN \<equiv> 4"
abbreviation (input) ENC28_ECON1_DMA_BUSY :: nat where "ENC28_ECON1_DMA_BUSY \<equiv> 5"
abbreviation (input) ENC28_ECON1_RX_RST :: nat where "ENC28_ECON1_RX_RST \<equiv> 6"
abbreviation (input) ENC28_ECON1_TX_RST :: nat where "ENC28_ECON1_TX_RST \<equiv> 7"

subsection \<open>MAC and MII registers\<close>

abbreviation (input) ENC28_CR_MACON1 :: u8 where "ENC28_CR_MACON1 \<equiv> 0x0"
abbreviation (input) ENC28_MACON1_RXEN :: nat where "ENC28_MACON1_RXEN \<equiv> 0"
abbreviation (input) ENC28_MACON1_RXPAUS :: nat where "ENC28_MACON1_RXPAUS \<equiv> 2"
abbreviation (input) ENC28_MACON1_TXPAUS :: nat where "ENC28_MACON1_TXPAUS \<equiv> 3"
abbreviation (input) ENC28_CR_MACON3 :: u8 where "ENC28_CR_MACON3 \<equiv> 0x2"
abbreviation (input) ENC28_MACON3_TXCRCEN :: nat where "ENC28_MACON3_TXCRCEN \<equiv> 0x4"
abbreviation (input) ENC28_MACON3_FULLDPX :: nat where "ENC28_MACON3_FULLDPX \<equiv> 0x0"
abbreviation (input) ENC28_MACON3_FRMLNEN :: nat where "ENC28_MACON3_FRMLNEN \<equiv> 0x1"
abbreviation (input) ENC28_CR_MACON4 :: u8 where "ENC28_CR_MACON4 \<equiv> 0x3"
abbreviation (input) ENC28_MACON4_DEFER :: nat where "ENC28_MACON4_DEFER \<equiv> 0x4"
abbreviation (input) ENC28_CR_MABBIPG :: u8 where "ENC28_CR_MABBIPG \<equiv> 0x4"
abbreviation (input) ENC28_CR_MAIPGL :: u8 where "ENC28_CR_MAIPGL \<equiv> 0x6"
abbreviation (input) ENC28_CR_MAIPGH :: u8 where "ENC28_CR_MAIPGH \<equiv> 0x7"
abbreviation (input) ENC28_CR_MACLCON1 :: u8 where "ENC28_CR_MACLCON1 \<equiv> 0x8"
abbreviation (input) ENC28_CR_MACLCON2 :: u8 where "ENC28_CR_MACLCON2 \<equiv> 0x9"
abbreviation (input) ENC28_CR_MAMXFLL :: u8 where "ENC28_CR_MAMXFLL \<equiv> 0xA"
abbreviation (input) ENC28_CR_MAMXFLH :: u8 where "ENC28_CR_MAMXFLH \<equiv> 0xB"
abbreviation (input) ENC28_CR_MIWRL :: u8 where "ENC28_CR_MIWRL \<equiv> 0x16"
abbreviation (input) ENC28_CR_MIWRH :: u8 where "ENC28_CR_MIWRH \<equiv> 0x17"
abbreviation (input) ENC28_CR_MIRDL :: u8 where "ENC28_CR_MIRDL \<equiv> 0x18"
abbreviation (input) ENC28_CR_MIRDH :: u8 where "ENC28_CR_MIRDH \<equiv> 0x19"
abbreviation (input) ENC28_CR_MICMD :: u8 where "ENC28_CR_MICMD \<equiv> 0x12"
abbreviation (input) ENC28_MICMD_MIIRD :: nat where "ENC28_MICMD_MIIRD \<equiv> 0"
abbreviation (input) ENC28_CR_MIREGADR :: u8 where "ENC28_CR_MIREGADR \<equiv> 0x14"
abbreviation (input) ENC28_CR_MISTAT :: u8 where "ENC28_CR_MISTAT \<equiv> 0xA"
abbreviation (input) ENC28_MISTAT_BUSY :: nat where "ENC28_MISTAT_BUSY \<equiv> 0"
abbreviation (input) ENC28_CR_MAC_ADD1 :: u8 where "ENC28_CR_MAC_ADD1 \<equiv> 0x4"
abbreviation (input) ENC28_CR_MAC_ADD2 :: u8 where "ENC28_CR_MAC_ADD2 \<equiv> 0x5"
abbreviation (input) ENC28_CR_MAC_ADD3 :: u8 where "ENC28_CR_MAC_ADD3 \<equiv> 0x2"
abbreviation (input) ENC28_CR_MAC_ADD4 :: u8 where "ENC28_CR_MAC_ADD4 \<equiv> 0x3"
abbreviation (input) ENC28_CR_MAC_ADD5 :: u8 where "ENC28_CR_MAC_ADD5 \<equiv> 0x0"
abbreviation (input) ENC28_CR_MAC_ADD6 :: u8 where "ENC28_CR_MAC_ADD6 \<equiv> 0x1"

subsection \<open>Ethernet registers\<close>

abbreviation (input) ENC28_CR_ERDPTL :: u8 where "ENC28_CR_ERDPTL \<equiv> 0x0"
abbreviation (input) ENC28_CR_ERDPTH :: u8 where "ENC28_CR_ERDPTH \<equiv> 0x1"
abbreviation (input) ENC28_CR_EWRPTL :: u8 where "ENC28_CR_EWRPTL \<equiv> 0x2"
abbreviation (input) ENC28_CR_EWRPTH :: u8 where "ENC28_CR_EWRPTH \<equiv> 0x3"
abbreviation (input) ENC28_CR_ETXSTL :: u8 where "ENC28_CR_ETXSTL \<equiv> 0x4"
abbreviation (input) ENC28_CR_ETXSTH :: u8 where "ENC28_CR_ETXSTH \<equiv> 0x5"
abbreviation (input) ENC28_CR_ETXNDL :: u8 where "ENC28_CR_ETXNDL \<equiv> 0x6"
abbreviation (input) ENC28_CR_ETXNDH :: u8 where "ENC28_CR_ETXNDH \<equiv> 0x7"
abbreviation (input) ENC28_CR_ERXSTL :: u8 where "ENC28_CR_ERXSTL \<equiv> 0x8"
abbreviation (input) ENC28_CR_ERXSTH :: u8 where "ENC28_CR_ERXSTH \<equiv> 0x9"
abbreviation (input) ENC28_CR_ERXNDL :: u8 where "ENC28_CR_ERXNDL \<equiv> 0xA"
abbreviation (input) ENC28_CR_ERXNDH :: u8 where "ENC28_CR_ERXNDH \<equiv> 0xB"
abbreviation (input) ENC28_CR_ERXRDPTL :: u8 where "ENC28_CR_ERXRDPTL \<equiv> 0xC"
abbreviation (input) ENC28_CR_ERXRDPTH :: u8 where "ENC28_CR_ERXRDPTH \<equiv> 0xD"
abbreviation (input) ENC28_CR_EREVID :: u8 where "ENC28_CR_EREVID \<equiv> 0x12"
abbreviation (input) ENC28_CR_ESTAT :: u8 where "ENC28_CR_ESTAT \<equiv> 0x1D"
abbreviation (input) ENC28_ESTAT_CLKRDY :: nat where "ENC28_ESTAT_CLKRDY \<equiv> 0"
abbreviation (input) ENC28_ESTAT_TXABRT :: nat where "ENC28_ESTAT_TXABRT \<equiv> 1"
abbreviation (input) ENC28_ESTAT_LATECOL :: nat where "ENC28_ESTAT_LATECOL \<equiv> 4"
abbreviation (input) ENC28_CR_ERXFCON :: u8 where "ENC28_CR_ERXFCON \<equiv> 0x18"
abbreviation (input) ENC28_ERXFCON_UNI :: u8 where "ENC28_ERXFCON_UNI \<equiv> BIT 7"
abbreviation (input) ENC28_ERXFCON_ANDOR :: u8 where "ENC28_ERXFCON_ANDOR \<equiv> BIT 6"
abbreviation (input) ENC28_ERXFCON_CRC :: u8 where "ENC28_ERXFCON_CRC \<equiv> BIT 5"
abbreviation (input) ENC28_ERXFCON_MULTI :: u8 where "ENC28_ERXFCON_MULTI \<equiv> BIT 1"
abbreviation (input) ENC28_ERXFCON_BCAST :: u8 where "ENC28_ERXFCON_BCAST \<equiv> BIT 0"

subsection \<open>PHY registers\<close>

abbreviation (input) ENC28_PHYR_PHCON1 :: u8 where "ENC28_PHYR_PHCON1 \<equiv> 0x0"
abbreviation (input) ENC28_PHCON1_PDPXMD :: nat where "ENC28_PHCON1_PDPXMD \<equiv> 8"
abbreviation (input) ENC28_PHYR_PHID1 :: u8 where "ENC28_PHYR_PHID1 \<equiv> 0x2"
abbreviation (input) ENC28_PHYR_PHID2 :: u8 where "ENC28_PHYR_PHID2 \<equiv> 0x3"
abbreviation (input) ENC28_PHYR_PHLCON :: u8 where "ENC28_PHYR_PHLCON \<equiv> 0x14"

subsection \<open>Configuration\<close>

abbreviation (input) ENC28_CONF_RX_ADDRESS_START :: u16 where "ENC28_CONF_RX_ADDRESS_START \<equiv> 0x7D0"
abbreviation (input) ENC28_CONF_RX_ADDRESS_END :: u16 where "ENC28_CONF_RX_ADDRESS_END \<equiv> 0x1EFF"
abbreviation (input) ENC28_CONF_TX_ADDRESS_START :: u16 where "ENC28_CONF_TX_ADDRESS_START \<equiv> 0x1D"
abbreviation (input) ENC28_CONF_PACKET_FILTER_MASK :: u8 where "ENC28_CONF_PACKET_FILTER_MASK \<equiv> ENC28_ERXFCON_UNI OR ENC28_ERXFCON_MULTI OR ENC28_ERXFCON_BCAST"
abbreviation (input) ENC28_CONF_MACON3_FRAME_PAD_MASK :: u8 where "ENC28_CONF_MACON3_FRAME_PAD_MASK \<equiv> 0xE0"
abbreviation (input) ENC28_CONF_MAX_FRAME_LEN :: u16 where "ENC28_CONF_MAX_FRAME_LEN \<equiv> 1536"
abbreviation (input) ENC28_CONF_MABBIPG_BITS :: u8 where "ENC28_CONF_MABBIPG_BITS \<equiv> 0x12"
abbreviation (input) ENC28_CONF_MAIPGL_BITS_FULLDUP :: u8 where "ENC28_CONF_MAIPGL_BITS_FULLDUP \<equiv> 0x15"
abbreviation (input) ENC28_CONF_MAIPGL_BITS_HALFDUP :: u8 where "ENC28_CONF_MAIPGL_BITS_HALFDUP \<equiv> 0x12"
abbreviation (input) ENC28_CONF_MAIPGH_BITS :: u8 where "ENC28_CONF_MAIPGH_BITS \<equiv> 0xC"

section \<open>Status codes\<close>

datatype ENC28_CommandStatus =
    ENC28_OK
  | ENC28_INVALID_REGISTER
  | ENC28_INVALID_PARAM
  | ENC28_NO_DATA
  | ENC28_READ_PTR_OUT_OF_RANGE
  | ENC28_BUFFER_TOO_SMALL
  | ENC28_PACKET_RCV_ERR
  | ENC28_PACKET_TX_IN_PROGRESS
  | ENC28_PACKET_TX_ABORTED

section \<open>Structures\<close>

text \<open>\<open>addr[6]\<close> is a fixed-size array: six bytes, one field each.\<close>

record ENC28_MAC_Address =
  addr0 :: u8
  addr1 :: u8
  addr2 :: u8
  addr3 :: u8
  addr4 :: u8
  addr5 :: u8

record ENC28_HW_Rev =
  phid1 :: u16
  phid2 :: u16
  ethrev :: u8

record ENC28_Receive_Status_Vec_Bits_16_23 =
  long_drop_event :: bool
  reserved2 :: bool
  carr_event_seen :: bool
  reserved1 :: bool
  crc_err :: bool
  len_check_err :: bool
  len_out_of_range :: bool
  received_ok :: bool

record ENC28_Receive_Status_Vec_Bits_24_31 =
  multicast :: bool
  broadcast :: bool
  dribble_nibble :: bool
  ctrl_frame :: bool
  pause_ctrl_frame :: bool
  unknown_opcode :: bool
  vlan_type :: bool
  zero_bit :: bool

record ENC28_Receive_Status_Vector =
  packet_len_lo :: u8
  packet_len_hi :: u8
  status_bits_lo :: ENC28_Receive_Status_Vec_Bits_16_23
  status_bits_hi :: ENC28_Receive_Status_Vec_Bits_24_31

text \<open>
  The code stores a received byte through a \<^verbatim>\<open>uint8_t*\<close> into a bit-field struct. GCC for a
  little-endian ARM allocates bit fields from the least significant bit upwards, so field \<open>i\<close>
  is bit \<open>i\<close> of the byte.
\<close>

definition rsv_bits_16_23_of_byte :: "u8 \<Rightarrow> ENC28_Receive_Status_Vec_Bits_16_23" where
  "rsv_bits_16_23_of_byte b =
     \<lparr>long_drop_event = bit b 0, reserved2 = bit b 1, carr_event_seen = bit b 2,
      reserved1 = bit b 3, crc_err = bit b 4, len_check_err = bit b 5,
      len_out_of_range = bit b 6, received_ok = bit b 7\<rparr>"

definition rsv_bits_24_31_of_byte :: "u8 \<Rightarrow> ENC28_Receive_Status_Vec_Bits_24_31" where
  "rsv_bits_24_31_of_byte b =
     \<lparr>multicast = bit b 0, broadcast = bit b 1, dribble_nibble = bit b 2,
      ctrl_frame = bit b 3, pause_ctrl_frame = bit b 4, unknown_opcode = bit b 5,
      vlan_type = bit b 6, zero_bit = bit b 7\<rparr>"

text \<open>The packet length the vector carries, \<open>(packet_len_hi << 8) | packet_len_lo\<close>.\<close>

definition rsv_packet_len :: "ENC28_Receive_Status_Vector \<Rightarrow> u16" where
  "rsv_packet_len v = bytes16 (packet_len_hi v) (packet_len_lo v)"

end
