(* ===== verification/Enc28_Spi.thy ===== *)
theory Enc28_Spi
  imports Enc28_Types
begin

text \<open>
  The driver's access to the chip (\<^verbatim>\<open>src/enc28j60/enc28j60.c\<close>): the SPI context of callbacks, the
  state a driver call runs in, the preparation of the SPI commands, the read, write, set-bits and
  clear-bits operations on control registers, and the selection of a register bank.

  The callbacks belong to the board's firmware, which is not in the repository. They are the
  fields of a context, arbitrary functions on an arbitrary world \<open>'w\<close>; a null pointer is \<open>None\<close>.
\<close>

section \<open>Context and state\<close>

text \<open>
  An input callback is given the current contents of the caller's buffer and returns what it
  stores there; it can store only into the \<open>len\<close> bytes it is given.
\<close>

record 'w ENC28_SPI_Context =
  nss_pin_op :: "(u8 \<Rightarrow> 'w \<Rightarrow> 'w) option"
  spi_out_op :: "(u8 list \<Rightarrow> 'w \<Rightarrow> 'w) option"
  spi_in_op :: "(u8 list \<Rightarrow> 'w \<Rightarrow> u8 list \<times> 'w) option"
  spi_in_out_op :: "(u8 list \<Rightarrow> u8 list \<Rightarrow> 'w \<Rightarrow> u8 list \<times> 'w) option"
  wait_nano :: "(u32 \<Rightarrow> 'w \<Rightarrow> 'w) option"

text \<open>The driver's one static variable, and the world the callbacks act on.\<close>

record 'w enc28_drv =
  priv_enc28_curr_bank :: u8
  world :: 'w

type_synonym ('a, 'w) cmd = "'w enc28_drv \<Rightarrow> ('a \<times> 'w enc28_drv) outcome option"

definition buf_store :: "u8 list \<Rightarrow> u8 list \<Rightarrow> u8 list" where
  "buf_store old new = take (length old) new @ drop (length new) old"

section \<open>Sequencing\<close>

definition returnM :: "'a \<Rightarrow> ('a, 'w) cmd" where
  "returnM a = (\<lambda>s. Some (Ret (a, s)))"

definition undefM :: "('a, 'w) cmd" where
  "undefM = (\<lambda>s. Some Undef)"

definition bindM :: "('a, 'w) cmd \<Rightarrow> ('a \<Rightarrow> ('b, 'w) cmd) \<Rightarrow> ('b, 'w) cmd" where
  "bindM m f = (\<lambda>s. after (m s) (\<lambda>(a, s'). f a s'))"

text \<open>The macro \<^verbatim>\<open>EXIT_IF_ERR\<close>: leave the function with the status unless it is \<open>ENC28_OK\<close>.\<close>

definition exit_if_err ::
  "ENC28_CommandStatus \<Rightarrow> (ENC28_CommandStatus \<Rightarrow> ('a, 'w) cmd) \<Rightarrow> ('a, 'w) cmd \<Rightarrow> ('a, 'w) cmd" where
  "exit_if_err status ret k = (if status \<noteq> ENC28_OK then ret status else k)"

text \<open>\<open>status = m; EXIT_IF_ERR(status); k\<close> in a function that returns only its status.\<close>

definition then_ok ::
  "(ENC28_CommandStatus, 'w) cmd \<Rightarrow> (ENC28_CommandStatus, 'w) cmd \<Rightarrow> (ENC28_CommandStatus, 'w) cmd" where
  "then_ok m k = bindM m (\<lambda>status. exit_if_err status returnM k)"

section \<open>Calls through the context\<close>

definition deref :: "'p option \<Rightarrow> ('p \<Rightarrow> ('a, 'w) cmd) \<Rightarrow> ('a, 'w) cmd" where
  "deref p k = (case p of None \<Rightarrow> undefM | Some c \<Rightarrow> k c)"

definition call_nss :: "'w ENC28_SPI_Context \<Rightarrow> u8 \<Rightarrow> (unit, 'w) cmd" where
  "call_nss c v = deref (nss_pin_op c) (\<lambda>f s. Some (Ret ((), s\<lparr>world := f v (world s)\<rparr>)))"

definition call_out :: "'w ENC28_SPI_Context \<Rightarrow> u8 list \<Rightarrow> (unit, 'w) cmd" where
  "call_out c bs = deref (spi_out_op c) (\<lambda>f s. Some (Ret ((), s\<lparr>world := f bs (world s)\<rparr>)))"

definition call_in :: "'w ENC28_SPI_Context \<Rightarrow> u8 list \<Rightarrow> (u8 list, 'w) cmd" where
  "call_in c buf = deref (spi_in_op c)
     (\<lambda>f s. case f buf (world s) of (bs, w) \<Rightarrow> Some (Ret (buf_store buf bs, s\<lparr>world := w\<rparr>)))"

definition call_in_out :: "'w ENC28_SPI_Context \<Rightarrow> u8 list \<Rightarrow> u8 list \<Rightarrow> (u8 list, 'w) cmd" where
  "call_in_out c tx rx = deref (spi_in_out_op c)
     (\<lambda>f s. case f tx rx (world s) of (bs, w) \<Rightarrow> Some (Ret (buf_store rx bs, s\<lparr>world := w\<rparr>)))"

definition call_wait :: "'w ENC28_SPI_Context \<Rightarrow> u32 \<Rightarrow> (unit, 'w) cmd" where
  "call_wait c ns = deref (wait_nano c) (\<lambda>f s. Some (Ret ((), s\<lparr>world := f ns (world s)\<rparr>)))"

text \<open>The null-pointer checks at the top of the register operations.\<close>

definition ctx_lacks_spi :: "'w ENC28_SPI_Context \<Rightarrow> bool" where
  "ctx_lacks_spi c \<longleftrightarrow> nss_pin_op c = None \<or> spi_in_op c = None \<or> spi_out_op c = None"

definition ctx_lacks_spi_or_wait :: "'w ENC28_SPI_Context \<Rightarrow> bool" where
  "ctx_lacks_spi_or_wait c \<longleftrightarrow> ctx_lacks_spi c \<or> wait_nano c = None"

section \<open>Register classification\<close>

definition priv_enc28_is_phy_reg :: "u8 \<Rightarrow> bool" where
  "priv_enc28_is_phy_reg reg_id \<longleftrightarrow> reg_id \<le> 0x03 \<or> (reg_id \<ge> 0x10 \<and> reg_id \<le> 0x14)"

text \<open>The first argument is the static variable \<^verbatim>\<open>priv_enc28_curr_bank\<close>.\<close>

definition priv_enc28_is_mac_or_mii_reg :: "u8 \<Rightarrow> u8 \<Rightarrow> bool" where
  "priv_enc28_is_mac_or_mii_reg curr_bank reg_id =
     (if curr_bank = 2 then
        reg_id = ENC28_CR_MACON1 \<or> reg_id = ENC28_CR_MACON3 \<or> reg_id = ENC28_CR_MACON4 \<or>
        reg_id = ENC28_CR_MABBIPG \<or> reg_id = ENC28_CR_MAIPGL \<or> reg_id = ENC28_CR_MAIPGH \<or>
        reg_id = ENC28_CR_MACLCON1 \<or> reg_id = ENC28_CR_MACLCON2 \<or>
        reg_id = ENC28_CR_MAMXFLH \<or> reg_id = ENC28_CR_MAMXFLL \<or>
        reg_id = ENC28_CR_MICMD \<or> reg_id = ENC28_CR_MIREGADR \<or>
        reg_id = ENC28_CR_MIWRL \<or> reg_id = ENC28_CR_MIWRH \<or>
        reg_id = ENC28_CR_MIRDL \<or> reg_id = ENC28_CR_MIRDH
      else if curr_bank = 3 then
        reg_id = ENC28_CR_MISTAT \<or> reg_id = ENC28_CR_MAC_ADD1 \<or> reg_id = ENC28_CR_MAC_ADD2 \<or>
        reg_id = ENC28_CR_MAC_ADD3 \<or> reg_id = ENC28_CR_MAC_ADD4 \<or>
        reg_id = ENC28_CR_MAC_ADD5 \<or> reg_id = ENC28_CR_MAC_ADD6
      else False)"

section \<open>Preparing a command\<close>

text \<open>The macro \<^verbatim>\<open>CHECK_RESERVED_REG\<close>.\<close>

definition CHECK_RESERVED_REG :: "u8 \<Rightarrow> bool" where
  "CHECK_RESERVED_REG reg_id \<longleftrightarrow> reg_id = 0x1A"

text \<open>\<open>(op << ENC28_SPI_ARG_BITS) | (reg_id & ENC28_SPI_ARG_MASK)\<close>, as a byte.\<close>

definition spi_command_byte :: "u8 \<Rightarrow> u8 \<Rightarrow> u8" where
  "spi_command_byte op reg_id = push_bit ENC28_SPI_ARG_BITS op OR (reg_id AND ENC28_SPI_ARG_MASK)"

text \<open>
  An output pointer is an option: \<open>None\<close> is the null pointer, \<open>Some v\<close> points to a cell that holds
  \<open>v\<close>; the function returns the cell's new contents beside its status.
\<close>

definition enc28_prepare_read_ctl_reg :: "u8 option \<Rightarrow> u8 \<Rightarrow> ENC28_CommandStatus \<times> u8 option" where
  "enc28_prepare_read_ctl_reg out reg_id =
     (if CHECK_RESERVED_REG reg_id then (ENC28_INVALID_REGISTER, out)
      else case out of None \<Rightarrow> (ENC28_INVALID_PARAM, None)
      | Some _ \<Rightarrow> (ENC28_OK, Some (spi_command_byte ENC28_OP_RCR reg_id)))"

definition enc28_prepare_write_ctl_reg ::
  "u16 option \<Rightarrow> u8 \<Rightarrow> u8 \<Rightarrow> ENC28_CommandStatus \<times> u16 option" where
  "enc28_prepare_write_ctl_reg out reg_id val =
     (if CHECK_RESERVED_REG reg_id then (ENC28_INVALID_REGISTER, out)
      else case out of None \<Rightarrow> (ENC28_INVALID_PARAM, None)
      | Some _ \<Rightarrow>
          let command_byte = spi_command_byte ENC28_OP_WCR reg_id
          in (ENC28_OK, Some (bytes16 command_byte val)))"

definition enc28_prepare_set_bits_ctl_reg ::
  "u16 option \<Rightarrow> u8 \<Rightarrow> u8 \<Rightarrow> ENC28_CommandStatus \<times> u16 option" where
  "enc28_prepare_set_bits_ctl_reg out reg_id msk =
     (if CHECK_RESERVED_REG reg_id then (ENC28_INVALID_REGISTER, out)
      else case out of None \<Rightarrow> (ENC28_INVALID_PARAM, None)
      | Some _ \<Rightarrow>
          let command_byte = spi_command_byte ENC28_OP_BFS reg_id
          in (ENC28_OK, Some (bytes16 command_byte msk)))"

definition enc28_prepare_clear_bits_ctl_reg ::
  "u16 option \<Rightarrow> u8 \<Rightarrow> u8 \<Rightarrow> ENC28_CommandStatus \<times> u16 option" where
  "enc28_prepare_clear_bits_ctl_reg out reg_id msk =
     (if CHECK_RESERVED_REG reg_id then (ENC28_INVALID_REGISTER, out)
      else case out of None \<Rightarrow> (ENC28_INVALID_PARAM, None)
      | Some _ \<Rightarrow>
          let command_byte = spi_command_byte ENC28_OP_BFC reg_id
          in (ENC28_OK, Some (bytes16 command_byte msk)))"

section \<open>Operations on control registers\<close>

text \<open>
  \<open>cmd_buff\<close> is an uninitialised local; its address is never null, and it is read only after the
  prepare function has stored the command in it. The pattern below starts it at 0.
\<close>

definition enc28_do_read_ctl_reg ::
  "'w ENC28_SPI_Context option \<Rightarrow> u8 \<Rightarrow> u8 option \<Rightarrow> (ENC28_CommandStatus \<times> u8 option, 'w) cmd" where
  "enc28_do_read_ctl_reg ctx reg_id reg_value =
     (case ctx of None \<Rightarrow> returnM (ENC28_INVALID_PARAM, reg_value)
      | Some c \<Rightarrow>
        if ctx_lacks_spi c then returnM (ENC28_INVALID_PARAM, reg_value)
        else case reg_value of None \<Rightarrow> returnM (ENC28_INVALID_PARAM, None)
        | Some old \<Rightarrow>
          (case enc28_prepare_read_ctl_reg (Some 0) reg_id of (status, cmd_buff) \<Rightarrow>
            if status \<noteq> ENC28_OK then returnM (status, reg_value)
            else deref cmd_buff (\<lambda>cmd s.
              let skip_dummy_byte = priv_enc28_is_mac_or_mii_reg (priv_enc28_curr_bank s) reg_id
              in bindM (call_nss c 0) (\<lambda>_.
                 bindM (call_out c [cmd]) (\<lambda>_.
                 bindM (if skip_dummy_byte
                        then bindM (call_in c [0, 0]) (\<lambda>buff. returnM (buff ! 1))
                        else bindM (call_in c [old]) (\<lambda>buff. returnM (buff ! 0))) (\<lambda>v.
                 bindM (call_nss c 1) (\<lambda>_.
                 returnM (ENC28_OK, Some v))))) s)))"

text \<open>The pattern \<open>enc28_do_read_ctl_reg(ctx, reg_id, &v)\<close> for a local \<open>v\<close>.\<close>

definition read_ctl_local ::
  "'w ENC28_SPI_Context option \<Rightarrow> u8 \<Rightarrow> u8 \<Rightarrow> (ENC28_CommandStatus \<times> u8, 'w) cmd" where
  "read_ctl_local ctx reg_id v = bindM (enc28_do_read_ctl_reg ctx reg_id (Some v))
     (\<lambda>(status, out). returnM (status, case out of None \<Rightarrow> v | Some v' \<Rightarrow> v'))"

text \<open>The two-byte commands go out as \<open>{cmd_buff >> 8, cmd_buff & 0xFF}\<close>.\<close>

definition enc28_do_write_ctl_reg ::
  "'w ENC28_SPI_Context option \<Rightarrow> u8 \<Rightarrow> u8 \<Rightarrow> (ENC28_CommandStatus, 'w) cmd" where
  "enc28_do_write_ctl_reg ctx reg_id reg_value =
     (case ctx of None \<Rightarrow> returnM ENC28_INVALID_PARAM
      | Some c \<Rightarrow>
        if ctx_lacks_spi_or_wait c then returnM ENC28_INVALID_PARAM
        else case enc28_prepare_write_ctl_reg (Some 0) reg_id reg_value of (status, cmd_buff) \<Rightarrow>
          if status \<noteq> ENC28_OK then returnM status
          else deref cmd_buff (\<lambda>cmd.
            bindM (call_nss c 0) (\<lambda>_.
            bindM (call_wait c 50) (\<lambda>_.
            bindM (call_out c [hi8 cmd, lo8 cmd]) (\<lambda>_.
            bindM (call_wait c 210) (\<lambda>_.
            bindM (call_nss c 1) (\<lambda>_.
            returnM ENC28_OK)))))))"

definition enc28_do_set_bits_ctl_reg ::
  "'w ENC28_SPI_Context option \<Rightarrow> u8 \<Rightarrow> u8 \<Rightarrow> (ENC28_CommandStatus, 'w) cmd" where
  "enc28_do_set_bits_ctl_reg ctx reg_id msk =
     (case ctx of None \<Rightarrow> returnM ENC28_INVALID_PARAM
      | Some c \<Rightarrow>
        if ctx_lacks_spi c then returnM ENC28_INVALID_PARAM
        else case enc28_prepare_set_bits_ctl_reg (Some 0) reg_id msk of (status, cmd_buff) \<Rightarrow>
          if status \<noteq> ENC28_OK then returnM status
          else deref cmd_buff (\<lambda>cmd.
            bindM (call_nss c 0) (\<lambda>_.
            bindM (call_out c [hi8 cmd, lo8 cmd]) (\<lambda>_.
            bindM (call_nss c 1) (\<lambda>_.
            returnM ENC28_OK)))))"

definition enc28_do_clear_bits_ctl_reg ::
  "'w ENC28_SPI_Context option \<Rightarrow> u8 \<Rightarrow> u8 \<Rightarrow> (ENC28_CommandStatus, 'w) cmd" where
  "enc28_do_clear_bits_ctl_reg ctx reg_id msk =
     (case ctx of None \<Rightarrow> returnM ENC28_INVALID_PARAM
      | Some c \<Rightarrow>
        if ctx_lacks_spi c then returnM ENC28_INVALID_PARAM
        else case enc28_prepare_clear_bits_ctl_reg (Some 0) reg_id msk of (status, cmd_buff) \<Rightarrow>
          if status \<noteq> ENC28_OK then returnM status
          else deref cmd_buff (\<lambda>cmd.
            bindM (call_nss c 0) (\<lambda>_.
            bindM (call_out c [hi8 cmd, lo8 cmd]) (\<lambda>_.
            bindM (call_nss c 1) (\<lambda>_.
            returnM ENC28_OK)))))"

section \<open>Bank selection and soft reset\<close>

definition set_curr_bank :: "u8 \<Rightarrow> (unit, 'w) cmd" where
  "set_curr_bank b = (\<lambda>s. Some (Ret ((), s\<lparr>priv_enc28_curr_bank := b\<rparr>)))"

definition enc28_select_register_bank ::
  "'w ENC28_SPI_Context option \<Rightarrow> u8 \<Rightarrow> (ENC28_CommandStatus, 'w) cmd" where
  "enc28_select_register_bank ctx bank_id =
     (if bank_id \<ge> 4 then returnM ENC28_INVALID_PARAM
      else bindM (read_ctl_local ctx ENC28_CR_ECON1 0) (\<lambda>(status, econ1_reg).
        exit_if_err status returnM
        (let econ1_reg = econ1_reg AND NOT ENC28_ECON1_BSEL;
             econ1_reg = econ1_reg OR bank_id
         in bindM (enc28_do_write_ctl_reg ctx ENC28_CR_ECON1 econ1_reg) (\<lambda>status.
            if status = ENC28_OK
            then bindM (set_curr_bank bank_id) (\<lambda>_. returnM status)
            else returnM status))))"

definition enc28_do_soft_reset ::
  "'w ENC28_SPI_Context option \<Rightarrow> (ENC28_CommandStatus, 'w) cmd" where
  "enc28_do_soft_reset ctx =
     (case ctx of None \<Rightarrow> returnM ENC28_INVALID_PARAM
      | Some c \<Rightarrow>
        if ctx_lacks_spi c then returnM ENC28_INVALID_PARAM
        else bindM (call_nss c 0) (\<lambda>_.
             bindM (call_out c [0xFF]) (\<lambda>_.
             bindM (call_nss c 1) (\<lambda>_.
             returnM ENC28_OK))))"

end
