(* ===== verification/Enc28_Phy.thy ===== *)
theory Enc28_Phy
  imports Enc28_Spi
begin

text \<open>
  PHY registers are reached through the MII registers: the driver starts a read, polls
  \<^verbatim>\<open>MISTAT.BUSY\<close> and fetches the two result bytes. On top of it, the hardware revision; beside it,
  the MAC address registers of bank 3.
\<close>

section \<open>PHY registers\<close>

text \<open>
  The \<^verbatim>\<open>while\<close> loop of \<^verbatim>\<open>enc28_do_read_phy_register\<close>: it ends when a read fails (the
  \<^verbatim>\<open>EXIT_IF_ERR\<close> in its body) or when the busy bit is clear, and not at all on a chip that stays
  busy.
\<close>

partial_function (option) phy_poll_busy ::
  "'w ENC28_SPI_Context option \<Rightarrow> 'w ENC28_SPI_Context \<Rightarrow> 'w enc28_drv
   \<Rightarrow> (ENC28_CommandStatus \<times> 'w enc28_drv) outcome option" where
  "phy_poll_busy ctx c s =
     after (read_ctl_local ctx ENC28_CR_MISTAT 0xFF s) (\<lambda>r. case r of ((status, mistat_value), s1) \<Rightarrow>
       if status \<noteq> ENC28_OK then Some (Ret (status, s1))
       else if mistat_value AND BIT ENC28_MISTAT_BUSY = 0 then Some (Ret (ENC28_OK, s1))
       else after (call_wait c 1 s1) (\<lambda>r2. phy_poll_busy ctx c (snd r2)))"

definition enc28_do_read_phy_register ::
  "'w ENC28_SPI_Context option \<Rightarrow> u8 \<Rightarrow> u16 option \<Rightarrow> (ENC28_CommandStatus \<times> u16 option, 'w) cmd" where
  "enc28_do_read_phy_register ctx reg_id reg_value =
     (let ret = (\<lambda>status. returnM (status, reg_value)) in
      if \<not> priv_enc28_is_phy_reg reg_id then ret ENC28_INVALID_PARAM
      else case ctx of None \<Rightarrow> ret ENC28_INVALID_PARAM
      | Some c \<Rightarrow>
        if ctx_lacks_spi_or_wait c then ret ENC28_INVALID_PARAM
        else
        bindM (enc28_select_register_bank ctx 2) (\<lambda>status. exit_if_err status ret (
        bindM (enc28_do_write_ctl_reg ctx ENC28_CR_MIREGADR reg_id) (\<lambda>status. exit_if_err status ret (
        bindM (enc28_do_write_ctl_reg ctx ENC28_CR_MICMD (BIT ENC28_MICMD_MIIRD)) (\<lambda>status. exit_if_err status ret (
        bindM (call_wait c (11 * 1000)) (\<lambda>_.
        bindM (enc28_select_register_bank ctx 3) (\<lambda>status. exit_if_err status ret (
        bindM (phy_poll_busy ctx c) (\<lambda>status. exit_if_err status ret (
        bindM (enc28_select_register_bank ctx 2) (\<lambda>status. exit_if_err status ret (
        bindM (enc28_do_write_ctl_reg ctx ENC28_CR_MICMD 0) (\<lambda>status. exit_if_err status ret (
        bindM (read_ctl_local ctx ENC28_CR_MIRDL 0xFF) (\<lambda>(status, reg_val_lo). exit_if_err status ret (
        bindM (read_ctl_local ctx ENC28_CR_MIRDH 0xFF) (\<lambda>(status, reg_val_hi). exit_if_err status ret (
        deref reg_value (\<lambda>_. returnM (ENC28_OK, Some (bytes16 reg_val_hi reg_val_lo)))
        ))))))))))))))))))))"

definition enc28_do_read_hw_rev ::
  "'w ENC28_SPI_Context option \<Rightarrow> ENC28_HW_Rev option
   \<Rightarrow> (ENC28_CommandStatus \<times> ENC28_HW_Rev option, 'w) cmd" where
  "enc28_do_read_hw_rev ctx hw_rev =
     (case hw_rev of None \<Rightarrow> returnM (ENC28_INVALID_PARAM, None)
      | Some hw \<Rightarrow>
        bindM (enc28_do_read_phy_register ctx ENC28_PHYR_PHID1 (Some (phid1 hw))) (\<lambda>(status, v1).
        let hw = (case v1 of None \<Rightarrow> hw | Some v \<Rightarrow> hw\<lparr>phid1 := v\<rparr>) in
        exit_if_err status (\<lambda>status. returnM (status, Some hw)) (
        bindM (enc28_do_read_phy_register ctx ENC28_PHYR_PHID2 (Some (phid2 hw))) (\<lambda>(status, v2).
        let hw = (case v2 of None \<Rightarrow> hw | Some v \<Rightarrow> hw\<lparr>phid2 := v\<rparr>) in
        exit_if_err status (\<lambda>status. returnM (status, Some hw)) (
        bindM (enc28_select_register_bank ctx 3) (\<lambda>status.
        exit_if_err status (\<lambda>status. returnM (status, Some hw)) (
        bindM (read_ctl_local ctx ENC28_CR_EREVID (ethrev hw)) (\<lambda>(status, v3).
        returnM (status, Some (hw\<lparr>ethrev := v3\<rparr>))))))))))"

section \<open>MAC address registers\<close>

text \<open>
  The address of a member of a null struct is undefined; the pointer is not checked. The code
  stores byte \<open>i\<close> of the address in \<^verbatim>\<open>mac->addr[i]\<close>.
\<close>

definition enc28_do_read_mac ::
  "'w ENC28_SPI_Context option \<Rightarrow> ENC28_MAC_Address option
   \<Rightarrow> (ENC28_CommandStatus \<times> ENC28_MAC_Address option, 'w) cmd" where
  "enc28_do_read_mac ctx mac =
     bindM (enc28_select_register_bank ctx 3) (\<lambda>status.
     exit_if_err status (\<lambda>status. returnM (status, mac)) (
     deref mac (\<lambda>m.
     bindM (read_ctl_local ctx ENC28_CR_MAC_ADD1 (addr0 m)) (\<lambda>(status, v). let m = m\<lparr>addr0 := v\<rparr> in
     exit_if_err status (\<lambda>status. returnM (status, Some m)) (
     bindM (read_ctl_local ctx ENC28_CR_MAC_ADD2 (addr1 m)) (\<lambda>(status, v). let m = m\<lparr>addr1 := v\<rparr> in
     exit_if_err status (\<lambda>status. returnM (status, Some m)) (
     bindM (read_ctl_local ctx ENC28_CR_MAC_ADD3 (addr2 m)) (\<lambda>(status, v). let m = m\<lparr>addr2 := v\<rparr> in
     exit_if_err status (\<lambda>status. returnM (status, Some m)) (
     bindM (read_ctl_local ctx ENC28_CR_MAC_ADD4 (addr3 m)) (\<lambda>(status, v). let m = m\<lparr>addr3 := v\<rparr> in
     exit_if_err status (\<lambda>status. returnM (status, Some m)) (
     bindM (read_ctl_local ctx ENC28_CR_MAC_ADD5 (addr4 m)) (\<lambda>(status, v). let m = m\<lparr>addr4 := v\<rparr> in
     exit_if_err status (\<lambda>status. returnM (status, Some m)) (
     bindM (read_ctl_local ctx ENC28_CR_MAC_ADD6 (addr5 m)) (\<lambda>(status, v).
     returnM (status, Some (m\<lparr>addr5 := v\<rparr>))))))))))))))))"

end
