(* ===== verification/Enc28_Init.thy ===== *)
theory Enc28_Init
  imports Enc28_Phy
begin

text \<open>
  The initialisation sequence: the receive buffer pointers, the receive filter, the wait for
  the oscillator, the MAC registers and the (empty) PHY part.
\<close>

section \<open>Receive buffer and filter\<close>

text \<open>The status of the first call is overwritten before it is looked at.\<close>

definition priv_enc28_do_buffer_register_init ::
  "'w ENC28_SPI_Context option \<Rightarrow> (ENC28_CommandStatus, 'w) cmd" where
  "priv_enc28_do_buffer_register_init ctx =
     (let addr_lo = lo8 ENC28_CONF_RX_ADDRESS_START;
          addr_hi = hi8 ENC28_CONF_RX_ADDRESS_START AND 0x1F in
      bindM (enc28_select_register_bank ctx 0) (\<lambda>_.
      then_ok (enc28_do_write_ctl_reg ctx ENC28_CR_ERXSTL addr_lo) (
      then_ok (enc28_do_write_ctl_reg ctx ENC28_CR_ERXSTH addr_hi) (
      let addr_lo = lo8 ENC28_CONF_RX_ADDRESS_END;
          addr_hi = hi8 ENC28_CONF_RX_ADDRESS_END AND 0x1F in
      then_ok (enc28_do_write_ctl_reg ctx ENC28_CR_ERXNDL addr_lo) (
      then_ok (enc28_do_write_ctl_reg ctx ENC28_CR_ERXNDH addr_hi) (
      then_ok (enc28_do_write_ctl_reg ctx ENC28_CR_ERXRDPTL addr_lo) (
      then_ok (enc28_do_write_ctl_reg ctx ENC28_CR_ERXRDPTH addr_hi) (
      returnM ENC28_OK))))))))"

definition priv_enc28_do_receive_filter_init ::
  "'w ENC28_SPI_Context option \<Rightarrow> (ENC28_CommandStatus, 'w) cmd" where
  "priv_enc28_do_receive_filter_init ctx =
     then_ok (enc28_select_register_bank ctx 1)
       (enc28_do_write_ctl_reg ctx ENC28_CR_ERXFCON ENC28_CONF_PACKET_FILTER_MASK)"

section \<open>Waiting for the clock\<close>

text \<open>
  The loop ends when \<^verbatim>\<open>ESTAT.CLKRDY\<close> is read as set or when a read fails, and the function
  returns \<open>ENC28_OK\<close> in both cases.
\<close>

partial_function (option) poll_clkrdy_loop ::
  "'w ENC28_SPI_Context option \<Rightarrow> ENC28_CommandStatus \<Rightarrow> u8 \<Rightarrow> 'w enc28_drv
   \<Rightarrow> (unit \<times> 'w enc28_drv) outcome option" where
  "poll_clkrdy_loop ctx status reg_value s =
     (if status \<noteq> ENC28_OK then Some (Ret ((), s))
      else if reg_value AND BIT ENC28_ESTAT_CLKRDY \<noteq> 0 then Some (Ret ((), s))
      else after (read_ctl_local ctx ENC28_CR_ESTAT reg_value s) (\<lambda>r. case r of ((status', v), s1) \<Rightarrow>
        poll_clkrdy_loop ctx status' v s1))"

definition priv_enc28_do_poll_estat_clk ::
  "'w ENC28_SPI_Context option \<Rightarrow> (ENC28_CommandStatus, 'w) cmd" where
  "priv_enc28_do_poll_estat_clk ctx =
     bindM (read_ctl_local ctx ENC28_CR_ESTAT 0) (\<lambda>(status, reg_value).
     bindM (poll_clkrdy_loop ctx status reg_value) (\<lambda>_.
     returnM ENC28_OK))"

section \<open>MAC initialisation\<close>

definition macon3_mask :: "bool \<Rightarrow> u8" where
  "macon3_mask is_full_duplex =
     (let macon3_mask = ENC28_CONF_MACON3_FRAME_PAD_MASK OR BIT ENC28_MACON3_TXCRCEN OR BIT ENC28_MACON3_FRMLNEN
      in if is_full_duplex then macon3_mask OR BIT ENC28_MACON3_FULLDPX else macon3_mask)"

definition priv_enc28_do_mac_init ::
  "ENC28_MAC_Address \<Rightarrow> 'w ENC28_SPI_Context option \<Rightarrow> (ENC28_CommandStatus, 'w) cmd" where
  "priv_enc28_do_mac_init mac_add ctx =
     then_ok (enc28_select_register_bank ctx 2) (
     then_ok (enc28_do_set_bits_ctl_reg ctx ENC28_CR_MACON1
       (BIT ENC28_MACON1_RXEN OR BIT ENC28_MACON1_RXPAUS OR BIT ENC28_MACON1_TXPAUS)) (
     bindM (enc28_do_read_phy_register ctx ENC28_PHYR_PHCON1 (Some 0)) (\<lambda>(status, phcon1).
     exit_if_err status returnM (
     let phcon1_value = (case phcon1 of None \<Rightarrow> 0 | Some v \<Rightarrow> v);
         is_full_duplex = (phcon1_value AND push_bit ENC28_PHCON1_PDPXMD 1 \<noteq> 0) in
     then_ok (enc28_do_set_bits_ctl_reg ctx ENC28_CR_MACON3 (macon3_mask is_full_duplex)) (
     then_ok (enc28_do_set_bits_ctl_reg ctx ENC28_CR_MACON4 (BIT ENC28_MACON4_DEFER)) (
     then_ok (enc28_do_write_ctl_reg ctx ENC28_CR_MAMXFLL (lo8 ENC28_CONF_MAX_FRAME_LEN)) (
     then_ok (enc28_do_write_ctl_reg ctx ENC28_CR_MAMXFLH (hi8 ENC28_CONF_MAX_FRAME_LEN)) (
     then_ok (enc28_do_write_ctl_reg ctx ENC28_CR_MABBIPG ENC28_CONF_MABBIPG_BITS) (
     then_ok (enc28_do_write_ctl_reg ctx ENC28_CR_MAIPGL
       (if is_full_duplex then ENC28_CONF_MAIPGL_BITS_FULLDUP else ENC28_CONF_MAIPGL_BITS_HALFDUP)) (
     then_ok (if \<not> is_full_duplex then enc28_do_write_ctl_reg ctx ENC28_CR_MAIPGH ENC28_CONF_MAIPGH_BITS
              else returnM ENC28_OK) (
     then_ok (enc28_select_register_bank ctx 3) (
     then_ok (enc28_do_write_ctl_reg ctx ENC28_CR_MAC_ADD1 (addr0 mac_add)) (
     then_ok (enc28_do_write_ctl_reg ctx ENC28_CR_MAC_ADD2 (addr1 mac_add)) (
     then_ok (enc28_do_write_ctl_reg ctx ENC28_CR_MAC_ADD3 (addr2 mac_add)) (
     then_ok (enc28_do_write_ctl_reg ctx ENC28_CR_MAC_ADD4 (addr3 mac_add)) (
     then_ok (enc28_do_write_ctl_reg ctx ENC28_CR_MAC_ADD5 (addr4 mac_add)) (
     then_ok (enc28_do_write_ctl_reg ctx ENC28_CR_MAC_ADD6 (addr5 mac_add)) (
     then_ok (enc28_select_register_bank ctx 0) (
     returnM ENC28_OK)))))))))))))))))))"

definition priv_enc28_do_phy_init ::
  "'w ENC28_SPI_Context option \<Rightarrow> (ENC28_CommandStatus, 'w) cmd" where
  "priv_enc28_do_phy_init ctx = returnM ENC28_OK"

definition enc28_do_init ::
  "ENC28_MAC_Address \<Rightarrow> 'w ENC28_SPI_Context option \<Rightarrow> (ENC28_CommandStatus, 'w) cmd" where
  "enc28_do_init mac_add ctx =
     then_ok (priv_enc28_do_buffer_register_init ctx) (
     then_ok (priv_enc28_do_receive_filter_init ctx) (
     then_ok (priv_enc28_do_poll_estat_clk ctx) (
     then_ok (priv_enc28_do_mac_init mac_add ctx) (
     priv_enc28_do_phy_init ctx))))"

end
