(* ===== verification/Enc28_Packet.thy ===== *)
theory Enc28_Packet
  imports Enc28_Init
begin

text \<open>
  Moving Ethernet frames: starting and stopping reception, reading the next received frame
  out of the chip's ring buffer, queueing a frame for transmission, and looking at the outcome
  of a transmission.
\<close>

section \<open>Starting and stopping reception\<close>

definition enc28_begin_packet_transfer ::
  "'w ENC28_SPI_Context option \<Rightarrow> (ENC28_CommandStatus, 'w) cmd" where
  "enc28_begin_packet_transfer ctx =
     then_ok (enc28_select_register_bank ctx 0) (
     then_ok (enc28_do_write_ctl_reg ctx ENC28_CR_ERDPTL (lo8 ENC28_CONF_RX_ADDRESS_START)) (
     then_ok (enc28_do_write_ctl_reg ctx ENC28_CR_ERDPTH (hi8 ENC28_CONF_RX_ADDRESS_START AND 0x1F)) (
     then_ok (enc28_do_set_bits_ctl_reg ctx ENC28_CR_EIE
       (BIT ENC28_EIE_INTIE OR BIT ENC28_EIE_PKTIE OR BIT ENC28_EIE_RXERIE OR BIT ENC28_EIE_TXERIE)) (
     then_ok (enc28_do_clear_bits_ctl_reg ctx ENC28_CR_EIR (BIT ENC28_EIR_RXERIF)) (
     then_ok (enc28_do_set_bits_ctl_reg ctx ENC28_CR_ECON2 (BIT ENC28_ECON2_AUTOINC)) (
     enc28_do_set_bits_ctl_reg ctx ENC28_CR_ECON1 (BIT ENC28_ECON1_RXEN)))))))"

definition enc28_end_packet_transfer ::
  "'w ENC28_SPI_Context option \<Rightarrow> (ENC28_CommandStatus, 'w) cmd" where
  "enc28_end_packet_transfer ctx =
     then_ok (enc28_select_register_bank ctx 0)
       (enc28_do_clear_bits_ctl_reg ctx ENC28_CR_ECON1 (BIT ENC28_ECON1_RXEN))"

section \<open>Reading a packet\<close>

text \<open>
  The value the code computes for \<^verbatim>\<open>ERXRDPT\<close> from the next packet pointer \<open>PP\<close>. \<open>PP - 1\<close> is
  computed in \<^verbatim>\<open>int\<close>, so it is \<open>-1\<close> for \<open>PP = 0\<close>.
\<close>

definition rx_release_ptr :: "u16 \<Rightarrow> u16" where
  "rx_release_ptr PP =
     (if uint PP - 1 > uint ENC28_CONF_RX_ADDRESS_END \<or> uint PP - 1 < uint ENC28_CONF_RX_ADDRESS_START
      then ENC28_CONF_RX_ADDRESS_END else PP - 1)"

text \<open>\<^verbatim>\<open>read_ptr = val; read_ptr |= ((val & 0x1F) << 8)\<close>\<close>

definition rx_read_ptr :: "u8 \<Rightarrow> u8 \<Rightarrow> u16" where
  "rx_read_ptr val_lo val_hi = bytes16 (val_hi AND 0x1F) val_lo"

definition rsv_of_header :: "u8 list \<Rightarrow> ENC28_Receive_Status_Vector" where
  "rsv_of_header hdr =
     \<lparr>packet_len_lo = hdr ! 3, packet_len_hi = hdr ! 4,
      status_bits_lo = rsv_bits_16_23_of_byte (hdr ! 5),
      status_bits_hi = rsv_bits_24_31_of_byte (hdr ! 6)\<rparr>"

text \<open>
  Filling the caller's buffer: \<^verbatim>\<open>spi_in_op(packet_buf, len)\<close>. A null buffer, or one shorter than
  \<open>len\<close>, is written out of bounds.
\<close>

definition call_in_packet ::
  "'w ENC28_SPI_Context \<Rightarrow> u8 list option \<Rightarrow> nat \<Rightarrow> (u8 list option, 'w) cmd" where
  "call_in_packet c packet_buf len = deref packet_buf (\<lambda>buf.
     if length buf < len then undefM
     else bindM (call_in c (take len buf)) (\<lambda>bs. returnM (Some (bs @ drop len buf))))"

text \<open>
  The pointer updates after a packet was copied out: \<^verbatim>\<open>ERDPT\<close> to the next packet, \<^verbatim>\<open>ERXRDPT\<close> as
  the errata demands, and the decrement of the packet counter.
\<close>

definition read_packet_release ::
  "'w ENC28_SPI_Context option \<Rightarrow> u8 list \<Rightarrow> (ENC28_CommandStatus, 'w) cmd" where
  "read_packet_release ctx hdr =
     (let PP = bytes16 (hdr ! 2 AND 0x1F) (hdr ! 1) in
      then_ok (enc28_do_write_ctl_reg ctx ENC28_CR_ERDPTL (hdr ! 1)) (
      then_ok (enc28_do_write_ctl_reg ctx ENC28_CR_ERDPTH (hdr ! 2)) (
      let PP = rx_release_ptr PP in
      then_ok (enc28_do_write_ctl_reg ctx ENC28_CR_ERXRDPTL (lo8 PP)) (
      then_ok (enc28_do_write_ctl_reg ctx ENC28_CR_ERXRDPTH (hi8 PP AND 0x1F)) (
      enc28_do_set_bits_ctl_reg ctx ENC28_CR_ECON2 (BIT ENC28_ECON2_PKTDEC))))))"

text \<open>The branch for a pending packet (\<^verbatim>\<open>EIR.PKTIF\<close> set).\<close>

definition read_packet_pending ::
  "'w ENC28_SPI_Context option \<Rightarrow> u8 list option \<Rightarrow> u16 \<Rightarrow> ENC28_Receive_Status_Vector option \<Rightarrow> u8
   \<Rightarrow> (ENC28_CommandStatus \<times> u8 list option \<times> ENC28_Receive_Status_Vector option, 'w) cmd" where
  "read_packet_pending ctx packet_buf buf_size opt_status_vec val =
     bindM (enc28_select_register_bank ctx 0) (\<lambda>status.
     exit_if_err status (\<lambda>st. returnM (st, packet_buf, opt_status_vec)) (
     bindM (read_ctl_local ctx ENC28_CR_ERDPTL val) (\<lambda>(_, val_lo).
     bindM (read_ctl_local ctx ENC28_CR_ERDPTH val_lo) (\<lambda>(_, val_hi).
     let read_ptr = rx_read_ptr val_lo val_hi in
     if read_ptr < ENC28_CONF_RX_ADDRESS_START \<or> read_ptr > ENC28_CONF_RX_ADDRESS_END
     then returnM (ENC28_READ_PTR_OUT_OF_RANGE, packet_buf, opt_status_vec)
     else deref ctx (\<lambda>c.
     bindM (call_nss c 0) (\<lambda>_.
     bindM (call_in_out c [0x3A, 0, 0, 0, 0, 0, 0] [0, 0, 0, 0, 0, 0, 0]) (\<lambda>hdr.
     bindM (call_nss c 1) (\<lambda>_.
     let status_vec = rsv_of_header hdr;
         opt_status_vec = map_option (\<lambda>_. status_vec) opt_status_vec in
     if \<not> received_ok (status_bits_lo status_vec)
     then returnM (ENC28_PACKET_RCV_ERR, packet_buf, opt_status_vec)
     else let packet_len = rsv_packet_len status_vec in
     if packet_len > buf_size
     then returnM (ENC28_BUFFER_TOO_SMALL, packet_buf, opt_status_vec)
     else
     bindM (call_nss c 0) (\<lambda>_.
     bindM (call_out c [0x3A]) (\<lambda>_.
     bindM (call_in_packet c packet_buf (unat packet_len)) (\<lambda>packet_buf.
     bindM (call_nss c 1) (\<lambda>_.
     bindM (read_packet_release ctx hdr) (\<lambda>status.
     returnM (status, packet_buf, opt_status_vec))))))))))))))"

definition enc28_read_packet ::
  "'w ENC28_SPI_Context option \<Rightarrow> u8 list option \<Rightarrow> u16 \<Rightarrow> ENC28_Receive_Status_Vector option
   \<Rightarrow> (ENC28_CommandStatus \<times> u8 list option \<times> ENC28_Receive_Status_Vector option, 'w) cmd" where
  "enc28_read_packet ctx packet_buf buf_size opt_status_vec =
     (let ret = (\<lambda>st. returnM (st, packet_buf, opt_status_vec)) in
      bindM (read_ctl_local ctx ENC28_CR_EIR 0) (\<lambda>(status, val).
      exit_if_err status ret (
      if val AND BIT ENC28_EIR_PKTIF \<noteq> 0
      then read_packet_pending ctx packet_buf buf_size opt_status_vec val
      else if val AND BIT ENC28_EIR_RXERIF \<noteq> 0
      then bindM
        (then_ok (enc28_select_register_bank ctx 0) (
         then_ok (enc28_do_write_ctl_reg ctx ENC28_CR_ERXRDPTL (lo8 ENC28_CONF_RX_ADDRESS_END)) (
         then_ok (enc28_do_write_ctl_reg ctx ENC28_CR_ERXRDPTH (hi8 ENC28_CONF_RX_ADDRESS_END AND 0x1F)) (
         then_ok (enc28_do_clear_bits_ctl_reg ctx ENC28_CR_EIR (BIT ENC28_EIR_RXERIF)) (
         returnM ENC28_PACKET_RCV_ERR))))) ret
      else ret ENC28_NO_DATA)))"

section \<open>Writing a packet\<close>

text \<open>\<^verbatim>\<open>end_address = ENC28_CONF_TX_ADDRESS_START + buf_size + 1\<close>, stored in 16 bits.\<close>

definition tx_end_address :: "u16 \<Rightarrow> u16" where
  "tx_end_address buf_size = ENC28_CONF_TX_ADDRESS_START + buf_size + 1"

definition call_out_packet :: "'w ENC28_SPI_Context \<Rightarrow> u8 list \<Rightarrow> nat \<Rightarrow> (unit, 'w) cmd" where
  "call_out_packet c buf len = (if length buf < len then undefM else call_out c (take len buf))"

definition enc28_write_packet ::
  "'w ENC28_SPI_Context option \<Rightarrow> u8 list option \<Rightarrow> u16 \<Rightarrow> (ENC28_CommandStatus, 'w) cmd" where
  "enc28_write_packet ctx packet_buf buf_size =
     (if ctx = None \<or> packet_buf = None \<or> buf_size < 14 then returnM ENC28_INVALID_PARAM
      else deref ctx (\<lambda>c. deref packet_buf (\<lambda>buf.
      bindM (read_ctl_local ctx ENC28_CR_ECON1 0) (\<lambda>(status, reg_val).
      exit_if_err status returnM (
      if reg_val AND BIT ENC28_ECON1_TXRTS \<noteq> 0 then returnM ENC28_PACKET_TX_IN_PROGRESS
      else
      then_ok (enc28_select_register_bank ctx 0) (
      then_ok (enc28_do_write_ctl_reg ctx ENC28_CR_ETXSTL (lo8 ENC28_CONF_TX_ADDRESS_START)) (
      then_ok (enc28_do_write_ctl_reg ctx ENC28_CR_ETXSTH (hi8 ENC28_CONF_TX_ADDRESS_START AND 0x1F)) (
      then_ok (enc28_do_write_ctl_reg ctx ENC28_CR_EWRPTL (lo8 ENC28_CONF_TX_ADDRESS_START)) (
      then_ok (enc28_do_write_ctl_reg ctx ENC28_CR_EWRPTH (hi8 ENC28_CONF_TX_ADDRESS_START AND 0x1F)) (
      bindM (call_nss c 0) (\<lambda>_.
      bindM (call_out c [0x7A, 0]) (\<lambda>_.
      bindM (call_out_packet c buf (unat buf_size)) (\<lambda>_.
      bindM (call_nss c 1) (\<lambda>_.
      let end_address = tx_end_address buf_size in
      then_ok (enc28_do_write_ctl_reg ctx ENC28_CR_ETXNDL (lo8 end_address)) (
      then_ok (enc28_do_write_ctl_reg ctx ENC28_CR_ETXNDH (hi8 end_address AND 0x1F)) (
      then_ok (enc28_do_clear_bits_ctl_reg ctx ENC28_CR_EIR (BIT ENC28_EIR_TXIF)) (
      then_ok (enc28_do_set_bits_ctl_reg ctx ENC28_CR_ECON1 (BIT ENC28_ECON1_TX_RST)) (
      then_ok (enc28_do_clear_bits_ctl_reg ctx ENC28_CR_ECON1 (BIT ENC28_ECON1_TX_RST)) (
      enc28_do_set_bits_ctl_reg ctx ENC28_CR_ECON1 (BIT ENC28_ECON1_TXRTS))))))))))))))))))))"

section \<open>The outcome of a transmission\<close>

text \<open>
  \<^verbatim>\<open>(end_addr_lo) | ((end_addr_hi << 8) & 0x1F)\<close>, then \<^verbatim>\<open>+= 1\<close>: the mask is applied after the
  shift.
\<close>

definition tx_status_vector_addr :: "u8 \<Rightarrow> u8 \<Rightarrow> u16" where
  "tx_status_vector_addr end_addr_lo end_addr_hi =
     (ucast end_addr_lo OR (push_bit 8 (ucast end_addr_hi) AND 0x1F)) + 1"

definition enc28_check_outgoing_packet_status ::
  "'w ENC28_SPI_Context option \<Rightarrow> (ENC28_CommandStatus, 'w) cmd" where
  "enc28_check_outgoing_packet_status ctx =
     bindM (read_ctl_local ctx ENC28_CR_EIR 0) (\<lambda>(status, reg_val). exit_if_err status returnM (
     if reg_val AND BIT ENC28_EIR_TXIF \<noteq> 0 then
       bindM (read_ctl_local ctx ENC28_CR_ESTAT reg_val) (\<lambda>(status, reg_val). exit_if_err status returnM (
       then_ok (enc28_select_register_bank ctx 0) (
       bindM (read_ctl_local ctx ENC28_CR_ERDPTL 0) (\<lambda>(status, rdpt_lo). exit_if_err status returnM (
       bindM (read_ctl_local ctx ENC28_CR_ERDPTH 0) (\<lambda>(status, rdpt_hi). exit_if_err status returnM (
       bindM (read_ctl_local ctx ENC28_CR_ETXNDL 0) (\<lambda>(status, end_addr_lo). exit_if_err status returnM (
       bindM (read_ctl_local ctx ENC28_CR_ETXNDH 0) (\<lambda>(status, end_addr_hi). exit_if_err status returnM (
       let ctl_vec_addr = tx_status_vector_addr end_addr_lo end_addr_hi in
       then_ok (enc28_do_write_ctl_reg ctx ENC28_CR_ERDPTL (lo8 ctl_vec_addr)) (
       then_ok (enc28_do_write_ctl_reg ctx ENC28_CR_ERDPTH (hi8 ctl_vec_addr AND 0x1F)) (
       deref ctx (\<lambda>c.
       bindM (call_nss c 0) (\<lambda>_.
       bindM (call_in_out c [0x3A, 0, 0, 0, 0, 0, 0] [0, 0, 0, 0, 0, 0, 0]) (\<lambda>_.
       bindM (call_nss c 1) (\<lambda>_.
       then_ok (enc28_do_write_ctl_reg ctx ENC28_CR_ERDPTL rdpt_lo) (
       then_ok (enc28_do_write_ctl_reg ctx ENC28_CR_ERDPTH rdpt_hi) (
       if reg_val AND BIT ENC28_ESTAT_TXABRT \<noteq> 0 then returnM ENC28_PACKET_TX_ABORTED
       else returnM ENC28_OK)))))))))))))))))))
     else returnM ENC28_NO_DATA))"

end
