(* ===== verification/Enc28_Api.thy ===== *)
theory Enc28_Api
  imports Enc28_Packet
begin

text \<open>
  The interface of \<^verbatim>\<open>enc28j60.h\<close> as a data type of calls, so that a client of the driver is a
  list of calls. Output arguments are the cells the caller passes; the sequence keeps the
  status each call returns.
\<close>

datatype enc28_call =
    Init ENC28_MAC_Address
  | Soft_reset
  | Read_hw_rev "ENC28_HW_Rev option"
  | Read_mac "ENC28_MAC_Address option"
  | Read_ctl u8 "u8 option"
  | Write_ctl u8 u8
  | Set_bits u8 u8
  | Clear_bits u8 u8
  | Select_bank u8
  | Read_phy u8 "u16 option"
  | Begin_transfer
  | Read_packet "u8 list option" u16 "ENC28_Receive_Status_Vector option"
  | Write_packet "u8 list option" u16
  | Check_outgoing
  | End_transfer

fun run_call :: "'w ENC28_SPI_Context option \<Rightarrow> enc28_call \<Rightarrow> (ENC28_CommandStatus, 'w) cmd" where
  "run_call ctx (Init mac) = enc28_do_init mac ctx"
| "run_call ctx Soft_reset = enc28_do_soft_reset ctx"
| "run_call ctx (Read_hw_rev hw) = bindM (enc28_do_read_hw_rev ctx hw) (\<lambda>(st, _). returnM st)"
| "run_call ctx (Read_mac mac) = bindM (enc28_do_read_mac ctx mac) (\<lambda>(st, _). returnM st)"
| "run_call ctx (Read_ctl r v) = bindM (enc28_do_read_ctl_reg ctx r v) (\<lambda>(st, _). returnM st)"
| "run_call ctx (Write_ctl r v) = enc28_do_write_ctl_reg ctx r v"
| "run_call ctx (Set_bits r m) = enc28_do_set_bits_ctl_reg ctx r m"
| "run_call ctx (Clear_bits r m) = enc28_do_clear_bits_ctl_reg ctx r m"
| "run_call ctx (Select_bank b) = enc28_select_register_bank ctx b"
| "run_call ctx (Read_phy r v) = bindM (enc28_do_read_phy_register ctx r v) (\<lambda>(st, _). returnM st)"
| "run_call ctx Begin_transfer = enc28_begin_packet_transfer ctx"
| "run_call ctx (Read_packet pb n vec) = bindM (enc28_read_packet ctx pb n vec) (\<lambda>(st, _). returnM st)"
| "run_call ctx (Write_packet pb n) = enc28_write_packet ctx pb n"
| "run_call ctx Check_outgoing = enc28_check_outgoing_packet_status ctx"
| "run_call ctx End_transfer = enc28_end_packet_transfer ctx"

fun run_calls :: "'w ENC28_SPI_Context option \<Rightarrow> enc28_call list \<Rightarrow> (ENC28_CommandStatus list, 'w) cmd" where
  "run_calls ctx [] = returnM []"
| "run_calls ctx (x # xs) = bindM (run_call ctx x) (\<lambda>st. bindM (run_calls ctx xs) (\<lambda>sts. returnM (st # sts)))"

text \<open>
  Which calls a client makes: those that touch a register directly are restricted by predicates
  on the register and the value, writing a packet by one on the frame, the soft reset by a flag.
\<close>

fun call_allowed ::
  "(u8 \<Rightarrow> u8 \<Rightarrow> bool) \<Rightarrow> (u8 \<Rightarrow> u8 \<Rightarrow> bool) \<Rightarrow> (u8 list \<Rightarrow> bool) \<Rightarrow> bool \<Rightarrow> enc28_call \<Rightarrow> bool" where
  "call_allowed W F T S (Read_ctl r v) = (r < 0x20)"
| "call_allowed W F T S (Write_ctl r v) = W r v"
| "call_allowed W F T S (Set_bits r m) = F r m"
| "call_allowed W F T S (Clear_bits r m) = F r m"
| "call_allowed W F T S (Write_packet pb n) = (case pb of None \<Rightarrow> True | Some bs \<Rightarrow> T (take (unat n) bs))"
| "call_allowed W F T S Soft_reset = S"
| "call_allowed W F T S _ = True"

end
