(* ===== verification/Enc28_Steps.thy ===== *)
theory Enc28_Steps
  imports Enc28_Api
begin

text \<open>
  Reasoning about what a driver call does to the state, whatever the board's callbacks answer. The
  locale \<open>driver_steps\<close> is the interface between the SPI windows of \<open>Enc28_Spi\<close> and the functions
  built from them: a relation between the states before and after that is reflexive and transitive and
  holds for every single window holds for every function of the driver.
\<close>

named_theorems steps_intros "structural rules for steps"

section \<open>Runs related to their start\<close>

definition steps :: "('w enc28_drv \<Rightarrow> 'w enc28_drv \<Rightarrow> bool) \<Rightarrow> ('a, 'w) cmd \<Rightarrow> bool" where
  "steps R m \<longleftrightarrow> (\<forall>s a s'. m s = Some (Ret (a, s')) \<longrightarrow> R s s')"

lemma stepsI: "(\<And>s a s'. m s = Some (Ret (a, s')) \<Longrightarrow> R s s') \<Longrightarrow> steps R m"
  by (simp add: steps_def)

lemma stepsD: "steps R m \<Longrightarrow> m s = Some (Ret (a, s')) \<Longrightarrow> R s s'"
  by (simp add: steps_def)

lemma bindM_eq_Ret:
  "bindM m f s = Some (Ret r) \<longleftrightarrow> (\<exists>a s'. m s = Some (Ret (a, s')) \<and> f a s' = Some (Ret r))"
  by (auto simp: bindM_def after_eq_Ret)

lemma bindM_assoc: "bindM (bindM m f) g = bindM m (\<lambda>a. bindM (f a) g)"
  by (rule ext) (simp add: bindM_def after_after case_prod_unfold)

lemma bindM_returnM [simp]: "bindM (returnM a) f = f a"
  by (rule ext) (simp add: bindM_def returnM_def)

lemma returnM_bindM [simp]: "bindM m returnM = m"
  by (rule ext) (auto simp: bindM_def returnM_def after_def split: option.split outcome.split)

lemma deref_simps [simp]: "deref (Some x) k = k x" "deref None k = undefM"
  by (simp_all add: deref_def)

lemmas body_simps = option.case deref_simps Let_def

lemma steps_undefM [steps_intros]: "steps R undefM"
  by (simp add: steps_def undefM_def)

lemma steps_deref [steps_intros]: "(\<And>x. p = Some x \<Longrightarrow> steps R (k x)) \<Longrightarrow> steps R (deref p k)"
  by (cases p) (simp_all add: deref_def steps_undefM)

lemma steps_exit_if_err [steps_intros]:
  "(\<And>st. steps R (ret st)) \<Longrightarrow> steps R k \<Longrightarrow> steps R (exit_if_err st ret k)"
  by (simp add: exit_if_err_def)

lemma steps_if [steps_intros]:
  "(b \<Longrightarrow> steps R m) \<Longrightarrow> (\<not> b \<Longrightarrow> steps R m') \<Longrightarrow> steps R (if b then m else m')"
  by simp

lemma steps_let [steps_intros]: "(\<And>x. x = a \<Longrightarrow> steps R (f x)) \<Longrightarrow> steps R (Let a f)"
  by (simp add: Let_def)

lemma steps_case_prod [steps_intros]: "(\<And>a b. p = (a, b) \<Longrightarrow> steps R (f a b)) \<Longrightarrow> steps R (case_prod f p)"
  by (cases p) simp

lemma steps_case_option [steps_intros]:
  "(p = None \<Longrightarrow> steps R m) \<Longrightarrow> (\<And>x. p = Some x \<Longrightarrow> steps R (f x)) \<Longrightarrow> steps R (case_option m f p)"
  by (cases p) simp_all

section \<open>Running a call symbolically\<close>

text \<open>
  Equations that run a call from a state, and congruence rules that keep the simplifier out
  of the continuation of a call until the call has returned.
\<close>

lemma bindM_apply: "bindM m f s = after (m s) (\<lambda>(a, s'). f a s')"
  by (simp add: bindM_def)

lemma returnM_apply: "returnM a s = Some (Ret (a, s))"
  by (simp add: returnM_def)

lemma exit_if_err_apply:
  "exit_if_err ENC28_OK r k = k" "st \<noteq> ENC28_OK \<Longrightarrow> exit_if_err st r k = r st"
  by (simp_all add: exit_if_err_def)

lemma then_ok_apply: "then_ok m k s = after (m s) (\<lambda>(st, s'). exit_if_err st returnM k s')"
  by (simp add: then_ok_def bindM_def)

lemmas run_simps = bindM_apply returnM_apply exit_if_err_apply then_ok_apply

lemma bindM_weak_cong: "m = m' \<Longrightarrow> bindM m f = bindM m' f"
  by simp

lemma then_ok_weak_cong: "m = m' \<Longrightarrow> then_ok m k = then_ok m' k"
  by simp

lemma after_weak_cong: "r = r' \<Longrightarrow> after r k = after r' k"
  by simp

lemma deref_weak_cong: "p = p' \<Longrightarrow> deref p k = deref p' k"
  by simp

lemma exit_if_err_weak_cong: "st = st' \<Longrightarrow> exit_if_err st r k = exit_if_err st' r k"
  by simp

lemmas run_congs = bindM_weak_cong then_ok_weak_cong after_weak_cong deref_weak_cong exit_if_err_weak_cong

section \<open>SPI windows inside the packet functions\<close>

text \<open>
  The windows \<open>Enc28_Packet\<close> opens itself: a full-duplex read of the packet header, a read of the
  packet data and a write of a control byte and a frame.
\<close>

definition rbm_header_window :: "'w ENC28_SPI_Context \<Rightarrow> u8 list \<Rightarrow> u8 list \<Rightarrow> (u8 list, 'w) cmd" where
  "rbm_header_window c tx rx =
     bindM (call_nss c 0) (\<lambda>_. bindM (call_in_out c tx rx) (\<lambda>hdr. bindM (call_nss c 1) (\<lambda>_. returnM hdr)))"

definition rbm_data_window :: "'w ENC28_SPI_Context \<Rightarrow> u8 list option \<Rightarrow> nat \<Rightarrow> (u8 list option, 'w) cmd" where
  "rbm_data_window c packet_buf len =
     bindM (call_nss c 0) (\<lambda>_. bindM (call_out c [0x3A]) (\<lambda>_.
     bindM (call_in_packet c packet_buf len) (\<lambda>pb. bindM (call_nss c 1) (\<lambda>_. returnM pb))))"

definition wbm_window :: "'w ENC28_SPI_Context \<Rightarrow> u8 list \<Rightarrow> nat \<Rightarrow> (unit, 'w) cmd" where
  "wbm_window c buf len =
     bindM (call_nss c 0) (\<lambda>_. bindM (call_out c [0x7A, 0]) (\<lambda>_.
     bindM (call_out_packet c buf len) (\<lambda>_. call_nss c 1)))"

lemma rbm_header_window_bind:
  "bindM (call_nss c 0) (\<lambda>_. bindM (call_in_out c tx rx) (\<lambda>hdr. bindM (call_nss c 1) (\<lambda>_. k hdr)))
   = bindM (rbm_header_window c tx rx) k"
  by (simp add: rbm_header_window_def bindM_assoc)

lemma rbm_data_window_bind:
  "bindM (call_nss c 0) (\<lambda>_. bindM (call_out c [0x3A]) (\<lambda>_.
     bindM (call_in_packet c packet_buf len) (\<lambda>pb. bindM (call_nss c 1) (\<lambda>_. k pb))))
   = bindM (rbm_data_window c packet_buf len) k"
  by (simp add: rbm_data_window_def bindM_assoc)

lemma wbm_window_bind:
  "bindM (call_nss c 0) (\<lambda>_. bindM (call_out c [0x7A, 0]) (\<lambda>_.
     bindM (call_out_packet c buf len) (\<lambda>_. bindM (call_nss c 1) (\<lambda>_. k))))
   = bindM (wbm_window c buf len) (\<lambda>_. k)"
  by (simp add: wbm_window_def bindM_assoc)

lemmas packet_window_folds = rbm_header_window_bind rbm_data_window_bind wbm_window_bind

section \<open>A relation that every window respects\<close>

locale driver_steps =
  fixes c :: "'w ENC28_SPI_Context"
    and R :: "'w enc28_drv \<Rightarrow> 'w enc28_drv \<Rightarrow> bool"
    and W :: "u8 \<Rightarrow> u8 \<Rightarrow> bool" \<comment> \<open>register writes the relation allows\<close>
    and F :: "u8 \<Rightarrow> u8 \<Rightarrow> bool" \<comment> \<open>bit-field sets and clears it allows\<close>
    and T :: "u8 list \<Rightarrow> bool" \<comment> \<open>frames it allows to be written\<close>
    and S :: bool \<comment> \<open>whether it allows a soft reset\<close>
  assumes R_refl: "R s s"
    and R_trans: "R s t \<Longrightarrow> R t u \<Longrightarrow> R s u"
    and R_wait: "steps R (call_wait c n)"
    and R_read: "r < 0x20 \<Longrightarrow> steps R (enc28_do_read_ctl_reg (Some c) r ov)"
    and R_write: "W r v \<Longrightarrow> steps R (enc28_do_write_ctl_reg (Some c) r v)"
    and R_set: "F r v \<Longrightarrow> steps R (enc28_do_set_bits_ctl_reg (Some c) r v)"
    and R_clear: "F r v \<Longrightarrow> steps R (enc28_do_clear_bits_ctl_reg (Some c) r v)"
    and R_select: "steps R (enc28_select_register_bank (Some c) b)"
    and R_rbm_header: "steps R (rbm_header_window c [0x3A, 0, 0, 0, 0, 0, 0] [0, 0, 0, 0, 0, 0, 0])"
    and R_rbm_data: "steps R (rbm_data_window c packet_buf len)"
    and R_wbm: "T (take len buf) \<Longrightarrow> steps R (wbm_window c buf len)"
    and R_reset: "S \<Longrightarrow> steps R (enc28_do_soft_reset (Some c))"
    and W_regs: "r < 0x1A \<Longrightarrow> W r v"
    and F_regs: "r < 0x1A \<or> r \<in> {0x1B, 0x1C, 0x1E} \<Longrightarrow> F r v"
    and F_econ1: "v AND 3 = 0 \<Longrightarrow> F ENC28_CR_ECON1 v"
begin

lemma steps_returnM [steps_intros]: "steps R (returnM a)"
  by (simp add: steps_def returnM_def R_refl)

lemma steps_bindM [steps_intros]:
  assumes "steps R m" and "\<And>a. steps R (f a)"
  shows "steps R (bindM m f)"
proof (rule stepsI)
  fix s b s'
  assume "bindM m f s = Some (Ret (b, s'))"
  then obtain a s1 where "m s = Some (Ret (a, s1))" and "f a s1 = Some (Ret (b, s'))"
    by (auto simp: bindM_eq_Ret)
  then show "R s s'" by (blast intro: R_trans stepsD [OF assms(1)] stepsD [OF assms(2)])
qed

lemma steps_then_ok [steps_intros]: "steps R m \<Longrightarrow> steps R k \<Longrightarrow> steps R (then_ok m k)"
  unfolding then_ok_def by (intro steps_intros)

lemma steps_read_local: "r < 0x20 \<Longrightarrow> steps R (read_ctl_local (Some c) r v)"
  unfolding read_ctl_local_def by (intro steps_intros R_read)

lemma steps_write: "r < 0x1A \<Longrightarrow> steps R (enc28_do_write_ctl_reg (Some c) r v)"
  by (intro R_write W_regs)

lemma steps_set: "r < 0x1A \<or> r \<in> {0x1B, 0x1C, 0x1E} \<Longrightarrow> steps R (enc28_do_set_bits_ctl_reg (Some c) r v)"
  by (intro R_set F_regs)

lemma steps_clear: "r < 0x1A \<or> r \<in> {0x1B, 0x1C, 0x1E} \<Longrightarrow> steps R (enc28_do_clear_bits_ctl_reg (Some c) r v)"
  by (intro R_clear F_regs)

lemma steps_econ1: "v AND 3 = 0 \<Longrightarrow> steps R (enc28_do_set_bits_ctl_reg (Some c) ENC28_CR_ECON1 v)"
  "v AND 3 = 0 \<Longrightarrow> steps R (enc28_do_clear_bits_ctl_reg (Some c) ENC28_CR_ECON1 v)"
  by (intro R_set R_clear F_econ1, assumption)+

lemmas window_steps = steps_read_local steps_write steps_set steps_clear steps_econ1
  R_wait R_select R_rbm_header R_rbm_data

text \<open>The two polling loops, by the induction rules of their partial functions.\<close>

lemma steps_phy_poll: "steps R (phy_poll_busy (Some c) c)"
proof (rule stepsI)
  fix s a s'
  assume ret: "phy_poll_busy (Some c) c s = Some (Ret (a, s'))"
  let ?P = "\<lambda>ctx d s r. ctx = Some c \<longrightarrow> d = c \<longrightarrow> (\<forall>a s'. r = Ret (a, s') \<longrightarrow> R s s')"
  have "?P (Some c) c s (Ret (a, s'))"
  proof (rule phy_poll_busy.raw_induct [OF _ ret, of ?P], intro impI allI)
    fix f ctx d s r a s'
    assume IH: "\<And>ctx d s r. f ctx d s = Some r \<Longrightarrow> ?P ctx d s r"
      and body: "after (read_ctl_local ctx ENC28_CR_MISTAT 0xFF s) (\<lambda>r. case r of ((status, v), s1) \<Rightarrow>
          if status \<noteq> ENC28_OK then Some (Ret (status, s1))
          else if v AND BIT ENC28_MISTAT_BUSY = 0 then Some (Ret (ENC28_OK, s1))
          else after (call_wait d 1 s1) (\<lambda>r2. f ctx d (snd r2))) = Some r"
      and c: "ctx = Some c" "d = c" and r: "r = Ret (a, s')"
    from body c r obtain st v s1 where s1: "read_ctl_local (Some c) ENC28_CR_MISTAT 0xFF s = Some (Ret ((st, v), s1))"
      and rest: "s' = s1 \<or> (\<exists>x s2. call_wait c 1 s1 = Some (Ret (x, s2)) \<and> f (Some c) c s2 = Some (Ret (a, s')))"
      by (auto simp: after_eq_Ret split: if_splits)
    have "R s s1" by (rule stepsD [OF steps_read_local s1]) simp
    moreover from rest have "R s1 s'"
      using IH [of "Some c" c] stepsD [OF R_wait] by (blast intro: R_refl R_trans)
    ultimately show "R s s'" by (rule R_trans)
  qed
  then show "R s s'" by simp
qed

lemma steps_clkrdy_loop: "steps R (poll_clkrdy_loop (Some c) st v)"
proof (rule stepsI)
  fix s a s'
  assume ret: "poll_clkrdy_loop (Some c) st v s = Some (Ret (a, s'))"
  let ?P = "\<lambda>ctx st v s r. ctx = Some c \<longrightarrow> (\<forall>a s'. r = Ret (a, s') \<longrightarrow> R s s')"
  have "?P (Some c) st v s (Ret (a, s'))"
  proof (rule poll_clkrdy_loop.raw_induct [OF _ ret, of ?P], intro impI allI)
    fix f ctx st v s r a s'
    assume IH: "\<And>ctx st v s r. f ctx st v s = Some r \<Longrightarrow> ?P ctx st v s r"
      and body: "(if st \<noteq> ENC28_OK then Some (Ret ((), s))
          else if v AND BIT ENC28_ESTAT_CLKRDY \<noteq> 0 then Some (Ret ((), s))
          else after (read_ctl_local ctx ENC28_CR_ESTAT v s) (\<lambda>r. case r of ((st', v'), s1) \<Rightarrow>
            f ctx st' v' s1)) = Some r"
      and c: "ctx = Some c" and r: "r = Ret (a, s')"
    from body c r have "s' = s \<or> (\<exists>st' v' s1. read_ctl_local (Some c) ENC28_CR_ESTAT v s = Some (Ret ((st', v'), s1))
        \<and> f (Some c) st' v' s1 = Some (Ret (a, s')))"
      by (auto simp: after_eq_Ret split: if_splits)
    moreover have "R s s1" if "read_ctl_local (Some c) ENC28_CR_ESTAT v s = Some (Ret ((st', v'), s1))" for st' v' s1
      by (rule stepsD [OF steps_read_local that]) simp
    ultimately show "R s s'" using IH [of "Some c"] by (blast intro: R_refl R_trans)
  qed
  then show "R s s'" by simp
qed

section \<open>Every function of the driver\<close>

lemma steps_read_phy: "steps R (enc28_do_read_phy_register (Some c) r v)"
  unfolding enc28_do_read_phy_register_def body_simps
  by (intro steps_intros window_steps steps_phy_poll) simp_all

lemma steps_read_hw_rev: "steps R (enc28_do_read_hw_rev (Some c) hw)"
  unfolding enc28_do_read_hw_rev_def
  by (intro steps_intros window_steps steps_read_phy) simp_all

lemma steps_read_mac: "steps R (enc28_do_read_mac (Some c) mac)"
  unfolding enc28_do_read_mac_def
  by (intro steps_intros window_steps) simp_all

lemma steps_buffer_register_init: "steps R (priv_enc28_do_buffer_register_init (Some c))"
  unfolding priv_enc28_do_buffer_register_init_def
  by (intro steps_intros window_steps) simp_all

lemma steps_receive_filter_init: "steps R (priv_enc28_do_receive_filter_init (Some c))"
  unfolding priv_enc28_do_receive_filter_init_def
  by (intro steps_intros window_steps) simp_all

lemma steps_poll_estat: "steps R (priv_enc28_do_poll_estat_clk (Some c))"
  unfolding priv_enc28_do_poll_estat_clk_def
  by (intro steps_intros window_steps steps_clkrdy_loop) simp_all

lemma steps_mac_init: "steps R (priv_enc28_do_mac_init mac (Some c))"
  unfolding priv_enc28_do_mac_init_def
  by (intro steps_intros window_steps steps_read_phy) simp_all

lemma steps_init: "steps R (enc28_do_init mac (Some c))"
  unfolding enc28_do_init_def priv_enc28_do_phy_init_def
  by (intro steps_intros steps_buffer_register_init steps_receive_filter_init steps_poll_estat steps_mac_init)

lemma econ1_bits: "BIT ENC28_ECON1_RXEN AND 3 = 0" "BIT ENC28_ECON1_TX_RST AND 3 = 0"
    "BIT ENC28_ECON1_TXRTS AND 3 = 0"
  by (simp_all add: BIT_def)

lemma steps_begin: "steps R (enc28_begin_packet_transfer (Some c))"
  unfolding enc28_begin_packet_transfer_def
  by (intro steps_intros window_steps econ1_bits) simp_all

lemma steps_end: "steps R (enc28_end_packet_transfer (Some c))"
  unfolding enc28_end_packet_transfer_def
  by (intro steps_intros window_steps econ1_bits)

lemma steps_read_packet_release: "steps R (read_packet_release (Some c) hdr)"
  unfolding read_packet_release_def
  by (intro steps_intros window_steps) simp_all

lemma steps_read_packet: "steps R (enc28_read_packet (Some c) packet_buf buf_size vec)"
  unfolding enc28_read_packet_def read_packet_pending_def body_simps packet_window_folds
  by (intro steps_intros window_steps steps_read_packet_release) simp_all

lemma steps_write_packet:
  assumes "\<And>bs. packet_buf = Some bs \<Longrightarrow> T (take (unat buf_size) bs)"
  shows "steps R (enc28_write_packet (Some c) packet_buf buf_size)"
proof (cases packet_buf)
  case None
  then show ?thesis unfolding enc28_write_packet_def by (simp add: steps_returnM)
next
  case (Some bs)
  have wbm: "steps R (wbm_window c bs (unat buf_size))"
    using assms [OF Some] by (rule R_wbm)
  show ?thesis
    unfolding enc28_write_packet_def Some body_simps packet_window_folds
    by (intro steps_intros steps_econ1 econ1_bits window_steps wbm) simp_all
qed

lemma steps_check_outgoing: "steps R (enc28_check_outgoing_packet_status (Some c))"
  unfolding enc28_check_outgoing_packet_status_def body_simps packet_window_folds
  by (intro steps_intros window_steps) simp_all

lemma steps_call:
  assumes "call_allowed W F T S call"
  shows "steps R (run_call (Some c) call)"
  using assms
  by (cases call)
    (auto intro!: steps_bindM steps_returnM steps_case_prod steps_init R_reset steps_read_hw_rev
      steps_read_mac R_read R_write R_set R_clear R_select steps_read_phy steps_begin
      steps_read_packet steps_write_packet steps_check_outgoing steps_end)

lemma steps_calls: "list_all (call_allowed W F T S) calls \<Longrightarrow> steps R (run_calls (Some c) calls)"
  by (induction calls) (auto intro!: steps_bindM steps_returnM steps_call)

end

end
