(* ===== verification/Enc28_Wire.thy ===== *)
theory Enc28_Wire
  imports Enc28_Steps
begin

text \<open>
  What the driver puts on the wire. The bus below records every callback; the device on the other
  side is an arbitrary function of the recorded history, so a statement about \<open>bus_ctx d\<close> for all
  \<open>d\<close> holds for every deterministic board and chip. A recording is parsed into the SPI
  instructions of the ENC28J60 (chip select low, one instruction, chip select high).
\<close>

section \<open>A recording bus\<close>

datatype bus_event =
    NSS u8
  | OUT "u8 list"
  | IN "u8 list"
  | INOUT "u8 list" "u8 list"
  | WAIT u32

text \<open>The device: the bytes it answers to a read of \<open>n\<close> bytes and to a full-duplex transfer.\<close>

record bus_device =
  in_answer :: "bus_event list \<Rightarrow> nat \<Rightarrow> u8 list"
  in_out_answer :: "bus_event list \<Rightarrow> u8 list \<Rightarrow> u8 list"

definition fit :: "nat \<Rightarrow> u8 list \<Rightarrow> u8 list" where
  "fit n xs = take n (xs @ replicate n 0)"

lemma length_fit [simp]: "length (fit n xs) = n"
  by (simp add: fit_def)

lemma fit_eq_self: "length xs = n \<Longrightarrow> fit n xs = xs"
  by (simp add: fit_def)

definition bus_ctx :: "bus_device \<Rightarrow> bus_event list ENC28_SPI_Context" where
  "bus_ctx d =
     \<lparr>nss_pin_op = Some (\<lambda>v tr. tr @ [NSS v]),
      spi_out_op = Some (\<lambda>bs tr. tr @ [OUT bs]),
      spi_in_op = Some (\<lambda>buf tr. let bs = fit (length buf) (in_answer d tr (length buf)) in (bs, tr @ [IN bs])),
      spi_in_out_op = Some (\<lambda>tx rx tr. let bs = fit (length rx) (in_out_answer d tr tx) in (bs, tr @ [INOUT tx bs])),
      wait_nano = Some (\<lambda>n tr. tr @ [WAIT n])\<rparr>"

section \<open>SPI instructions\<close>

text \<open>
  The instruction set of the chip: reading a control register (with the number of bytes clocked
  in and the last of them), writing one, setting and clearing bits in one, reading and writing buffer
  memory, and the soft reset.
\<close>

datatype spi_txn =
    RCR u8 nat u8
  | WCR u8 u8
  | BFS u8 u8
  | BFC u8 u8
  | RBM "u8 list"
  | WBM "u8 list"
  | SRC

text \<open>
  The instruction of a window from the bytes sent and received in it. The opcode is in the top three bits; the
  argument \<open>0x1A\<close> belongs to the buffer memory instructions and names no register.
\<close>

definition spi_decode :: "u8 list \<Rightarrow> u8 list \<Rightarrow> spi_txn option" where
  "spi_decode mosi miso =
     (case mosi of [] \<Rightarrow> None
      | b # data \<Rightarrow>
        let op = drop_bit 5 b; r = b AND 0x1F in
        if b = 0x3A \<and> data = [] then Some (RBM miso)
        else if b = 0x7A \<and> miso = [] then Some (WBM data)
        else if b = 0xFF \<and> data = [] \<and> miso = [] then Some SRC
        else if r = 0x1A then None
        else if op = 0 \<and> data = [] \<and> miso \<noteq> [] then Some (RCR r (length miso) (last miso))
        else if length data = 1 \<and> miso = [] then
          (if op = 2 then Some (WCR r (hd data))
           else if op = 4 then Some (BFS r (hd data))
           else if op = 5 then Some (BFC r (hd data))
           else None)
        else None)"

text \<open>
  The parser's state is \<open>None\<close> while the chip is not selected and the bytes sent and received so far
  inside a window. In a full-duplex transfer the first byte is the instruction; what is received
  meanwhile, and what is sent after it, carries nothing.
\<close>

fun spi_parse :: "(u8 list \<times> u8 list) option \<Rightarrow> bus_event list \<Rightarrow> spi_txn list option" where
  "spi_parse None [] = Some []"
| "spi_parse (Some w) [] = None"
| "spi_parse st (WAIT n # tr) = spi_parse st tr"
| "spi_parse None (NSS v # tr) = (if v = 0 then spi_parse (Some ([], [])) tr else spi_parse None tr)"
| "spi_parse None (OUT bs # tr) = None"
| "spi_parse None (IN bs # tr) = None"
| "spi_parse None (INOUT tx rx # tr) = None"
| "spi_parse (Some (mosi, miso)) (NSS v # tr) =
     (if v = 0 then None
      else case spi_decode mosi miso of None \<Rightarrow> None | Some t \<Rightarrow> map_option ((#) t) (spi_parse None tr))"
| "spi_parse (Some (mosi, miso)) (OUT bs # tr) =
     (if miso = [] then spi_parse (Some (mosi @ bs, miso)) tr else None)"
| "spi_parse (Some (mosi, miso)) (IN bs # tr) =
     (if mosi \<noteq> [] then spi_parse (Some (mosi, miso @ bs)) tr else None)"
| "spi_parse (Some (mosi, miso)) (INOUT tx rx # tr) =
     (if mosi = [] \<and> miso = [] \<and> tx \<noteq> [] then spi_parse (Some ([hd tx], tl rx)) tr else None)"

lemma spi_parse_append:
  "spi_parse st a = Some xs \<Longrightarrow> spi_parse st (a @ b) = map_option ((@) xs) (spi_parse None b)"
  by (cases "spi_parse None b"; induction st a arbitrary: xs rule: spi_parse.induct)
    (auto split: if_splits option.splits)

lemma bit_0x1F8: "bit (0x1F :: u8) n \<longleftrightarrow> n < 5"
proof -
  have "(0x1F :: u8) = mask 5" by (simp add: mask_eq_exp_minus_1)
  then have "bit (0x1F :: u8) n = bit (mask 5 :: u8) n" by (simp only:)
  then show ?thesis by (auto simp: bit_mask_iff simp del: bit_numeral_word_iff)
qed

text \<open>Opcode and argument can be read back from a command byte.\<close>

lemma spi_command_byte_arg: "spi_command_byte op r AND 0x1F = r AND 0x1F"
  by (rule bit_eqI)
    (auto simp: spi_command_byte_def bit_and_iff bit_or_iff bit_push_bit_iff bit_0x1F8
      simp del: bit_numeral_word_iff)

lemma spi_command_byte_op:
  assumes "op < 8"
  shows "drop_bit 5 (spi_command_byte op r) = op"
proof -
  have "unat op < 2 ^ 3" using assms by (simp add: word_less_nat_alt)
  then have "unat (take_bit 3 op) = unat op"
    by (simp add: unsigned_take_bit_eq take_bit_nat_eq_self)
  then have "take_bit 3 op = op" by (rule unsigned_word_eqI)
  then have "bit op n \<longleftrightarrow> n < 3 \<and> bit op n" for n
    by (metis bit_take_bit_iff)
  then show ?thesis
    by (intro bit_eqI)
      (auto simp: spi_command_byte_def bit_drop_bit_eq bit_and_iff bit_or_iff bit_push_bit_iff bit_0x1F8
        simp del: bit_numeral_word_iff)
qed

section \<open>The recording of each window\<close>

definition ev_rcr :: "u8 \<Rightarrow> u8 list \<Rightarrow> bus_event list" where
  "ev_rcr r bs = [NSS 0, OUT [spi_command_byte ENC28_OP_RCR r], IN bs, NSS 1]"

definition ev_wcr :: "u8 \<Rightarrow> u8 \<Rightarrow> bus_event list" where
  "ev_wcr r v = [NSS 0, WAIT 50, OUT [spi_command_byte ENC28_OP_WCR r, v], WAIT 210, NSS 1]"

definition ev_bfs :: "u8 \<Rightarrow> u8 \<Rightarrow> bus_event list" where
  "ev_bfs r v = [NSS 0, OUT [spi_command_byte ENC28_OP_BFS r, v], NSS 1]"

definition ev_bfc :: "u8 \<Rightarrow> u8 \<Rightarrow> bus_event list" where
  "ev_bfc r v = [NSS 0, OUT [spi_command_byte ENC28_OP_BFC r, v], NSS 1]"

definition ev_src :: "bus_event list" where
  "ev_src = [NSS 0, OUT [0xFF], NSS 1]"

definition ev_rbm_header :: "u8 list \<Rightarrow> u8 list \<Rightarrow> bus_event list" where
  "ev_rbm_header tx rx = [NSS 0, INOUT tx rx, NSS 1]"

definition ev_rbm :: "u8 list \<Rightarrow> bus_event list" where
  "ev_rbm bs = [NSS 0, OUT [0x3A], IN bs, NSS 1]"

definition ev_wbm :: "u8 list \<Rightarrow> bus_event list" where
  "ev_wbm bs = [NSS 0, OUT [0x7A, 0], OUT bs, NSS 1]"

lemmas ev_defs = ev_rcr_def ev_wcr_def ev_bfs_def ev_bfc_def ev_src_def ev_rbm_header_def ev_rbm_def ev_wbm_def

lemma reg_arg: "r < 0x20 \<Longrightarrow> r AND 0x1F = (r :: u8)"
proof -
  assume "r < 0x20"
  then have "unat r < 2 ^ 5" by (simp add: word_less_nat_alt)
  then have "unat (take_bit 5 r) = unat r" by (simp add: unsigned_take_bit_eq take_bit_nat_eq_self)
  then have "take_bit 5 r = r" by (rule unsigned_word_eqI)
  moreover have "r AND 0x1F = take_bit 5 r" by (simp add: take_bit_eq_mask mask_eq_exp_minus_1)
  ultimately show ?thesis by simp
qed

text \<open>No register command byte is one of the three fixed command bytes.\<close>

lemma spi_command_byte_not_fixed:
  assumes "op < 7" and "r AND 0x1F \<noteq> 0x1A"
  shows "spi_command_byte op r \<noteq> 0x3A" "spi_command_byte op r \<noteq> 0x7A" "spi_command_byte op r \<noteq> 0xFF"
proof -
  show "spi_command_byte op r \<noteq> 0x3A" "spi_command_byte op r \<noteq> 0x7A"
    using assms(2) spi_command_byte_arg [of op r] by auto
  have "op < 8" using assms(1) by (simp add: word_less_nat_alt)
  then have "drop_bit 5 (spi_command_byte op r) \<noteq> 7"
    using spi_command_byte_op [of op r] assms(1) by auto
  then show "spi_command_byte op r \<noteq> 0xFF" by auto
qed

lemma parse_ev_reg:
  assumes "r AND 0x1F \<noteq> 0x1A"
  shows "bs \<noteq> [] \<Longrightarrow> spi_parse None (ev_rcr r bs) = Some [RCR (r AND 0x1F) (length bs) (last bs)]"
    and "spi_parse None (ev_wcr r v) = Some [WCR (r AND 0x1F) v]"
    and "spi_parse None (ev_bfs r v) = Some [BFS (r AND 0x1F) v]"
    and "spi_parse None (ev_bfc r v) = Some [BFC (r AND 0x1F) v]"
  using assms spi_command_byte_not_fixed [OF _ assms, of 0] spi_command_byte_not_fixed [OF _ assms, of 2]
    spi_command_byte_not_fixed [OF _ assms, of 4] spi_command_byte_not_fixed [OF _ assms, of 5]
  by (simp_all add: ev_defs spi_decode_def Let_def spi_command_byte_arg spi_command_byte_op)

lemma parse_ev_mem:
  "spi_parse None ev_src = Some [SRC]"
  "tx = 0x3A # d \<Longrightarrow> spi_parse None (ev_rbm_header tx rx) = Some [RBM (tl rx)]"
  "spi_parse None (ev_rbm bs) = Some [RBM bs]"
  "spi_parse None (ev_wbm bs) = Some [WBM (0 # bs)]"
  by (simp_all add: ev_defs spi_decode_def Let_def)

lemmas parse_events = parse_ev_reg parse_ev_mem

section \<open>The register operations on the bus\<close>

text \<open>How many bytes a register read clocks in, from the bank the driver believes is selected.\<close>

definition rcr_len :: "u8 \<Rightarrow> u8 \<Rightarrow> nat" where
  "rcr_len bank r = (if priv_enc28_is_mac_or_mii_reg bank r then 2 else 1)"

definition rcr_answer :: "bus_device \<Rightarrow> bus_event list \<Rightarrow> u8 \<Rightarrow> nat \<Rightarrow> u8 list" where
  "rcr_answer d tr r n = fit n (in_answer d (tr @ [NSS 0, OUT [spi_command_byte ENC28_OP_RCR r]]) n)"

lemma length_rcr_answer [simp]: "length (rcr_answer d tr r n) = n"
  by (simp add: rcr_answer_def)

lemma rcr_answer_Nil_iff: "rcr_answer d tr r n = [] \<longleftrightarrow> n = 0"
  using length_rcr_answer [of d tr r n] by (metis length_0_conv)

abbreviation push_events :: "bus_event list \<Rightarrow> bus_event list enc28_drv \<Rightarrow> bus_event list enc28_drv" where
  "push_events es s \<equiv> s\<lparr>world := world s @ es\<rparr>"

lemma bus_ctx_ok [simp]: "\<not> ctx_lacks_spi (bus_ctx d)" "\<not> ctx_lacks_spi_or_wait (bus_ctx d)"
  by (simp_all add: ctx_lacks_spi_def ctx_lacks_spi_or_wait_def bus_ctx_def)

lemma buf_store_full: "length new = length old \<Longrightarrow> buf_store old new = new"
  by (simp add: buf_store_def)

lemmas bus_unfold = bindM_def returnM_def call_nss_def call_out_def call_in_def call_in_out_def
  call_wait_def bus_ctx_def buf_store_full Let_def

lemma bus_call_wait: "call_wait (bus_ctx d) n s = Some (Ret ((), push_events [WAIT n] s))"
  by (simp add: bus_unfold)

lemma bus_read:
  assumes "r \<noteq> 0x1A" and "bs = rcr_answer d (world s) r (rcr_len (priv_enc28_curr_bank s) r)"
  shows "enc28_do_read_ctl_reg (Some (bus_ctx d)) r (Some v) s
       = Some (Ret ((ENC28_OK, Some (last bs)), push_events (ev_rcr r bs) s))"
proof -
  have "fit n xs \<noteq> []" if "n > 0" for n xs
    using that length_fit [of n xs] by (metis length_greater_0_conv)
  moreover have "last ys = ys ! (length ys - 1)" if "ys \<noteq> []" for ys :: "u8 list"
    using that by (rule last_conv_nth)
  ultimately show ?thesis using assms
    by (cases "priv_enc28_is_mac_or_mii_reg (priv_enc28_curr_bank s) r")
      (simp_all add: enc28_do_read_ctl_reg_def enc28_prepare_read_ctl_reg_def CHECK_RESERVED_REG_def
        bus_unfold rcr_len_def rcr_answer_def ev_rcr_def ctx_lacks_spi_def numeral_2_eq_2)
qed

lemma bus_read_reserved:
  "enc28_do_read_ctl_reg (Some (bus_ctx d)) 0x1A v s
   = Some (Ret (if v = None then (ENC28_INVALID_PARAM, None) else (ENC28_INVALID_REGISTER, v), s))"
  by (cases v)
    (simp_all add: enc28_do_read_ctl_reg_def enc28_prepare_read_ctl_reg_def CHECK_RESERVED_REG_def returnM_def)

lemma bus_read_null: "enc28_do_read_ctl_reg (Some (bus_ctx d)) r None s = Some (Ret ((ENC28_INVALID_PARAM, None), s))"
  by (simp add: enc28_do_read_ctl_reg_def returnM_def)

lemma bus_read_local:
  assumes "r \<noteq> 0x1A" and "bs = rcr_answer d (world s) r (rcr_len (priv_enc28_curr_bank s) r)"
  shows "read_ctl_local (Some (bus_ctx d)) r v s = Some (Ret ((ENC28_OK, last bs), push_events (ev_rcr r bs) s))"
  by (simp add: read_ctl_local_def bindM_def bus_read [OF assms] returnM_def)

lemma bus_write: "enc28_do_write_ctl_reg (Some (bus_ctx d)) r v s
   = Some (Ret (if r = 0x1A then (ENC28_INVALID_REGISTER, s) else (ENC28_OK, push_events (ev_wcr r v) s)))"
  by (simp add: enc28_do_write_ctl_reg_def enc28_prepare_write_ctl_reg_def CHECK_RESERVED_REG_def
      bus_unfold ev_wcr_def ctx_lacks_spi_or_wait_def ctx_lacks_spi_def)

lemma bus_set_bits: "enc28_do_set_bits_ctl_reg (Some (bus_ctx d)) r v s
   = Some (Ret (if r = 0x1A then (ENC28_INVALID_REGISTER, s) else (ENC28_OK, push_events (ev_bfs r v) s)))"
  by (simp add: enc28_do_set_bits_ctl_reg_def enc28_prepare_set_bits_ctl_reg_def CHECK_RESERVED_REG_def
      bus_unfold ev_bfs_def ctx_lacks_spi_def)

lemma bus_clear_bits: "enc28_do_clear_bits_ctl_reg (Some (bus_ctx d)) r v s
   = Some (Ret (if r = 0x1A then (ENC28_INVALID_REGISTER, s) else (ENC28_OK, push_events (ev_bfc r v) s)))"
  by (simp add: enc28_do_clear_bits_ctl_reg_def enc28_prepare_clear_bits_ctl_reg_def CHECK_RESERVED_REG_def
      bus_unfold ev_bfc_def ctx_lacks_spi_def)

lemma bus_soft_reset: "enc28_do_soft_reset (Some (bus_ctx d)) s = Some (Ret (ENC28_OK, push_events ev_src s))"
  by (simp add: enc28_do_soft_reset_def bus_unfold ev_src_def ctx_lacks_spi_def)

definition bank_select_value :: "u8 \<Rightarrow> u8 \<Rightarrow> u8" where
  "bank_select_value econ1 b = econ1 AND NOT ENC28_ECON1_BSEL OR b"

lemma bus_select:
  assumes "econ1 = last (rcr_answer d (world s) ENC28_CR_ECON1 1)" and "b < 4"
  shows "enc28_select_register_bank (Some (bus_ctx d)) b s
       = Some (Ret (ENC28_OK, push_events (ev_rcr ENC28_CR_ECON1 (rcr_answer d (world s) ENC28_CR_ECON1 1)
           @ ev_wcr ENC28_CR_ECON1 (bank_select_value econ1 b)) s\<lparr>priv_enc28_curr_bank := b\<rparr>))"
proof -
  have len: "rcr_len (priv_enc28_curr_bank s) ENC28_CR_ECON1 = 1"
    by (simp add: rcr_len_def priv_enc28_is_mac_or_mii_reg_def)
  have "\<not> 4 \<le> b" using assms(2) by simp
  then show ?thesis
    by (simp add: enc28_select_register_bank_def bindM_def exit_if_err_def assms(1) bus_write
        bus_read_local [OF _ refl] len set_curr_bank_def returnM_def bank_select_value_def Let_def)
qed

lemma bus_select_invalid:
  "\<not> b < 4 \<Longrightarrow> enc28_select_register_bank ctx b s = Some (Ret (ENC28_INVALID_PARAM, s))"
  by (simp add: enc28_select_register_bank_def returnM_def not_less)

lemma bus_rbm_header:
  assumes "bs = fit (length rx) (in_out_answer d (world s @ [NSS 0]) tx)"
  shows "rbm_header_window (bus_ctx d) tx rx s = Some (Ret (bs, push_events (ev_rbm_header tx bs) s))"
  using assms by (simp add: rbm_header_window_def bus_unfold ev_rbm_header_def)

lemma bus_rbm_data:
  "rbm_data_window (bus_ctx d) (Some buf) n s =
     (if length buf < n then Some Undef
      else let bs = fit n (in_answer d (world s @ [NSS 0, OUT [0x3A]]) n)
           in Some (Ret (Some (bs @ drop n buf), push_events (ev_rbm bs) s)))"
  by (simp add: rbm_data_window_def bus_unfold ev_rbm_def call_in_packet_def undefM_def min_absorb2)

lemma bus_wbm:
  "wbm_window (bus_ctx d) buf n s =
     (if length buf < n then Some Undef else Some (Ret ((), push_events (ev_wbm (take n buf)) s)))"
  by (simp add: wbm_window_def bus_unfold ev_wbm_def call_out_packet_def undefM_def)

section \<open>Only well-formed instructions\<close>

text \<open>
  The recording grows by windows, each one instruction of the chip's instruction set, and the
  chip is deselected at the end.
\<close>

definition well_framed_extension :: "bus_event list enc28_drv \<Rightarrow> bus_event list enc28_drv \<Rightarrow> bool" where
  "well_framed_extension s s' \<longleftrightarrow>
     (\<exists>es ts. world s' = world s @ es \<and> spi_parse None es = Some ts)"

lemma well_framed_events:
  "spi_parse None es = Some ts \<Longrightarrow> well_framed_extension s (push_events es s\<lparr>priv_enc28_curr_bank := b\<rparr>)"
  "spi_parse None es = Some ts \<Longrightarrow> well_framed_extension s (push_events es s)"
  by (auto simp: well_framed_extension_def)

lemma well_framed_refl: "well_framed_extension s s"
  unfolding well_framed_extension_def by (intro exI [of _ "[]"]) simp

lemma well_framed_trans:
  assumes "well_framed_extension s t" and "well_framed_extension t u"
  shows "well_framed_extension s u"
proof -
  from assms obtain e1 t1 e2 t2 where "world t = world s @ e1" "spi_parse None e1 = Some t1"
    and "world u = world t @ e2" "spi_parse None e2 = Some t2"
    unfolding well_framed_extension_def by blast
  then have "world u = world s @ (e1 @ e2)" and "spi_parse None (e1 @ e2) = Some (t1 @ t2)"
    using spi_parse_append [of None e1 t1 e2] by simp_all
  then show ?thesis unfolding well_framed_extension_def by blast
qed

lemma parse_select:
  "spi_parse None (ev_rcr ENC28_CR_ECON1 (rcr_answer d tr ENC28_CR_ECON1 1) @ ev_wcr ENC28_CR_ECON1 v)
   = Some [RCR ENC28_CR_ECON1 1 (last (rcr_answer d tr ENC28_CR_ECON1 1)), WCR ENC28_CR_ECON1 v]"
proof -
  have "rcr_answer d tr ENC28_CR_ECON1 1 \<noteq> []"
    by (metis length_rcr_answer length_0_conv one_neq_zero)
  then show ?thesis
    by (simp add: spi_parse_append [OF parse_ev_reg(1)] parse_ev_reg(2))
qed

lemma reg_arg_ok: "r < 0x20 \<Longrightarrow> r \<noteq> 0x1A \<Longrightarrow> r AND 0x1F \<noteq> (0x1A :: u8)"
  by (simp add: reg_arg)

lemma well_framed_window:
  assumes "m s = Some (Ret (a, push_events es s))" and "spi_parse None es = Some ts"
    and "m s = Some (Ret (b, s'))"
  shows "well_framed_extension s s'"
  using assms well_framed_events(2) [OF assms(2), of s] by simp

interpretation wire: driver_steps "bus_ctx d" well_framed_extension
  "\<lambda>r v. r < 0x20" "\<lambda>r v. r < 0x20" "\<lambda>_. True" True for d
proof (unfold_locales, goal_cases)
  case (1 s) show ?case by (rule well_framed_refl)
next
  case (2 s t u) then show ?case by (rule well_framed_trans)
next
  case (3 n) show ?case
    by (rule stepsI) (auto simp: bus_call_wait intro!: well_framed_events)
next
  case (4 r ov) show ?case
  proof (rule stepsI)
    fix s a s' assume run: "enc28_do_read_ctl_reg (Some (bus_ctx d)) r ov s = Some (Ret (a, s'))"
    let ?bs = "rcr_answer d (world s) r (rcr_len (priv_enc28_curr_bank s) r)"
    have "?bs \<noteq> []" by (simp add: rcr_len_def flip: length_greater_0_conv)
    then have "spi_parse None (ev_rcr r ?bs) = Some [RCR (r AND 0x1F) (length ?bs) (last ?bs)]" if "r \<noteq> 0x1A"
      using parse_ev_reg(1) reg_arg_ok [OF 4 that] by blast
    with run show "well_framed_extension s s'"
      by (cases ov; cases "r = 0x1A")
        (auto simp: bus_read [OF _ refl] bus_read_null bus_read_reserved intro: well_framed_refl well_framed_events)
  qed
next
  case (5 r v) then show ?case
    by (intro stepsI) (auto simp: bus_write reg_arg parse_events split: if_splits
      intro!: well_framed_refl well_framed_events)
next
  case (6 r v) then show ?case
    by (intro stepsI) (auto simp: bus_set_bits reg_arg parse_events split: if_splits
      intro!: well_framed_refl well_framed_events)
next
  case (7 r v) then show ?case
    by (intro stepsI) (auto simp: bus_clear_bits reg_arg parse_events split: if_splits
      intro!: well_framed_refl well_framed_events)
next
  case (8 b) show ?case
  proof (cases "b < 4")
    case True then show ?thesis
      by (intro stepsI) (auto simp: bus_select [OF refl] intro!: well_framed_events parse_select [unfolded One_nat_def])
  next
    case False then show ?thesis
      by (intro stepsI) (auto simp: bus_select_invalid intro: well_framed_refl)
  qed
next
  case 9 show ?case
    by (rule stepsI) (auto simp: bus_rbm_header [OF refl] intro!: well_framed_events parse_events)
next
  case (10 pb n) show ?case
  proof (cases pb)
    case None then show ?thesis
      by (intro stepsI) (simp add: rbm_data_window_def bus_unfold call_in_packet_def undefM_def)
  next
    case (Some buf) then show ?thesis
      by (intro stepsI) (auto simp: bus_rbm_data Let_def parse_events split: if_splits intro!: well_framed_events)
  qed
next
  case (11 n buf) show ?case
    by (rule stepsI) (auto simp: bus_wbm parse_events split: if_splits intro!: well_framed_events)
next
  case 12 show ?case
    by (rule stepsI) (auto simp: bus_soft_reset intro!: well_framed_events parse_events)
qed (auto simp: word_less_nat_alt)

lemmas bus_simps = bus_soft_reset bus_select [OF refl] bus_select_invalid bus_write bus_read [OF _ refl]
  bus_read_local [OF _ refl] bus_set_bits bus_clear_bits bus_rbm_header [OF refl] bus_rbm_data bus_wbm bus_call_wait

lemmas device_simps = spi_command_byte_def rcr_len_def priv_enc28_is_mac_or_mii_reg_def rcr_answer_def fit_def and_BIT_iff and_BIT_eq_0_iff

section \<open>Devices for the witnesses\<close>

text \<open>A device whose clock is ready (\<^verbatim>\<open>ESTAT\<close> reads 1) and that answers 0 to everything else.\<close>

definition ready_device :: bus_device where
  "ready_device =
     \<lparr>in_answer = (\<lambda>tr n. replicate n (if last tr = OUT [0x1D] then 1 else 0)),
      in_out_answer = (\<lambda>tr tx. replicate (length tx) 0)\<rparr>"

abbreviation bus_start :: "bus_event list enc28_drv" where
  "bus_start \<equiv> \<lparr>priv_enc28_curr_bank = 0, world = []\<rparr>"

section \<open>Properties\<close>

text \<open>
  C17: Whatever a client asks of the driver and whatever the chip answers, the traffic on the
  SPI bus is a sequence of complete windows, each with one well-formed instruction of the chip, none of which
  names the reserved register, and the chip is deselected at the end.
\<close>

theorem driver_calls_well_framed:
  assumes "list_all (call_allowed (\<lambda>r v. r < 0x20) (\<lambda>r v. r < 0x20) (\<lambda>_. True) True) calls"
    and "run_calls (Some (bus_ctx d)) calls s = Some (Ret (sts, s'))"
  shows "\<exists>es ts. world s' = world s @ es \<and> spi_parse None es = Some ts"
  using stepsD [OF wire.steps_calls [OF assms(1)] assms(2)] by (simp add: well_framed_extension_def)

theorem driver_calls_well_framed_witness:
  "\<exists>sts s'. run_calls (Some (bus_ctx ready_device))
       [Soft_reset, Select_bank 2, Read_ctl 0x0A (Some 0), Write_packet (Some (replicate 14 0xAB)) 14] bus_start
       = Some (Ret (sts, s'))
     \<and> sts = [ENC28_OK, ENC28_OK, ENC28_OK, ENC28_OK]
     \<and> (\<exists>es ts. world s' = world bus_start @ es \<and> spi_parse None es = Some ts)"
proof -
  let ?calls = "[Soft_reset, Select_bank 2, Read_ctl 0x0A (Some 0), Write_packet (Some (replicate 14 0xAB)) 14]"
  have ok: "list_all (call_allowed (\<lambda>r v. r < 0x20) (\<lambda>r v. r < 0x20) (\<lambda>_. True) True) ?calls"
    by simp
  have "case run_calls (Some (bus_ctx ready_device)) ?calls bus_start of
      Some (Ret (sts, s')) \<Rightarrow> sts = [ENC28_OK, ENC28_OK, ENC28_OK, ENC28_OK] | _ \<Rightarrow> False"
    by (simp add: run_simps bus_simps device_simps ready_device_def enc28_write_packet_def
        packet_window_folds Let_def cong: run_congs)
  then obtain sts s' where run: "run_calls (Some (bus_ctx ready_device)) ?calls bus_start = Some (Ret (sts, s'))"
      and "sts = [ENC28_OK, ENC28_OK, ENC28_OK, ENC28_OK]"
    by (auto split: option.splits outcome.splits)
  then show ?thesis using driver_calls_well_framed [OF ok run] by blast
qed

end
