(* ===== verification/Enc28_Bank.thy ===== *)
theory Enc28_Bank
  imports Enc28_Wire
begin

text \<open>
  The driver keeps the selected register bank in a static variable and decides from it whether
  a register read has to skip a dummy byte. The chip keeps the bank in \<^verbatim>\<open>ECON1.BSEL\<close>. This theory
  tracks the chip's bank along a recording and relates the two.
\<close>

section \<open>The chip's bank along a recording\<close>

text \<open>Which instructions change \<^verbatim>\<open>BSEL\<close>, the two low bits of \<^verbatim>\<open>ECON1\<close>; a soft reset clears them.\<close>

fun txn_bank :: "u8 \<Rightarrow> spi_txn \<Rightarrow> u8" where
  "txn_bank b (WCR r v) = (if r = ENC28_CR_ECON1 then v AND 3 else b)"
| "txn_bank b (BFS r v) = (if r = ENC28_CR_ECON1 then b OR (v AND 3) else b)"
| "txn_bank b (BFC r v) = (if r = ENC28_CR_ECON1 then b AND NOT (v AND 3) else b)"
| "txn_bank b SRC = 0"
| "txn_bank b _ = b"

text \<open>
  The register map of the chip, by bank and address: Ethernet registers, whose reads answer at once; MAC and MII registers, whose
  reads answer after a dummy byte; and addresses without a register. The map is stated on its own, by address, and not by the driver's list of the
  registers it treats specially; the names are those \<^verbatim>\<open>enc28j60.h\<close> gives to the addresses the driver uses.
\<close>

datatype reg_kind = ETH_register | MAC_register | MII_register | No_register

definition register_map :: "u8 \<Rightarrow> u8 \<Rightarrow> reg_kind" where
  "register_map b r =
     (if 0x1B \<le> r \<and> r \<le> 0x1F then ETH_register
      else if b = 0 then (if r \<le> 0x17 then ETH_register else No_register)
      else if b = 1 then (if r \<le> 0x11 \<or> r \<in> {0x14, 0x15, 0x18, 0x19} then ETH_register else No_register)
      else if b = 2 then
        (if r \<in> {0x00, 0x02, 0x03, 0x04, 0x06, 0x07, 0x08, 0x09, 0x0A, 0x0B} then MAC_register
         else if r \<in> {0x12, 0x14, 0x16, 0x17, 0x18, 0x19} then MII_register else No_register)
      else if b = 3 then
        (if r \<in> {0x00, 0x01, 0x02, 0x03, 0x04, 0x05} then MAC_register
         else if r = 0x0A then MII_register
         else if r \<in> {0x06, 0x07, 0x08, 0x09, 0x12, 0x15, 0x17, 0x18, 0x19} then ETH_register else No_register)
      else No_register)"

text \<open>How many dummy bytes the chip sends before the contents of a register.\<close>

fun dummy_bytes :: "reg_kind \<Rightarrow> nat option" where
  "dummy_bytes ETH_register = Some 0"
| "dummy_bytes MAC_register = Some 1"
| "dummy_bytes MII_register = Some 1"
| "dummy_bytes No_register = None"

text \<open>
  A recorded read takes the right byte when it clocks in the dummy bytes the chip sends in its bank and one more, of which it takes
  the last. Nothing is asked of a read of an address without a register.
\<close>

fun reads_match :: "u8 \<Rightarrow> spi_txn list \<Rightarrow> bool" where
  "reads_match b [] = True"
| "reads_match b (t # ts) =
     ((case t of
         RCR r n v \<Rightarrow> (case dummy_bytes (register_map b r) of None \<Rightarrow> True | Some k \<Rightarrow> n = Suc k)
       | _ \<Rightarrow> True) \<and> reads_match (txn_bank b t) ts)"

text \<open>The driver's list of MAC and MII registers is right: it clocks in what the register map asks for.\<close>

lemma rcr_len_matches:
  "dummy_bytes (register_map b r) = Some k \<Longrightarrow> rcr_len b r = Suc k"
  unfolding register_map_def rcr_len_def priv_enc28_is_mac_or_mii_reg_def
  by (auto split: if_splits simp: word_le_nat_alt)

lemma register_map_common [simp]:
  "register_map b ENC28_CR_EIE = ETH_register" "register_map b ENC28_CR_EIR = ETH_register"
  "register_map b ENC28_CR_ESTAT = ETH_register" "register_map b ENC28_CR_ECON2 = ETH_register"
  "register_map b ENC28_CR_ECON1 = ETH_register"
  by (simp_all add: register_map_def word_le_nat_alt)

lemma register_map_pointers [simp]:
  "register_map 0 r = (if r \<le> 0x17 \<or> (0x1B \<le> r \<and> r \<le> 0x1F) then ETH_register else No_register)"
  by (auto simp: register_map_def)

lemma rcr_match [simp]: "case dummy_bytes (register_map b r) of None \<Rightarrow> True | Some k \<Rightarrow> rcr_len b r = Suc k"
  by (simp add: rcr_len_matches split: option.split)

lemma reads_match_append: "reads_match b (xs @ ys) = (reads_match b xs \<and> reads_match (foldl txn_bank b xs) ys)"
  by (induction xs arbitrary: b) auto

section \<open>Driver and chip agree\<close>

text \<open>
  From a chip whose bank is the driver's, a call leads to a chip whose bank is the driver's, and
  every read on the way matched.
\<close>

definition bank_step :: "bus_event list enc28_drv \<Rightarrow> bus_event list enc28_drv \<Rightarrow> bool" where
  "bank_step s s' \<longleftrightarrow>
     (\<exists>es ts. world s' = world s @ es \<and> spi_parse None es = Some ts \<and>
        foldl txn_bank (priv_enc28_curr_bank s) ts = priv_enc28_curr_bank s' \<and>
        reads_match (priv_enc28_curr_bank s) ts)"

lemma bank_step_refl: "bank_step s s"
  unfolding bank_step_def by (intro exI [of _ "[]"]) simp

lemma bank_step_trans:
  assumes "bank_step s t" and "bank_step t u"
  shows "bank_step s u"
proof -
  from assms obtain e1 t1 e2 t2 where 1: "world t = world s @ e1" "spi_parse None e1 = Some t1"
      "foldl txn_bank (priv_enc28_curr_bank s) t1 = priv_enc28_curr_bank t" "reads_match (priv_enc28_curr_bank s) t1"
    and 2: "world u = world t @ e2" "spi_parse None e2 = Some t2"
      "foldl txn_bank (priv_enc28_curr_bank t) t2 = priv_enc28_curr_bank u" "reads_match (priv_enc28_curr_bank t) t2"
    unfolding bank_step_def by blast
  show ?thesis unfolding bank_step_def
  proof (intro exI conjI)
    show "world u = world s @ (e1 @ e2)" using 1 2 by simp
    show "spi_parse None (e1 @ e2) = Some (t1 @ t2)" using 1 2 by (simp add: spi_parse_append)
  qed (use 1 2 in \<open>simp_all add: reads_match_append\<close>)
qed

lemma bank_step_events:
  assumes "spi_parse None es = Some ts"
    and "foldl txn_bank (priv_enc28_curr_bank s) ts = b" and "reads_match (priv_enc28_curr_bank s) ts"
  shows "bank_step s (push_events es s\<lparr>priv_enc28_curr_bank := b\<rparr>)"
  unfolding bank_step_def by (intro exI [of _ es] exI [of _ ts]) (use assms in simp)

lemma bank_step_window:
  assumes "spi_parse None es = Some ts"
    and "foldl txn_bank (priv_enc28_curr_bank s) ts = priv_enc28_curr_bank s"
    and "reads_match (priv_enc28_curr_bank s) ts"
  shows "bank_step s (push_events es s)"
  using bank_step_events [OF assms] by simp

lemma bank_select_value_bits:
  assumes "b < 4"
  shows "bank_select_value e b AND 3 = b" and "bank_select_value e b AND NOT 3 = e AND NOT 3"
proof -
  have m: "(3 :: u8) = mask 2" by (simp add: mask_eq_exp_minus_1)
  have "unat b < 2 ^ 2" using assms by (simp add: word_less_nat_alt)
  then have "unat (take_bit 2 b) = unat b" by (simp add: unsigned_take_bit_eq take_bit_nat_eq_self)
  then have "take_bit 2 b = b" by (rule unsigned_word_eqI)
  then have b: "bit b n \<longleftrightarrow> n < 2 \<and> bit b n" for n by (metis bit_take_bit_iff)
  show "bank_select_value e b AND 3 = b"
    unfolding bank_select_value_def m
    by (rule bit_eqI) (use b in \<open>auto simp: bit_simps\<close>)
  show "bank_select_value e b AND NOT 3 = e AND NOT 3"
    unfolding bank_select_value_def m
    by (rule bit_eqI) (use b in \<open>auto simp: bit_simps\<close>)
qed

lemma bus_read_events:
  assumes "r < 0x20" and "r \<noteq> 0x1A"
  shows "spi_parse None (ev_rcr r (rcr_answer d tr r (rcr_len b r)))
       = Some [RCR r (rcr_len b r) (last (rcr_answer d tr r (rcr_len b r)))]"
proof -
  have "rcr_answer d tr r (rcr_len b r) \<noteq> []" by (simp add: rcr_len_def flip: length_greater_0_conv)
  from parse_ev_reg(1) [OF reg_arg_ok [OF assms] this] show ?thesis by (simp add: reg_arg assms)
qed

interpretation banked: driver_steps "bus_ctx d" bank_step
  "\<lambda>r v. r < 0x20 \<and> r \<noteq> ENC28_CR_ECON1"
  "\<lambda>r v. r < 0x20 \<and> (r = ENC28_CR_ECON1 \<longrightarrow> v AND 3 = 0)" "\<lambda>_. True" False for d
proof (unfold_locales, goal_cases)
  case (1 s) show ?case by (rule bank_step_refl)
next
  case (2 s t u) then show ?case by (rule bank_step_trans)
next
  case (3 n) show ?case
    by (rule stepsI) (auto simp: bus_call_wait intro!: bank_step_window)
next
  case (4 r ov) show ?case
  proof (rule stepsI)
    fix s a s' assume "enc28_do_read_ctl_reg (Some (bus_ctx d)) r ov s = Some (Ret (a, s'))"
    then show "bank_step s s'"
      by (cases ov; cases "r = 0x1A")
        (auto simp: bus_read [OF _ refl] bus_read_null bus_read_reserved
          intro!: bank_step_refl bank_step_window bus_read_events [OF 4])
  qed
next
  case (5 r v) then show ?case
    by (intro stepsI) (auto simp: bus_write reg_arg parse_events split: if_splits
      intro!: bank_step_refl bank_step_window)
next
  case (6 r v) then show ?case
    by (intro stepsI) (auto simp: bus_set_bits reg_arg parse_events split: if_splits
      intro!: bank_step_refl bank_step_window)
next
  case (7 r v) then show ?case
    by (intro stepsI) (auto simp: bus_clear_bits reg_arg parse_events split: if_splits
      intro!: bank_step_refl bank_step_window)
next
  case (8 b) show ?case
  proof (cases "b < 4")
    case True then show ?thesis
      by (intro stepsI) (auto simp: bus_select [OF refl] bank_select_value_bits rcr_len_def
        priv_enc28_is_mac_or_mii_reg_def intro!: bank_step_events parse_select [unfolded One_nat_def])
  next
    case False then show ?thesis
      by (intro stepsI) (auto simp: bus_select_invalid intro: bank_step_refl)
  qed
next
  case 9 show ?case
    by (rule stepsI) (auto simp: bus_rbm_header [OF refl] intro!: bank_step_window parse_events)
next
  case (10 pb n) show ?case
  proof (cases pb)
    case None then show ?thesis
      by (intro stepsI) (simp add: rbm_data_window_def bus_unfold call_in_packet_def undefM_def)
  next
    case (Some buf) then show ?thesis
      by (intro stepsI) (auto simp: bus_rbm_data Let_def parse_events split: if_splits intro!: bank_step_window)
  qed
next
  case (11 n buf) show ?case
    by (rule stepsI) (auto simp: bus_wbm parse_events split: if_splits intro!: bank_step_window)
qed (auto simp: word_less_nat_alt)

section \<open>Initialisation agrees from any start\<close>

text \<open>
  Every function that begins with a bank selection brings driver and chip together, whatever
  the chip's bank was: reading \<^verbatim>\<open>ECON1\<close> needs no dummy byte in any bank, and the write that follows
  sets \<^verbatim>\<open>BSEL\<close>.
\<close>

definition bank_resync :: "bus_event list enc28_drv \<Rightarrow> bus_event list enc28_drv \<Rightarrow> bool" where
  "bank_resync s s' \<longleftrightarrow>
     (\<forall>chip_bank. \<exists>es ts. world s' = world s @ es \<and> spi_parse None es = Some ts \<and>
        foldl txn_bank chip_bank ts = priv_enc28_curr_bank s' \<and> reads_match chip_bank ts)"

lemma bank_resync_select:
  assumes "b < 4" and "steps bank_step k"
  shows "steps bank_resync (bindM (enc28_select_register_bank (Some (bus_ctx d)) b) (\<lambda>_. k))"
proof (rule stepsI, unfold bank_resync_def, rule allI)
  fix s :: "bus_event list enc28_drv" and a s' chip_bank
  let ?es = "ev_rcr ENC28_CR_ECON1 (rcr_answer d (world s) ENC28_CR_ECON1 1)
    @ ev_wcr ENC28_CR_ECON1 (bank_select_value (last (rcr_answer d (world s) ENC28_CR_ECON1 1)) b)"
  let ?ts = "[RCR ENC28_CR_ECON1 1 (last (rcr_answer d (world s) ENC28_CR_ECON1 1)),
    WCR ENC28_CR_ECON1 (bank_select_value (last (rcr_answer d (world s) ENC28_CR_ECON1 1)) b)]"
  let ?s1 = "push_events ?es s\<lparr>priv_enc28_curr_bank := b\<rparr>"
  assume "bindM (enc28_select_register_bank (Some (bus_ctx d)) b) (\<lambda>_. k) s = Some (Ret (a, s'))"
  then have "k ?s1 = Some (Ret (a, s'))"
    by (simp add: bindM_def bus_select [OF refl assms(1)])
  with assms(2) have "bank_step ?s1 s'" by (rule stepsD)
  then obtain es ts where rest: "world s' = world ?s1 @ es" "spi_parse None es = Some ts"
    "foldl txn_bank b ts = priv_enc28_curr_bank s'" "reads_match b ts"
    unfolding bank_step_def by auto
  show "\<exists>es ts. world s' = world s @ es \<and> spi_parse None es = Some ts \<and>
        foldl txn_bank chip_bank ts = priv_enc28_curr_bank s' \<and> reads_match chip_bank ts"
  proof (intro exI conjI)
    show "world s' = world s @ (?es @ es)" using rest(1) by simp
    show "spi_parse None (?es @ es) = Some (?ts @ ts)"
      using spi_parse_append [OF parse_select] rest(2) by simp
  qed (use rest in \<open>simp_all add: bank_select_value_bits assms(1) rcr_len_def priv_enc28_is_mac_or_mii_reg_def\<close>)
qed

lemma then_ok_bindM: "then_ok (bindM m f) k = bindM m (\<lambda>a. then_ok (f a) k)"
  by (simp add: then_ok_def bindM_assoc)

lemma bank_resync_init: "steps bank_resync (enc28_do_init mac (Some (bus_ctx d)))"
  unfolding enc28_do_init_def priv_enc28_do_buffer_register_init_def priv_enc28_do_phy_init_def
    then_ok_bindM Let_def
  by (intro bank_resync_select banked.steps_then_ok banked.window_steps banked.steps_returnM
      banked.steps_receive_filter_init banked.steps_poll_estat banked.steps_mac_init) simp_all

text \<open>What holds whenever a status-returning function ends with \<open>ENC28_OK\<close>.\<close>

definition ends_ok :: "('w enc28_drv \<Rightarrow> bool) \<Rightarrow> (ENC28_CommandStatus, 'w) cmd \<Rightarrow> bool" where
  "ends_ok P m \<longleftrightarrow> (\<forall>s s'. m s = Some (Ret (ENC28_OK, s')) \<longrightarrow> P s')"

lemma ends_ok_bindM: "(\<And>a. ends_ok P (f a)) \<Longrightarrow> ends_ok P (bindM m f)"
  by (auto simp: ends_ok_def bindM_eq_Ret)

lemma ends_ok_exit: "ends_ok P k \<Longrightarrow> ends_ok P (exit_if_err st returnM k)"
  by (auto simp: ends_ok_def exit_if_err_def returnM_def)

lemma ends_ok_then_ok: "ends_ok P k \<Longrightarrow> ends_ok P (then_ok m k)"
  unfolding then_ok_def by (intro ends_ok_bindM ends_ok_exit)

lemma ends_ok_let: "(\<And>x. ends_ok P (f x)) \<Longrightarrow> ends_ok P (Let a f)"
  by (simp add: Let_def)

lemma ends_ok_case_prod: "(\<And>a b. ends_ok P (f a b)) \<Longrightarrow> ends_ok P (case_prod f p)"
  by (cases p) simp

lemma ends_ok_select: "ends_ok (\<lambda>s. priv_enc28_curr_bank s = b) (enc28_select_register_bank (Some (bus_ctx d)) b)"
  by (cases "b < 4") (auto simp: ends_ok_def bus_select [OF refl] bus_select_invalid)

lemma ends_ok_then_return: "ends_ok P m \<Longrightarrow> ends_ok P (then_ok m (returnM ENC28_OK))"
  by (auto simp: ends_ok_def then_ok_def bindM_eq_Ret exit_if_err_def returnM_def split: if_splits)

lemma init_ends_in_bank_0:
  "ends_ok (\<lambda>s. priv_enc28_curr_bank s = 0) (enc28_do_init mac (Some (bus_ctx d)))"
  unfolding enc28_do_init_def priv_enc28_do_phy_init_def
proof (rule ends_ok_then_ok, rule ends_ok_then_ok, rule ends_ok_then_ok, rule ends_ok_then_return)
  show "ends_ok (\<lambda>s. priv_enc28_curr_bank s = 0) (priv_enc28_do_mac_init mac (Some (bus_ctx d)))"
    unfolding priv_enc28_do_mac_init_def
    by ((rule ends_ok_then_return, rule ends_ok_select)
      | rule ends_ok_then_ok ends_ok_let ends_ok_bindM ends_ok_case_prod ends_ok_exit)+
qed

section \<open>Properties\<close>

text \<open>
  C4: As long as a client does not write \<^verbatim>\<open>ECON1.BSEL\<close> behind the driver's back and does not
  reset the chip, a driver that agrees with the chip about the selected bank still does after any
  sequence of calls, and every register read on the way skips a dummy byte exactly where the chip
  sends one.
\<close>

theorem driver_calls_track_bank:
  assumes "list_all (call_allowed (\<lambda>r v. r < 0x20 \<and> r \<noteq> ENC28_CR_ECON1)
      (\<lambda>r v. r < 0x20 \<and> (r = ENC28_CR_ECON1 \<longrightarrow> v AND 3 = 0)) (\<lambda>_. True) False) calls"
    and "run_calls (Some (bus_ctx d)) calls s = Some (Ret (sts, s'))"
  shows "\<exists>es ts. world s' = world s @ es \<and> spi_parse None es = Some ts \<and>
           foldl txn_bank (priv_enc28_curr_bank s) ts = priv_enc28_curr_bank s' \<and>
           reads_match (priv_enc28_curr_bank s) ts"
  using stepsD [OF banked.steps_calls [OF assms(1)] assms(2)] by (simp add: bank_step_def)

theorem driver_calls_track_bank_witness:
  "\<exists>sts s'. run_calls (Some (bus_ctx ready_device))
       [Select_bank 2, Read_ctl 0x0A (Some 0), Select_bank 3, Read_ctl 0x12 (Some 0)] bus_start
       = Some (Ret (sts, s'))
     \<and> priv_enc28_curr_bank s' = 3
     \<and> (\<exists>es ts. world s' = world bus_start @ es \<and> spi_parse None es = Some ts \<and>
           foldl txn_bank (priv_enc28_curr_bank bus_start) ts = priv_enc28_curr_bank s' \<and>
           reads_match (priv_enc28_curr_bank bus_start) ts)"
proof -
  let ?calls = "[Select_bank 2, Read_ctl 0x0A (Some 0), Select_bank 3, Read_ctl 0x12 (Some 0)]"
  have ok: "list_all (call_allowed (\<lambda>r v. r < 0x20 \<and> r \<noteq> ENC28_CR_ECON1)
      (\<lambda>r v. r < 0x20 \<and> (r = ENC28_CR_ECON1 \<longrightarrow> v AND 3 = 0)) (\<lambda>_. True) False) ?calls"
    by simp
  have "case run_calls (Some (bus_ctx ready_device)) ?calls bus_start of
      Some (Ret (sts, s')) \<Rightarrow> priv_enc28_curr_bank s' = 3 | _ \<Rightarrow> False"
    by (simp add: run_simps bus_simps device_simps ready_device_def Let_def cong: run_congs)
  then obtain sts s' where run: "run_calls (Some (bus_ctx ready_device)) ?calls bus_start = Some (Ret (sts, s'))"
      and "priv_enc28_curr_bank s' = 3"
    by (auto split: option.splits outcome.splits)
  then show ?thesis using driver_calls_track_bank [OF ok run] by blast
qed

text \<open>
  Initialisation needs no agreement: from any value of the driver's bank variable and any bank
  selected in the chip, every read of \<^verbatim>\<open>enc28_do_init\<close> matches, and when it returns \<open>ENC28_OK\<close> both sides
  are at bank 0.
\<close>

theorem init_agrees_on_bank_0:
  assumes "enc28_do_init mac (Some (bus_ctx d)) s = Some (Ret (ENC28_OK, s'))"
  shows "\<exists>es ts. world s' = world s @ es \<and> spi_parse None es = Some ts \<and>
           foldl txn_bank chip_bank ts = 0 \<and> reads_match chip_bank ts \<and> priv_enc28_curr_bank s' = 0"
proof -
  have "priv_enc28_curr_bank s' = 0"
    using init_ends_in_bank_0 assms unfolding ends_ok_def by blast
  with stepsD [OF bank_resync_init assms] show ?thesis
    unfolding bank_resync_def by metis
qed

text \<open>The run of the witness, with the poll of the busy bit unrolled once.\<close>

lemma init_on_ready_device:
  "\<exists>s'. enc28_do_init \<lparr>addr0 = 1, addr1 = 2, addr2 = 3, addr3 = 4, addr4 = 5, addr5 = 6\<rparr>
     (Some (bus_ctx ready_device)) \<lparr>priv_enc28_curr_bank = 3, world = []\<rparr> = Some (Ret (ENC28_OK, s'))"
  by (simp add: run_simps bus_simps device_simps ready_device_def Let_def
      enc28_do_init_def priv_enc28_do_buffer_register_init_def priv_enc28_do_receive_filter_init_def
      priv_enc28_do_poll_estat_clk_def poll_clkrdy_loop.simps priv_enc28_do_mac_init_def
      priv_enc28_do_phy_init_def enc28_do_read_phy_register_def priv_enc28_is_phy_reg_def
      phy_poll_busy.simps cong: run_congs)

theorem init_agrees_on_bank_0_witness:
  "\<exists>s'. enc28_do_init \<lparr>addr0 = 1, addr1 = 2, addr2 = 3, addr3 = 4, addr4 = 5, addr5 = 6\<rparr>
      (Some (bus_ctx ready_device)) \<lparr>priv_enc28_curr_bank = 3, world = []\<rparr> = Some (Ret (ENC28_OK, s'))
     \<and> (\<exists>es ts. world s' = [] @ es \<and> spi_parse None es = Some ts \<and>
           foldl txn_bank 2 ts = 0 \<and> reads_match 2 ts \<and> priv_enc28_curr_bank s' = 0)"
proof -
  obtain s' where run: "enc28_do_init \<lparr>addr0 = 1, addr1 = 2, addr2 = 3, addr3 = 4, addr4 = 5, addr5 = 6\<rparr>
      (Some (bus_ctx ready_device)) \<lparr>priv_enc28_curr_bank = 3, world = []\<rparr> = Some (Ret (ENC28_OK, s'))"
    using init_on_ready_device by blast
  from init_agrees_on_bank_0 [OF run, of 2] have "\<exists>es ts. world s' = [] @ es \<and> spi_parse None es = Some ts \<and>
      foldl txn_bank 2 ts = 0 \<and> reads_match 2 ts \<and> priv_enc28_curr_bank s' = 0" by simp
  with run show ?thesis by blast
qed

text \<open>
  The soft reset is the exception: it sends the chip to bank 0 and leaves the driver's variable
  as it was. After selecting bank 3 and a soft reset, the read of register 0 (\<^verbatim>\<open>ERDPTL\<close> in the chip's
  bank 0) clocks in the dummy byte of a MAC register, which the chip does not send.
\<close>

theorem soft_reset_loses_bank:
  "\<exists>s' es ts. run_calls (Some (bus_ctx d)) [Select_bank 3, Soft_reset, Read_ctl ENC28_CR_ERDPTL (Some v)] s
       = Some (Ret ([ENC28_OK, ENC28_OK, ENC28_OK], s'))
     \<and> world s' = world s @ es \<and> spi_parse None es = Some ts
     \<and> foldl txn_bank chip_bank ts = 0 \<and> priv_enc28_curr_bank s' = 3 \<and> \<not> reads_match chip_bank ts"
proof -
  let ?a = "rcr_answer d (world s) ENC28_CR_ECON1 1"
  let ?e1 = "ev_rcr ENC28_CR_ECON1 ?a @ ev_wcr ENC28_CR_ECON1 (bank_select_value (last ?a) 3)"
  let ?b = "rcr_answer d (world s @ ?e1 @ ev_src) ENC28_CR_ERDPTL 2"
  let ?es = "?e1 @ ev_src @ ev_rcr ENC28_CR_ERDPTL ?b"
  let ?ts = "[RCR ENC28_CR_ECON1 1 (last ?a), WCR ENC28_CR_ECON1 (bank_select_value (last ?a) 3), SRC,
    RCR ENC28_CR_ERDPTL 2 (last ?b)]"
  have b: "length ?b = 2" by (rule length_rcr_answer)
  have "?b \<noteq> []" by (simp add: rcr_answer_Nil_iff)
  have p: "spi_parse None (ev_rcr ENC28_CR_ERDPTL ?b) = Some [RCR ENC28_CR_ERDPTL 2 (last ?b)]"
    using b parse_ev_reg(1) [OF _ \<open>?b \<noteq> []\<close>, of ENC28_CR_ERDPTL] by simp
  have "spi_parse None ?es = map_option ((@) (take 2 ?ts)) (spi_parse None (ev_src @ ev_rcr ENC28_CR_ERDPTL ?b))"
    using spi_parse_append [OF parse_select] by simp
  also have "\<dots> = Some ?ts"
    using spi_parse_append [OF parse_ev_mem(1), of "ev_rcr ENC28_CR_ERDPTL ?b"] p by simp
  finally have parse: "spi_parse None ?es = Some ?ts" .
  let ?s' = "push_events ?es s\<lparr>priv_enc28_curr_bank := 3\<rparr>"
  have run: "run_calls (Some (bus_ctx d)) [Select_bank 3, Soft_reset, Read_ctl ENC28_CR_ERDPTL (Some v)] s
      = Some (Ret ([ENC28_OK, ENC28_OK, ENC28_OK], ?s'))"
    by (simp add: run_simps bus_simps rcr_len_def priv_enc28_is_mac_or_mii_reg_def cong: run_congs)
  show ?thesis
  proof (intro exI conjI)
    show "run_calls (Some (bus_ctx d)) [Select_bank 3, Soft_reset, Read_ctl ENC28_CR_ERDPTL (Some v)] s
      = Some (Ret ([ENC28_OK, ENC28_OK, ENC28_OK], ?s'))" by (rule run)
    show "spi_parse None ?es = Some ?ts" by (rule parse)
  qed (simp_all add: rcr_len_def priv_enc28_is_mac_or_mii_reg_def)
qed

end
