(* ===== verification/Enc28_Chip.thy ===== *)
theory Enc28_Chip
  imports Enc28_Bank
begin

text \<open>
  What the SPI instructions do in the chip: the register file in four banks with five registers common to all
  of them, the 8 KiB buffer memory with its read and write pointers, and the soft reset. The chip is
  hardware: nothing here models a line of the repository. The theory is the environment the driver's
  theorems speak about; the state of a chip after a recording is the effect of the recorded instructions
  on its state before.
\<close>

section \<open>State and instructions\<close>

text \<open>
  \<open>chip_reset\<close> holds the register contents after a reset. The bit field instructions are instructions for Ethernet registers.
  What they make of the contents of another register is open: \<open>chip_set_other\<close> and \<open>chip_clear_other\<close> are parameters, functions
  of the contents and the operand. That the rest of the chip stays is the one thing assumed of them.
\<close>

record enc28_chip =
  chip_bank :: u8
  chip_reg :: "u8 \<Rightarrow> u8 \<Rightarrow> u8"
  chip_mem :: "u16 \<Rightarrow> u8"
  chip_reset :: "u8 \<Rightarrow> u8 \<Rightarrow> u8"
  chip_set_other :: "u8 \<Rightarrow> u8 \<Rightarrow> u8"
  chip_clear_other :: "u8 \<Rightarrow> u8 \<Rightarrow> u8"

text \<open>The registers from \<open>0x1B\<close> on are the same in every bank.\<close>

definition reg_bank :: "u8 \<Rightarrow> u8 \<Rightarrow> u8" where
  "reg_bank b r = (if r \<ge> 0x1B then 0 else b)"

definition get_reg :: "enc28_chip \<Rightarrow> u8 \<Rightarrow> u8 \<Rightarrow> u8" where
  "get_reg c b r = chip_reg c (reg_bank b r) r"

definition set_reg :: "u8 \<Rightarrow> u8 \<Rightarrow> enc28_chip \<Rightarrow> enc28_chip" where
  "set_reg r v c =
     c\<lparr>chip_reg := (\<lambda>b' r'. if b' = reg_bank (chip_bank c) r \<and> r' = r then v else chip_reg c b' r'),
       chip_bank := if r = ENC28_CR_ECON1 then v AND 3 else chip_bank c\<rparr>"

definition ptr_reg :: "enc28_chip \<Rightarrow> u8 \<Rightarrow> u8 \<Rightarrow> u16" where
  "ptr_reg c lo hi = bytes16 (get_reg c 0 hi AND 0x1F) (get_reg c 0 lo)"

abbreviation "ERDPT c \<equiv> ptr_reg c ENC28_CR_ERDPTL ENC28_CR_ERDPTH"
abbreviation "EWRPT c \<equiv> ptr_reg c ENC28_CR_EWRPTL ENC28_CR_EWRPTH"
abbreviation "ETXST c \<equiv> ptr_reg c ENC28_CR_ETXSTL ENC28_CR_ETXSTH"
abbreviation "ETXND c \<equiv> ptr_reg c ENC28_CR_ETXNDL ENC28_CR_ETXNDH"
abbreviation "ERXST c \<equiv> ptr_reg c ENC28_CR_ERXSTL ENC28_CR_ERXSTH"
abbreviation "ERXND c \<equiv> ptr_reg c ENC28_CR_ERXNDL ENC28_CR_ERXNDH"
abbreviation "ERXRDPT c \<equiv> ptr_reg c ENC28_CR_ERXRDPTL ENC28_CR_ERXRDPTH"

definition set_ptr :: "u8 \<Rightarrow> u8 \<Rightarrow> u16 \<Rightarrow> enc28_chip \<Rightarrow> enc28_chip" where
  "set_ptr lo hi a c =
     c\<lparr>chip_reg := (\<lambda>b r. if b = 0 \<and> r = lo then lo8 a else if b = 0 \<and> r = hi then hi8 a else chip_reg c b r)\<rparr>"

text \<open>
  With \<^verbatim>\<open>ECON2.AUTOINC\<close> set, every byte read from buffer memory moves \<^verbatim>\<open>ERDPT\<close> on, wrapping from the end
  of the receive buffer to its start. Writing moves \<^verbatim>\<open>EWRPT\<close> on and does not wrap there.
\<close>

definition rx_next :: "enc28_chip \<Rightarrow> u16 \<Rightarrow> u16" where
  "rx_next c a = (if a = ERXND c then ERXST c else (a + 1) AND 0x1FFF)"

definition autoinc :: "enc28_chip \<Rightarrow> bool" where
  "autoinc c \<longleftrightarrow> bit (get_reg c 0 ENC28_CR_ECON2) ENC28_ECON2_AUTOINC"

definition mem_read :: "enc28_chip \<Rightarrow> nat \<Rightarrow> u8 list" where
  "mem_read c n = map (\<lambda>i. chip_mem c (if autoinc c then (rx_next c ^^ i) (ERDPT c) else ERDPT c)) [0..<n]"

fun mem_write :: "(u16 \<Rightarrow> u8) \<Rightarrow> u16 \<Rightarrow> u8 list \<Rightarrow> u16 \<Rightarrow> u8" where
  "mem_write m a [] = m"
| "mem_write m a (b # bs) = mem_write (m(a := b)) ((a + 1) AND 0x1FFF) bs"

definition set_field :: "enc28_chip \<Rightarrow> u8 \<Rightarrow> u8 \<Rightarrow> u8" where
  "set_field c r v =
     (if register_map (chip_bank c) r = ETH_register then get_reg c (chip_bank c) r OR v
      else chip_set_other c (get_reg c (chip_bank c) r) v)"

definition clear_field :: "enc28_chip \<Rightarrow> u8 \<Rightarrow> u8 \<Rightarrow> u8" where
  "clear_field c r v =
     (if register_map (chip_bank c) r = ETH_register then get_reg c (chip_bank c) r AND NOT v
      else chip_clear_other c (get_reg c (chip_bank c) r) v)"

fun chip_txn :: "spi_txn \<Rightarrow> enc28_chip \<Rightarrow> enc28_chip" where
  "chip_txn (RCR r n v) c = c"
| "chip_txn (WCR r v) c = set_reg r v c"
| "chip_txn (BFS r v) c = set_reg r (set_field c r v) c"
| "chip_txn (BFC r v) c = set_reg r (clear_field c r v) c"
| "chip_txn (RBM bs) c =
     (if autoinc c
      then set_ptr ENC28_CR_ERDPTL ENC28_CR_ERDPTH ((rx_next c ^^ length bs) (ERDPT c)) c else c)"
| "chip_txn (WBM bs) c =
     set_ptr ENC28_CR_EWRPTL ENC28_CR_EWRPTH ((EWRPT c + of_nat (length bs)) AND 0x1FFF)
       (c\<lparr>chip_mem := mem_write (chip_mem c) (EWRPT c) bs\<rparr>)"
| "chip_txn SRC c = c\<lparr>chip_bank := 0, chip_reg := chip_reset c\<rparr>"

definition chip_run :: "enc28_chip \<Rightarrow> spi_txn list \<Rightarrow> enc28_chip" where
  "chip_run c ts = foldl (\<lambda>c t. chip_txn t c) c ts"

lemma chip_run_simps [simp]: "chip_run c [] = c" "chip_run c (t # ts) = chip_run (chip_txn t c) ts"
  by (simp_all add: chip_run_def)

lemma chip_run_append [simp]: "chip_run c (xs @ ys) = chip_run (chip_run c xs) ys"
  by (simp add: chip_run_def)

text \<open>A chip for the witnesses.\<close>

definition chip_example :: enc28_chip where
  "chip_example = \<lparr>chip_bank = 0, chip_reg = (\<lambda>_ _. 0), chip_mem = (\<lambda>_. 0xEE), chip_reset = (\<lambda>_ _. 0),
     chip_set_other = (\<lambda>x _. x), chip_clear_other = (\<lambda>x _. x)\<rparr>"

section \<open>Triples over a recording\<close>

text \<open>
  \<open>at_chip c0 tr0 s c\<close>: since the recording was \<open>tr0\<close> and the chip in state \<open>c0\<close>, the recorded
  instructions brought the chip to \<open>c\<close>.
\<close>

definition at_chip :: "enc28_chip \<Rightarrow> bus_event list \<Rightarrow> bus_event list enc28_drv \<Rightarrow> enc28_chip \<Rightarrow> bool" where
  "at_chip c0 tr0 s c \<longleftrightarrow>
     (\<exists>es ts. world s = tr0 @ es \<and> spi_parse None es = Some ts \<and> chip_run c0 ts = c)"

text \<open>
  A triple: when a call starts at a chip and a driver's bank that satisfy \<open>P\<close> and returns,
  the chip and the bank it leaves satisfy \<open>Q\<close> of its result.
\<close>

definition triple ::
  "enc28_chip \<Rightarrow> bus_event list \<Rightarrow> (enc28_chip \<Rightarrow> u8 \<Rightarrow> bool) \<Rightarrow> ('a, bus_event list) cmd
   \<Rightarrow> ('a \<Rightarrow> enc28_chip \<Rightarrow> u8 \<Rightarrow> bool) \<Rightarrow> bool" where
  "triple c0 tr0 P m Q \<longleftrightarrow>
     (\<forall>s c a s'. at_chip c0 tr0 s c \<longrightarrow> P c (priv_enc28_curr_bank s) \<longrightarrow> m s = Some (Ret (a, s')) \<longrightarrow>
        (\<exists>c'. at_chip c0 tr0 s' c' \<and> Q a c' (priv_enc28_curr_bank s')))"

named_theorems wp_rules "weakest precondition rules"

lemma at_chip_start: "world s = tr0 \<Longrightarrow> at_chip c0 tr0 s c0"
  unfolding at_chip_def by (intro exI [of _ "[]"]) simp

lemma at_chip_events:
  assumes "at_chip c0 tr0 s c" and "spi_parse None es = Some ts" and "world s' = world s @ es"
  shows "at_chip c0 tr0 s' (chip_run c ts)"
proof -
  from assms(1) obtain e1 t1 where "world s = tr0 @ e1" "spi_parse None e1 = Some t1" "chip_run c0 t1 = c"
    unfolding at_chip_def by blast
  with assms(2,3) have "world s' = tr0 @ (e1 @ es)" "spi_parse None (e1 @ es) = Some (t1 @ ts)"
      "chip_run c0 (t1 @ ts) = chip_run c ts"
    by (simp_all add: spi_parse_append)
  then show ?thesis unfolding at_chip_def by blast
qed

text \<open>The instructions \<open>ts\<close> were recorded between two states.\<close>

definition recorded :: "bus_event list enc28_drv \<Rightarrow> bus_event list enc28_drv \<Rightarrow> spi_txn list \<Rightarrow> bool" where
  "recorded s s' ts \<longleftrightarrow> (\<exists>es. world s' = world s @ es \<and> spi_parse None es = Some ts)"

lemma tripleD:
  assumes "triple c0 tr0 P m Q" and "world s = tr0" and "P c0 (priv_enc28_curr_bank s)"
    and "m s = Some (Ret (a, s'))"
  shows "\<exists>ts. recorded s s' ts \<and> Q a (chip_run c0 ts) (priv_enc28_curr_bank s')"
  using assms at_chip_start [OF assms(2), of c0] unfolding triple_def at_chip_def recorded_def by metis

lemma triple_pre: "triple c0 tr0 P' m Q \<Longrightarrow> (\<And>c b. P c b \<Longrightarrow> P' c b) \<Longrightarrow> triple c0 tr0 P m Q"
  unfolding triple_def by blast

lemma triple_post: "triple c0 tr0 P m Q' \<Longrightarrow> (\<And>a c b. Q' a c b \<Longrightarrow> Q a c b) \<Longrightarrow> triple c0 tr0 P m Q"
  unfolding triple_def by blast

lemma triple_return [wp_rules]: "triple c0 tr0 (Q a) (returnM a) Q"
  by (auto simp: triple_def returnM_def)

lemma triple_bind [wp_rules]:
  assumes "\<And>a. triple c0 tr0 (R a) (f a) Q" and "triple c0 tr0 P m R"
  shows "triple c0 tr0 P (bindM m f) Q"
  unfolding triple_def
proof (intro allI impI)
  fix s c b s'
  assume "at_chip c0 tr0 s c" "P c (priv_enc28_curr_bank s)" "bindM m f s = Some (Ret (b, s'))"
  with assms show "\<exists>c'. at_chip c0 tr0 s' c' \<and> Q b c' (priv_enc28_curr_bank s')"
    unfolding triple_def bindM_eq_Ret by metis
qed

lemma triple_exit [wp_rules]:
  assumes "triple c0 tr0 P k Q" and "\<And>st. triple c0 tr0 (E st) (ret st) Q"
  shows "triple c0 tr0 (\<lambda>c b. if st = ENC28_OK then P c b else E st c b) (exit_if_err st ret k) Q"
  using assms by (simp add: triple_def exit_if_err_def)

lemma triple_then_ok [wp_rules]:
  assumes "triple c0 tr0 P' k Q" and "triple c0 tr0 P m (\<lambda>st c b. if st = ENC28_OK then P' c b else Q st c b)"
  shows "triple c0 tr0 P (then_ok m k) Q"
  unfolding then_ok_def
proof (rule triple_bind)
  show "triple c0 tr0 (\<lambda>c b. if st = ENC28_OK then P' c b else Q st c b) (exit_if_err st returnM k) Q" for st
    by (rule triple_exit [OF assms(1)]) (rule triple_return)
qed (rule assms(2))

lemma triple_case_prod [wp_rules]:
  assumes "\<And>a b. triple c0 tr0 (P a b) (f a b) Q"
  shows "triple c0 tr0 (case p of (a, b) \<Rightarrow> P a b) (case p of (a, b) \<Rightarrow> f a b) Q"
  using assms by (cases p) simp

lemma triple_if [wp_rules]:
  assumes "triple c0 tr0 P m Q" and "triple c0 tr0 P' m' Q"
  shows "triple c0 tr0 (\<lambda>c b. if t then P c b else P' c b) (if t then m else m') Q"
  using assms by (cases t) simp_all

lemma triple_window:
  assumes "\<And>s. \<exists>es ts. m s = Some (Ret (a s, push_events es s)) \<and> spi_parse None es = Some ts
      \<and> (\<forall>c. at_chip c0 tr0 s c \<longrightarrow> P c (priv_enc28_curr_bank s) \<longrightarrow> Q (a s) (chip_run c ts) (priv_enc28_curr_bank s))"
  shows "triple c0 tr0 P m Q"
  unfolding triple_def
proof (intro allI impI)
  fix s c x s'
  assume at: "at_chip c0 tr0 s c" and P: "P c (priv_enc28_curr_bank s)" and run: "m s = Some (Ret (x, s'))"
  from assms [of s] obtain es ts where m: "m s = Some (Ret (a s, push_events es s))"
    and p: "spi_parse None es = Some ts"
    and Q: "\<forall>c. at_chip c0 tr0 s c \<longrightarrow> P c (priv_enc28_curr_bank s) \<longrightarrow> Q (a s) (chip_run c ts) (priv_enc28_curr_bank s)"
    by blast
  from run m have x: "x = a s" "s' = push_events es s" by simp_all
  have "at_chip c0 tr0 s' (chip_run c ts)"
    by (rule at_chip_events [OF at p]) (simp add: x)
  with Q at P x show "\<exists>c'. at_chip c0 tr0 s' c' \<and> Q x c' (priv_enc28_curr_bank s')" by auto
qed

text \<open>The windows, whatever the device answers.\<close>

lemma triple_write [wp_rules]:
  assumes "r < 0x1A \<or> r \<in> {0x1B, 0x1C, 0x1D, 0x1E, 0x1F}"
  shows "triple c0 tr0 (\<lambda>c b. Q ENC28_OK (set_reg r v c) b) (enc28_do_write_ctl_reg (Some (bus_ctx d)) r v) Q"
proof (rule triple_window, intro exI conjI)
  have r: "r < 0x20" "r \<noteq> 0x1A" using assms by (auto simp: word_less_nat_alt)
  fix s :: "bus_event list enc28_drv"
  show "enc28_do_write_ctl_reg (Some (bus_ctx d)) r v s = Some (Ret (ENC28_OK, push_events (ev_wcr r v) s))"
    using r by (simp add: bus_write)
  show "spi_parse None (ev_wcr r v) = Some [WCR r v]"
    using parse_ev_reg(2) [OF reg_arg_ok [OF r], of v] by (simp add: reg_arg r)
qed simp

lemma triple_set [wp_rules]:
  assumes "r < 0x1A \<or> r \<in> {0x1B, 0x1C, 0x1D, 0x1E, 0x1F}"
  shows "triple c0 tr0 (\<lambda>c b. Q ENC28_OK (chip_txn (BFS r v) c) b) (enc28_do_set_bits_ctl_reg (Some (bus_ctx d)) r v) Q"
proof (rule triple_window, intro exI conjI)
  have r: "r < 0x20" "r \<noteq> 0x1A" using assms by (auto simp: word_less_nat_alt)
  fix s :: "bus_event list enc28_drv"
  show "enc28_do_set_bits_ctl_reg (Some (bus_ctx d)) r v s = Some (Ret (ENC28_OK, push_events (ev_bfs r v) s))"
    using r by (simp add: bus_set_bits)
  show "spi_parse None (ev_bfs r v) = Some [BFS r v]"
    using parse_ev_reg(3) [OF reg_arg_ok [OF r], of v] by (simp add: reg_arg r)
qed simp

lemma triple_clear [wp_rules]:
  assumes "r < 0x1A \<or> r \<in> {0x1B, 0x1C, 0x1D, 0x1E, 0x1F}"
  shows "triple c0 tr0 (\<lambda>c b. Q ENC28_OK (chip_txn (BFC r v) c) b) (enc28_do_clear_bits_ctl_reg (Some (bus_ctx d)) r v) Q"
proof (rule triple_window, intro exI conjI)
  have r: "r < 0x20" "r \<noteq> 0x1A" using assms by (auto simp: word_less_nat_alt)
  fix s :: "bus_event list enc28_drv"
  show "enc28_do_clear_bits_ctl_reg (Some (bus_ctx d)) r v s = Some (Ret (ENC28_OK, push_events (ev_bfc r v) s))"
    using r by (simp add: bus_clear_bits)
  show "spi_parse None (ev_bfc r v) = Some [BFC r v]"
    using parse_ev_reg(4) [OF reg_arg_ok [OF r], of v] by (simp add: reg_arg r)
qed simp

lemma triple_read_any:
  assumes "r < 0x1A \<or> r \<in> {0x1B, 0x1C, 0x1D, 0x1E, 0x1F}"
  shows "triple c0 tr0 (\<lambda>c b. \<forall>v. Q (ENC28_OK, v) c b) (read_ctl_local (Some (bus_ctx d)) r v0) Q"
proof (rule triple_window, intro exI conjI)
  have r: "r < 0x20" "r \<noteq> 0x1A" using assms by (auto simp: word_less_nat_alt)
  fix s :: "bus_event list enc28_drv"
  let ?bs = "rcr_answer d (world s) r (rcr_len (priv_enc28_curr_bank s) r)"
  show "read_ctl_local (Some (bus_ctx d)) r v0 s = Some (Ret ((ENC28_OK, last ?bs), push_events (ev_rcr r ?bs) s))"
    using r by (simp add: bus_read_local [OF _ refl])
  show "spi_parse None (ev_rcr r ?bs) = Some [RCR r (rcr_len (priv_enc28_curr_bank s) r) (last ?bs)]"
    by (rule bus_read_events [OF r])
qed simp

lemma triple_wait [wp_rules]: "triple c0 tr0 (Q ()) (call_wait (bus_ctx d) n) Q"
proof (rule triple_window, intro exI conjI)
  fix s :: "bus_event list enc28_drv"
  show "call_wait (bus_ctx d) n s = Some (Ret ((), push_events [WAIT n] s))" by (rule bus_call_wait)
  show "spi_parse None [WAIT n] = Some []" by simp
qed simp

lemma triple_reset [wp_rules]:
  "triple c0 tr0 (\<lambda>c b. Q ENC28_OK (chip_txn SRC c) b) (enc28_do_soft_reset (Some (bus_ctx d))) Q"
proof (rule triple_window, intro exI conjI)
  fix s :: "bus_event list enc28_drv"
  show "enc28_do_soft_reset (Some (bus_ctx d)) s = Some (Ret (ENC28_OK, push_events ev_src s))"
    by (rule bus_soft_reset)
  show "spi_parse None ev_src = Some [SRC]" by (rule parse_ev_mem(1))
qed simp

lemma triple_set_curr_bank [wp_rules]: "triple c0 tr0 (\<lambda>c b. Q () c bk) (set_curr_bank bk) Q"
  unfolding triple_def set_curr_bank_def at_chip_def by auto

lemma triple_select_any:
  assumes "bk < 4"
  shows "triple c0 tr0 (\<lambda>c b. \<forall>v. Q ENC28_OK (set_reg ENC28_CR_ECON1 (bank_select_value v bk) c) bk)
     (enc28_select_register_bank (Some (bus_ctx d)) bk) Q"
  unfolding triple_def
proof (intro allI impI)
  fix s :: "bus_event list enc28_drv" and c a s'
  let ?es = "ev_rcr ENC28_CR_ECON1 (rcr_answer d (world s) ENC28_CR_ECON1 1)
    @ ev_wcr ENC28_CR_ECON1 (bank_select_value (last (rcr_answer d (world s) ENC28_CR_ECON1 1)) bk)"
  assume at: "at_chip c0 tr0 s c"
    and Q: "\<forall>v. Q ENC28_OK (set_reg ENC28_CR_ECON1 (bank_select_value v bk) c) bk"
    and run: "enc28_select_register_bank (Some (bus_ctx d)) bk s = Some (Ret (a, s'))"
  from run have s': "a = ENC28_OK" "s' = push_events ?es s\<lparr>priv_enc28_curr_bank := bk\<rparr>"
    by (simp_all add: bus_select [OF refl assms])
  have "at_chip c0 tr0 s' (chip_run c [RCR ENC28_CR_ECON1 1 (last (rcr_answer d (world s) ENC28_CR_ECON1 1)),
      WCR ENC28_CR_ECON1 (bank_select_value (last (rcr_answer d (world s) ENC28_CR_ECON1 1)) bk)])"
    by (rule at_chip_events [OF at parse_select]) (simp add: s')
  with Q show "\<exists>c'. at_chip c0 tr0 s' c' \<and> Q a c' (priv_enc28_curr_bank s')" by (auto simp: s')
qed

lemma triple_phy_poll_any: "triple c0 tr0 (Q ENC28_OK) (phy_poll_busy (Some (bus_ctx d)) (bus_ctx d)) Q"
  unfolding triple_def
proof (intro allI impI)
  fix s c a s'
  assume start: "at_chip c0 tr0 s c" "Q ENC28_OK c (priv_enc28_curr_bank s)"
    and ret: "phy_poll_busy (Some (bus_ctx d)) (bus_ctx d) s = Some (Ret (a, s'))"
  let ?P = "\<lambda>ctx x s r. ctx = Some (bus_ctx d) \<longrightarrow> x = bus_ctx d \<longrightarrow> (\<forall>a s'. r = Ret (a, s') \<longrightarrow>
     (\<forall>c. at_chip c0 tr0 s c \<longrightarrow> a = ENC28_OK \<and> at_chip c0 tr0 s' c \<and> priv_enc28_curr_bank s' = priv_enc28_curr_bank s))"
  have "?P (Some (bus_ctx d)) (bus_ctx d) s (Ret (a, s'))"
  proof (rule phy_poll_busy.raw_induct [OF _ ret, of ?P], intro impI allI)
    fix f ctx x s r a s' c
    assume IH: "\<And>ctx x s r. f ctx x s = Some r \<Longrightarrow> ?P ctx x s r"
      and body: "after (read_ctl_local ctx ENC28_CR_MISTAT 0xFF s) (\<lambda>r. case r of ((status, v), s1) \<Rightarrow>
          if status \<noteq> ENC28_OK then Some (Ret (status, s1))
          else if v AND BIT ENC28_MISTAT_BUSY = 0 then Some (Ret (ENC28_OK, s1))
          else after (call_wait x 1 s1) (\<lambda>r2. f ctx x (snd r2))) = Some r"
      and c: "ctx = Some (bus_ctx d)" "x = bus_ctx d" and r: "r = Ret (a, s')" and at: "at_chip c0 tr0 s c"
    define bs where "bs = rcr_answer d (world s) ENC28_CR_MISTAT (rcr_len (priv_enc28_curr_bank s) ENC28_CR_MISTAT)"
    let ?s1 = "push_events (ev_rcr ENC28_CR_MISTAT bs) s"
    let ?s2 = "push_events [WAIT 1] ?s1"
    have at1: "at_chip c0 tr0 ?s1 c"
      using at_chip_events [OF at bus_read_events, of ENC28_CR_MISTAT ?s1 d "world s" "priv_enc28_curr_bank s"]
      by (simp add: bs_def)
    have at2: "at_chip c0 tr0 ?s2 c"
      using at_chip_events [OF at1, of "[WAIT 1]" "[]" ?s2] by simp
    from body c r have "(a = ENC28_OK \<and> s' = ?s1) \<or> f (Some (bus_ctx d)) (bus_ctx d) ?s2 = Some (Ret (a, s'))"
      by (auto simp: bus_read_local [OF _ bs_def] bus_call_wait split: if_splits)
    then show "a = ENC28_OK \<and> at_chip c0 tr0 s' c \<and> priv_enc28_curr_bank s' = priv_enc28_curr_bank s"
      using at1 at2 IH [of "Some (bus_ctx d)" "bus_ctx d" ?s2 "Ret (a, s')"] by auto
  qed
  with start(1) have "a = ENC28_OK" "at_chip c0 tr0 s' c" "priv_enc28_curr_bank s' = priv_enc28_curr_bank s"
    by blast+
  with start(2) show "\<exists>c'. at_chip c0 tr0 s' c' \<and> Q a c' (priv_enc28_curr_bank s')" by metis
qed

lemma triple_clkrdy_any: "triple c0 tr0 (Q ()) (poll_clkrdy_loop (Some (bus_ctx d)) st v) Q"
  unfolding triple_def
proof (intro allI impI)
  fix s c a s'
  assume start: "at_chip c0 tr0 s c" "Q () c (priv_enc28_curr_bank s)"
    and ret: "poll_clkrdy_loop (Some (bus_ctx d)) st v s = Some (Ret (a, s'))"
  let ?P = "\<lambda>ctx st v s r. ctx = Some (bus_ctx d) \<longrightarrow> (\<forall>a s'. r = Ret (a, s') \<longrightarrow>
     (\<forall>c. at_chip c0 tr0 s c \<longrightarrow> at_chip c0 tr0 s' c \<and> priv_enc28_curr_bank s' = priv_enc28_curr_bank s))"
  have "?P (Some (bus_ctx d)) st v s (Ret (a, s'))"
  proof (rule poll_clkrdy_loop.raw_induct [OF _ ret, of ?P], intro impI allI)
    fix f ctx st v s r a s' c
    assume IH: "\<And>ctx st v s r. f ctx st v s = Some r \<Longrightarrow> ?P ctx st v s r"
      and body: "(if st \<noteq> ENC28_OK then Some (Ret ((), s))
          else if v AND BIT ENC28_ESTAT_CLKRDY \<noteq> 0 then Some (Ret ((), s))
          else after (read_ctl_local ctx ENC28_CR_ESTAT v s) (\<lambda>r. case r of ((st', v'), s1) \<Rightarrow>
            f ctx st' v' s1)) = Some r"
      and c: "ctx = Some (bus_ctx d)" and r: "r = Ret (a, s')" and at: "at_chip c0 tr0 s c"
    define bs where "bs = rcr_answer d (world s) ENC28_CR_ESTAT (rcr_len (priv_enc28_curr_bank s) ENC28_CR_ESTAT)"
    let ?s1 = "push_events (ev_rcr ENC28_CR_ESTAT bs) s"
    have at1: "at_chip c0 tr0 ?s1 c"
      using at_chip_events [OF at bus_read_events, of ENC28_CR_ESTAT ?s1 d "world s" "priv_enc28_curr_bank s"]
      by (simp add: bs_def)
    from body c r have "s' = s \<or> f (Some (bus_ctx d)) ENC28_OK (last bs) ?s1 = Some (Ret (a, s'))"
      by (auto simp: bus_read_local [OF _ bs_def] split: if_splits)
    then show "at_chip c0 tr0 s' c \<and> priv_enc28_curr_bank s' = priv_enc28_curr_bank s"
      using at at1 IH [of "Some (bus_ctx d)" ENC28_OK "last bs" ?s1 "Ret (a, s')"] by auto
  qed
  with start(1) have "at_chip c0 tr0 s' c" "priv_enc28_curr_bank s' = priv_enc28_curr_bank s"
    by blast+
  with start(2) show "\<exists>c'. at_chip c0 tr0 s' c' \<and> Q a c' (priv_enc28_curr_bank s')" by (intro exI [of _ c]) simp
qed

text \<open>The windows of the packet functions.\<close>

lemma triple_wbm [wp_rules]:
  "triple c0 tr0 (\<lambda>c b. Q () (chip_txn (WBM (0 # take n buf)) c) b) (wbm_window (bus_ctx d) buf n) Q"
proof (cases "length buf < n")
  case True then show ?thesis by (simp add: triple_def bus_wbm)
next
  case False then show ?thesis
    by (intro triple_window exI [of _ "ev_wbm (take n buf)"] exI [of _ "[WBM (0 # take n buf)]"])
      (simp add: bus_wbm parse_ev_mem)
qed

lemma triple_rbm_header_any:
  "triple c0 tr0 (\<lambda>c b. \<forall>bs. length bs = length rx \<longrightarrow> Q bs (chip_txn (RBM (tl bs)) c) b)
     (rbm_header_window (bus_ctx d) (0x3A # tx) rx) Q"
proof (rule triple_window, intro exI conjI)
  fix s :: "bus_event list enc28_drv"
  let ?bs = "fit (length rx) (in_out_answer d (world s @ [NSS 0]) (0x3A # tx))"
  show "rbm_header_window (bus_ctx d) (0x3A # tx) rx s = Some (Ret (?bs, push_events (ev_rbm_header (0x3A # tx) ?bs) s))"
    by (rule bus_rbm_header [OF refl])
  show "spi_parse None (ev_rbm_header (0x3A # tx) ?bs) = Some [RBM (tl ?bs)]"
    by (rule parse_ev_mem(2) [OF refl])
qed simp

lemma triple_rbm_data_any:
  "triple c0 tr0 (\<lambda>c b. \<forall>buf bs. pb = Some buf \<longrightarrow> n \<le> length buf \<longrightarrow> length bs = n \<longrightarrow>
       Q (Some (bs @ drop n buf)) (chip_txn (RBM bs) c) b)
     (rbm_data_window (bus_ctx d) pb n) Q"
proof (cases pb)
  case None then show ?thesis
    by (simp add: triple_def rbm_data_window_def bus_unfold call_in_packet_def undefM_def)
next
  case (Some buf)
  show ?thesis
  proof (cases "length buf < n")
    case True then show ?thesis by (simp add: triple_def bus_rbm_data Some)
  next
    case False
    let ?bs = "\<lambda>s. fit n (in_answer d (world s @ [NSS 0, OUT [0x3A]]) n)"
    show ?thesis
    proof (rule triple_window, intro exI conjI)
      fix s :: "bus_event list enc28_drv"
      show "rbm_data_window (bus_ctx d) pb n s = Some (Ret (Some (?bs s @ drop n buf), push_events (ev_rbm (?bs s)) s))"
        using False by (simp add: bus_rbm_data Some Let_def)
      show "spi_parse None (ev_rbm (?bs s)) = Some [RBM (?bs s)]" by (rule parse_ev_mem(3))
    qed (use False Some in simp)
  qed
qed

end
