(* ===== verification/Enc28_Effects.thy ===== *)
theory Enc28_Effects
  imports Enc28_Chip
begin

text \<open>
  What the driver's functions do to the chip when they return, whatever the chip answers on the way:
  how initialisation configures it, how a transfer is begun and ended, and what writing a packet
  leaves in the transmit buffer and in the registers.
\<close>

section \<open>Reading the state after a sequence of instructions\<close>

lemma chip_bank_set_reg: "chip_bank (set_reg r v c) = (if r = ENC28_CR_ECON1 then v AND 3 else chip_bank c)"
  by (simp add: set_reg_def)

lemma get_reg_set_reg:
  "get_reg (set_reg r v c) b r' =
     (if r' = r \<and> reg_bank b r = reg_bank (chip_bank c) r then v else get_reg c b r')"
  by (auto simp: set_reg_def get_reg_def)

lemma reg_bank_const:
  "r < 0x1B \<Longrightarrow> reg_bank b r = b" "r \<ge> 0x1B \<Longrightarrow> reg_bank b r = 0"
  by (auto simp: reg_bank_def)

lemma chip_mem_set_reg [simp]: "chip_mem (set_reg r v c) = chip_mem c"
  by (simp add: set_reg_def)

lemma bank_select_value_AND3: "bk < 4 \<Longrightarrow> bank_select_value v bk AND 3 = bk"
  by (rule bank_select_value_bits)

text \<open>The bytes of the buffer layout's constants.\<close>

lemma layout_bytes:
  "lo8 ENC28_CONF_TX_ADDRESS_START = 0x1D" "hi8 ENC28_CONF_TX_ADDRESS_START AND 0x1F = 0"
  "lo8 ENC28_CONF_RX_ADDRESS_START = 0xD0" "hi8 ENC28_CONF_RX_ADDRESS_START AND 0x1F = 7"
  "lo8 ENC28_CONF_RX_ADDRESS_END = 0xFF" "hi8 ENC28_CONF_RX_ADDRESS_END AND 0x1F = 0x1E"
  "lo8 ENC28_CONF_MAX_FRAME_LEN = 0" "hi8 ENC28_CONF_MAX_FRAME_LEN = 6"
  "bytes16 0 0x1D = ENC28_CONF_TX_ADDRESS_START" "bytes16 7 0xD0 = ENC28_CONF_RX_ADDRESS_START"
  "bytes16 0x1E 0xFF = ENC28_CONF_RX_ADDRESS_END" "bytes16 6 0 = ENC28_CONF_MAX_FRAME_LEN"
  by (simp_all add: lo8_def hi8_def bytes16_def)

lemma and3_bits:
  assumes "n \<ge> 2"
  shows "(x OR BIT n) AND 3 = x AND 3" "(x AND NOT (BIT n)) AND 3 = x AND 3"
proof -
  have m: "(3 :: u8) = mask 2" by (simp add: mask_eq_exp_minus_1)
  show "(x OR BIT n) AND 3 = x AND 3" "(x AND NOT (BIT n)) AND 3 = x AND 3"
    unfolding m using assms by (auto intro!: bit_eqI simp: bit_simps bit_BIT)
qed

lemma get_reg_set_ptr:
  "get_reg (set_ptr lo hi a c) b r =
     (if reg_bank b r = 0 \<and> r = lo then lo8 a else if reg_bank b r = 0 \<and> r = hi then hi8 a else get_reg c b r)"
  by (auto simp: set_ptr_def get_reg_def)

lemma set_ptr_simps [simp]:
  "chip_bank (set_ptr lo hi a c) = chip_bank c" "chip_mem (set_ptr lo hi a c) = chip_mem c"
  by (simp_all add: set_ptr_def)

lemma get_reg_mem [simp]: "get_reg (c\<lparr>chip_mem := m\<rparr>) b r = get_reg c b r"
  by (simp add: get_reg_def)

lemmas chip_bits = bit_BIT bit_or_iff bit_and_iff bit_not_iff

lemmas any_rules = wp_rules triple_select_any triple_read_any triple_phy_poll_any triple_clkrdy_any


text \<open>
  The bit field instructions as updates of one register; unfolding their definition would copy the
  state they are applied to.
\<close>

declare chip_txn.simps(3) [simp del] chip_txn.simps(4) [simp del] chip_txn.simps(5) [simp del]
  chip_txn.simps(6) [simp del] mem_write.simps [simp del]

lemma register_map_from_0x1B: "0x1B \<le> r \<Longrightarrow> r < 0x20 \<Longrightarrow> register_map b r = ETH_register"
  by (simp add: register_map_def word_less_nat_alt word_le_nat_alt)

lemma bit_field_common:
  assumes "0x1B \<le> r" and "r < 0x20"
  shows "chip_txn (BFS r v) c = set_reg r (get_reg c 0 r OR v) c"
    and "chip_txn (BFC r v) c = set_reg r (get_reg c 0 r AND NOT v) c"
  using assms by (simp_all add: chip_txn.simps set_field_def clear_field_def register_map_from_0x1B get_reg_def reg_bank_def)

text \<open>On a MAC or MII register the bit field instructions have the effect the chip's parameter gives.\<close>

lemma bit_field_other:
  assumes "register_map (chip_bank c) r \<noteq> ETH_register" and "r < 0x1B"
  shows "get_reg (chip_txn (BFS r v) c) b r' =
      (if r' = r \<and> b = chip_bank c then chip_set_other c (get_reg c b r) v else get_reg c b r')"
    and "get_reg (chip_txn (BFC r v) c) b r' =
      (if r' = r \<and> b = chip_bank c then chip_clear_other c (get_reg c b r) v else get_reg c b r')"
    and "chip_bank (chip_txn (BFS r v) c) = chip_bank c" "chip_bank (chip_txn (BFC r v) c) = chip_bank c"
    and "chip_mem (chip_txn (BFS r v) c) = chip_mem c" "chip_mem (chip_txn (BFC r v) c) = chip_mem c"
proof -
  have "r \<noteq> ENC28_CR_ECON1" "reg_bank b' r = b'" for b' using assms(2) by (auto simp: word_less_nat_alt reg_bank_def word_le_nat_alt)
  then show "get_reg (chip_txn (BFS r v) c) b r' =
      (if r' = r \<and> b = chip_bank c then chip_set_other c (get_reg c b r) v else get_reg c b r')"
    and "get_reg (chip_txn (BFC r v) c) b r' =
      (if r' = r \<and> b = chip_bank c then chip_clear_other c (get_reg c b r) v else get_reg c b r')"
    and "chip_bank (chip_txn (BFS r v) c) = chip_bank c" "chip_bank (chip_txn (BFC r v) c) = chip_bank c"
    and "chip_mem (chip_txn (BFS r v) c) = chip_mem c" "chip_mem (chip_txn (BFC r v) c) = chip_mem c"
    using assms(1) by (auto simp: chip_txn.simps set_field_def clear_field_def get_reg_set_reg chip_bank_set_reg)
qed

lemma chip_other_kept [simp]:
  "chip_set_other (set_reg r v c) = chip_set_other c" "chip_clear_other (set_reg r v c) = chip_clear_other c"
  "chip_set_other (chip_txn (BFS r v) c) = chip_set_other c" "chip_clear_other (chip_txn (BFS r v) c) = chip_clear_other c"
  "chip_set_other (chip_txn (BFC r v) c) = chip_set_other c" "chip_clear_other (chip_txn (BFC r v) c) = chip_clear_other c"
  by (simp_all add: set_reg_def chip_txn.simps)

text \<open>The MAC registers initialisation accesses with a bit field instruction are no Ethernet registers.\<close>

lemma register_map_macon [simp]:
  "register_map 2 ENC28_CR_MACON1 = MAC_register" "register_map 2 ENC28_CR_MACON3 = MAC_register"
  "register_map 2 ENC28_CR_MACON4 = MAC_register"
  by (simp_all add: register_map_def word_le_nat_alt)

lemma bit_field_simps:
  assumes "0x1B \<le> r" and "r < 0x20"
  shows "get_reg (chip_txn (BFS r v) c) b r' = (if r' = r then get_reg c 0 r OR v else get_reg c b r')"
    and "get_reg (chip_txn (BFC r v) c) b r' = (if r' = r then get_reg c 0 r AND NOT v else get_reg c b r')"
    and "chip_bank (chip_txn (BFS r v) c) = (if r = ENC28_CR_ECON1 then (get_reg c 0 r OR v) AND 3 else chip_bank c)"
    and "chip_bank (chip_txn (BFC r v) c) = (if r = ENC28_CR_ECON1 then (get_reg c 0 r AND NOT v) AND 3 else chip_bank c)"
    and "chip_mem (chip_txn (BFS r v) c) = chip_mem c" "chip_mem (chip_txn (BFC r v) c) = chip_mem c"
  using assms by (auto simp: bit_field_common get_reg_set_reg chip_bank_set_reg reg_bank_def)

lemma buffer_txn_simps:
  "r \<noteq> ENC28_CR_ERDPTL \<Longrightarrow> r \<noteq> ENC28_CR_ERDPTH \<Longrightarrow> get_reg (chip_txn (RBM bs) c) b r = get_reg c b r"
  "r \<noteq> ENC28_CR_EWRPTL \<Longrightarrow> r \<noteq> ENC28_CR_EWRPTH \<Longrightarrow> get_reg (chip_txn (WBM bs) c) b r = get_reg c b r"
  "chip_bank (chip_txn (RBM bs) c) = chip_bank c" "chip_bank (chip_txn (WBM bs) c) = chip_bank c"
  "chip_mem (chip_txn (RBM bs) c) = chip_mem c"
  "chip_mem (chip_txn (WBM bs) c) = mem_write (chip_mem c) (EWRPT c) bs"
  by (simp_all add: chip_txn.simps get_reg_set_ptr)

lemma common_reg_bound: "\<not> (0x1B :: u8) \<le> 1"
  by (simp add: word_le_nat_alt)

lemmas chip_simps = common_reg_bound chip_bank_set_reg get_reg_set_reg reg_bank_def bank_select_value_AND3
  ptr_reg_def bit_field_simps bit_field_other buffer_txn_simps layout_bytes and3_bits get_reg_set_ptr autoinc_def

section \<open>Initialisation\<close>

text \<open>The configuration the initialisation is there to establish.\<close>

definition init_done :: "ENC28_MAC_Address \<Rightarrow> enc28_chip \<Rightarrow> bool" where
  "init_done mac c \<longleftrightarrow>
     chip_bank c = 0 \<and>
     ERXST c = ENC28_CONF_RX_ADDRESS_START \<and> ERXND c = ENC28_CONF_RX_ADDRESS_END \<and>
     ERXRDPT c = ENC28_CONF_RX_ADDRESS_END \<and>
     get_reg c 1 ENC28_CR_ERXFCON = ENC28_CONF_PACKET_FILTER_MASK \<and>
     bytes16 (get_reg c 2 ENC28_CR_MAMXFLH) (get_reg c 2 ENC28_CR_MAMXFLL) = ENC28_CONF_MAX_FRAME_LEN \<and>
     get_reg c 2 ENC28_CR_MABBIPG = ENC28_CONF_MABBIPG_BITS \<and>
     get_reg c 3 ENC28_CR_MAC_ADD1 = addr0 mac \<and> get_reg c 3 ENC28_CR_MAC_ADD2 = addr1 mac \<and>
     get_reg c 3 ENC28_CR_MAC_ADD3 = addr2 mac \<and> get_reg c 3 ENC28_CR_MAC_ADD4 = addr3 mac \<and>
     get_reg c 3 ENC28_CR_MAC_ADD5 = addr4 mac \<and> get_reg c 3 ENC28_CR_MAC_ADD6 = addr5 mac"

text \<open>
  The rest of what it does: the buffer memory stays, the gap between packets is set as the duplex mode asks for, which is read from the PHY,
  and \<^verbatim>\<open>MACON1\<close>, \<^verbatim>\<open>MACON3\<close> and \<^verbatim>\<open>MACON4\<close>, which the code accesses with bit field set instructions, hold whatever that instruction
  makes of their contents with the masks for reception and pause frames, for padding, checksum and length check, and for deferral.
\<close>

definition init_mac :: "enc28_chip \<Rightarrow> enc28_chip \<Rightarrow> bool" where
  "init_mac c1 c \<longleftrightarrow>
     chip_mem c = chip_mem c1 \<and>
     (\<exists>full_duplex.
        get_reg c 2 ENC28_CR_MAIPGL =
          (if full_duplex then ENC28_CONF_MAIPGL_BITS_FULLDUP else ENC28_CONF_MAIPGL_BITS_HALFDUP) \<and>
        get_reg c 2 ENC28_CR_MAIPGH =
          (if full_duplex then get_reg c1 2 ENC28_CR_MAIPGH else ENC28_CONF_MAIPGH_BITS) \<and>
        get_reg c 2 ENC28_CR_MACON1 = chip_set_other c1 (get_reg c1 2 ENC28_CR_MACON1) 0x0D \<and>
        get_reg c 2 ENC28_CR_MACON3 =
          chip_set_other c1 (get_reg c1 2 ENC28_CR_MACON3) (if full_duplex then 0xF3 else 0xF2) \<and>
        get_reg c 2 ENC28_CR_MACON4 = chip_set_other c1 (get_reg c1 2 ENC28_CR_MACON4) 0x10)"

lemmas init_unfold = enc28_do_init_def priv_enc28_do_buffer_register_init_def
  priv_enc28_do_receive_filter_init_def priv_enc28_do_poll_estat_clk_def priv_enc28_do_mac_init_def
  priv_enc28_do_phy_init_def enc28_do_read_phy_register_def priv_enc28_is_phy_reg_def

lemma mac_masks:
  "BIT ENC28_MACON1_RXEN OR BIT ENC28_MACON1_RXPAUS OR BIT ENC28_MACON1_TXPAUS = (0x0D :: u8)"
  "macon3_mask full_duplex = (if full_duplex then 0xF3 else 0xF2)" "BIT ENC28_MACON4_DEFER = (0x10 :: u8)"
  by (simp_all add: macon3_mask_def BIT_def)

lemma triple_init:
  "triple c0 tr0 (\<lambda>c b. c = c1) (enc28_do_init mac (Some (bus_ctx d)))
     (\<lambda>st c b. st = ENC28_OK \<and> b = 0 \<and> init_done mac c \<and> init_mac c1 c)"
  by (simp add: init_unfold Let_def, rule triple_pre, (rule any_rules | (simp; fail))+,
      simp add: init_done_def init_mac_def chip_simps mac_masks ex_bool_eq cong: conj_cong)

section \<open>Starting and stopping reception\<close>

definition rx_started :: "enc28_chip \<Rightarrow> enc28_chip \<Rightarrow> bool" where
  "rx_started c1 c \<longleftrightarrow>
     chip_bank c = 0 \<and> ERDPT c = ENC28_CONF_RX_ADDRESS_START \<and> autoinc c \<and>
     bit (get_reg c 0 ENC28_CR_ECON1) ENC28_ECON1_RXEN \<and>
     (\<forall>n. bit (get_reg c 0 ENC28_CR_EIE) n \<longleftrightarrow>
        n \<in> {ENC28_EIE_INTIE, ENC28_EIE_PKTIE, ENC28_EIE_RXERIE, ENC28_EIE_TXERIE} \<or> bit (get_reg c1 0 ENC28_CR_EIE) n) \<and>
     \<not> bit (get_reg c 0 ENC28_CR_EIR) ENC28_EIR_RXERIF \<and>
     ERXST c = ERXST c1 \<and> ERXND c = ERXND c1 \<and> ERXRDPT c = ERXRDPT c1 \<and> chip_mem c = chip_mem c1"

lemma triple_begin:
  "triple c0 tr0 (\<lambda>c b. c = c1) (enc28_begin_packet_transfer (Some (bus_ctx d)))
     (\<lambda>st c b. st = ENC28_OK \<and> b = 0 \<and> rx_started c1 c)"
  unfolding enc28_begin_packet_transfer_def
  by (rule triple_pre, (rule any_rules | (simp; fail))+,
      auto simp: rx_started_def chip_simps chip_bits simp del: bit_numeral_word_iff)

lemma triple_end:
  "triple c0 tr0 (\<lambda>c b. c = c1) (enc28_end_packet_transfer (Some (bus_ctx d)))
     (\<lambda>st c b. st = ENC28_OK \<and> b = 0 \<and> chip_bank c = 0 \<and> \<not> bit (get_reg c 0 ENC28_CR_ECON1) ENC28_ECON1_RXEN \<and>
        ERDPT c = ERDPT c1 \<and> ERXRDPT c = ERXRDPT c1 \<and> chip_mem c = chip_mem c1)"
  unfolding enc28_end_packet_transfer_def
  by (rule triple_pre, (rule any_rules | (simp; fail))+,
      auto simp: chip_simps chip_bits simp del: bit_numeral_word_iff)

section \<open>Writing a packet\<close>

lemma and_0x1FFF: "(w AND 0x1FFF :: u16) = take_bit 13 w"
  by (simp add: take_bit_eq_mask mask_eq_exp_minus_1)

lemma bytes16_masked: "bytes16 (hi8 w AND 0x1F) (lo8 w) = w AND 0x1FFF"
  by (rule bit_eqI)
    (auto simp: bit_bytes16 lo8_def hi8_def bit_ucast_iff bit_and_iff bit_drop_bit_eq bit_0xFF16 bit_0x1F8
      and_0x1FFF bit_take_bit_iff simp del: bit_numeral_word_iff dest: bit_u8_lt)

lemma unat_and_0x1FFF: "unat (w AND 0x1FFF :: u16) = unat w mod 8192"
  by (simp add: and_0x1FFF unsigned_take_bit_eq take_bit_nat_def)

lemma mem_write_lookup:
  assumes "unat a + length bs \<le> 8192"
  shows "mem_write m a bs x = (if unat a \<le> unat x \<and> unat x < unat a + length bs then bs ! (unat x - unat a) else m x)"
  using assms
proof (induction bs arbitrary: m a)
  case (Cons b bs)
  show ?case
  proof (cases bs)
    case Nil
    then show ?thesis using Cons.prems by (cases "x = a") (auto simp: mem_write.simps le_less_Suc_eq dest!: unsigned_word_eqI)
  next
    case (Cons b' bs')
    with Cons.prems have len: "unat a + 1 < 8192" by simp
    then have "unat (a + 1) = unat a + 1" by (simp add: unat_word_ariths)
    with len have step: "unat ((a + 1) AND 0x1FFF) = unat a + 1" by (simp add: unat_and_0x1FFF)
    have eq: "x = a \<longleftrightarrow> unat x = unat a" by (auto dest: unsigned_word_eqI)
    have "mem_write (m(a := b)) ((a + 1) AND 0x1FFF) bs x
        = (if unat a + 1 \<le> unat x \<and> unat x < unat a + 1 + length bs then bs ! (unat x - (unat a + 1))
           else if x = a then b else m x)"
      by (subst Cons.IH) (use Cons.prems in \<open>simp_all add: step\<close>)
    then show ?thesis unfolding mem_write.simps eq by (auto simp: nth_Cons')
  qed
qed (auto simp: mem_write.simps)

text \<open>
  What the chip transmits: the bytes from \<^verbatim>\<open>ETXST\<close> to \<^verbatim>\<open>ETXND\<close>, both included, the first of which is the
  per-packet control byte.
\<close>

definition tx_frame :: "enc28_chip \<Rightarrow> u8 list" where
  "tx_frame c = map (\<lambda>i. chip_mem c (ETXST c + of_nat i)) [0..<Suc (unat (ETXND c) - unat (ETXST c))]"

definition tx_programmed :: "u8 list \<Rightarrow> u16 \<Rightarrow> enc28_chip \<Rightarrow> enc28_chip \<Rightarrow> bool" where
  "tx_programmed buf n c1 c \<longleftrightarrow>
     chip_bank c = 0 \<and> ETXST c = ENC28_CONF_TX_ADDRESS_START \<and> ETXND c = (30 + n) AND 0x1FFF \<and>
     chip_mem c = mem_write (chip_mem c1) ENC28_CONF_TX_ADDRESS_START (0 # take (unat n) buf) \<and>
     bit (get_reg c 0 ENC28_CR_ECON1) ENC28_ECON1_TXRTS \<and>
     \<not> bit (get_reg c 0 ENC28_CR_EIR) ENC28_EIR_TXIF \<and>
     ERXST c = ERXST c1 \<and> ERXND c = ERXND c1 \<and> ERXRDPT c = ERXRDPT c1 \<and> ERDPT c = ERDPT c1 \<and>
     (autoinc c \<longleftrightarrow> autoinc c1) \<and>
     (bit (get_reg c 0 ENC28_CR_EIR) ENC28_EIR_PKTIF \<longleftrightarrow> bit (get_reg c1 0 ENC28_CR_EIR) ENC28_EIR_PKTIF)"

lemma triple_write_packet:
  "triple c0 tr0 (\<lambda>c b. c = c1) (enc28_write_packet (Some (bus_ctx d)) (Some buf) n)
     (\<lambda>st c b. if st = ENC28_OK then b = 0 \<and> \<not> n < 14 \<and> tx_programmed buf n c1 c
               else c = c1 \<and> st = (if n < 14 then ENC28_INVALID_PARAM else ENC28_PACKET_TX_IN_PROGRESS))"
proof (cases "n < 14")
  case True then show ?thesis by (auto simp: triple_def enc28_write_packet_def returnM_def)
next
  case False
  then show ?thesis
    unfolding enc28_write_packet_def body_simps packet_window_folds
    apply simp
    apply (rule triple_pre)
     apply (rule any_rules | (simp; fail))+
    apply (intro allI)
    apply (simp add: tx_programmed_def tx_end_address_def)
    apply (simp add: chip_simps bytes16_masked chip_bits del: bit_numeral_word_iff)
    done
qed

lemma tx_programmed_frame:
  assumes prog: "tx_programmed buf n c1 c" and n: "unat n \<le> length buf" "unat n \<le> 1969"
  shows "tx_frame c = 0 # take (unat n) buf @ [chip_mem c1 (30 + n)]"
    and "ENC28_CONF_RX_ADDRESS_START \<le> a \<Longrightarrow> chip_mem c a = chip_mem c1 a"
proof -
  have end_lt: "unat (30 + n) = unat n + 30" using n by (simp add: unat_word_ariths)
  then have etxnd: "unat (ETXND c) = unat n + 30"
    using prog n by (simp add: tx_programmed_def unat_and_0x1FFF)
  have mem: "chip_mem c x = (if 29 \<le> unat x \<and> unat x < 30 + unat n then (0 # take (unat n) buf) ! (unat x - 29)
      else chip_mem c1 x)" for x
    using prog n by (simp add: tx_programmed_def mem_write_lookup)
  show "tx_frame c = 0 # take (unat n) buf @ [chip_mem c1 (30 + n)]" (is "_ = ?frame")
  proof (rule nth_equalityI)
    have len: "length (tx_frame c) = unat n + 2"
      using prog etxnd by (simp add: tx_frame_def tx_programmed_def)
    then show "length (tx_frame c) = length ?frame" using n by simp
    fix i assume "i < length (tx_frame c)"
    with len have i: "i < unat n + 2" by simp
    then have addr: "unat (29 + of_nat i :: u16) = 29 + i" using n by (simp add: unat_word_ariths unat_of_nat)
    have last: "29 + of_nat i = (30 + n :: u16)" if "i = unat n + 1" using that by simp
    have "tx_frame c ! i = chip_mem c (29 + of_nat i)"
      using i prog etxnd by (simp add: tx_frame_def tx_programmed_def del: upt_Suc)
    also have "\<dots> = ?frame ! i"
    proof (cases "i = unat n + 1")
      case True
      then show ?thesis using last [OF True] n unfolding mem addr by (simp add: nth_Cons' nth_append)
    next
      case False
      then show ?thesis using i n unfolding mem addr by (auto simp: nth_Cons' nth_append)
    qed
    finally show "tx_frame c ! i = ?frame ! i" .
  qed
  assume "ENC28_CONF_RX_ADDRESS_START \<le> a"
  then have "2000 \<le> unat a" by (simp add: word_le_nat_alt)
  with n show "chip_mem c a = chip_mem c1 a" unfolding mem by simp
qed

section \<open>Properties\<close>

text \<open>
  C10: When \<^verbatim>\<open>enc28_do_init\<close> returns, it returns \<open>ENC28_OK\<close> and the chip is configured: the receive buffer
  from \<^verbatim>\<open>0x7D0\<close> to \<^verbatim>\<open>0x1EFF\<close>, the receive filter, the maximum frame length, the inter-packet gaps of one duplex mode and the
  MAC address as given, bank 0 selected; the buffer memory is as before. \<^verbatim>\<open>MACON1\<close>, \<^verbatim>\<open>MACON3\<close> and \<^verbatim>\<open>MACON4\<close> hold what
  a bit field set instruction makes of them, whatever that is for a MAC register, with the masks \<^verbatim>\<open>0x0D\<close>, \<^verbatim>\<open>0xF3\<close> or \<^verbatim>\<open>0xF2\<close> by the
  same duplex mode, and \<^verbatim>\<open>0x10\<close>.
\<close>

theorem init_configures_chip:
  assumes "enc28_do_init mac (Some (bus_ctx d)) s = Some (Ret (st, s'))"
  shows "\<exists>ts. recorded s s' ts \<and> st = ENC28_OK \<and> priv_enc28_curr_bank s' = 0 \<and>
           init_done mac (chip_run c0 ts) \<and> init_mac c0 (chip_run c0 ts)"
  using tripleD [OF triple_init refl refl assms] .

theorem init_configures_chip_witness:
  "\<exists>s' ts. enc28_do_init \<lparr>addr0 = 1, addr1 = 2, addr2 = 3, addr3 = 4, addr4 = 5, addr5 = 6\<rparr>
       (Some (bus_ctx ready_device)) \<lparr>priv_enc28_curr_bank = 3, world = []\<rparr> = Some (Ret (ENC28_OK, s')) \<and>
     recorded \<lparr>priv_enc28_curr_bank = 3, world = []\<rparr> s' ts \<and> priv_enc28_curr_bank s' = 0 \<and>
     init_done \<lparr>addr0 = 1, addr1 = 2, addr2 = 3, addr3 = 4, addr4 = 5, addr5 = 6\<rparr> (chip_run chip_example ts) \<and>
     init_mac chip_example (chip_run chip_example ts)"
proof -
  obtain s' where run: "enc28_do_init \<lparr>addr0 = 1, addr1 = 2, addr2 = 3, addr3 = 4, addr4 = 5, addr5 = 6\<rparr>
      (Some (bus_ctx ready_device)) \<lparr>priv_enc28_curr_bank = 3, world = []\<rparr> = Some (Ret (ENC28_OK, s'))"
    using init_on_ready_device by blast
  with init_configures_chip [OF run, of chip_example] show ?thesis by blast
qed

text \<open>
  \<^verbatim>\<open>enc28_begin_packet_transfer\<close> points \<^verbatim>\<open>ERDPT\<close> at the start of the receive buffer, turns on
  auto-increment, reception and the packet and error interrupts, clears a pending receive error and
  leaves the receive buffer as it was; \<^verbatim>\<open>enc28_end_packet_transfer\<close> turns reception off and moves no pointer.
\<close>

theorem transfer_starts_and_stops:
  assumes "enc28_begin_packet_transfer (Some (bus_ctx d)) s = Some (Ret (st, s'))"
    and "enc28_end_packet_transfer (Some (bus_ctx d)) s' = Some (Ret (st', s''))"
  shows "\<exists>ts ts'. recorded s s' ts \<and> st = ENC28_OK \<and> rx_started c0 (chip_run c0 ts) \<and>
           recorded s' s'' ts' \<and> st' = ENC28_OK \<and>
           (let c = chip_run c0 ts; c' = chip_run c ts' in
              chip_bank c' = 0 \<and> \<not> bit (get_reg c' 0 ENC28_CR_ECON1) ENC28_ECON1_RXEN \<and>
              ERDPT c' = ERDPT c \<and> ERXRDPT c' = ERXRDPT c \<and> chip_mem c' = chip_mem c)"
proof -
  from tripleD [OF triple_begin refl refl assms(1)] obtain ts
    where "recorded s s' ts" "st = ENC28_OK" "rx_started c0 (chip_run c0 ts)" by blast
  with tripleD [OF triple_end refl refl assms(2), of "chip_run c0 ts"] show ?thesis
    unfolding Let_def by blast
qed

theorem transfer_starts_and_stops_witness:
  "\<exists>s' s''. enc28_begin_packet_transfer (Some (bus_ctx ready_device)) bus_start = Some (Ret (ENC28_OK, s')) \<and>
     enc28_end_packet_transfer (Some (bus_ctx ready_device)) s' = Some (Ret (ENC28_OK, s'')) \<and>
     (\<exists>ts. recorded bus_start s' ts \<and> rx_started chip_example (chip_run chip_example ts))"
proof -
  obtain s' where run: "enc28_begin_packet_transfer (Some (bus_ctx ready_device)) bus_start = Some (Ret (ENC28_OK, s'))"
    by (simp add: run_simps bus_simps enc28_begin_packet_transfer_def cong: run_congs)
  obtain s'' where run': "enc28_end_packet_transfer (Some (bus_ctx ready_device)) s' = Some (Ret (ENC28_OK, s''))"
    by (simp add: run_simps bus_simps enc28_end_packet_transfer_def cong: run_congs)
  show ?thesis using run run' transfer_starts_and_stops [OF run run', of chip_example] by blast
qed

text \<open>
  C9: A packet of at most 1969 bytes that \<^verbatim>\<open>enc28_write_packet\<close> accepts is queued with a zero control byte
  at \<^verbatim>\<open>ETXST\<close> and transmission requested; nothing of the receive buffer or its pointers changes. The
  range \<^verbatim>\<open>ETXST\<close> to \<^verbatim>\<open>ETXND\<close> is one byte longer than the frame: the chip also sends the byte of
  buffer memory behind it. A packet it does not accept leaves the chip alone: shorter than 14 bytes, or with a
  transmission in progress.
\<close>

theorem write_packet_queues_frame:
  assumes "enc28_write_packet (Some (bus_ctx d)) (Some buf) n s = Some (Ret (st, s'))"
    and "unat n \<le> length buf" and "unat n \<le> 1969"
  shows "\<exists>ts. recorded s s' ts \<and>
           (let c = chip_run c0 ts in
            if st = ENC28_OK
            then n \<ge> 14 \<and> priv_enc28_curr_bank s' = 0 \<and>
              tx_frame c = 0 # take (unat n) buf @ [chip_mem c0 (30 + n)] \<and>
              bit (get_reg c 0 ENC28_CR_ECON1) ENC28_ECON1_TXRTS \<and>
              (\<forall>a \<ge> ENC28_CONF_RX_ADDRESS_START. chip_mem c a = chip_mem c0 a) \<and>
              ERXST c = ERXST c0 \<and> ERXND c = ERXND c0 \<and> ERXRDPT c = ERXRDPT c0 \<and> ERDPT c = ERDPT c0
            else c = c0 \<and> st = (if n < 14 then ENC28_INVALID_PARAM else ENC28_PACKET_TX_IN_PROGRESS))"
proof -
  from tripleD [OF triple_write_packet refl refl assms(1)] obtain ts where "recorded s s' ts"
    and "if st = ENC28_OK then priv_enc28_curr_bank s' = 0 \<and> \<not> n < 14 \<and> tx_programmed buf n c0 (chip_run c0 ts)
         else chip_run c0 ts = c0 \<and> st = (if n < 14 then ENC28_INVALID_PARAM else ENC28_PACKET_TX_IN_PROGRESS)"
    by blast
  with tx_programmed_frame [OF _ assms(2,3), of c0 "chip_run c0 ts"] show ?thesis
    unfolding Let_def by (intro exI [of _ ts]) (auto simp: tx_programmed_def)
qed

theorem write_packet_queues_frame_witness:
  "\<exists>s' ts. enc28_write_packet (Some (bus_ctx ready_device)) (Some (replicate 14 0xAB)) 14 bus_start
       = Some (Ret (ENC28_OK, s')) \<and>
     recorded bus_start s' ts \<and> tx_frame (chip_run chip_example ts) = 0 # replicate 14 0xAB @ [0xEE]"
proof -
  obtain s' where run: "enc28_write_packet (Some (bus_ctx ready_device)) (Some (replicate 14 0xAB)) 14 bus_start
      = Some (Ret (ENC28_OK, s'))"
    by (simp add: run_simps bus_simps device_simps ready_device_def enc28_write_packet_def
        packet_window_folds Let_def cong: run_congs)
  with write_packet_queues_frame [OF run, of chip_example] show ?thesis by (auto simp: Let_def chip_example_def)
qed

end
