(* ===== verification/Enc28_Serve.thy ===== *)
theory Enc28_Serve
  imports Enc28_Effects
begin

text \<open>
  A device that answers as the chip does. \<open>served_chip\<close> is the contract between the device on the other side
  of the bus and the chip of \<open>Enc28_Chip\<close>: register reads and buffer memory reads return the contents
  the recorded instructions have led to, except for registers the hardware changes on its own
  (\<open>vol\<close>) and memory it may write meanwhile (outside \<open>keeps\<close>). Of a register
  read of any length the contents are the byte after the dummy bytes of the register map; nothing is said of the dummy bytes, and nothing of
  addresses without a register. On such a device the values the driver
  returns can be stated.
\<close>

section \<open>The contract\<close>

definition rx_addr :: "enc28_chip \<Rightarrow> nat \<Rightarrow> u16" where
  "rx_addr c i = (if autoinc c then (rx_next c ^^ i) (ERDPT c) else ERDPT c)"

lemma mem_read_addr: "mem_read c n = map (\<lambda>i. chip_mem c (rx_addr c i)) [0..<n]"
  by (simp add: mem_read_def rx_addr_def)

lemma length_mem_read [simp]: "length (mem_read c n) = n"
  by (simp add: mem_read_def)

locale served_chip =
  fixes d :: bus_device and c0 :: enc28_chip and tr0 :: "bus_event list"
    and vol :: "u8 \<Rightarrow> u8 \<Rightarrow> bool" and keeps :: "u16 \<Rightarrow> bool"
  assumes reg_answer: "spi_parse None es = Some ts \<Longrightarrow> c = chip_run c0 ts \<Longrightarrow>
      dummy_bytes (register_map (chip_bank c) r) = Some k \<Longrightarrow> k < n \<Longrightarrow> \<not> vol (reg_bank (chip_bank c) r) r \<Longrightarrow>
      rcr_answer d (tr0 @ es) r n ! k = get_reg c (chip_bank c) r"
    and mem_answer: "spi_parse None es = Some ts \<Longrightarrow> c = chip_run c0 ts \<Longrightarrow> \<forall>i<n. keeps (rx_addr c i) \<Longrightarrow>
      fit n (in_answer d (tr0 @ es @ [NSS 0, OUT [0x3A]]) n) = mem_read c n"
    and mem_answer_full: "spi_parse None es = Some ts \<Longrightarrow> c = chip_run c0 ts \<Longrightarrow>
      \<forall>i<length tx. keeps (rx_addr c i) \<Longrightarrow>
      tl (fit (Suc (length tx)) (in_out_answer d (tr0 @ es @ [NSS 0]) (0x3A # tx))) = mem_read c (length tx)"
begin

lemma triple_read:
  assumes "r < 0x1A \<or> r \<in> {0x1B, 0x1C, 0x1D, 0x1E, 0x1F}"
  shows "triple c0 tr0 (\<lambda>c b. b = chip_bank c \<and> register_map b r \<noteq> No_register \<and> \<not> vol (reg_bank b r) r \<and> Q (ENC28_OK, get_reg c b r) c b)
    (read_ctl_local (Some (bus_ctx d)) r v0) Q"
  unfolding triple_def
proof (intro allI impI, elim conjE)
  have r: "r < 0x20" "r \<noteq> 0x1A" using assms by (auto simp: word_less_nat_alt)
  fix s c a s'
  assume at: "at_chip c0 tr0 s c" and b: "priv_enc28_curr_bank s = chip_bank c"
    and vol: "\<not> vol (reg_bank (priv_enc28_curr_bank s) r) r" and map: "register_map (priv_enc28_curr_bank s) r \<noteq> No_register"
    and Q: "Q (ENC28_OK, get_reg c (priv_enc28_curr_bank s) r) c (priv_enc28_curr_bank s)"
    and run: "read_ctl_local (Some (bus_ctx d)) r v0 s = Some (Ret (a, s'))"
  from at obtain es ts where w: "world s = tr0 @ es" "spi_parse None es = Some ts" "c = chip_run c0 ts"
    unfolding at_chip_def by blast
  let ?bs = "rcr_answer d (world s) r (rcr_len (priv_enc28_curr_bank s) r)"
  from map obtain k where k: "dummy_bytes (register_map (priv_enc28_curr_bank s) r) = Some k"
    by (cases "register_map (priv_enc28_curr_bank s) r") auto
  with reg_answer [OF w(2,3), of r k "Suc k"] vol b w(1) have "?bs ! k = get_reg c (priv_enc28_curr_bank s) r"
    by (simp add: rcr_len_matches)
  moreover have "last ?bs = ?bs ! k"
    by (subst last_conv_nth) (simp_all add: rcr_len_matches [OF k] rcr_answer_Nil_iff length_rcr_answer)
  ultimately have "last ?bs = get_reg c (priv_enc28_curr_bank s) r" by simp
  with run have a: "a = (ENC28_OK, get_reg c (priv_enc28_curr_bank s) r)" "s' = push_events (ev_rcr r ?bs) s"
    using r by (simp_all add: bus_read_local [OF _ refl])
  have "at_chip c0 tr0 s' c"
    using at_chip_events [OF at bus_read_events [OF r]] a(2) by simp
  with Q a show "\<exists>c'. at_chip c0 tr0 s' c' \<and> Q a c' (priv_enc28_curr_bank s')" by auto
qed

lemma triple_rbm_header:
  assumes "length rx = Suc (length tx)"
  shows "triple c0 tr0
    (\<lambda>c b. (\<forall>i<length tx. keeps (rx_addr c i)) \<and>
       (\<forall>x. Q (x # mem_read c (length tx)) (chip_txn (RBM (mem_read c (length tx))) c) b))
    (rbm_header_window (bus_ctx d) (0x3A # tx) rx) Q"
  unfolding triple_def
proof (intro allI impI, elim conjE)
  fix s c a s'
  assume at: "at_chip c0 tr0 s c" and keeps: "\<forall>i<length tx. keeps (rx_addr c i)"
    and Q: "\<forall>x. Q (x # mem_read c (length tx)) (chip_txn (RBM (mem_read c (length tx))) c) (priv_enc28_curr_bank s)"
    and run: "rbm_header_window (bus_ctx d) (0x3A # tx) rx s = Some (Ret (a, s'))"
  let ?bs = "fit (length rx) (in_out_answer d (world s @ [NSS 0]) (0x3A # tx))"
  from at obtain es ts where w: "world s = tr0 @ es" "spi_parse None es = Some ts" "c = chip_run c0 ts"
    unfolding at_chip_def by blast
  have tl: "tl ?bs = mem_read c (length tx)"
    using mem_answer_full [OF w(2,3) keeps] w(1) assms by simp
  have "length ?bs = Suc (length tx)" by (simp add: assms)
  then obtain x where bs: "?bs = x # mem_read c (length tx)" using tl by (cases ?bs) auto
  from run have a: "a = ?bs" "s' = push_events (ev_rbm_header (0x3A # tx) ?bs) s"
    by (auto simp: bus_rbm_header [OF refl])
  have "at_chip c0 tr0 s' (chip_run c [RBM (tl ?bs)])"
    by (rule at_chip_events [OF at parse_ev_mem(2) [OF refl]]) (simp add: a(2))
  with Q a bs show "\<exists>c'. at_chip c0 tr0 s' c' \<and> Q a c' (priv_enc28_curr_bank s')"
    by (auto simp: tl)
qed

lemma triple_rbm_data:
  "triple c0 tr0
    (\<lambda>c b. n \<le> length buf \<and> (\<forall>i<n. keeps (rx_addr c i)) \<and>
       Q (Some (mem_read c n @ drop n buf)) (chip_txn (RBM (mem_read c n)) c) b)
    (rbm_data_window (bus_ctx d) (Some buf) n) Q"
  unfolding triple_def
proof (intro allI impI, elim conjE)
  fix s c a s'
  assume at: "at_chip c0 tr0 s c" and keeps: "\<forall>i<n. keeps (rx_addr c i)" and n: "n \<le> length buf"
    and Q: "Q (Some (mem_read c n @ drop n buf)) (chip_txn (RBM (mem_read c n)) c) (priv_enc28_curr_bank s)"
    and run: "rbm_data_window (bus_ctx d) (Some buf) n s = Some (Ret (a, s'))"
  from at obtain es ts where w: "world s = tr0 @ es" "spi_parse None es = Some ts" "c = chip_run c0 ts"
    unfolding at_chip_def by blast
  have bs: "fit n (in_answer d (world s @ [NSS 0, OUT [0x3A]]) n) = mem_read c n"
    using mem_answer [OF w(2,3) keeps] w(1) by simp
  from run n have a: "a = Some (mem_read c n @ drop n buf)" "s' = push_events (ev_rbm (mem_read c n)) s"
    by (simp_all add: bus_rbm_data bs Let_def)
  have "at_chip c0 tr0 s' (chip_run c [RBM (mem_read c n)])"
    by (rule at_chip_events [OF at parse_ev_mem(3)]) (simp add: a(2))
  with Q a show "\<exists>c'. at_chip c0 tr0 s' c' \<and> Q a c' (priv_enc28_curr_bank s')" by auto
qed

end

section \<open>The read pointer\<close>

lemma ptr_reg_masked: "ptr_reg c lo hi AND 0x1FFF = ptr_reg c lo hi"
proof -
  have "bit (ptr_reg c lo hi) n \<Longrightarrow> n < 13" for n
    by (auto simp: ptr_reg_def bit_bytes16 bit_and_iff bit_0x1F8 simp del: bit_numeral_word_iff split: if_splits)
  then show ?thesis
    unfolding and_0x1FFF by (intro bit_eqI) (auto simp: bit_take_bit_iff)
qed

lemma rx_next_masked: "a AND 0x1FFF = a \<Longrightarrow> rx_next c a AND 0x1FFF = rx_next c a"
  by (auto simp: rx_next_def ptr_reg_masked and.assoc)

lemma rx_addr_masked: "rx_addr c i AND 0x1FFF = rx_addr c i"
proof -
  have "(rx_next c ^^ i) (ERDPT c) AND 0x1FFF = (rx_next c ^^ i) (ERDPT c)"
    by (induction i) (simp_all add: rx_next_masked ptr_reg_masked)
  then show ?thesis by (simp add: rx_addr_def ptr_reg_masked)
qed

lemma rbm_simps:
  assumes "autoinc c"
  shows "ERDPT (chip_txn (RBM bs) c) = rx_addr c (length bs)"
    and "rx_addr (chip_txn (RBM bs) c) i = rx_addr c (length bs + i)"
    and "autoinc (chip_txn (RBM bs) c)"
proof -
  let ?c' = "chip_txn (RBM bs) c"
  have p: "ERDPT (set_ptr ENC28_CR_ERDPTL ENC28_CR_ERDPTH a c) = a AND 0x1FFF" for a
    by (simp add: ptr_reg_def get_reg_set_ptr bytes16_masked reg_bank_def)
  then show rd: "ERDPT ?c' = rx_addr c (length bs)"
    using assms rx_addr_masked [of c "length bs"] by (simp add: chip_txn.simps rx_addr_def)
  show ai: "autoinc ?c'" using assms by (simp add: autoinc_def buffer_txn_simps)
  have nx: "rx_next ?c' = rx_next c"
    by (rule ext) (simp add: rx_next_def ptr_reg_def buffer_txn_simps)
  have "rx_addr ?c' i = (rx_next c ^^ i) (rx_addr c (length bs))"
    by (simp add: rx_addr_def [of ?c'] ai rd nx)
  also have "\<dots> = rx_addr c (i + length bs)"
    using assms by (simp add: rx_addr_def funpow_add)
  finally show "rx_addr ?c' i = rx_addr c (length bs + i)" by (simp add: add.commute)
qed

lemma mem_read_rbm: "autoinc c \<Longrightarrow>
  mem_read (chip_txn (RBM bs) c) n = map (\<lambda>i. chip_mem c (rx_addr c (length bs + i))) [0..<n]"
  by (simp add: mem_read_addr rbm_simps buffer_txn_simps)

section \<open>Reading a packet\<close>

text \<open>
  The packet at the read pointer: six bytes of header (the address of the next packet, the length,
  two bytes of status bits), then the frame.
\<close>

definition rx_header :: "enc28_chip \<Rightarrow> u8 list" where
  "rx_header c = map (\<lambda>i. chip_mem c (rx_addr c i)) [0..<6]"

definition rx_next_packet :: "enc28_chip \<Rightarrow> u16" where
  "rx_next_packet c = rx_read_ptr (rx_header c ! 0) (rx_header c ! 1)"

definition rx_len :: "enc28_chip \<Rightarrow> u16" where
  "rx_len c = bytes16 (rx_header c ! 3) (rx_header c ! 2)"

definition rx_ok :: "enc28_chip \<Rightarrow> bool" where
  "rx_ok c \<longleftrightarrow> bit (rx_header c ! 4) 7"

definition rx_frame :: "enc28_chip \<Rightarrow> u8 list" where
  "rx_frame c = map (\<lambda>i. chip_mem c (rx_addr c (6 + i))) [0..<unat (rx_len c)]"

text \<open>The chip after the packet has been copied out and given back.\<close>

definition rx_released :: "enc28_chip \<Rightarrow> enc28_chip \<Rightarrow> bool" where
  "rx_released c1 c \<longleftrightarrow>
     chip_bank c = 0 \<and> ERDPT c = rx_next_packet c1 \<and> ERXRDPT c = rx_release_ptr (rx_next_packet c1) \<and>
     bit (get_reg c 0 ENC28_CR_ECON2) ENC28_ECON2_PKTDEC \<and>
     autoinc c \<and> ERXST c = ERXST c1 \<and> ERXND c = ERXND c1 \<and> chip_mem c = chip_mem c1 \<and>
     get_reg c 0 ENC28_CR_EIR = get_reg c1 0 ENC28_CR_EIR"

text \<open>The chip after a packet was looked at and not taken: only the read pointer has moved, past the header.\<close>

definition rx_skipped_header :: "enc28_chip \<Rightarrow> enc28_chip \<Rightarrow> bool" where
  "rx_skipped_header c1 c \<longleftrightarrow>
     chip_bank c = 0 \<and> ERDPT c = rx_addr c1 6 \<and> ERXRDPT c = ERXRDPT c1 \<and>
     get_reg c 0 ENC28_CR_ECON2 = get_reg c1 0 ENC28_CR_ECON2 \<and> chip_mem c = chip_mem c1"

lemma rx_addr_econ1:
  "rx_addr (set_reg ENC28_CR_ECON1 v c) = rx_addr c"
  "autoinc (set_reg ENC28_CR_ECON1 v c) = autoinc c"
  "mem_read (set_reg ENC28_CR_ECON1 v c) n = mem_read c n"
proof -
  have *: "get_reg (set_reg ENC28_CR_ECON1 v c) b r = get_reg c b r" if "r \<noteq> ENC28_CR_ECON1" for b r
    using that by (simp add: get_reg_set_reg)
  then show a: "autoinc (set_reg ENC28_CR_ECON1 v c) = autoinc c" by (simp add: autoinc_def)
  have nx: "rx_next (set_reg ENC28_CR_ECON1 v c) = rx_next c"
    by (rule ext) (simp add: rx_next_def ptr_reg_def *)
  show r: "rx_addr (set_reg ENC28_CR_ECON1 v c) = rx_addr c"
    by (rule ext) (simp add: rx_addr_def a nx ptr_reg_def *)
  show "mem_read (set_reg ENC28_CR_ECON1 v c) n = mem_read c n"
    by (simp add: mem_read_addr r)
qed

lemma length_rx_header [simp]: "length (rx_header c) = 6"
  by (simp add: rx_header_def)

lemma rx_header_mem_read: "mem_read c 6 = rx_header c"
  by (simp add: mem_read_addr rx_header_def)

lemma rsv_of_rx_header:
  "received_ok (status_bits_lo (rsv_of_header (x # rx_header c))) = rx_ok c"
  "rsv_packet_len (rsv_of_header (x # rx_header c)) = rx_len c"
  by (simp_all add: rsv_of_header_def rsv_packet_len_def rsv_bits_16_23_of_byte_def rx_ok_def rx_len_def)

lemma rx_econ1:
  "rx_header (set_reg ENC28_CR_ECON1 v c) = rx_header c" "rx_len (set_reg ENC28_CR_ECON1 v c) = rx_len c"
  "rx_ok (set_reg ENC28_CR_ECON1 v c) = rx_ok c"
  by (simp_all add: rx_len_def rx_ok_def rx_header_def rx_addr_econ1)

lemma rx_read_ptr_ERDPT: "rx_read_ptr (get_reg c 0 ENC28_CR_ERDPTL) (get_reg c 0 ENC28_CR_ERDPTH) = ERDPT c"
  by (simp add: rx_read_ptr_def ptr_reg_def)

lemma skipped_header:
  assumes "autoinc c"
  shows "rx_skipped_header c (chip_txn (RBM (rx_header c)) (set_reg ENC28_CR_ECON1 (bank_select_value v 0) c))"
  using assms by (simp add: rx_skipped_header_def rbm_simps rx_addr_econ1 buffer_txn_simps chip_bank_set_reg
      bank_select_value_AND3) (simp add: chip_simps)

lemma mem_read_after_header:
  assumes "autoinc c"
  shows "mem_read (chip_txn (RBM (rx_header c)) (set_reg ENC28_CR_ECON1 v c)) (unat (rx_len c)) = rx_frame c"
    and "rx_addr (chip_txn (RBM (rx_header c)) (set_reg ENC28_CR_ECON1 v c)) i = rx_addr c (6 + i)"
  using assms by (simp_all add: mem_read_rbm rbm_simps rx_addr_econ1 rx_frame_def)

lemma econ1_irrelevant:
  "ptr_reg (set_reg ENC28_CR_ECON1 v c) lo hi
     = (if lo \<noteq> ENC28_CR_ECON1 \<and> hi \<noteq> ENC28_CR_ECON1 then ptr_reg c lo hi else ptr_reg (set_reg ENC28_CR_ECON1 v c) lo hi)"
  "get_reg c (chip_bank c) ENC28_CR_EIR = get_reg c 0 ENC28_CR_EIR"
  by (simp_all add: ptr_reg_def get_reg_set_reg) (simp add: get_reg_def reg_bank_def)

text \<open>The release pointer the errata demands lies in the receive buffer, and it is odd for an even packet address.\<close>

lemma rx_release_ptr_range:
  "ENC28_CONF_RX_ADDRESS_START \<le> rx_release_ptr w \<and> rx_release_ptr w \<le> ENC28_CONF_RX_ADDRESS_END"
proof (cases "uint w - 1 > uint ENC28_CONF_RX_ADDRESS_END \<or> uint w - 1 < uint ENC28_CONF_RX_ADDRESS_START")
  case True then show ?thesis by (simp add: rx_release_ptr_def)
next
  case False
  have u: "uint w = int (unat w)" by simp
  from False have "2001 \<le> uint w" "uint w \<le> 7936" by simp_all
  with u have "2001 \<le> unat w" "unat w \<le> 7936" by linarith+
  moreover have "unat (w - 1) = unat w - 1"
    using \<open>2001 \<le> unat w\<close> by (intro unat_minus_one) auto
  ultimately have "2000 \<le> unat (w - 1) \<and> unat (w - 1) \<le> 7935" by linarith
  then show ?thesis using False by (simp add: rx_release_ptr_def word_le_nat_alt)
qed

lemma rx_release_ptr_masked: "rx_release_ptr w AND 0x1FFF = rx_release_ptr w"
proof -
  have "unat (rx_release_ptr w) < 8192" using rx_release_ptr_range [of w] by (simp add: word_le_nat_alt)
  then have "unat (rx_release_ptr w AND 0x1FFF) = unat (rx_release_ptr w)" by (simp add: unat_and_0x1FFF)
  then show ?thesis by (rule unsigned_word_eqI)
qed

lemma released:
  assumes "autoinc c"
  shows "rx_released c
    (chip_txn (BFS ENC28_CR_ECON2 (BIT ENC28_ECON2_PKTDEC))
      (set_reg ENC28_CR_ERXRDPTH (hi8 (rx_release_ptr (bytes16 (rx_header c ! 1 AND 0x1F) (rx_header c ! 0))) AND 0x1F)
        (set_reg ENC28_CR_ERXRDPTL (lo8 (rx_release_ptr (bytes16 (rx_header c ! 1 AND 0x1F) (rx_header c ! 0))))
          (set_reg ENC28_CR_ERDPTH (rx_header c ! 1) (set_reg ENC28_CR_ERDPTL (rx_header c ! 0)
            (chip_txn (RBM (rx_frame c)) (chip_txn (RBM (rx_header c))
              (set_reg ENC28_CR_ECON1 (bank_select_value v 0) c))))))))"
  using assms
  by (simp add: rx_released_def rx_next_packet_def rx_read_ptr_def chip_simps bytes16_masked
      rx_release_ptr_masked chip_bits del: bit_numeral_word_iff)

context served_chip
begin

lemma triple_header6:
  "triple c0 tr0
    (\<lambda>c b. (\<forall>i<6. keeps (rx_addr c i)) \<and>
       (\<forall>x. Q (x # rx_header c) (chip_txn (RBM (rx_header c)) c) b))
    (rbm_header_window (bus_ctx d) [0x3A, 0, 0, 0, 0, 0, 0] [0, 0, 0, 0, 0, 0, 0]) Q"
proof -
  have l: "length [0, 0, 0, 0, 0, 0 :: u8] = 6" by simp
  show ?thesis
    using triple_rbm_header [of "[0, 0, 0, 0, 0, 0, 0]" "[0, 0, 0, 0, 0, 0]" Q, unfolded l rx_header_mem_read]
    by simp
qed

lemmas served_rules = triple_read triple_header6 triple_rbm_data wp_rules triple_select_any

lemma triple_read_packet:
  "triple c0 tr0
    (\<lambda>c b. c = c1 \<and> b = chip_bank c1 \<and> autoinc c1 \<and> bit (get_reg c1 0 ENC28_CR_EIR) ENC28_EIR_PKTIF \<and>
       \<not> vol 0 ENC28_CR_EIR \<and> \<not> vol 0 ENC28_CR_ERDPTL \<and> \<not> vol 0 ENC28_CR_ERDPTH \<and>
       ENC28_CONF_RX_ADDRESS_START \<le> ERDPT c1 \<and> ERDPT c1 \<le> ENC28_CONF_RX_ADDRESS_END \<and>
       (\<forall>i < 6 + unat (rx_len c1). keeps (rx_addr c1 i)) \<and> unat n \<le> length buf)
    (enc28_read_packet (Some (bus_ctx d)) (Some buf) n vec)
    (\<lambda>(st, pb, vec') c b. b = 0 \<and> map_option rsv_packet_len vec' = map_option (\<lambda>_. rx_len c1) vec \<and>
       (if \<not> rx_ok c1 then st = ENC28_PACKET_RCV_ERR \<and> pb = Some buf \<and> rx_skipped_header c1 c
        else if rx_len c1 > n then st = ENC28_BUFFER_TOO_SMALL \<and> pb = Some buf \<and> rx_skipped_header c1 c
        else st = ENC28_OK \<and> pb = Some (rx_frame c1 @ drop (unat (rx_len c1)) buf) \<and> rx_released c1 c))"
  unfolding enc28_read_packet_def read_packet_pending_def read_packet_release_def body_simps packet_window_folds
  apply (rule triple_pre)
   apply (rule served_rules | (simp; fail))+
  apply (elim conjE)
  apply (simp add: option.map_comp comp_def and_BIT_iff reg_bank_const rsv_of_rx_header rx_econ1 rx_addr_econ1
      skipped_header mem_read_after_header chip_bank_set_reg rx_read_ptr_ERDPT bank_select_value_AND3 not_less[symmetric] released [simplified])
  apply (simp add: econ1_irrelevant cong: conj_cong)
  apply (simp add: not_less word_le_nat_alt)
  done

end

end
