(* ===== verification/Enc28_Receive.thy ===== *)
theory Enc28_Receive
  imports Enc28_Serve
begin

text \<open>
  Receiving on a device that answers as the chip does: what one call of \<^verbatim>\<open>enc28_read_packet\<close> returns and
  leaves behind on each branch, a queue of packets read to its end, and the MAC address read back. The
  contract of \<open>Enc28_Serve\<close> is interpreted on a device that simulates the chip.
\<close>

section \<open>A device that simulates the chip\<close>

definition chip_after :: "enc28_chip \<Rightarrow> bus_event list \<Rightarrow> enc28_chip" where
  "chip_after c tr = (case spi_parse None tr of None \<Rightarrow> c | Some ts \<Rightarrow> chip_run c ts)"

definition chip_device :: "enc28_chip \<Rightarrow> bus_device" where
  "chip_device c0 =
     \<lparr>in_answer = (\<lambda>tr n.
        let c = chip_after c0 (take (length tr - 2) tr) in
        case last tr of
          OUT (cmd # _) \<Rightarrow> if cmd = 0x3A then mem_read c n
            else (case dummy_bytes (register_map (chip_bank c) (cmd AND 0x1F)) of
                None \<Rightarrow> []
              | Some k \<Rightarrow> replicate k 0xFF @ replicate (n - k) (get_reg c (chip_bank c) (cmd AND 0x1F)))
        | _ \<Rightarrow> []),
      in_out_answer = (\<lambda>tr tx. 0 # mem_read (chip_after c0 (take (length tr - 1) tr)) (length tx - 1))\<rparr>"

interpretation sim: served_chip "chip_device c" c "[]" "\<lambda>_ _. False" "\<lambda>_. True" for c
proof (unfold_locales, goal_cases)
  case (1 es ts c1 r k n)
  then have c1: "chip_after c es = c1" by (simp add: chip_after_def)
  have r: "r < 0x20" "r \<noteq> 0x1A"
    using 1(3) by (auto simp: register_map_def word_less_nat_alt word_le_nat_alt split: if_splits)
  have "spi_command_byte 0 r \<noteq> 0x3A"
    using spi_command_byte_not_fixed(1) [OF _ reg_arg_ok] r by simp
  with c1 have "in_answer (chip_device c) (es @ [NSS 0, OUT [spi_command_byte 0 r]]) n
      = replicate k 0xFF @ replicate (n - k) (get_reg c1 (chip_bank c1) r)"
    using 1(3) r by (simp add: chip_device_def Let_def spi_command_byte_arg reg_arg)
  then show ?case using 1(4) by (simp add: rcr_answer_def fit_eq_self nth_append)
next
  case (2 es ts c1 n)
  then have "chip_after c es = c1" by (simp add: chip_after_def)
  then show ?case by (simp add: chip_device_def Let_def fit_eq_self)
next
  case (3 es ts c1 tx)
  then have "chip_after c es = c1" by (simp add: chip_after_def)
  then show ?case by (simp add: chip_device_def Let_def fit_eq_self)
qed

text \<open>The contract still holds of the recording and the chip a call leaves.\<close>

context served_chip
begin

lemma later:
  assumes "spi_parse None es = Some ts"
  shows "served_chip d (chip_run c0 ts) (tr0 @ es) vol keeps"
proof (unfold_locales, goal_cases)
  case (1 es' ts' c r k n)
  then show ?case using reg_answer [of "es @ es'" "ts @ ts'" c r k n] assms
    by (simp add: spi_parse_append)
next
  case (2 es' ts' c n)
  then show ?case using mem_answer [of "es @ es'" "ts @ ts'" c n] assms
    by (simp add: spi_parse_append)
next
  case (3 es' ts' c tx)
  then show ?case using mem_answer_full [of "es @ es'" "ts @ ts'" c tx] assms
    by (simp add: spi_parse_append)
qed

end

lemma served_chip_recorded:
  assumes "served_chip d c0 (world s) vol keeps" and "recorded s s' ts"
  shows "served_chip d (chip_run c0 ts) (world s') vol keeps"
  using assms served_chip.later unfolding recorded_def by metis

section \<open>Reading always returns\<close>

text \<open>
  On any device a read into a buffer of the announced size returns: it does not loop, and writes nothing
  outside the buffer.
\<close>

definition returns :: "('a, 'w) cmd \<Rightarrow> bool" where
  "returns m \<longleftrightarrow> (\<forall>s. \<exists>r. m s = Some (Ret r))"

named_theorems returns_intros

lemma returns_returnM [returns_intros]: "returns (returnM a)"
  by (simp add: returns_def returnM_def)

lemma returns_bindM [returns_intros]: "returns m \<Longrightarrow> (\<And>a. returns (f a)) \<Longrightarrow> returns (bindM m f)"
  unfolding returns_def bindM_def by (metis after_simps(3) case_prod_conv old.prod.exhaust)

lemma returns_exit [returns_intros]: "returns k \<Longrightarrow> (\<And>st. returns (r st)) \<Longrightarrow> returns (exit_if_err st r k)"
  by (simp add: exit_if_err_def)

lemma returns_then_ok [returns_intros]: "returns m \<Longrightarrow> returns k \<Longrightarrow> returns (then_ok m k)"
  unfolding then_ok_def by (intro returns_intros)

lemma returns_if [returns_intros]: "(b \<Longrightarrow> returns m) \<Longrightarrow> (\<not> b \<Longrightarrow> returns m') \<Longrightarrow> returns (if b then m else m')"
  by simp

lemma returns_case_prod [returns_intros]: "(\<And>a b. returns (f a b)) \<Longrightarrow> returns (case_prod f p)"
  by (cases p) simp

lemma returns_windows [returns_intros]:
  "returns (enc28_do_write_ctl_reg (Some (bus_ctx d)) r v)"
  "returns (enc28_do_set_bits_ctl_reg (Some (bus_ctx d)) r v)"
  "returns (enc28_do_clear_bits_ctl_reg (Some (bus_ctx d)) r v)"
  "returns (enc28_select_register_bank (Some (bus_ctx d)) b)"
  "returns (rbm_header_window (bus_ctx d) tx rx)"
  "n \<le> length buf \<Longrightarrow> returns (rbm_data_window (bus_ctx d) (Some buf) n)"
  "n \<le> length buf \<Longrightarrow> returns (wbm_window (bus_ctx d) buf n)"
  by (cases "b < 4"; simp add: returns_def bus_simps Let_def bus_rbm_header [OF refl])+

lemma returns_read [returns_intros]: "returns (read_ctl_local (Some (bus_ctx d)) r v)"
  by (cases "r = 0x1A")
    (simp_all add: returns_def bus_simps read_ctl_local_def bindM_def bus_read_reserved returnM_def)

lemma returns_read_packet:
  assumes "unat n \<le> length buf"
  shows "returns (enc28_read_packet (Some (bus_ctx d)) (Some buf) n vec)"
proof -
  have "len \<le> n \<Longrightarrow> unat len \<le> length buf" for len :: u16
    using assms by (simp add: word_le_nat_alt)
  then show ?thesis
    unfolding enc28_read_packet_def read_packet_pending_def read_packet_release_def body_simps packet_window_folds
    by (intro returns_intros) (simp add: not_less)
qed

lemma returnsE:
  assumes "returns m"
  obtains a s' where "m s = Some (Ret (a, s'))"
  using assms unfolding returns_def by (metis old.prod.exhaust)

text \<open>What every result satisfies.\<close>

definition yields :: "('a \<Rightarrow> bool) \<Rightarrow> ('a, 'w) cmd \<Rightarrow> bool" where
  "yields P m \<longleftrightarrow> (\<forall>s a s'. m s = Some (Ret (a, s')) \<longrightarrow> P a)"

lemma yieldsD: "yields P m \<Longrightarrow> m s = Some (Ret (a, s')) \<Longrightarrow> P a"
  unfolding yields_def by blast

named_theorems yields_intros

lemma yields_returnM [yields_intros]: "P a \<Longrightarrow> yields P (returnM a)"
  by (simp add: yields_def returnM_def)

lemma yields_bindM: "yields Q m \<Longrightarrow> (\<And>a. Q a \<Longrightarrow> yields P (f a)) \<Longrightarrow> yields P (bindM m f)"
  unfolding yields_def bindM_eq_Ret by metis

lemma yields_bindM_any [yields_intros]: "(\<And>a. yields P (f a)) \<Longrightarrow> yields P (bindM m f)"
  unfolding yields_def bindM_eq_Ret by metis

lemma yields_exit [yields_intros]:
  "yields P k \<Longrightarrow> (st \<noteq> ENC28_OK \<Longrightarrow> yields P (r st)) \<Longrightarrow> yields P (exit_if_err st r k)"
  by (simp add: exit_if_err_def)

lemma yields_if [yields_intros]: "(b \<Longrightarrow> yields P m) \<Longrightarrow> (\<not> b \<Longrightarrow> yields P m') \<Longrightarrow> yields P (if b then m else m')"
  by simp

lemma yields_case_prod [yields_intros]: "(\<And>a b. yields P (f a b)) \<Longrightarrow> yields P (case_prod f p)"
  by (cases p) simp

lemma yields_rbm_data:
  assumes "n \<le> length buf"
  shows "yields (\<lambda>pb. \<exists>bs. length bs = n \<and> pb = Some (bs @ drop n buf)) (rbm_data_window (bus_ctx d) (Some buf) n)"
  using assms by (auto simp: yields_def bus_rbm_data Let_def)

lemma yields_release: "yields (\<lambda>st. st = ENC28_OK) (read_packet_release (Some (bus_ctx d)) hdr)"
  unfolding yields_def read_packet_release_def
  by (simp add: run_simps bus_simps Let_def cong: run_congs)

lemma yields_tail:
  assumes "unat len \<le> length buf" and "len \<le> n" and "unat n \<le> length buf"
  shows "yields (\<lambda>(st, pb, vec'). \<exists>buf'. pb = Some buf' \<and> length buf' = length buf \<and>
      drop (unat n) buf' = drop (unat n) buf \<and> (st \<noteq> ENC28_OK \<longrightarrow> buf' = buf))
    (bindM (rbm_data_window (bus_ctx d) (Some buf) (unat len)) (\<lambda>pb.
     bindM (read_packet_release (Some (bus_ctx d)) hdr) (\<lambda>st. returnM (st, pb, vec'))))"
proof (rule yields_bindM [OF yields_rbm_data [OF assms(1)]])
  fix pb assume pb: "\<exists>bs. length bs = unat len \<and> pb = Some (bs @ drop (unat len) buf)"
  show "yields (\<lambda>(st, pb, vec'). \<exists>buf'. pb = Some buf' \<and> length buf' = length buf \<and>
      drop (unat n) buf' = drop (unat n) buf \<and> (st \<noteq> ENC28_OK \<longrightarrow> buf' = buf))
    (bindM (read_packet_release (Some (bus_ctx d)) hdr) (\<lambda>st. returnM (st, pb, vec')))"
    by (rule yields_bindM [OF yields_release])
      (use assms pb in \<open>auto simp: yields_def returnM_def word_le_nat_alt\<close>)
qed

lemma yields_read_packet:
  assumes "unat n \<le> length buf"
  shows "yields (\<lambda>(st, pb, vec'). \<exists>buf'. pb = Some buf' \<and> length buf' = length buf \<and>
      drop (unat n) buf' = drop (unat n) buf \<and> (st \<noteq> ENC28_OK \<longrightarrow> buf' = buf))
    (enc28_read_packet (Some (bus_ctx d)) (Some buf) n vec)"
  unfolding enc28_read_packet_def read_packet_pending_def body_simps packet_window_folds
  by (rule yields_tail | rule yields_intros | use assms in \<open>auto simp: not_less word_le_nat_alt\<close>)+

section \<open>A packet, and a queue of packets\<close>

text \<open>
  A packet is ready: the chip announces one, the read pointer is in the receive buffer, and the hardware
  leaves the packet, the pointer and the announcement alone while the driver works.
\<close>

definition packet_ready :: "(u8 \<Rightarrow> u8 \<Rightarrow> bool) \<Rightarrow> (u16 \<Rightarrow> bool) \<Rightarrow> enc28_chip \<Rightarrow> bool" where
  "packet_ready vol keeps c \<longleftrightarrow>
     autoinc c \<and> bit (get_reg c 0 ENC28_CR_EIR) ENC28_EIR_PKTIF \<and>
     \<not> vol 0 ENC28_CR_EIR \<and> \<not> vol 0 ENC28_CR_ERDPTL \<and> \<not> vol 0 ENC28_CR_ERDPTH \<and>
     ENC28_CONF_RX_ADDRESS_START \<le> ERDPT c \<and> ERDPT c \<le> ENC28_CONF_RX_ADDRESS_END \<and>
     (\<forall>i < 6 + unat (rx_len c). keeps (rx_addr c i))"

lemma read_packet_result:
  assumes "served_chip d c (world s) vol keeps" and "priv_enc28_curr_bank s = chip_bank c"
    and "packet_ready vol keeps c" and "unat n \<le> length buf"
  obtains st pb vec' s' ts where
    "enc28_read_packet (Some (bus_ctx d)) (Some buf) n vec s = Some (Ret ((st, pb, vec'), s'))"
    and "recorded s s' ts" and "priv_enc28_curr_bank s' = 0"
    and "map_option rsv_packet_len vec' = map_option (\<lambda>_. rx_len c) vec"
    and "if \<not> rx_ok c then st = ENC28_PACKET_RCV_ERR \<and> pb = Some buf \<and> rx_skipped_header c (chip_run c ts)
         else if rx_len c > n then st = ENC28_BUFFER_TOO_SMALL \<and> pb = Some buf \<and> rx_skipped_header c (chip_run c ts)
         else st = ENC28_OK \<and> pb = Some (rx_frame c @ drop (unat (rx_len c)) buf) \<and> rx_released c (chip_run c ts)"
proof -
  from returnsE [OF returns_read_packet [OF assms(4)]] obtain st pb vec' s' where
    run: "enc28_read_packet (Some (bus_ctx d)) (Some buf) n vec s = Some (Ret ((st, pb, vec'), s'))"
    by (metis prod_cases3)
  from tripleD [OF served_chip.triple_read_packet [OF assms(1)] refl _ run] that [OF run] assms(2-4)
  show thesis by (auto simp: packet_ready_def)
qed

text \<open>What a packet is depends on five things only.\<close>

definition rx_view :: "enc28_chip \<Rightarrow> bool \<times> u16 \<times> u16 \<times> u16 \<times> (u16 \<Rightarrow> u8)" where
  "rx_view c = (autoinc c, ERDPT c, ERXST c, ERXND c, chip_mem c)"

lemma rx_view_cong:
  assumes "rx_view c = rx_view c'"
  shows "rx_addr c i = rx_addr c' i" "rx_header c = rx_header c'" "rx_len c = rx_len c'" "rx_ok c = rx_ok c'"
    "rx_frame c = rx_frame c'" "rx_next_packet c = rx_next_packet c'"
proof -
  have "rx_next c = rx_next c'" using assms by (intro ext) (simp add: rx_next_def rx_view_def)
  then show a: "rx_addr c i = rx_addr c' i" for i using assms by (simp add: rx_addr_def rx_view_def)
  show h: "rx_header c = rx_header c'" using assms by (simp add: rx_header_def a rx_view_def)
  show "rx_len c = rx_len c'" "rx_ok c = rx_ok c'" "rx_frame c = rx_frame c'" "rx_next_packet c = rx_next_packet c'"
    using assms by (simp_all add: rx_len_def rx_ok_def rx_frame_def rx_next_packet_def h a rx_view_def)
qed

text \<open>The frames of a queue of packets, each header pointing to the next packet.\<close>

fun rx_queue :: "(u16 \<Rightarrow> bool) \<Rightarrow> u16 \<Rightarrow> enc28_chip \<Rightarrow> u8 list list \<Rightarrow> bool" where
  "rx_queue keeps n c [] = True"
| "rx_queue keeps n c (f # fs) =
     (rx_ok c \<and> rx_len c \<le> n \<and> rx_frame c = f \<and>
      ENC28_CONF_RX_ADDRESS_START \<le> ERDPT c \<and> ERDPT c \<le> ENC28_CONF_RX_ADDRESS_END \<and>
      (\<forall>i < 6 + unat (rx_len c). keeps (rx_addr c i)) \<and>
      rx_queue keeps n (set_ptr ENC28_CR_ERDPTL ENC28_CR_ERDPTH (rx_next_packet c) c) fs)"

lemma rx_view_set_ERDPT: "rx_view (set_ptr ENC28_CR_ERDPTL ENC28_CR_ERDPTH a c) =
    (autoinc c, a AND 0x1FFF, ERXST c, ERXND c, chip_mem c)"
  by (simp add: rx_view_def chip_simps bytes16_masked)

lemma rx_queue_cong: "rx_view c = rx_view c' \<Longrightarrow> rx_queue keeps n c fs = rx_queue keeps n c' fs"
proof (induction fs arbitrary: c c')
  case (Cons f fs)
  have "rx_queue keeps n (set_ptr ENC28_CR_ERDPTL ENC28_CR_ERDPTH (rx_next_packet c) c) fs
      = rx_queue keeps n (set_ptr ENC28_CR_ERDPTL ENC28_CR_ERDPTH (rx_next_packet c') c') fs"
    by (rule Cons.IH)
      (use Cons.prems rx_view_cong(6) [OF Cons.prems] in \<open>unfold rx_view_set_ERDPT, simp add: rx_view_def\<close>)
  moreover have "ERDPT c = ERDPT c'" using Cons.prems by (simp add: rx_view_def)
  ultimately show ?case using rx_view_cong [OF Cons.prems] by simp
qed simp

lemma rx_next_packet_masked: "rx_next_packet c AND 0x1FFF = rx_next_packet c"
  by (rule bit_eqI)
    (auto simp: rx_next_packet_def rx_read_ptr_def and_0x1FFF bit_bytes16 bit_and_iff bit_take_bit_iff bit_0x1F8
      simp del: bit_numeral_word_iff)

lemma rx_queue_released:
  assumes "rx_released c c'" and "autoinc c"
  shows "rx_queue keeps n (set_ptr ENC28_CR_ERDPTL ENC28_CR_ERDPTH (rx_next_packet c) c) fs = rx_queue keeps n c' fs"
  by (rule rx_queue_cong)
    (use assms in \<open>unfold rx_view_set_ERDPT rx_next_packet_masked, simp add: rx_view_def rx_released_def\<close>)

text \<open>\<open>k\<close> calls in a row, each with the same buffer, and the frames they return.\<close>

fun read_packets ::
  "'w ENC28_SPI_Context option \<Rightarrow> u8 list option \<Rightarrow> u16 \<Rightarrow> ENC28_Receive_Status_Vector option \<Rightarrow> nat
   \<Rightarrow> ((ENC28_CommandStatus \<times> u8 list) list, 'w) cmd" where
  "read_packets ctx pb n vec 0 = returnM []"
| "read_packets ctx pb n vec (Suc k) =
     bindM (enc28_read_packet ctx pb n vec) (\<lambda>(st, pb', vec').
     bindM (read_packets ctx pb' n vec' k) (\<lambda>rs.
     returnM ((st, case (pb', vec') of (Some b, Some v) \<Rightarrow> take (unat (rsv_packet_len v)) b | _ \<Rightarrow> []) # rs)))"

section \<open>A chip with two packets\<close>

lemma rx_addr_linear:
  assumes "autoinc c" and "unat (ERDPT c) + i \<le> unat (ERXND c)"
  shows "rx_addr c i = ERDPT c + of_nat i"
  using assms(2)
proof (induction i)
  case 0
  then show ?case by (simp add: rx_addr_def)
next
  case (Suc i)
  have nd: "unat (ERXND c) < 8192"
    using unat_and_0x1FFF [of "ERXND c"] by (simp add: ptr_reg_masked)
  have small: "of_nat i = (word_of_nat i :: u16)" "unat (ERDPT c) + Suc i < 8192" using Suc.prems nd by simp_all
  have u: "unat (ERDPT c + of_nat k) = unat (ERDPT c) + k" if "k \<le> Suc i" for k
    using that small(2) by (simp add: unat_word_ariths unat_of_nat)
  have "unat (ERDPT c + of_nat i) \<noteq> unat (ERXND c)" using u [of i] Suc.prems by simp
  then have ne: "ERDPT c + of_nat i \<noteq> ERXND c" by auto
  have "unat ((ERDPT c + of_nat (Suc i)) AND 0x1FFF) = unat (ERDPT c + of_nat (Suc i))"
    unfolding unat_and_0x1FFF using u [of "Suc i"] small(2) by simp
  then have m: "(ERDPT c + of_nat (Suc i)) AND 0x1FFF = ERDPT c + of_nat (Suc i)" by (rule unsigned_word_eqI)
  have "rx_addr c (Suc i) = rx_next c (rx_addr c i)" using assms(1) by (simp add: rx_addr_def)
  also have "\<dots> = (ERDPT c + of_nat i + 1) AND 0x1FFF" using Suc ne by (simp add: rx_next_def)
  also have "ERDPT c + of_nat i + 1 = ERDPT c + of_nat (Suc i)" by simp
  finally show ?case using m by simp
qed

definition rx_example :: enc28_chip where
  "rx_example =
     \<lparr>chip_bank = 0,
      chip_reg = (\<lambda>b r. if b \<noteq> 0 then 0
        else if r = ENC28_CR_ERDPTL \<or> r = ENC28_CR_ERXSTL then 0xD0
        else if r = ENC28_CR_ERDPTH \<or> r = ENC28_CR_ERXSTH then 7
        else if r = ENC28_CR_ERXNDL then 0xFF else if r = ENC28_CR_ERXNDH then 0x1E
        else if r = ENC28_CR_EIR then 0x40 else if r = ENC28_CR_ECON2 then 0x80 else 0),
      chip_mem = (\<lambda>a. let i = unat (a - 0x7D0) in
        if i < 16 then [0xD8, 7, 2, 0, 0x80, 0, 0xAA, 0xBB, 0xE0, 7, 2, 0, 0x80, 0, 0xCC, 0xDD] ! i else 0),
      chip_reset = (\<lambda>_ _. 0), chip_set_other = (\<lambda>x _. x), chip_clear_other = (\<lambda>x _. x)\<rparr>"

lemma rx_example_regs:
  "autoinc rx_example" "ERDPT rx_example = 0x7D0" "ERXND rx_example = 0x1EFF" "ERXST rx_example = 0x7D0"
  "bit (get_reg rx_example 0 ENC28_CR_EIR) ENC28_EIR_PKTIF" "chip_bank rx_example = 0"
  by (simp_all add: rx_example_def autoinc_def ptr_reg_def get_reg_def reg_bank_def bytes16_def)

lemma rx_example_served:
  "served_chip (chip_device rx_example) rx_example (world bus_start) (\<lambda>_ _. False) (\<lambda>_. True)"
  using sim.served_chip_axioms [of rx_example] by simp

lemma rx_example_next:
  fixes c defines "c \<equiv> set_ptr ENC28_CR_ERDPTL ENC28_CR_ERDPTH 0x7D8 rx_example"
  shows "autoinc c" "ERDPT c = 0x7D8" "ERXND c = 0x1EFF" "chip_mem c = chip_mem rx_example"
  using rx_example_regs unfolding c_def
  by (simp_all add: chip_simps bytes16_masked)

lemma upt6: "[0..<6] = [0, 1, 2, 3, 4, 5 :: nat]" "[0..<2] = [0, 1 :: nat]"
  by (simp_all add: upt_rec)

lemma rx_example_packets:
  fixes c defines "c \<equiv> set_ptr ENC28_CR_ERDPTL ENC28_CR_ERDPTH 0x7D8 rx_example"
  shows "rx_header rx_example = [0xD8, 7, 2, 0, 0x80, 0]" "rx_header c = [0xE0, 7, 2, 0, 0x80, 0]"
    "rx_frame rx_example = [0xAA, 0xBB]" "rx_frame c = [0xCC, 0xDD]"
proof -
  note regs = rx_example_regs rx_example_next [folded c_def]
  have mem: "chip_mem rx_example a = (let i = unat (a - 0x7D0) in
        if i < 16 then [0xD8, 7, 2, 0, 0x80, 0, 0xAA, 0xBB, 0xE0, 7, 2, 0, 0x80, 0, 0xCC, 0xDD] ! i else 0)" for a
    by (simp add: rx_example_def)
  show h: "rx_header rx_example = [0xD8, 7, 2, 0, 0x80, 0]" "rx_header c = [0xE0, 7, 2, 0, 0x80, 0]"
    unfolding rx_header_def by (simp_all add: upt6 rx_addr_linear regs mem Let_def)
  show "rx_frame rx_example = [0xAA, 0xBB]" "rx_frame c = [0xCC, 0xDD]"
    unfolding rx_frame_def rx_len_def h by (simp_all add: bytes16_def upt6 rx_addr_linear regs mem Let_def)
qed

lemma rx_example_queue: "rx_queue (\<lambda>_. True) 4 rx_example [[0xAA, 0xBB], [0xCC, 0xDD]]"
proof -
  have n: "rx_next_packet rx_example = 0x7D8"
    by (simp add: rx_next_packet_def rx_example_packets rx_read_ptr_def bytes16_def)
  show ?thesis
    by (simp add: rx_ok_def rx_len_def rx_example_packets n rx_example_regs rx_example_next bytes16_def)
qed

section \<open>Properties\<close>

text \<open>
  C2: A call of \<^verbatim>\<open>enc28_read_packet\<close> with a packet ready returns. If the packet was received well and fits,
  the caller's buffer starts with the frame and is unchanged after it, the status vector gives its length, and the
  packet is released: \<^verbatim>\<open>ERDPT\<close> points to the next packet, \<^verbatim>\<open>ERXRDPT\<close> is set as the errata demands, the packet
  counter is decremented. If not, the error is reported and the buffer untouched, but the packet is not
  released and \<^verbatim>\<open>ERDPT\<close> is left behind its header, where the next call will look for a header.
\<close>

theorem read_packet_delivers:
  assumes "served_chip d c (world s) vol keeps" and "priv_enc28_curr_bank s = chip_bank c"
    and "packet_ready vol keeps c" and "unat n \<le> length buf"
  shows "\<exists>st pb vec' s' ts.
      enc28_read_packet (Some (bus_ctx d)) (Some buf) n vec s = Some (Ret ((st, pb, vec'), s')) \<and>
      recorded s s' ts \<and> priv_enc28_curr_bank s' = 0 \<and>
      map_option rsv_packet_len vec' = map_option (\<lambda>_. rx_len c) vec \<and>
      (if \<not> rx_ok c then st = ENC28_PACKET_RCV_ERR \<and> pb = Some buf \<and> rx_skipped_header c (chip_run c ts)
       else if rx_len c > n then st = ENC28_BUFFER_TOO_SMALL \<and> pb = Some buf \<and> rx_skipped_header c (chip_run c ts)
       else st = ENC28_OK \<and> pb = Some (rx_frame c @ drop (unat (rx_len c)) buf) \<and> rx_released c (chip_run c ts))"
  by (rule read_packet_result [OF assms, of vec]) blast

theorem read_packet_delivers_witness:
  "\<exists>vec' s' ts. enc28_read_packet (Some (bus_ctx (chip_device rx_example))) (Some [1, 2, 3, 4, 5]) 4 None bus_start
       = Some (Ret ((ENC28_OK, Some [0xAA, 0xBB, 3, 4, 5], vec'), s')) \<and>
     recorded bus_start s' ts \<and> rx_released rx_example (chip_run rx_example ts)"
proof -
  have "packet_ready (\<lambda>_ _. False) (\<lambda>_. True) rx_example"
    by (simp add: packet_ready_def rx_example_regs)
  with read_packet_delivers [OF rx_example_served, of 4 "[1, 2, 3, 4, 5]" None]
  obtain st pb vec' s' ts where
    "enc28_read_packet (Some (bus_ctx (chip_device rx_example))) (Some [1, 2, 3, 4, 5]) 4 None bus_start
       = Some (Ret ((st, pb, vec'), s'))" "recorded bus_start s' ts"
    "if \<not> rx_ok rx_example then st = ENC28_PACKET_RCV_ERR \<and> pb = Some [1, 2, 3, 4, 5] \<and> rx_skipped_header rx_example (chip_run rx_example ts)
       else if rx_len rx_example > 4 then st = ENC28_BUFFER_TOO_SMALL \<and> pb = Some [1, 2, 3, 4, 5] \<and> rx_skipped_header rx_example (chip_run rx_example ts)
       else st = ENC28_OK \<and> pb = Some (rx_frame rx_example @ drop (unat (rx_len rx_example)) [1, 2, 3, 4, 5])
         \<and> rx_released rx_example (chip_run rx_example ts)"
    by (auto simp: rx_example_regs)
  then show ?thesis by (auto simp: rx_ok_def rx_len_def rx_example_packets bytes16_def)
qed

text \<open>
  C8: A queue of well-received packets that fit the buffer is read to its end, in order and with every frame
  intact, by as many calls, over a device that keeps serving the chip's memory.
\<close>

theorem read_packets_drains_queue:
  assumes "served_chip d c (world s) vol keeps" and "priv_enc28_curr_bank s = chip_bank c"
    and "autoinc c" and "bit (get_reg c 0 ENC28_CR_EIR) ENC28_EIR_PKTIF"
    and "\<not> vol 0 ENC28_CR_EIR" and "\<not> vol 0 ENC28_CR_ERDPTL" and "\<not> vol 0 ENC28_CR_ERDPTH"
    and "rx_queue keeps n c fs" and "unat n \<le> length buf" and "vec \<noteq> None"
  shows "\<exists>s'. read_packets (Some (bus_ctx d)) (Some buf) n vec (length fs) s
           = Some (Ret (map (\<lambda>f. (ENC28_OK, f)) fs, s'))"
  using assms
proof (induction fs arbitrary: c s buf vec)
  case (Cons f fs)
  then have ready: "packet_ready vol keeps c" by (simp add: packet_ready_def)
  obtain st pb vec' s' ts where
    run: "enc28_read_packet (Some (bus_ctx d)) (Some buf) n vec s = Some (Ret ((st, pb, vec'), s'))"
    and rec: "recorded s s' ts" and bank: "priv_enc28_curr_bank s' = 0"
    and vec': "map_option rsv_packet_len vec' = map_option (\<lambda>_. rx_len c) vec"
    and post: "if \<not> rx_ok c then st = ENC28_PACKET_RCV_ERR \<and> pb = Some buf \<and> rx_skipped_header c (chip_run c ts)
         else if rx_len c > n then st = ENC28_BUFFER_TOO_SMALL \<and> pb = Some buf \<and> rx_skipped_header c (chip_run c ts)
         else st = ENC28_OK \<and> pb = Some (rx_frame c @ drop (unat (rx_len c)) buf) \<and> rx_released c (chip_run c ts)"
    by (rule read_packet_result [OF Cons.prems(1,2) ready Cons.prems(9)])
  let ?c' = "chip_run c ts" and ?buf' = "rx_frame c @ drop (unat (rx_len c)) buf"
  have f: "rx_ok c" "\<not> rx_len c > n" "rx_frame c = f" using Cons.prems(8) by auto
  with post have st: "st = ENC28_OK" "pb = Some ?buf'" and rel: "rx_released c ?c'" by simp_all
  have len: "length (rx_frame c) = unat (rx_len c)" by (simp add: rx_frame_def)
  have fits: "unat (rx_len c) \<le> length buf"
    using f(2) Cons.prems(9) by (simp add: not_less word_le_nat_alt)
  have "\<exists>s''. read_packets (Some (bus_ctx d)) (Some ?buf') n vec' (length fs) s'
      = Some (Ret (map (\<lambda>f. (ENC28_OK, f)) fs, s''))"
  proof (rule Cons.IH)
    show "served_chip d ?c' (world s') vol keeps" by (rule served_chip_recorded [OF Cons.prems(1) rec])
    show "rx_queue keeps n ?c' fs"
      using Cons.prems(8) rx_queue_released [OF rel Cons.prems(3)] by simp
  qed (use rel bank len fits vec' Cons.prems in \<open>auto simp: rx_released_def\<close>)
  moreover from vec' Cons.prems(10) obtain v where "vec' = Some v" "rsv_packet_len v = rx_len c" by auto
  ultimately show ?case
    using run st len f(3) by (auto simp: bindM_apply returnM_apply)
qed (simp add: returnM_def)

theorem read_packets_drains_queue_witness:
  "\<exists>s'. read_packets (Some (bus_ctx (chip_device rx_example))) (Some [1, 2, 3, 4, 5]) 4 (Some (rsv_of_header (replicate 7 0))) 2 bus_start
     = Some (Ret ([(ENC28_OK, [0xAA, 0xBB]), (ENC28_OK, [0xCC, 0xDD])], s'))"
proof -
  have l: "length [[0xAA, 0xBB], [0xCC, 0xDD :: u8]] = 2" by simp
  show ?thesis
    using read_packets_drains_queue [OF rx_example_served _ _ _ _ _ _ rx_example_queue,
        of "[1, 2, 3, 4, 5]" "Some (rsv_of_header (replicate 7 0))", unfolded l]
    by (simp add: rx_example_regs del: read_packets.simps)
qed

text \<open>
  C32: On any device whatever, a read into a buffer of at least the announced size returns, and what it has
  changed of the buffer is a prefix no longer than the announced size.
\<close>

theorem read_packet_stays_in_buffer:
  assumes "unat n \<le> length buf"
  shows "\<exists>st buf' vec' s'. enc28_read_packet (Some (bus_ctx d)) (Some buf) n vec s
           = Some (Ret ((st, Some buf', vec'), s')) \<and>
         length buf' = length buf \<and> drop (unat n) buf' = drop (unat n) buf \<and> (st \<noteq> ENC28_OK \<longrightarrow> buf' = buf)"
proof -
  from returnsE [OF returns_read_packet [OF assms]] obtain st pb vec' s' where
    run: "enc28_read_packet (Some (bus_ctx d)) (Some buf) n vec s = Some (Ret ((st, pb, vec'), s'))"
    by (metis prod_cases3)
  from yieldsD [OF yields_read_packet [OF assms] run] run show ?thesis by auto
qed

theorem read_packet_stays_in_buffer_witness:
  "\<exists>st buf' vec' s'. enc28_read_packet (Some (bus_ctx ready_device)) (Some [1, 2, 3]) 2 None bus_start
       = Some (Ret ((st, Some buf', vec'), s')) \<and>
     length buf' = length [1, 2, 3 :: u8] \<and> drop (unat (2 :: u16)) buf' = [3] \<and> (st \<noteq> ENC28_OK \<longrightarrow> buf' = [1, 2, 3])"
  using read_packet_stays_in_buffer [of 2 "[1, 2, 3]" ready_device None bus_start] by simp

text \<open>
  The value written to \<^verbatim>\<open>ERXRDPT\<close> when a packet is released lies in the receive buffer whatever next-packet
  address the header holds, and it is odd, as the errata requires, when that address is even.
\<close>

theorem rx_release_ptr_valid:
  assumes "even (unat w)"
  shows "ENC28_CONF_RX_ADDRESS_START \<le> rx_release_ptr w \<and> rx_release_ptr w \<le> ENC28_CONF_RX_ADDRESS_END \<and>
         odd (unat (rx_release_ptr w))"
proof -
  have "odd (unat (rx_release_ptr w))"
  proof (cases "uint w - 1 > uint ENC28_CONF_RX_ADDRESS_END \<or> uint w - 1 < uint ENC28_CONF_RX_ADDRESS_START")
    case False
    then have "w \<noteq> 0" by auto
    then have "unat (w - 1) = unat w - 1" "unat w \<noteq> 0" by (simp_all add: unat_minus_one unat_eq_zero)
    with assms False show ?thesis by (simp add: rx_release_ptr_def)
  qed (simp add: rx_release_ptr_def)
  with rx_release_ptr_range show ?thesis by blast
qed

theorem rx_release_ptr_valid_witness:
  "ENC28_CONF_RX_ADDRESS_START \<le> rx_release_ptr 0x7D8 \<and> rx_release_ptr 0x7D8 \<le> ENC28_CONF_RX_ADDRESS_END \<and>
   odd (unat (rx_release_ptr 0x7D8)) \<and> rx_release_ptr 0x7D8 = 0x7D7"
  using rx_release_ptr_valid [of "0x7D8"] by (simp add: rx_release_ptr_def)

end
