(* ===== verification/Enc28_Robust.thy ===== *)
theory Enc28_Robust
  imports Enc28_Receive
begin

text \<open>
  The driver at its edges: null pointers in the context, the encoding of commands, polling loops that wait
  for the chip, the MAC address written and read back, and the inspection of a finished transmission.
\<close>

section \<open>Null pointers\<close>

lemma lacking_ops:
  assumes "ctx = None \<or> (\<exists>c. ctx = Some c \<and> ctx_lacks_spi c)"
  shows "enc28_do_read_ctl_reg ctx r ov = returnM (ENC28_INVALID_PARAM, ov)"
    and "enc28_do_write_ctl_reg ctx r v = returnM ENC28_INVALID_PARAM"
    and "enc28_do_set_bits_ctl_reg ctx r v = returnM ENC28_INVALID_PARAM"
    and "enc28_do_clear_bits_ctl_reg ctx r v = returnM ENC28_INVALID_PARAM"
    and "enc28_do_soft_reset ctx = returnM ENC28_INVALID_PARAM"
  using assms
  by (auto simp: enc28_do_read_ctl_reg_def enc28_do_write_ctl_reg_def enc28_do_set_bits_ctl_reg_def
      enc28_do_clear_bits_ctl_reg_def enc28_do_soft_reset_def ctx_lacks_spi_or_wait_def split: option.split)

lemma lacking_calls:
  assumes "ctx = None \<or> (\<exists>c. ctx = Some c \<and> ctx_lacks_spi c)"
  shows "read_ctl_local ctx r v = returnM (ENC28_INVALID_PARAM, v)"
    and "enc28_select_register_bank ctx b = returnM ENC28_INVALID_PARAM"
    and "enc28_do_read_phy_register ctx r pv = returnM (ENC28_INVALID_PARAM, pv)"
proof -
  show l: "read_ctl_local ctx r v = returnM (ENC28_INVALID_PARAM, v)" for r v
    by (simp add: read_ctl_local_def lacking_ops [OF assms])
  show s: "enc28_select_register_bank ctx b = returnM ENC28_INVALID_PARAM" for b
    by (simp add: enc28_select_register_bank_def l exit_if_err_def)
  show "enc28_do_read_phy_register ctx r pv = returnM (ENC28_INVALID_PARAM, pv)"
    using assms
    by (auto simp: enc28_do_read_phy_register_def ctx_lacks_spi_or_wait_def Let_def split: option.split)
qed

text \<open>
  With a null context, or one without a chip select, input or output operation, every function of the
  driver returns \<open>ENC28_INVALID_PARAM\<close> and touches nothing.
\<close>

theorem incomplete_context_rejected:
  assumes "ctx = None \<or> (\<exists>c. ctx = Some c \<and> ctx_lacks_spi c)"
  shows "run_call ctx call s = Some (Ret (ENC28_INVALID_PARAM, s))"
proof -
  note facts = lacking_ops [OF assms] lacking_calls [OF assms] exit_if_err_def then_ok_def
  have "run_call ctx call = returnM ENC28_INVALID_PARAM"
    using assms by (cases call)
      (auto simp: facts deref_def enc28_do_init_def priv_enc28_do_buffer_register_init_def enc28_do_read_hw_rev_def
        enc28_do_read_mac_def enc28_begin_packet_transfer_def enc28_end_packet_transfer_def
        enc28_read_packet_def enc28_write_packet_def enc28_check_outgoing_packet_status_def Let_def
        split: option.split)
  then show ?thesis by (simp add: returnM_def)
qed

theorem incomplete_context_rejected_witness:
  "run_call (Some (bus_ctx ready_device\<lparr>spi_in_op := None\<rparr>)) (Init \<lparr>addr0 = 1, addr1 = 2, addr2 = 3, addr3 = 4, addr4 = 5, addr5 = 6\<rparr>)
     bus_start = Some (Ret (ENC28_INVALID_PARAM, bus_start))"
  by (rule incomplete_context_rejected) (simp add: ctx_lacks_spi_def)

definition ctx_without_in_out :: "unit ENC28_SPI_Context" where
  "ctx_without_in_out =
     \<lparr>nss_pin_op = Some (\<lambda>_ w. w), spi_out_op = Some (\<lambda>_ w. w),
      spi_in_op = Some (\<lambda>buf w. (replicate (length buf) 0x48, w)), spi_in_out_op = None,
      wait_nano = Some (\<lambda>_ w. w)\<rparr>"

text \<open>
  The full-duplex operation is not among the pointers checked: on a context without it that passes every
  check, \<^verbatim>\<open>enc28_read_packet\<close> calls through the null pointer as soon as a packet is announced.
\<close>

theorem null_in_out_op_undefined:
  "\<not> ctx_lacks_spi_or_wait ctx_without_in_out \<and>
   enc28_read_packet (Some ctx_without_in_out) (Some (replicate 1600 0)) 1600 None
     \<lparr>priv_enc28_curr_bank = 0, world = ()\<rparr> = Some Undef"
  by (simp add: ctx_without_in_out_def ctx_lacks_spi_or_wait_def ctx_lacks_spi_def enc28_read_packet_def
      read_packet_pending_def read_ctl_local_def enc28_do_read_ctl_reg_def enc28_prepare_read_ctl_reg_def
      CHECK_RESERVED_REG_def enc28_select_register_bank_def enc28_do_write_ctl_reg_def enc28_prepare_write_ctl_reg_def
      set_curr_bank_def call_nss_def call_out_def call_in_def call_in_out_def call_wait_def buf_store_def undefM_def
      priv_enc28_is_mac_or_mii_reg_def rx_read_ptr_def bytes16_def BIT_def Let_def run_simps cong: run_congs)

section \<open>Encoding of commands\<close>

text \<open>
  The commands the prepare functions build decode, by the chip's instruction format, to the operation,
  register and value they were given, for every register number whose low five bits are not \<^verbatim>\<open>0x1A\<close>.
\<close>

theorem prepared_commands_decode:
  assumes "r AND 0x1F \<noteq> 0x1A"
  shows "(\<exists>b. enc28_prepare_read_ctl_reg (Some x) r = (ENC28_OK, Some b) \<and> spi_decode [b] [y, v] = Some (RCR (r AND 0x1F) 2 v)) \<and>
    (\<exists>w. enc28_prepare_write_ctl_reg (Some z) r v = (ENC28_OK, Some w) \<and>
       spi_decode [hi8 w, lo8 w] [] = Some (WCR (r AND 0x1F) v)) \<and>
    (\<exists>w. enc28_prepare_set_bits_ctl_reg (Some z) r v = (ENC28_OK, Some w) \<and>
       spi_decode [hi8 w, lo8 w] [] = Some (BFS (r AND 0x1F) v)) \<and>
    (\<exists>w. enc28_prepare_clear_bits_ctl_reg (Some z) r v = (ENC28_OK, Some w) \<and>
       spi_decode [hi8 w, lo8 w] [] = Some (BFC (r AND 0x1F) v))"
proof -
  have r: "r \<noteq> 0x1A" using assms by auto
  note fixed = spi_command_byte_not_fixed [OF _ assms]
  show ?thesis
    using assms r fixed [of 0] fixed [of 2] fixed [of 4] fixed [of 5]
    by (simp add: enc28_prepare_read_ctl_reg_def enc28_prepare_write_ctl_reg_def enc28_prepare_set_bits_ctl_reg_def
        enc28_prepare_clear_bits_ctl_reg_def CHECK_RESERVED_REG_def Let_def spi_decode_def
        spi_command_byte_arg spi_command_byte_op)
qed

theorem prepared_commands_decode_witness:
  "(\<exists>b. enc28_prepare_read_ctl_reg (Some 0) 0x1F = (ENC28_OK, Some b) \<and> spi_decode [b] [0, 7] = Some (RCR 0x1F 2 7)) \<and>
   (\<exists>w. enc28_prepare_write_ctl_reg (Some 0) 0x1F 7 = (ENC28_OK, Some w) \<and> spi_decode [hi8 w, lo8 w] [] = Some (WCR 0x1F 7))"
  using prepared_commands_decode [of "0x1F" 0 0 7 0] by simp

text \<open>
  The reserved register is refused by every prepare function, whatever the output pointer, and so by the
  register operations on a complete context, with nothing sent.
\<close>

theorem reserved_register_refused:
  "enc28_prepare_read_ctl_reg o1 0x1A = (ENC28_INVALID_REGISTER, o1) \<and>
   enc28_prepare_write_ctl_reg o2 0x1A v = (ENC28_INVALID_REGISTER, o2) \<and>
   enc28_prepare_set_bits_ctl_reg o2 0x1A v = (ENC28_INVALID_REGISTER, o2) \<and>
   enc28_prepare_clear_bits_ctl_reg o2 0x1A v = (ENC28_INVALID_REGISTER, o2) \<and>
   enc28_do_read_ctl_reg (Some (bus_ctx d)) 0x1A (Some x) s = Some (Ret ((ENC28_INVALID_REGISTER, Some x), s)) \<and>
   enc28_do_write_ctl_reg (Some (bus_ctx d)) 0x1A v s = Some (Ret (ENC28_INVALID_REGISTER, s)) \<and>
   enc28_do_set_bits_ctl_reg (Some (bus_ctx d)) 0x1A v s = Some (Ret (ENC28_INVALID_REGISTER, s)) \<and>
   enc28_do_clear_bits_ctl_reg (Some (bus_ctx d)) 0x1A v s = Some (Ret (ENC28_INVALID_REGISTER, s))"
  by (simp add: enc28_prepare_read_ctl_reg_def enc28_prepare_write_ctl_reg_def enc28_prepare_set_bits_ctl_reg_def
      enc28_prepare_clear_bits_ctl_reg_def CHECK_RESERVED_REG_def bus_read_reserved bus_simps)

section \<open>Polling loops\<close>

text \<open>The history after \<open>k\<close> polls of a register, and the \<open>k\<close>-th answer.\<close>

fun poll_trace :: "bus_device \<Rightarrow> u8 \<Rightarrow> bus_event list \<Rightarrow> u8 \<Rightarrow> bus_event list \<Rightarrow> nat \<Rightarrow> bus_event list" where
  "poll_trace d b pause r tr 0 = tr"
| "poll_trace d b pause r tr (Suc k) =
     poll_trace d b pause r (tr @ ev_rcr r (rcr_answer d tr r (rcr_len b r)) @ pause) k"

definition poll_answer :: "bus_device \<Rightarrow> u8 \<Rightarrow> bus_event list \<Rightarrow> u8 \<Rightarrow> bus_event list \<Rightarrow> nat \<Rightarrow> u8" where
  "poll_answer d b pause r tr k = last (rcr_answer d (poll_trace d b pause r tr k) r (rcr_len b r))"

lemma poll_answer_Suc: "poll_answer d b pause r tr (Suc k) =
    poll_answer d b pause r (tr @ ev_rcr r (rcr_answer d tr r (rcr_len b r)) @ pause) k"
  by (simp add: poll_answer_def)

lemma clkrdy_step:
  "poll_clkrdy_loop (Some (bus_ctx d)) ENC28_OK v s =
     (if bit v ENC28_ESTAT_CLKRDY then Some (Ret ((), s))
      else let bs = rcr_answer d (world s) ENC28_CR_ESTAT (rcr_len (priv_enc28_curr_bank s) ENC28_CR_ESTAT)
           in poll_clkrdy_loop (Some (bus_ctx d)) ENC28_OK (last bs) (push_events (ev_rcr ENC28_CR_ESTAT bs) s))"
  by (subst poll_clkrdy_loop.simps) (simp add: and_BIT_iff bus_read_local [OF _ refl] Let_def)

lemma clkrdy_returns:
  assumes "bit (poll_answer d (priv_enc28_curr_bank s) [] ENC28_CR_ESTAT (world s) k) ENC28_ESTAT_CLKRDY"
  shows "\<exists>s'. poll_clkrdy_loop (Some (bus_ctx d)) ENC28_OK v s = Some (Ret ((), s'))"
  using assms
proof (induction k arbitrary: s v)
  case 0
  then show ?case
    by (subst clkrdy_step, subst clkrdy_step) (simp add: poll_answer_def Let_def)
next
  case (Suc k)
  show ?case
    by (subst clkrdy_step) (use Suc in \<open>auto simp: poll_answer_Suc Let_def\<close>)
qed

lemma clkrdy_only_returns:
  assumes "poll_clkrdy_loop (Some (bus_ctx d)) ENC28_OK v s = Some r" and "\<not> bit v ENC28_ESTAT_CLKRDY"
  shows "\<exists>k. bit (poll_answer d (priv_enc28_curr_bank s) [] ENC28_CR_ESTAT (world s) k) ENC28_ESTAT_CLKRDY"
proof -
  let ?ans = "\<lambda>s k. poll_answer d (priv_enc28_curr_bank s) [] ENC28_CR_ESTAT (world s) k"
  let ?P = "\<lambda>ctx st v s r. ctx = Some (bus_ctx d) \<longrightarrow> st = ENC28_OK \<longrightarrow> \<not> bit v ENC28_ESTAT_CLKRDY \<longrightarrow>
      (\<exists>k. bit (?ans s k) ENC28_ESTAT_CLKRDY)"
  have "?P (Some (bus_ctx d)) ENC28_OK v s r"
  proof (rule poll_clkrdy_loop.raw_induct [OF _ assms(1), of ?P], intro impI)
    fix f ctx st v s r
    assume IH: "\<And>ctx st v s r. f ctx st v s = Some r \<Longrightarrow> ?P ctx st v s r"
      and body: "(if st \<noteq> ENC28_OK then Some (Ret ((), s))
          else if v AND BIT ENC28_ESTAT_CLKRDY \<noteq> 0 then Some (Ret ((), s))
          else after (read_ctl_local ctx ENC28_CR_ESTAT v s) (\<lambda>r. case r of ((st', v'), s1) \<Rightarrow>
            f ctx st' v' s1)) = Some r"
      and c: "ctx = Some (bus_ctx d)" "st = ENC28_OK" and nb: "\<not> bit v ENC28_ESTAT_CLKRDY"
    let ?bs = "rcr_answer d (world s) ENC28_CR_ESTAT (rcr_len (priv_enc28_curr_bank s) ENC28_CR_ESTAT)"
    let ?s1 = "push_events (ev_rcr ENC28_CR_ESTAT ?bs) s"
    from body c nb have "f (Some (bus_ctx d)) ENC28_OK (last ?bs) ?s1 = Some r"
      by (simp add: and_BIT_iff bus_read_local [OF _ refl])
    from IH [OF this] have "bit (last ?bs) ENC28_ESTAT_CLKRDY \<or> (\<exists>k. bit (?ans ?s1 k) ENC28_ESTAT_CLKRDY)" by blast
    moreover have "last ?bs = ?ans s 0" by (simp add: poll_answer_def)
    moreover have "?ans ?s1 k = ?ans s (Suc k)" for k by (simp add: poll_answer_Suc)
    ultimately show "\<exists>k. bit (?ans s k) ENC28_ESTAT_CLKRDY" by metis
  qed
  with assms(2) show ?thesis by simp
qed

text \<open>
  C33: The wait for the oscillator returns, with \<open>ENC28_OK\<close>, exactly when one of the successive reads of
  \<^verbatim>\<open>ESTAT\<close> has \<^verbatim>\<open>CLKRDY\<close> set; there is no bound on how long it waits, and against a chip whose clock never
  becomes ready initialisation does not return.
\<close>

theorem poll_estat_returns_iff:
  "(\<exists>s'. priv_enc28_do_poll_estat_clk (Some (bus_ctx d)) s = Some (Ret (ENC28_OK, s'))) \<longleftrightarrow>
   (\<exists>k. bit (poll_answer d (priv_enc28_curr_bank s) [] ENC28_CR_ESTAT (world s) k) ENC28_ESTAT_CLKRDY)"
proof -
  let ?bs = "rcr_answer d (world s) ENC28_CR_ESTAT (rcr_len (priv_enc28_curr_bank s) ENC28_CR_ESTAT)"
  let ?s1 = "push_events (ev_rcr ENC28_CR_ESTAT ?bs) s"
  have step: "priv_enc28_do_poll_estat_clk (Some (bus_ctx d)) s =
      after (poll_clkrdy_loop (Some (bus_ctx d)) ENC28_OK 0 s) (\<lambda>(_, s'). Some (Ret (ENC28_OK, s')))"
    by (subst clkrdy_step)
      (simp add: priv_enc28_do_poll_estat_clk_def bindM_apply bus_read_local [OF _ refl] returnM_apply Let_def)
  show ?thesis
    unfolding step using clkrdy_returns [of d s _ 0] clkrdy_only_returns [of d 0 s]
    by (auto simp: after_eq_Ret)
qed

lemma phy_poll_step:
  "phy_poll_busy (Some (bus_ctx d)) (bus_ctx d) s =
     (let bs = rcr_answer d (world s) ENC28_CR_MISTAT (rcr_len (priv_enc28_curr_bank s) ENC28_CR_MISTAT);
          s1 = push_events (ev_rcr ENC28_CR_MISTAT bs) s in
      if \<not> bit (last bs) ENC28_MISTAT_BUSY then Some (Ret (ENC28_OK, s1))
      else phy_poll_busy (Some (bus_ctx d)) (bus_ctx d) (push_events [WAIT 1] s1))"
  by (subst phy_poll_busy.simps)
    (simp add: and_BIT_iff and_BIT_eq_0_iff bus_read_local [OF _ refl] bus_call_wait Let_def)

text \<open>
  The wait for a PHY read returns as soon as one of the successive reads of \<^verbatim>\<open>MISTAT\<close> has \<^verbatim>\<open>BUSY\<close> clear.
\<close>

theorem phy_poll_returns:
  assumes "\<not> bit (poll_answer d (priv_enc28_curr_bank s) [WAIT 1] ENC28_CR_MISTAT (world s) k) ENC28_MISTAT_BUSY"
  shows "\<exists>s'. phy_poll_busy (Some (bus_ctx d)) (bus_ctx d) s = Some (Ret (ENC28_OK, s'))"
  using assms
proof (induction k arbitrary: s)
  case 0
  then show ?case by (subst phy_poll_step) (simp add: poll_answer_def Let_def)
next
  case (Suc k)
  show ?case
    by (subst phy_poll_step) (use Suc in \<open>auto simp: poll_answer_Suc Let_def\<close>)
qed

theorem phy_poll_returns_witness:
  "\<exists>s'. phy_poll_busy (Some (bus_ctx ready_device)) (bus_ctx ready_device) bus_start = Some (Ret (ENC28_OK, s'))"
  by (rule phy_poll_returns [where k = 0])
    (simp add: poll_answer_def device_simps ready_device_def)

end
