(* ===== verification/Enc28_Readback.thy ===== *)
theory Enc28_Readback
  imports Enc28_Robust
begin

text \<open>
  Reading back what was written: the MAC address after initialisation, the read pointer across the
  inspection of a transmission, and the address that inspection reads the transmit status vector from.
\<close>

section \<open>The MAC address\<close>

context served_chip
begin

lemmas readback_rules = triple_read wp_rules triple_select_any

lemma triple_read_mac:
  "triple c0 tr0
     (\<lambda>c b. c = c1 \<and> (\<forall>r \<le> 5. \<not> vol 3 r))
     (enc28_do_read_mac (Some (bus_ctx d)) (Some m))
     (\<lambda>(st, m') c b. st = ENC28_OK \<and> b = 3 \<and>
        m' = Some \<lparr>addr0 = get_reg c1 3 ENC28_CR_MAC_ADD1, addr1 = get_reg c1 3 ENC28_CR_MAC_ADD2,
                   addr2 = get_reg c1 3 ENC28_CR_MAC_ADD3, addr3 = get_reg c1 3 ENC28_CR_MAC_ADD4,
                   addr4 = get_reg c1 3 ENC28_CR_MAC_ADD5, addr5 = get_reg c1 3 ENC28_CR_MAC_ADD6\<rparr>)"
  unfolding enc28_do_read_mac_def body_simps
  by (rule triple_pre, (rule readback_rules | (simp; fail))+, simp add: chip_simps register_map_def)

text \<open>The inspection of a finished transmission restores the read pointer it moves.\<close>

lemma triple_check_outgoing:
  "triple c0 tr0
     (\<lambda>c b. c = c1 \<and> b = chip_bank c1 \<and> \<not> vol 0 ENC28_CR_ERDPTL \<and> \<not> vol 0 ENC28_CR_ERDPTH)
     (enc28_check_outgoing_packet_status (Some (bus_ctx d)))
     (\<lambda>st c b. st \<in> {ENC28_OK, ENC28_PACKET_TX_ABORTED, ENC28_NO_DATA} \<and>
        ERDPT c = ERDPT c1 \<and> ERXRDPT c = ERXRDPT c1 \<and> ETXST c = ETXST c1 \<and> ETXND c = ETXND c1 \<and>
        chip_mem c = chip_mem c1 \<and> b = chip_bank c)"
  unfolding enc28_check_outgoing_packet_status_def body_simps packet_window_folds
  by (rule triple_pre, (rule triple_read_any [where r = ENC28_CR_EIR] triple_read_any [where r = ENC28_CR_ESTAT]
      triple_read_any [where r = ENC28_CR_ETXNDL] triple_read_any [where r = ENC28_CR_ETXNDH] triple_rbm_header_any
      readback_rules | (simp; fail))+, simp add: chip_simps)

end

lemma returns_read_mac: "returns (enc28_do_read_mac (Some (bus_ctx d)) (Some m))"
  unfolding enc28_do_read_mac_def body_simps by (intro returns_intros)

lemma returns_check_outgoing: "returns (enc28_check_outgoing_packet_status (Some (bus_ctx d)))"
  unfolding enc28_check_outgoing_packet_status_def body_simps packet_window_folds by (intro returns_intros)

text \<open>A chip as initialisation leaves it.\<close>

definition chip_configured :: enc28_chip where
  "chip_configured =
     \<lparr>chip_bank = 0,
      chip_reg = (\<lambda>b r.
        if b = 0 then (if r = ENC28_CR_ERXSTL then 0xD0 else if r = ENC28_CR_ERXSTH then 7
          else if r = ENC28_CR_ERXNDL \<or> r = ENC28_CR_ERXRDPTL then 0xFF
          else if r = ENC28_CR_ERXNDH \<or> r = ENC28_CR_ERXRDPTH then 0x1E else 0)
        else if b = 1 then (if r = ENC28_CR_ERXFCON then ENC28_CONF_PACKET_FILTER_MASK else 0)
        else if b = 2 then (if r = ENC28_CR_MAMXFLH then 6 else if r = ENC28_CR_MABBIPG then ENC28_CONF_MABBIPG_BITS else 0)
        else if r = ENC28_CR_MAC_ADD1 then 1 else if r = ENC28_CR_MAC_ADD2 then 2 else if r = ENC28_CR_MAC_ADD3 then 3
        else if r = ENC28_CR_MAC_ADD4 then 4 else if r = ENC28_CR_MAC_ADD5 then 5 else if r = ENC28_CR_MAC_ADD6 then 6 else 0),
      chip_mem = (\<lambda>_. 0), chip_reset = (\<lambda>_ _. 0), chip_set_other = (\<lambda>x _. x), chip_clear_other = (\<lambda>x _. x)\<rparr>"

lemma chip_configured_done:
  "init_done \<lparr>addr0 = 1, addr1 = 2, addr2 = 3, addr3 = 4, addr4 = 5, addr5 = 6\<rparr> chip_configured"
  by (simp add: init_done_def chip_configured_def ptr_reg_def get_reg_def reg_bank_def bytes16_def common_reg_bound)

lemma chip_configured_served:
  "served_chip (chip_device chip_configured) chip_configured (world bus_start) (\<lambda>_ _. False) (\<lambda>_. True)"
  using sim.served_chip_axioms [of chip_configured] by simp

section \<open>Properties\<close>

lemma read_mac_configured:
  assumes "served_chip d c (world s) vol keeps" and "init_done mac c" and "\<forall>r \<le> 5. \<not> vol 3 r"
  shows "\<exists>s'. enc28_do_read_mac (Some (bus_ctx d)) (Some m) s = Some (Ret ((ENC28_OK, Some mac), s'))"
proof -
  from returnsE [OF returns_read_mac] obtain st m' s' where
    run: "enc28_do_read_mac (Some (bus_ctx d)) (Some m) s = Some (Ret ((st, m'), s'))"
    by (metis old.prod.exhaust)
  from tripleD [OF served_chip.triple_read_mac [OF assms(1)] refl _ run] run assms(2,3) show ?thesis
    by (auto simp: init_done_def)
qed

text \<open>
  C28: The MAC address given to \<^verbatim>\<open>enc28_do_init\<close> reads back: when initialisation has returned, \<^verbatim>\<open>enc28_do_read_mac\<close> returns
  \<open>ENC28_OK\<close> and that address. The chip may have been in any state before, and the driver may have had any bank in mind; the
  chip sends a dummy byte before each byte of the address, which the driver has to skip.
\<close>

theorem mac_address_reads_back:
  assumes "served_chip d c (world s) vol keeps" and "\<forall>r \<le> 5. \<not> vol 3 r"
    and "enc28_do_init mac (Some (bus_ctx d)) s = Some (Ret (st, s'))"
  shows "\<exists>s''. enc28_do_read_mac (Some (bus_ctx d)) (Some m) s' = Some (Ret ((ENC28_OK, Some mac), s''))"
proof -
  from tripleD [OF triple_init refl refl assms(3)] obtain ts where "recorded s s' ts" and cfg: "init_done mac (chip_run c ts)"
    by blast
  then obtain es where "world s' = world s @ es" "spi_parse None es = Some ts" unfolding recorded_def by blast
  with served_chip.later [OF assms(1)] have "served_chip d (chip_run c ts) (world s') vol keeps" by simp
  from read_mac_configured [OF this cfg assms(2)] show ?thesis .
qed

text \<open>
  A chip out of reset whose oscillator is ready and whose PHY is never busy: \<^verbatim>\<open>ESTAT\<close> and \<^verbatim>\<open>MISTAT\<close> answer so, everything else as the
  chip's registers are.
\<close>

definition fresh_device :: bus_device where
  "fresh_device = (chip_device chip_example)
     \<lparr>in_answer := (\<lambda>tr n.
        if last tr = OUT [0x1D] then replicate n 1
        else if last tr = OUT [0x0A] then replicate n 0
        else in_answer (chip_device chip_example) tr n)\<rparr>"

lemma fresh_device_served:
  "served_chip fresh_device chip_example [] (\<lambda>_ r. r = ENC28_CR_ESTAT \<or> r = ENC28_CR_MISTAT) (\<lambda>_. True)"
proof (unfold_locales, goal_cases)
  case (1 es ts c r k n)
  have r: "r < 0x20" "r \<noteq> 0x1A"
    using 1(3) by (auto simp: register_map_def word_less_nat_alt word_le_nat_alt split: if_splits)
  then have "spi_command_byte 0 r = r" by (simp add: spi_command_byte_def reg_arg)
  with 1(5) have "rcr_answer fresh_device es r n = rcr_answer (chip_device chip_example) es r n"
    by (simp add: rcr_answer_def fresh_device_def)
  with sim.reg_answer [OF 1(1,2,3,4)] show ?case by simp
next
  case 2 then show ?case using sim.mem_answer by (simp add: fresh_device_def)
next
  case 3 then show ?case using sim.mem_answer_full by (simp add: fresh_device_def)
qed

lemma fresh_device_ready:
  "rcr_answer fresh_device tr ENC28_CR_ESTAT n = replicate n 1"
  "rcr_answer fresh_device tr ENC28_CR_MISTAT n = replicate n 0"
  by (simp_all add: rcr_answer_def fresh_device_def spi_command_byte_def fit_eq_self)

text \<open>On a device whose oscillator is ready and whose PHY is not busy both polling loops end, and initialisation returns.\<close>

lemma returns_init:
  assumes "\<And>tr n. 0 < n \<Longrightarrow> bit (last (rcr_answer d tr ENC28_CR_ESTAT n)) ENC28_ESTAT_CLKRDY"
    and "\<And>tr n. 0 < n \<Longrightarrow> \<not> bit (last (rcr_answer d tr ENC28_CR_MISTAT n)) ENC28_MISTAT_BUSY"
  shows "returns (enc28_do_init mac (Some (bus_ctx d)))"
proof -
  have len: "0 < rcr_len b r" for b r by (simp add: rcr_len_def)
  have clk: "returns (poll_clkrdy_loop (Some (bus_ctx d)) st v)" for st v
    unfolding returns_def
  proof
    fix s
    show "\<exists>r. poll_clkrdy_loop (Some (bus_ctx d)) st v s = Some (Ret r)"
      using clkrdy_returns [of d s 0 v] assms(1) [OF len]
      by (cases "st = ENC28_OK") (auto simp: poll_answer_def poll_clkrdy_loop.simps [of _ st])
  qed
  have phy: "returns (phy_poll_busy (Some (bus_ctx d)) (bus_ctx d))"
    unfolding returns_def by (subst phy_poll_step) (simp add: Let_def assms(2) len)
  have wait: "returns (call_wait (bus_ctx d) n)" for n by (simp add: returns_def bus_call_wait)
  show ?thesis
    unfolding init_unfold Let_def
    by (simp add: deref_def) (rule returns_intros clk phy wait | simp; fail)+
qed

lemma low_registers: "\<forall>r \<le> (5 :: u8). \<not> (r = ENC28_CR_ESTAT \<or> r = ENC28_CR_MISTAT)"
  by (auto simp: word_le_nat_alt)

lemma fresh_device_inits: "returns (enc28_do_init mac (Some (bus_ctx fresh_device)))"
  by (rule returns_init) (simp_all add: fresh_device_ready)

theorem mac_address_reads_back_witness:
  "\<exists>s' s''. enc28_do_init \<lparr>addr0 = 1, addr1 = 2, addr2 = 3, addr3 = 4, addr4 = 5, addr5 = 6\<rparr>
       (Some (bus_ctx fresh_device)) bus_start = Some (Ret (ENC28_OK, s')) \<and>
     enc28_do_read_mac (Some (bus_ctx fresh_device))
       (Some \<lparr>addr0 = 0, addr1 = 0, addr2 = 0, addr3 = 0, addr4 = 0, addr5 = 0\<rparr>) s'
     = Some (Ret ((ENC28_OK, Some \<lparr>addr0 = 1, addr1 = 2, addr2 = 3, addr3 = 4, addr4 = 5, addr5 = 6\<rparr>), s''))"
proof -
  let ?mac = "\<lparr>addr0 = 1, addr1 = 2, addr2 = 3, addr3 = 4, addr4 = 5, addr5 = 6\<rparr>"
  obtain st s' where run: "enc28_do_init ?mac (Some (bus_ctx fresh_device)) bus_start = Some (Ret (st, s'))"
    by (rule returnsE [OF fresh_device_inits])
  moreover have "st = ENC28_OK" using tripleD [OF triple_init refl refl run] by blast
  moreover have "served_chip fresh_device chip_example (world bus_start) (\<lambda>_ r. r = ENC28_CR_ESTAT \<or> r = ENC28_CR_MISTAT) (\<lambda>_. True)"
    using fresh_device_served by simp
  ultimately show ?thesis
    using mac_address_reads_back [OF _ low_registers run] by blast
qed

text \<open>
  \<^verbatim>\<open>enc28_check_outgoing_packet_status\<close> returns \<open>ENC28_OK\<close>, \<open>ENC28_PACKET_TX_ABORTED\<close> or \<open>ENC28_NO_DATA\<close>; it
  moves the read pointer to look at the transmit status vector and restores it, so that the reception of
  packets goes on where it was.
\<close>

theorem check_outgoing_restores_read_pointer:
  assumes "served_chip d c (world s) vol keeps" and "priv_enc28_curr_bank s = chip_bank c"
    and "\<not> vol 0 ENC28_CR_ERDPTL" and "\<not> vol 0 ENC28_CR_ERDPTH"
  shows "\<exists>st s' ts. enc28_check_outgoing_packet_status (Some (bus_ctx d)) s = Some (Ret (st, s')) \<and>
           st \<in> {ENC28_OK, ENC28_PACKET_TX_ABORTED, ENC28_NO_DATA} \<and> recorded s s' ts \<and>
           (let c' = chip_run c ts in
            ERDPT c' = ERDPT c \<and> ERXRDPT c' = ERXRDPT c \<and> ETXST c' = ETXST c \<and> ETXND c' = ETXND c \<and>
            chip_mem c' = chip_mem c \<and> priv_enc28_curr_bank s' = chip_bank c')"
proof -
  from returnsE [OF returns_check_outgoing] obtain st s' where
    run: "enc28_check_outgoing_packet_status (Some (bus_ctx d)) s = Some (Ret (st, s'))" .
  from tripleD [OF served_chip.triple_check_outgoing [OF assms(1)] refl _ run] run assms(2-4) show ?thesis
    unfolding Let_def by blast
qed

theorem check_outgoing_restores_read_pointer_witness:
  "\<exists>st s' ts. enc28_check_outgoing_packet_status (Some (bus_ctx (chip_device chip_configured))) bus_start = Some (Ret (st, s')) \<and>
     recorded bus_start s' ts \<and> ERDPT (chip_run chip_configured ts) = ERDPT chip_configured"
  using check_outgoing_restores_read_pointer [OF chip_configured_served]
  by (auto simp: chip_configured_def Let_def)

text \<open>
  The address the transmit status vector is read from is the byte after \<^verbatim>\<open>ETXND\<close> only below \<^verbatim>\<open>0x100\<close>: the
  mask is applied after the shift and drops the high byte, so for every packet of 226 bytes or more that
  \<^verbatim>\<open>enc28_write_packet\<close> queues the vector is looked for at the wrong place.
\<close>

theorem tx_status_vector_addr_exact_iff:
  "(tx_status_vector_addr (lo8 w) (hi8 w) = w + 1) = (w < 0x100)"
proof -
  have "push_bit 8 (ucast (hi8 w)) AND mask 5 = (0 :: u16)"
    by (rule bit_eqI) (auto simp: bit_and_iff bit_push_bit_iff bit_mask_iff)
  then have z: "push_bit 8 (ucast (hi8 w)) AND 0x1F = (0 :: u16)" by (simp add: mask_eq_exp_minus_1)
  have "ucast (lo8 w) = take_bit 8 w"
    by (rule bit_eqI)
      (auto simp: lo8_def bit_ucast_iff bit_and_iff bit_0xFF16 bit_take_bit_iff simp del: bit_numeral_word_iff)
  then have lo: "unat (ucast (lo8 w) :: u16) = unat w mod 256"
    by (simp add: unsigned_take_bit_eq take_bit_nat_def)
  have "(tx_status_vector_addr (lo8 w) (hi8 w) = w + 1) = (ucast (lo8 w) = w)"
    by (simp add: tx_status_vector_addr_def z)
  also have "\<dots> = (unat w mod 256 = unat w)"
    using lo by (metis unsigned_word_eqI)
  also have "\<dots> = (w < 0x100)" by (auto simp: word_less_nat_alt mod_eq_self_iff_div_eq_0 div_eq_0_iff)
  finally show ?thesis .
qed

end
