(* ===== verification/App_Ping.thy ===== *)
theory App_Ping
  imports Enc28_Prelude
begin

text \<open>
  The ping responder of the application, used when it is built without lwIP
  (\<^verbatim>\<open>src/stm32_app/debug_utils/enc28_debug.c\<close>). A packet buffer is a list of bytes. The code
  overlays structs on it; the records below are those structs, read from a byte offset as GCC lays them
  out on the little-endian target: 16-bit fields low byte first, bit fields from the least significant bit.
\<close>

section \<open>Headers\<close>

definition le16 :: "u8 list \<Rightarrow> nat \<Rightarrow> u16" where
  "le16 buf i = bytes16 (buf ! (i + 1)) (buf ! i)"

definition bytes_at :: "u8 list \<Rightarrow> nat \<Rightarrow> nat \<Rightarrow> u8 list" where
  "bytes_at buf i n = take n (drop i buf)"

record enc28_eth_header =
  mac_dest :: "u8 list"
  mac_src :: "u8 list"
  type_len :: u16

record enc28_ipv4_header =
  version :: u8
  ihl :: u8
  dscp :: u8
  ecn :: u8
  total_len :: u16
  identification :: u16
  flags :: u16
  offset :: u16
  ttl :: u8
  protocol :: u8
  ipv4_checksum :: u16
  addr_src :: "u8 list"
  addr_dest :: "u8 list"

record enc28_icmp_ping_header =
  icmp_type :: u8
  icmp_code :: u8
  icmp_checksum :: u16
  icmp_identifier :: u16
  seq_num :: u16

abbreviation (input) "sizeof_eth_header \<equiv> (14 :: nat)"
abbreviation (input) "sizeof_ipv4_header \<equiv> (20 :: nat)"
abbreviation (input) "sizeof_icmp_ping_header \<equiv> (8 :: nat)"

definition eth_header_at :: "u8 list \<Rightarrow> nat \<Rightarrow> enc28_eth_header" where
  "eth_header_at buf i =
     \<lparr>mac_dest = bytes_at buf i 6, mac_src = bytes_at buf (i + 6) 6, type_len = le16 buf (i + 12)\<rparr>"

definition ipv4_header_at :: "u8 list \<Rightarrow> nat \<Rightarrow> enc28_ipv4_header" where
  "ipv4_header_at buf i =
     \<lparr>version = buf ! i AND 0xF, ihl = drop_bit 4 (buf ! i),
      dscp = buf ! (i + 1) AND 0x3F, ecn = drop_bit 6 (buf ! (i + 1)),
      total_len = le16 buf (i + 2), identification = le16 buf (i + 4),
      flags = le16 buf (i + 6) AND 7, offset = drop_bit 3 (le16 buf (i + 6)),
      ttl = buf ! (i + 8), protocol = buf ! (i + 9), ipv4_checksum = le16 buf (i + 10),
      addr_src = bytes_at buf (i + 12) 4, addr_dest = bytes_at buf (i + 16) 4\<rparr>"

definition icmp_ping_header_at :: "u8 list \<Rightarrow> nat \<Rightarrow> enc28_icmp_ping_header" where
  "icmp_ping_header_at buf i =
     \<lparr>icmp_type = buf ! i, icmp_code = buf ! (i + 1), icmp_checksum = le16 buf (i + 2),
      icmp_identifier = le16 buf (i + 4), seq_num = le16 buf (i + 6)\<rparr>"

section \<open>The two functions\<close>

definition enc28_debug_is_ping_request :: "u8 list \<Rightarrow> u16 \<Rightarrow> u8" where
  "enc28_debug_is_ping_request pkt_buf pkt_size =
     (if unat pkt_size < sizeof_eth_header + sizeof_ipv4_header + sizeof_icmp_ping_header then 0
      else
      let hdr = eth_header_at pkt_buf 0 in
      if type_len hdr = 0x08 then
        let ipv4 = ipv4_header_at pkt_buf sizeof_eth_header in
        if protocol ipv4 = 0x1 then
          let icmp = icmp_ping_header_at pkt_buf (sizeof_eth_header + sizeof_ipv4_header) in
          if icmp_type icmp = 0x8 then 1 else 0
        else 0
      else 0)"

text \<open>\<^verbatim>\<open>memcpy(dst + i, src, n)\<close> for the first \<open>n\<close> bytes of \<open>src\<close>.\<close>

definition memcpy_at :: "u8 list \<Rightarrow> nat \<Rightarrow> u8 list \<Rightarrow> nat \<Rightarrow> u8 list" where
  "memcpy_at dst i src n = take i dst @ take n src @ drop (i + n) dst"

text \<open>The result and the response buffer afterwards.\<close>

definition enc28_debug_handle_ping :: "u8 list \<Rightarrow> u16 \<Rightarrow> u8 list \<Rightarrow> u16 \<Rightarrow> int \<times> u8 list" where
  "enc28_debug_handle_ping pkt_buf pkt_size resp_buf resp_size =
     (if pkt_size \<noteq> resp_size then (-1, resp_buf)
      else if enc28_debug_is_ping_request pkt_buf pkt_size = 0 then (-2, resp_buf)
      else
      let resp_buf = memcpy_at resp_buf 0 pkt_buf (unat resp_size);
          src_eth_hdr = eth_header_at pkt_buf 0;
          src_ipv4 = ipv4_header_at pkt_buf sizeof_eth_header;
          resp_buf = memcpy_at resp_buf 0 (mac_src src_eth_hdr) 6;
          resp_buf = memcpy_at resp_buf 6 (mac_dest src_eth_hdr) 6;
          resp_buf = memcpy_at resp_buf (sizeof_eth_header + 16) (addr_src src_ipv4) 4;
          resp_buf = memcpy_at resp_buf (sizeof_eth_header + 12) (addr_dest src_ipv4) 4;
          icmp = sizeof_eth_header + sizeof_ipv4_header;
          resp_buf = resp_buf[icmp := 0];
          checksum = icmp_checksum (icmp_ping_header_at resp_buf icmp) + 0x8;
          resp_buf = resp_buf[icmp + 2 := lo8 checksum, icmp + 3 := hi8 checksum]
      in (0, resp_buf))"

section \<open>What the functions compute\<close>

lemma bytes16_eq_iff: "bytes16 h l = w \<longleftrightarrow> h = hi8 w \<and> l = lo8 w"
  by (metis bytes16_hi8_lo8 hi8_bytes16 lo8_bytes16)

lemma is_ping_request_cases:
  "enc28_debug_is_ping_request buf n =
     (if 42 \<le> unat n \<and> buf ! 12 = 8 \<and> buf ! 13 = 0 \<and> buf ! 23 = 1 \<and> buf ! 34 = 8 then 1 else 0)"
  by (auto simp: enc28_debug_is_ping_request_def eth_header_at_def ipv4_header_at_def icmp_ping_header_at_def
      Let_def le16_def bytes16_eq_iff hi8_def lo8_def not_less)

lemma length_memcpy_at [simp]: "i + n \<le> length dst \<Longrightarrow> n \<le> length src \<Longrightarrow> length (memcpy_at dst i src n) = length dst"
  by (simp add: memcpy_at_def)

lemma nth_memcpy_at:
  assumes "i + n \<le> length dst" and "n \<le> length src"
  shows "memcpy_at dst i src n ! j = (if i \<le> j \<and> j < i + n then src ! (j - i) else dst ! j)"
  using assms by (auto simp: memcpy_at_def nth_append min_absorb1 add.commute)

lemma length_bytes_at [simp]: "i + n \<le> length buf \<Longrightarrow> length (bytes_at buf i n) = n"
  by (simp add: bytes_at_def)

lemma nth_bytes_at: "i + n \<le> length buf \<Longrightarrow> j < n \<Longrightarrow> bytes_at buf i n ! j = buf ! (i + j)"
  by (simp add: bytes_at_def)

text \<open>The reply to a ping, byte by byte.\<close>

definition ping_reply_byte :: "u8 list \<Rightarrow> nat \<Rightarrow> u8" where
  "ping_reply_byte pkt i =
     (if i < 6 then pkt ! (i + 6) else if i < 12 then pkt ! (i - 6)
      else if 26 \<le> i \<and> i < 30 then pkt ! (i + 4) else if 30 \<le> i \<and> i < 34 then pkt ! (i - 4)
      else if i = 34 then 0
      else if i = 36 then lo8 (le16 pkt 36 + 8) else if i = 37 then hi8 (le16 pkt 36 + 8)
      else pkt ! i)"

lemma handle_ping_reply:
  assumes ping: "enc28_debug_is_ping_request pkt n = 1" and pkt: "unat n \<le> length pkt" and resp: "unat n \<le> length resp"
  shows "\<exists>r. enc28_debug_handle_ping pkt n resp n = (0, r) \<and> length r = length resp \<and>
    (\<forall>i. r ! i = (if i < unat n then ping_reply_byte pkt i else resp ! i))"
proof -
  have n: "42 \<le> unat n" using ping by (simp add: is_ping_request_cases split: if_splits)
  let ?r0 = "memcpy_at resp 0 pkt (unat n)"
  let ?r1 = "memcpy_at ?r0 0 (bytes_at pkt 6 6) 6"
  let ?r2 = "memcpy_at ?r1 6 (bytes_at pkt 0 6) 6"
  let ?r3 = "memcpy_at ?r2 30 (bytes_at pkt 26 4) 4"
  let ?r4 = "memcpy_at ?r3 26 (bytes_at pkt 30 4) 4"
  let ?r5 = "?r4[34 := 0]"
  let ?cs = "le16 ?r5 36 + 8"
  let ?r6 = "?r5[36 := lo8 ?cs, 37 := hi8 ?cs]"
  note nth = nth_memcpy_at nth_bytes_at
  have len: "length ?r4 = length resp" using n pkt resp by simp
  have r4: "?r4 ! i = (if i < 6 then pkt ! (i + 6) else if i < 12 then pkt ! (i - 6)
      else if 26 \<le> i \<and> i < 30 then pkt ! (i + 4) else if 30 \<le> i \<and> i < 34 then pkt ! (i - 4)
      else if i < unat n then pkt ! i else resp ! i)" for i
    using n pkt resp by (simp add: nth) (auto simp: nth add.commute)
  have cs: "le16 ?r5 36 = le16 pkt 36" using n by (simp add: le16_def r4)
  have run: "enc28_debug_handle_ping pkt n resp n = (0, ?r6)"
    using ping by (simp add: enc28_debug_handle_ping_def eth_header_at_def ipv4_header_at_def
        icmp_ping_header_at_def Let_def)
  have "?r6 ! i = (if i < unat n then ping_reply_byte pkt i else resp ! i)" for i
    unfolding cs ping_reply_byte_def
    using n resp by (auto simp: nth_list_update r4 len)
  with run len show ?thesis by simp
qed

section \<open>The Internet checksum\<close>

text \<open>
  RFC 1071: the 16-bit words of a message, its checksum field included, add up in one's complement to
  \<^verbatim>\<open>0xFFFF\<close>. The order of the bytes in a word does not matter to the test.
\<close>

fun sum16 :: "u8 list \<Rightarrow> nat" where
  "sum16 [] = 0"
| "sum16 [a] = unat a"
| "sum16 (a # b # bs) = unat (bytes16 b a) + sum16 bs"

lemma fold_decreases:
  assumes "65536 \<le> (n :: nat)"
  shows "n div 65536 + n mod 65536 < n"
proof -
  have "n = n div 65536 * 65536 + n mod 65536" by (rule div_mult_mod_eq [symmetric])
  moreover have "n div 65536 \<ge> 1" using assms by (simp add: Suc_leI div_greater_zero_iff)
  ultimately show ?thesis by linarith
qed

function fold16 :: "nat \<Rightarrow> nat" where
  "fold16 n = (if n < 65536 then n else fold16 (n div 65536 + n mod 65536))"
  by auto
termination
  by (relation "measure id") (simp_all add: fold_decreases not_less)

declare fold16.simps [simp del]

definition checksum_ok :: "u8 list \<Rightarrow> bool" where
  "checksum_ok msg \<longleftrightarrow> fold16 (sum16 msg) = 0xFFFF"

lemma fold16_props: "fold16 n mod 65535 = n mod 65535 \<and> fold16 n < 65536 \<and> (fold16 n = 0 \<longleftrightarrow> n = 0)"
proof (induction n rule: fold16.induct)
  case (1 n)
  show ?case
  proof (cases "n < 65536")
    case True then show ?thesis by (simp add: fold16.simps [of n])
  next
    case False
    let ?m = "n div 65536 + n mod 65536"
    have "n = ?m + 65535 * (n div 65536)"
      using div_mult_mod_eq [of n 65536] by simp
    then have "?m mod 65535 = n mod 65535" by (metis mod_mult_self2)
    moreover have "?m \<noteq> 0" using False by (simp add: div_eq_0_iff)
    ultimately show ?thesis using 1 [OF False] False by (simp add: fold16.simps [of n])
  qed
qed

lemma checksum_ok_iff: "checksum_ok msg \<longleftrightarrow> sum16 msg mod 65535 = 0 \<and> sum16 msg \<noteq> 0"
proof -
  have "fold16 n = 65535 \<longleftrightarrow> fold16 n mod 65535 = 0 \<and> fold16 n \<noteq> 0" for n
  proof -
    have "fold16 n < 65536" using fold16_props by blast
    then show ?thesis
      by (cases "fold16 n = 65535") auto
  qed
  then show ?thesis unfolding checksum_ok_def using fold16_props [of "sum16 msg"] by metis
qed

section \<open>The reply's checksums\<close>

lemma bytes_at_conv: "i + n \<le> length buf \<Longrightarrow> bytes_at buf i n = map (\<lambda>j. buf ! (i + j)) [0..<n]"
  by (rule nth_equalityI) (simp_all add: nth_bytes_at)

lemma bytes_at_split:
  assumes "m \<le> n"
  shows "bytes_at buf i n = bytes_at buf i m @ bytes_at buf (i + m) (n - m)"
proof -
  obtain k where "n = m + k" using assms le_Suc_ex by blast
  then show ?thesis by (simp add: bytes_at_def take_add add.commute [of i m])
qed

lemma upt_lists:
  "[0..<4] = [0, 1, 2, 3 :: nat]" "[0..<6] = [0, 1, 2, 3, 4, 5 :: nat]"
  "[0..<20] = [0, 1, 2, 3, 4, 5, 6, 7, 8, 9, 10, 11, 12, 13, 14, 15, 16, 17, 18, 19 :: nat]"
  by (simp_all add: upt_rec)

lemma sum16_icmp:
  assumes "34 + L \<le> length buf" and "8 \<le> L"
  shows "sum16 (bytes_at buf 34 L) =
    unat (bytes16 (buf ! 35) (buf ! 34)) + unat (le16 buf 36) + sum16 (bytes_at buf 38 (L - 4))"
proof -
  have "bytes_at buf 34 L = bytes_at buf 34 4 @ bytes_at buf 38 (L - 4)"
    using bytes_at_split [of 4 L buf 34] assms by simp
  moreover have "bytes_at buf 34 4 = [buf ! 34, buf ! 35, buf ! 36, buf ! 37]"
    using assms by (simp add: bytes_at_conv upt_lists)
  ultimately show ?thesis by (simp add: le16_def)
qed

lemma sum16_reply:
  assumes r: "\<forall>i. r ! i = (if i < n then ping_reply_byte pkt i else resp ! i)" and len: "n \<le> length r" "n \<le> length pkt"
    and L: "8 \<le> L" "34 + L \<le> n" and type: "pkt ! 34 = 8"
  shows "sum16 (bytes_at r 34 L) + 8 + unat (le16 pkt 36) = sum16 (bytes_at pkt 34 L) + unat (le16 pkt 36 + 8)"
proof -
  have "bytes_at r 38 (L - 4) = bytes_at pkt 38 (L - 4)"
    by (rule nth_equalityI) (use L len r in \<open>auto simp: nth_bytes_at ping_reply_byte_def\<close>)
  moreover have "le16 r 36 = le16 pkt 36 + 8" using L r by (simp add: le16_def ping_reply_byte_def)
  moreover have "r ! 34 = 0" "r ! 35 = pkt ! 35" using L r by (simp_all add: ping_reply_byte_def)
  ultimately show ?thesis
    using sum16_icmp [of L r] sum16_icmp [of L pkt] L len type by (simp add: unat_bytes16)
qed

lemma lost_carry: "S = R + 65536 \<Longrightarrow> S mod 65535 = 0 \<Longrightarrow> R mod 65535 \<noteq> (0 :: nat)"
proof
  assume "S = R + 65536" and "S mod 65535 = 0" and "R mod 65535 = 0"
  moreover have "(R + 65536) mod 65535 = (R mod 65535 + 65536 mod 65535) mod 65535" by (rule mod_add_eq [symmetric])
  ultimately show False by simp
qed

lemma unat_add8: "unat (w + 8 :: u16) = (if unat w < 0xFFF8 then unat w + 8 else unat w - 0xFFF8)"
  using unat_u16_lt [of w] by (auto simp: unat_word_ariths mod_if not_less)

lemma sum16_ipv4_header:
  assumes r: "\<forall>i. r ! i = (if i < n then ping_reply_byte pkt i else resp ! i)" and len: "n \<le> length r" "n \<le> length pkt"
    and n: "42 \<le> n"
  shows "sum16 (bytes_at r 14 20) = sum16 (bytes_at pkt 14 20)"
proof -
  have e: "bytes_at b 14 20 = [b ! 14, b ! 15, b ! 16, b ! 17, b ! 18, b ! 19, b ! 20, b ! 21, b ! 22, b ! 23,
      b ! 24, b ! 25, b ! 26, b ! 27, b ! 28, b ! 29, b ! 30, b ! 31, b ! 32, b ! 33]" if "34 \<le> length b" for b :: "u8 list"
    using that by (simp add: bytes_at_conv upt_lists)
  show ?thesis
    using e [of r] e [of pkt] r len n by (simp add: ping_reply_byte_def)
qed

section \<open>Properties\<close>

text \<open>
  A packet is taken for a ping request exactly when it has room for the three headers, its type field is
  the one of IPv4, the protocol is ICMP and the ICMP type is 8, all read at fixed offsets (the header length
  field of IPv4 is not looked at).
\<close>

theorem ping_request_iff:
  "enc28_debug_is_ping_request buf n = 1 \<longleftrightarrow>
   42 \<le> unat n \<and> buf ! 12 = 0x08 \<and> buf ! 13 = 0x00 \<and> buf ! 23 = 1 \<and> buf ! 34 = 8"
  by (simp add: is_ping_request_cases)

text \<open>
  C29: The reply to a ping request has the MAC and the IP addresses swapped, ICMP type 0, the checksum field increased by 8,
  and is otherwise the request; nothing after the packet's size is written.
\<close>

theorem ping_reply_contents:
  assumes "enc28_debug_is_ping_request pkt n = 1" and "unat n \<le> length pkt" and "unat n \<le> length resp"
  shows "\<exists>r. enc28_debug_handle_ping pkt n resp n = (0, r) \<and> length r = length resp \<and>
    (let p = eth_header_at pkt 0; q = eth_header_at r 0 in
       mac_dest q = mac_src p \<and> mac_src q = mac_dest p \<and> type_len q = type_len p) \<and>
    (let p = ipv4_header_at pkt 14; q = ipv4_header_at r 14 in
       q = p\<lparr>addr_src := addr_dest p, addr_dest := addr_src p\<rparr>) \<and>
    (let p = icmp_ping_header_at pkt 34; q = icmp_ping_header_at r 34 in
       q = p\<lparr>icmp_type := 0, icmp_checksum := icmp_checksum p + 8\<rparr>) \<and>
    (\<forall>i. 42 \<le> i \<longrightarrow> r ! i = (if i < unat n then pkt ! i else resp ! i))"
proof -
  have n: "42 \<le> unat n" using assms(1) by (simp add: is_ping_request_cases split: if_splits)
  from handle_ping_reply [OF assms] obtain r where run: "enc28_debug_handle_ping pkt n resp n = (0, r)"
    and len: "length r = length resp" and r: "\<forall>i. r ! i = (if i < unat n then ping_reply_byte pkt i else resp ! i)"
    by blast
  have r': "i < unat n \<Longrightarrow> r ! i = ping_reply_byte pkt i" for i using r by simp
  note facts = r' ping_reply_byte_def len bytes_at_conv upt_lists
  show ?thesis
  proof (intro exI conjI)
    show "let p = eth_header_at pkt 0; q = eth_header_at r 0 in
       mac_dest q = mac_src p \<and> mac_src q = mac_dest p \<and> type_len q = type_len p"
      using n assms(2,3) by (simp add: eth_header_at_def le16_def facts)
    show "let p = ipv4_header_at pkt 14; q = ipv4_header_at r 14 in
       q = p\<lparr>addr_src := addr_dest p, addr_dest := addr_src p\<rparr>"
      using n assms(2,3) by (simp add: ipv4_header_at_def le16_def facts)
    show "let p = icmp_ping_header_at pkt 34; q = icmp_ping_header_at r 34 in
       q = p\<lparr>icmp_type := 0, icmp_checksum := icmp_checksum p + 8\<rparr>"
      using n assms(2,3) by (simp add: icmp_ping_header_at_def le16_def facts)
    show "\<forall>i. 42 \<le> i \<longrightarrow> r ! i = (if i < unat n then pkt ! i else resp ! i)"
      using r by (auto simp: ping_reply_byte_def)
  qed (use run len in simp_all)
qed

text \<open>
  The IPv4 header checksum of the reply is right when the request's is. The ICMP checksum of the reply to a request with a
  right checksum is right exactly when the request's checksum field, read low byte first, is below
  \<^verbatim>\<open>0xFFF8\<close>: the addition of 8 wraps without the carry one's complement arithmetic asks for.
\<close>

theorem ping_reply_checksums:
  assumes "enc28_debug_is_ping_request pkt n = 1" and "unat n \<le> length pkt" and "unat n \<le> length resp"
    and "enc28_debug_handle_ping pkt n resp n = (0, r)"
    and "8 \<le> L" and "34 + L \<le> unat n" and "checksum_ok (bytes_at pkt 34 L)"
  shows "checksum_ok (bytes_at r 14 20) = checksum_ok (bytes_at pkt 14 20) \<and>
         checksum_ok (bytes_at r 34 L) = (unat (icmp_checksum (icmp_ping_header_at pkt 34)) < 0xFFF8)"
proof -
  have type: "pkt ! 34 = 8" and n: "42 \<le> unat n"
    using assms(1) by (simp_all add: is_ping_request_cases split: if_splits)
  from handle_ping_reply [OF assms(1-3)] assms(4) have len: "unat n \<le> length r"
    and r: "\<forall>i. r ! i = (if i < unat n then ping_reply_byte pkt i else resp ! i)" using assms(3) by auto
  let ?S = "sum16 (bytes_at pkt 34 L)" and ?R = "sum16 (bytes_at r 34 L)" and ?c = "unat (le16 pkt 36)"
  have sum: "?R + 8 + ?c = ?S + unat (le16 pkt 36 + 8)"
    by (rule sum16_reply [OF r len assms(2,5,6) type])
  have S: "?S mod 65535 = 0" "?S \<noteq> 0" using assms(7) by (simp_all add: checksum_ok_iff)
  have "checksum_ok (bytes_at r 34 L) = (?c < 0xFFF8)"
  proof (cases "?c < 0xFFF8")
    case True
    with sum have "?R = ?S" by (simp add: unat_add8)
    with True S show ?thesis by (simp add: checksum_ok_iff)
  next
    case False
    with sum unat_u16_lt [of "le16 pkt 36"] have "?S = ?R + 65536" by (simp add: unat_add8)
    then have "?R mod 65535 \<noteq> 0" using S(1) by (rule lost_carry)
    with False show ?thesis by (simp add: checksum_ok_iff)
  qed
  moreover have "icmp_checksum (icmp_ping_header_at pkt 34) = le16 pkt 36"
    by (simp add: icmp_ping_header_at_def)
  ultimately show ?thesis
    using sum16_ipv4_header [OF r len assms(2) n] by (simp add: checksum_ok_def)
qed

text \<open>A ping request whose checksum field is, read low byte first, \<open>c\<close>, and whose words add up with it.\<close>

definition ping_example :: "u16 \<Rightarrow> u8 list" where
  "ping_example c =
     [1, 2, 3, 4, 5, 6, 7, 8, 9, 10, 11, 12, 0x08, 0x00,
      0x45, 0, 0, 28, 0, 0, 0, 0, 64, 1, 0, 0, 192, 168, 0, 1, 192, 168, 0, 22,
      8, 0, lo8 c, hi8 c, lo8 (0xFFF7 - c), hi8 (0xFFF7 - c), 0, 0]"

lemma ping_example_request: "enc28_debug_is_ping_request (ping_example c) 42 = 1"
  by (simp add: is_ping_request_cases ping_example_def)

lemma ping_example_checksum:
  assumes "unat c \<le> 0xFFF7"
  shows "checksum_ok (bytes_at (ping_example c) 34 8)"
proof -
  have "bytes16 0 8 = 8" "bytes16 0 0 = 0" by (simp_all add: bytes16_def)
  with assms show ?thesis
    by (simp add: checksum_ok_iff ping_example_def bytes_at_def unat_sub word_le_nat_alt)
qed

theorem ping_reply_contents_witness:
  "\<exists>r. enc28_debug_handle_ping (ping_example 7) 42 (replicate 50 0xEE) 42 = (0, r) \<and> length r = 50 \<and>
     mac_dest (eth_header_at r 0) = [7, 8, 9, 10, 11, 12] \<and>
     addr_dest (ipv4_header_at r 14) = [192, 168, 0, 1] \<and> icmp_checksum (icmp_ping_header_at r 34) = 15"
  using ping_reply_contents [OF ping_example_request, of 7 "replicate 50 0xEE"]
  by (auto simp: Let_def eth_header_at_def ipv4_header_at_def icmp_ping_header_at_def ping_example_def
      bytes_at_def le16_def)

theorem ping_reply_checksums_witness:
  "checksum_ok (bytes_at (snd (enc28_debug_handle_ping (ping_example 7) 42 (replicate 50 0) 42)) 34 8)"
proof -
  from handle_ping_reply [OF ping_example_request [of 7], of "replicate 50 0"] obtain r where
    run: "enc28_debug_handle_ping (ping_example 7) 42 (replicate 50 0) 42 = (0, r)"
    by (auto simp: ping_example_def)
  with ping_reply_checksums [OF ping_example_request _ _ run, of 8] ping_example_checksum [of 7] show ?thesis
    by (simp add: icmp_ping_header_at_def) (simp add: ping_example_def le16_def)
qed

end
