(* ===== verification/Rtos_Queue.thy ===== *)
theory Rtos_Queue
  imports Enc28_Prelude
begin

text \<open>
  The queue of the FreeRTOS kernel the application communicates through
  (\<^verbatim>\<open>src/third_party/FreeRTOS/queue.c\<close>), in the configuration of \<^verbatim>\<open>src/stm32_app/FreeRTOSConfig.h\<close>: no
  queue sets, mutexes enabled, no preemption. A queue copies fixed-size items into a ring in its storage area and
  keeps two event lists of tasks, in priority order.

  Pointers into the storage area are offsets from its start; they are integers because the code lets
  \<^verbatim>\<open>pcReadFrom\<close> step below the start before it wraps it. Tasks are values of a type \<open>'t\<close>. A failed
  \<^verbatim>\<open>configASSERT\<close> stops the system: it is the result \<open>None\<close>. A function runs to its end or to the point where the
  task gives up the processor; what it hands to the scheduler, the tasks it makes ready, is part of its result.
\<close>

section \<open>State\<close>

type_synonym UBaseType_t = u32

datatype queue_position = queueSEND_TO_BACK | queueSEND_TO_FRONT | queueOVERWRITE

text \<open>\<open>pcHead\<close> is \<open>None\<close> for a null pointer, which marks a mutex.\<close>

record 't Queue_t =
  storage :: "u8 list"
  pcHead :: "int option"
  pcWriteTo :: int
  pcTail :: int
  pcReadFrom :: int
  xMutexHolder :: "'t option"
  xTasksWaitingToSend :: "'t list"
  xTasksWaitingToReceive :: "'t list"
  uxMessagesWaiting :: UBaseType_t
  uxLength :: UBaseType_t
  uxItemSize :: UBaseType_t
  cRxLock :: int
  cTxLock :: int

abbreviation (input) queueUNLOCKED :: int where "queueUNLOCKED \<equiv> -1"
abbreviation (input) queueLOCKED_UNMODIFIED :: int where "queueLOCKED_UNMODIFIED \<equiv> 0"
abbreviation (input) queueINT8_MAX :: int where "queueINT8_MAX \<equiv> 127"

definition head_offset :: "'t Queue_t \<Rightarrow> int" where
  "head_offset q = (case pcHead q of None \<Rightarrow> 0 | Some h \<Rightarrow> h)"

definition item_size :: "'t Queue_t \<Rightarrow> nat" where
  "item_size q = unat (uxItemSize q)"

text \<open>\<^verbatim>\<open>memcpy\<close> to and from the storage area.\<close>

definition storage_put :: "int \<Rightarrow> u8 list \<Rightarrow> u8 list \<Rightarrow> u8 list" where
  "storage_put off bs mem = take (nat off) mem @ bs @ drop (nat off + length bs) mem"

definition storage_get :: "int \<Rightarrow> nat \<Rightarrow> u8 list \<Rightarrow> u8 list" where
  "storage_get off n mem = take n (drop (nat off) mem)"

section \<open>Event lists\<close>

text \<open>
  \<^verbatim>\<open>xTaskRemoveFromEventList\<close> takes the first task of a list that is not empty. \<^verbatim>\<open>vTaskPlaceOnEventList\<close>
  inserts the running task behind every task of its priority or a higher one.
\<close>

definition remove_first_if_any :: "'t list \<Rightarrow> 't option \<times> 't list" where
  "remove_first_if_any ts = (case ts of [] \<Rightarrow> (None, []) | t # ts' \<Rightarrow> (Some t, ts'))"

fun vTaskPlaceOnEventList :: "('t \<Rightarrow> nat) \<Rightarrow> 't \<Rightarrow> 't list \<Rightarrow> 't list" where
  "vTaskPlaceOnEventList prio t [] = [t]"
| "vTaskPlaceOnEventList prio t (u # us) =
     (if prio u \<ge> prio t then u # vTaskPlaceOnEventList prio t us else t # u # us)"

section \<open>Creating and resetting\<close>

definition xQueueGenericReset :: "'t Queue_t \<Rightarrow> bool \<Rightarrow> ('t option \<times> 't Queue_t) option" where
  "xQueueGenericReset q xNewQueue =
     (if uxLength q \<ge> 1 \<and> unat (0xFFFFFFFF div uxLength q) \<ge> item_size q then
        let h = head_offset q;
            q = q\<lparr>pcTail := h + int (unat (uxLength q) * item_size q),
                  uxMessagesWaiting := 0,
                  pcWriteTo := h,
                  pcReadFrom := h + int ((unat (uxLength q) - 1) * item_size q),
                  cRxLock := queueUNLOCKED, cTxLock := queueUNLOCKED\<rparr>
        in if \<not> xNewQueue
           then case remove_first_if_any (xTasksWaitingToSend q) of
             (woken, ts) \<Rightarrow> Some (woken, q\<lparr>xTasksWaitingToSend := ts\<rparr>)
           else Some (None, q\<lparr>xTasksWaitingToSend := [], xTasksWaitingToReceive := []\<rparr>)
      else None)"

text \<open>The queue structure \<open>q\<close> is the caller's memory, its contents arbitrary.\<close>

definition prvInitialiseNewQueue ::
  "UBaseType_t \<Rightarrow> UBaseType_t \<Rightarrow> u8 list option \<Rightarrow> 't Queue_t \<Rightarrow> 't Queue_t option" where
  "prvInitialiseNewQueue uxQueueLength isz pucQueueStorage q =
     (let q = q\<lparr>pcHead := Some 0, storage := (case pucQueueStorage of None \<Rightarrow> [] | Some mem \<Rightarrow> mem),
                uxLength := uxQueueLength, uxItemSize := isz\<rparr>
      in map_option snd (xQueueGenericReset q True))"

definition xQueueGenericCreateStatic ::
  "UBaseType_t \<Rightarrow> UBaseType_t \<Rightarrow> u8 list option \<Rightarrow> 't Queue_t option \<Rightarrow> 't Queue_t option" where
  "xQueueGenericCreateStatic uxQueueLength isz pucQueueStorage pxStaticQueue =
     (case pxStaticQueue of None \<Rightarrow> None
      | Some q \<Rightarrow>
        if uxQueueLength > 0 \<and> \<not> (pucQueueStorage \<noteq> None \<and> isz = 0) \<and> \<not> (pucQueueStorage = None \<and> isz \<noteq> 0)
        then prvInitialiseNewQueue uxQueueLength isz pucQueueStorage q
        else None)"

section \<open>Copying items\<close>

text \<open>
  \<open>disinherit\<close> stands for \<^verbatim>\<open>xTaskPriorityDisinherit\<close> of the scheduler, which is called for a mutex only.
\<close>

definition prvCopyDataToQueue ::
  "('t option \<Rightarrow> bool) \<Rightarrow> 't Queue_t \<Rightarrow> u8 list \<Rightarrow> queue_position \<Rightarrow> bool \<times> 't Queue_t" where
  "prvCopyDataToQueue disinherit q pvItemToQueue xPosition =
     (let msgs = uxMessagesWaiting q in
      if uxItemSize q = 0 then
        (if pcHead q = None
         then (disinherit (xMutexHolder q), q\<lparr>xMutexHolder := None, uxMessagesWaiting := msgs + 1\<rparr>)
         else (False, q\<lparr>uxMessagesWaiting := msgs + 1\<rparr>))
      else if xPosition = queueSEND_TO_BACK then
        let q = q\<lparr>storage := storage_put (pcWriteTo q) (take (item_size q) pvItemToQueue) (storage q)\<rparr>;
            q = q\<lparr>pcWriteTo := pcWriteTo q + int (item_size q)\<rparr>;
            q = (if pcWriteTo q \<ge> pcTail q then q\<lparr>pcWriteTo := head_offset q\<rparr> else q)
        in (False, q\<lparr>uxMessagesWaiting := msgs + 1\<rparr>)
      else
        let q = q\<lparr>storage := storage_put (pcReadFrom q) (take (item_size q) pvItemToQueue) (storage q)\<rparr>;
            q = q\<lparr>pcReadFrom := pcReadFrom q - int (item_size q)\<rparr>;
            q = (if pcReadFrom q < head_offset q then q\<lparr>pcReadFrom := pcTail q - int (item_size q)\<rparr> else q);
            msgs = (if xPosition = queueOVERWRITE \<and> msgs > 0 then msgs - 1 else msgs)
        in (False, q\<lparr>uxMessagesWaiting := msgs + 1\<rparr>))"

text \<open>The item goes to the caller's buffer; an item size of 0 copies nothing.\<close>

definition prvCopyDataFromQueue :: "'t Queue_t \<Rightarrow> u8 list \<times> 't Queue_t" where
  "prvCopyDataFromQueue q =
     (if uxItemSize q \<noteq> 0 then
        let q = q\<lparr>pcReadFrom := pcReadFrom q + int (item_size q)\<rparr>;
            q = (if pcReadFrom q \<ge> pcTail q then q\<lparr>pcReadFrom := head_offset q\<rparr> else q)
        in (storage_get (pcReadFrom q) (item_size q) (storage q), q)
      else ([], q))"

definition prvIsQueueEmpty :: "'t Queue_t \<Rightarrow> bool" where
  "prvIsQueueEmpty q \<longleftrightarrow> uxMessagesWaiting q = 0"

definition prvIsQueueFull :: "'t Queue_t \<Rightarrow> bool" where
  "prvIsQueueFull q \<longleftrightarrow> uxMessagesWaiting q = uxLength q"

definition uxQueueMessagesWaiting :: "'t Queue_t \<Rightarrow> UBaseType_t" where
  "uxQueueMessagesWaiting q = uxMessagesWaiting q"

definition uxQueueSpacesAvailable :: "'t Queue_t \<Rightarrow> UBaseType_t" where
  "uxQueueSpacesAvailable q = uxLength q - uxMessagesWaiting q"

section \<open>Locking\<close>

text \<open>
  While a task is about to wait, the queue is locked: interrupts may still add and remove items, but count the
  events instead of touching the event lists. Unlocking makes ready one waiting task per counted event.
\<close>

definition prvLockQueue :: "'t Queue_t \<Rightarrow> 't Queue_t" where
  "prvLockQueue q =
     q\<lparr>cRxLock := if cRxLock q = queueUNLOCKED then queueLOCKED_UNMODIFIED else cRxLock q,
       cTxLock := if cTxLock q = queueUNLOCKED then queueLOCKED_UNMODIFIED else cTxLock q\<rparr>"

definition prvIncrementQueueTxLock :: "nat \<Rightarrow> int \<Rightarrow> 't Queue_t \<Rightarrow> 't Queue_t option" where
  "prvIncrementQueueTxLock uxNumberOfTasks lck q =
     (if uint (word_of_int lck :: UBaseType_t) < int uxNumberOfTasks
      then if lck \<noteq> queueINT8_MAX then Some (q\<lparr>cTxLock := lck + 1\<rparr>) else None
      else Some q)"

definition prvIncrementQueueRxLock :: "nat \<Rightarrow> int \<Rightarrow> 't Queue_t \<Rightarrow> 't Queue_t option" where
  "prvIncrementQueueRxLock uxNumberOfTasks lck q =
     (if uint (word_of_int lck :: UBaseType_t) < int uxNumberOfTasks
      then if lck \<noteq> queueINT8_MAX then Some (q\<lparr>cRxLock := lck + 1\<rparr>) else None
      else Some q)"

text \<open>The loops of \<^verbatim>\<open>prvUnlockQueue\<close>: \<open>n\<close> events, the tasks made ready and the tasks still waiting.\<close>

fun unlock_events :: "nat \<Rightarrow> 't list \<Rightarrow> 't list \<times> 't list" where
  "unlock_events 0 ts = ([], ts)"
| "unlock_events (Suc n) [] = ([], [])"
| "unlock_events (Suc n) (t # ts) = (case unlock_events n ts of (ready, rest) \<Rightarrow> (t # ready, rest))"

definition prvUnlockQueue :: "'t Queue_t \<Rightarrow> 't list \<times> 't Queue_t" where
  "prvUnlockQueue q =
     (case unlock_events (nat (cTxLock q)) (xTasksWaitingToReceive q) of (ready_rx, rx) \<Rightarrow>
      case unlock_events (nat (cRxLock q)) (xTasksWaitingToSend q) of (ready_tx, tx) \<Rightarrow>
      (ready_rx @ ready_tx,
       q\<lparr>xTasksWaitingToReceive := rx, cTxLock := queueUNLOCKED,
         xTasksWaitingToSend := tx, cRxLock := queueUNLOCKED\<rparr>))"

section \<open>Sending\<close>

text \<open>
  The critical section of \<^verbatim>\<open>xQueueGenericSend\<close>: \<open>None\<close> when the queue is full. The yields it may ask for do nothing
  without preemption.
\<close>

definition send_pass ::
  "('t option \<Rightarrow> bool) \<Rightarrow> 't Queue_t \<Rightarrow> u8 list \<Rightarrow> queue_position \<Rightarrow> ('t list \<times> 't Queue_t) option" where
  "send_pass disinherit q pvItemToQueue xCopyPosition =
     (if uxMessagesWaiting q < uxLength q \<or> xCopyPosition = queueOVERWRITE then
        case prvCopyDataToQueue disinherit q pvItemToQueue xCopyPosition of (xYieldRequired, q) \<Rightarrow>
        case remove_first_if_any (xTasksWaitingToReceive q) of (woken, ts) \<Rightarrow>
        Some (case woken of None \<Rightarrow> [] | Some t \<Rightarrow> [t], q\<lparr>xTasksWaitingToReceive := ts\<rparr>)
      else None)"

text \<open>
  What follows a full queue, with the scheduler suspended: whether the call is over, the tasks made
  ready, and the queue. \<open>expired\<close> is the answer of \<^verbatim>\<open>xTaskCheckForTimeOut\<close>. \<open>e p\<close> is what happens to the
  queue at the points between the critical sections: 0 before the scheduler is suspended and the queue is locked, when tasks
  and interrupts may act; 1 before the queue is looked at, 2 after that, before the task is put on the event list, and
  3 before the queue is unlocked, when interrupts may act.
\<close>

definition send_wait ::
  "('t \<Rightarrow> nat) \<Rightarrow> 't \<Rightarrow> bool \<Rightarrow> (nat \<Rightarrow> 't Queue_t \<Rightarrow> 't Queue_t) \<Rightarrow> 't Queue_t \<Rightarrow> bool \<times> 't list \<times> 't Queue_t" where
  "send_wait prio self expired e q =
     (let q = e 1 (prvLockQueue (e 0 q)) in
      if \<not> expired then
        if prvIsQueueFull q
        then let q = e 2 q;
                 q = q\<lparr>xTasksWaitingToSend := vTaskPlaceOnEventList prio self (xTasksWaitingToSend q)\<rparr>
             in (False, prvUnlockQueue (e 3 q))
        else (False, prvUnlockQueue (e 3 (e 2 q)))
      else (True, prvUnlockQueue (e 3 q)))"

text \<open>
  The loop. \<open>env k\<close> is what the others do in round \<open>k\<close>: at the points 0 to 3 of the wait, and at point 4 from
  the unlocking of the queue to the moment this task goes on. A task that has put itself on an event list goes on only when
  it has been taken off: by the unlocking, by one that removes or adds an item, or by the tick that ends its
  wait. When point 4 leaves it on the list it waits for ever and does not return.
\<close>

partial_function (option) send_loop ::
  "('t option \<Rightarrow> bool) \<Rightarrow> ('t \<Rightarrow> nat) \<Rightarrow> 't \<Rightarrow> (nat \<Rightarrow> nat \<Rightarrow> 't Queue_t \<Rightarrow> 't Queue_t) \<Rightarrow> (nat \<Rightarrow> bool) \<Rightarrow> nat
   \<Rightarrow> 't Queue_t \<Rightarrow> u8 list \<Rightarrow> bool \<Rightarrow> queue_position \<Rightarrow> (bool \<times> 't list \<times> 't Queue_t) option" where
  "send_loop disinherit prio self env expired k q item block pos =
     (case send_pass disinherit q item pos of
        Some (ready, q) \<Rightarrow> Some (True, ready, q)
      | None \<Rightarrow>
        if \<not> block then Some (False, [], q)
        else case send_wait prio self (expired k) (env k) q of (finished, ready, q) \<Rightarrow>
          if finished then Some (False, ready, q)
          else if self \<in> set (xTasksWaitingToSend (env k 4 q)) then None
          else Option.bind (send_loop disinherit prio self env expired (Suc k) (env k 4 q) item block pos)
            (\<lambda>(st, ready', q). Some (st, ready @ ready', q)))"

definition xQueueGenericSend ::
  "('t option \<Rightarrow> bool) \<Rightarrow> ('t \<Rightarrow> nat) \<Rightarrow> 't \<Rightarrow> (nat \<Rightarrow> nat \<Rightarrow> 't Queue_t \<Rightarrow> 't Queue_t) \<Rightarrow> (nat \<Rightarrow> bool)
   \<Rightarrow> 't Queue_t option \<Rightarrow> u8 list option \<Rightarrow> u32 \<Rightarrow> queue_position \<Rightarrow> (bool \<times> 't list \<times> 't Queue_t) option" where
  "xQueueGenericSend disinherit prio self env expired xQueue pvItemToQueue xTicksToWait xCopyPosition =
     (case xQueue of None \<Rightarrow> None
      | Some q \<Rightarrow>
        if pvItemToQueue = None \<and> uxItemSize q \<noteq> 0 then None
        else if xCopyPosition = queueOVERWRITE \<and> uxLength q \<noteq> 1 then None
        else send_loop disinherit prio self env expired 0 q
          (case pvItemToQueue of None \<Rightarrow> [] | Some bs \<Rightarrow> bs) (xTicksToWait \<noteq> 0) xCopyPosition)"

text \<open>The version for interrupts: it returns at once, and reports the task it made ready.\<close>

definition xQueueGenericSendFromISR ::
  "('t option \<Rightarrow> bool) \<Rightarrow> nat \<Rightarrow> 't Queue_t option \<Rightarrow> u8 list option \<Rightarrow> queue_position
   \<Rightarrow> (bool \<times> 't option \<times> 't Queue_t) option" where
  "xQueueGenericSendFromISR disinherit ntasks xQueue pvItemToQueue xCopyPosition =
     (case xQueue of None \<Rightarrow> None
      | Some q \<Rightarrow>
        if pvItemToQueue = None \<and> uxItemSize q \<noteq> 0 then None
        else if xCopyPosition = queueOVERWRITE \<and> uxLength q \<noteq> 1 then None
        else if uxMessagesWaiting q < uxLength q \<or> xCopyPosition = queueOVERWRITE then
          let lck = cTxLock q;
              q = snd (prvCopyDataToQueue disinherit q (case pvItemToQueue of None \<Rightarrow> [] | Some bs \<Rightarrow> bs) xCopyPosition)
          in if lck = queueUNLOCKED
             then case remove_first_if_any (xTasksWaitingToReceive q) of (woken, ts) \<Rightarrow>
               Some (True, woken, q\<lparr>xTasksWaitingToReceive := ts\<rparr>)
             else map_option (\<lambda>q. (True, None, q)) (prvIncrementQueueTxLock ntasks lck q)
        else Some (False, None, q))"

section \<open>Receiving\<close>

definition receive_pass :: "'t Queue_t \<Rightarrow> (u8 list \<times> 't list \<times> 't Queue_t) option" where
  "receive_pass q =
     (let msgs = uxMessagesWaiting q in
      if msgs > 0 then
        case prvCopyDataFromQueue q of (item, q) \<Rightarrow>
        let q = q\<lparr>uxMessagesWaiting := msgs - 1\<rparr> in
        case remove_first_if_any (xTasksWaitingToSend q) of (woken, ts) \<Rightarrow>
        Some (item, case woken of None \<Rightarrow> [] | Some t \<Rightarrow> [t], q\<lparr>xTasksWaitingToSend := ts\<rparr>)
      else None)"

text \<open>
  After an empty queue, with the scheduler suspended, with the same points as for a send. An expired wait ends the call only
  when the queue is still empty once it has been unlocked.
\<close>

definition receive_wait ::
  "('t \<Rightarrow> nat) \<Rightarrow> 't \<Rightarrow> bool \<Rightarrow> (nat \<Rightarrow> 't Queue_t \<Rightarrow> 't Queue_t) \<Rightarrow> 't Queue_t \<Rightarrow> bool \<times> 't list \<times> 't Queue_t" where
  "receive_wait prio self expired e q =
     (let q = e 1 (prvLockQueue (e 0 q)) in
      if \<not> expired then
        if prvIsQueueEmpty q
        then let q = e 2 q;
                 q = q\<lparr>xTasksWaitingToReceive := vTaskPlaceOnEventList prio self (xTasksWaitingToReceive q)\<rparr>
             in (False, prvUnlockQueue (e 3 q))
        else (False, prvUnlockQueue (e 3 (e 2 q)))
      else case prvUnlockQueue (e 3 q) of (ready, q) \<Rightarrow> (prvIsQueueEmpty q, ready, q))"

text \<open>An expired wait that finds an item after all has no time left: the next pass does not wait.\<close>

partial_function (option) receive_loop ::
  "('t \<Rightarrow> nat) \<Rightarrow> 't \<Rightarrow> (nat \<Rightarrow> nat \<Rightarrow> 't Queue_t \<Rightarrow> 't Queue_t) \<Rightarrow> (nat \<Rightarrow> bool) \<Rightarrow> nat
   \<Rightarrow> 't Queue_t \<Rightarrow> bool \<Rightarrow> (u8 list option \<times> 't list \<times> 't Queue_t) option" where
  "receive_loop prio self env expired k q block =
     (case receive_pass q of
        Some (item, ready, q) \<Rightarrow> Some (Some item, ready, q)
      | None \<Rightarrow>
        if \<not> block then Some (None, [], q)
        else case receive_wait prio self (expired k) (env k) q of (finished, ready, q) \<Rightarrow>
          if finished then Some (None, ready, q)
          else if self \<in> set (xTasksWaitingToReceive (env k 4 q)) then None
          else Option.bind (receive_loop prio self env expired (Suc k) (env k 4 q) (\<not> expired k))
            (\<lambda>(st, ready', q). Some (st, ready @ ready', q)))"

text \<open>
  \<open>Some item\<close> is \<^verbatim>\<open>pdPASS\<close> with the item in the caller's buffer, \<open>None\<close> is \<^verbatim>\<open>errQUEUE_EMPTY\<close>. \<open>has_buffer\<close> is false for
  a null buffer.
\<close>

definition xQueueReceive ::
  "('t \<Rightarrow> nat) \<Rightarrow> 't \<Rightarrow> (nat \<Rightarrow> nat \<Rightarrow> 't Queue_t \<Rightarrow> 't Queue_t) \<Rightarrow> (nat \<Rightarrow> bool)
   \<Rightarrow> 't Queue_t option \<Rightarrow> bool \<Rightarrow> u32 \<Rightarrow> (u8 list option \<times> 't list \<times> 't Queue_t) option" where
  "xQueueReceive prio self env expired xQueue has_buffer xTicksToWait =
     (case xQueue of None \<Rightarrow> None
      | Some q \<Rightarrow>
        if \<not> has_buffer \<and> uxItemSize q \<noteq> 0 then None
        else receive_loop prio self env expired 0 q (xTicksToWait \<noteq> 0))"

definition xQueueReceiveFromISR ::
  "nat \<Rightarrow> 't Queue_t option \<Rightarrow> bool \<Rightarrow> (u8 list option \<times> 't option \<times> 't Queue_t) option" where
  "xQueueReceiveFromISR ntasks xQueue has_buffer =
     (case xQueue of None \<Rightarrow> None
      | Some q \<Rightarrow>
        if \<not> has_buffer \<and> uxItemSize q \<noteq> 0 then None
        else let msgs = uxMessagesWaiting q in
        if msgs > 0 then
          let lck = cRxLock q in
          case prvCopyDataFromQueue q of (item, q) \<Rightarrow>
          let q = q\<lparr>uxMessagesWaiting := msgs - 1\<rparr> in
          if lck = queueUNLOCKED
          then case remove_first_if_any (xTasksWaitingToSend q) of (woken, ts) \<Rightarrow>
            Some (Some item, woken, q\<lparr>xTasksWaitingToSend := ts\<rparr>)
          else map_option (\<lambda>q. (Some item, None, q)) (prvIncrementQueueRxLock ntasks lck q)
        else Some (None, None, q))"

text \<open>Looking at the first item: the critical section of \<^verbatim>\<open>xQueuePeek\<close> wakes another reader.\<close>

definition peek_pass :: "'t Queue_t \<Rightarrow> (u8 list \<times> 't list \<times> 't Queue_t) option" where
  "peek_pass q =
     (if uxMessagesWaiting q > 0 then
        let pos = pcReadFrom q in
        case prvCopyDataFromQueue q of (item, q) \<Rightarrow>
        let q = q\<lparr>pcReadFrom := pos\<rparr> in
        case remove_first_if_any (xTasksWaitingToReceive q) of (woken, ts) \<Rightarrow>
        Some (item, case woken of None \<Rightarrow> [] | Some t \<Rightarrow> [t], q\<lparr>xTasksWaitingToReceive := ts\<rparr>)
      else None)"

partial_function (option) peek_loop ::
  "('t \<Rightarrow> nat) \<Rightarrow> 't \<Rightarrow> (nat \<Rightarrow> nat \<Rightarrow> 't Queue_t \<Rightarrow> 't Queue_t) \<Rightarrow> (nat \<Rightarrow> bool) \<Rightarrow> nat
   \<Rightarrow> 't Queue_t \<Rightarrow> bool \<Rightarrow> (u8 list option \<times> 't list \<times> 't Queue_t) option" where
  "peek_loop prio self env expired k q block =
     (case peek_pass q of
        Some (item, ready, q) \<Rightarrow> Some (Some item, ready, q)
      | None \<Rightarrow>
        if \<not> block then Some (None, [], q)
        else case receive_wait prio self (expired k) (env k) q of (finished, ready, q) \<Rightarrow>
          if finished then Some (None, ready, q)
          else if self \<in> set (xTasksWaitingToReceive (env k 4 q)) then None
          else Option.bind (peek_loop prio self env expired (Suc k) (env k 4 q) (\<not> expired k))
            (\<lambda>(st, ready', q). Some (st, ready @ ready', q)))"

definition xQueuePeek ::
  "('t \<Rightarrow> nat) \<Rightarrow> 't \<Rightarrow> (nat \<Rightarrow> nat \<Rightarrow> 't Queue_t \<Rightarrow> 't Queue_t) \<Rightarrow> (nat \<Rightarrow> bool)
   \<Rightarrow> 't Queue_t option \<Rightarrow> bool \<Rightarrow> u32 \<Rightarrow> (u8 list option \<times> 't list \<times> 't Queue_t) option" where
  "xQueuePeek prio self env expired xQueue has_buffer xTicksToWait =
     (case xQueue of None \<Rightarrow> None
      | Some q \<Rightarrow>
        if \<not> has_buffer \<and> uxItemSize q \<noteq> 0 then None
        else peek_loop prio self env expired 0 q (xTicksToWait \<noteq> 0))"

section \<open>The ring and what it holds\<close>

definition queue_length :: "'t Queue_t \<Rightarrow> nat" where
  "queue_length q = unat (uxLength q)"

definition queue_count :: "'t Queue_t \<Rightarrow> nat" where
  "queue_count q = unat (uxMessagesWaiting q)"

definition read_slot :: "'t Queue_t \<Rightarrow> nat" where
  "read_slot q = nat (pcReadFrom q) div item_size q"

definition slot :: "'t Queue_t \<Rightarrow> nat \<Rightarrow> u8 list" where
  "slot q i = storage_get (int (i * item_size q)) (item_size q) (storage q)"

text \<open>
  The invariant of a queue that is not a semaphore: the pointers are multiples of the item size inside the storage
  area, and the write pointer is as many items ahead of the read pointer as the queue holds.
\<close>

definition queue_ok :: "'t Queue_t \<Rightarrow> bool" where
  "queue_ok q \<longleftrightarrow>
     (let n = queue_length q; sz = item_size q; r = read_slot q in
      0 < sz \<and> 0 < n \<and> length (storage q) = n * sz \<and> pcHead q = Some 0 \<and> pcTail q = int (n * sz) \<and>
      queue_count q \<le> n \<and> r < n \<and> pcReadFrom q = int (r * sz) \<and>
      pcWriteTo q = int (((r + 1 + queue_count q) mod n) * sz))"

definition contents :: "'t Queue_t \<Rightarrow> u8 list list" where
  "contents q = map (\<lambda>i. slot q ((read_slot q + 1 + i) mod queue_length q)) [0..<queue_count q]"

lemma queue_okD:
  assumes "queue_ok q"
  shows "0 < item_size q" "0 < queue_length q" "length (storage q) = queue_length q * item_size q"
    "head_offset q = 0" "pcHead q = Some 0" "pcTail q = int (queue_length q * item_size q)"
    "queue_count q \<le> queue_length q" "read_slot q < queue_length q"
    "pcReadFrom q = int (read_slot q * item_size q)"
    "pcWriteTo q = int (((read_slot q + 1 + queue_count q) mod queue_length q) * item_size q)"
    "uxItemSize q \<noteq> 0"
  using assms by (auto simp: queue_ok_def Let_def head_offset_def item_size_def)

lemma queue_upd [simp]:
  "item_size (q\<lparr>storage := a\<rparr>) = item_size q" "item_size (q\<lparr>pcWriteTo := p\<rparr>) = item_size q"
  "item_size (q\<lparr>pcReadFrom := p\<rparr>) = item_size q" "item_size (q\<lparr>uxMessagesWaiting := m\<rparr>) = item_size q"
  "head_offset (q\<lparr>storage := a\<rparr>) = head_offset q" "head_offset (q\<lparr>pcWriteTo := p\<rparr>) = head_offset q"
  "head_offset (q\<lparr>pcReadFrom := p\<rparr>) = head_offset q" "head_offset (q\<lparr>uxMessagesWaiting := m\<rparr>) = head_offset q"
  by (simp_all add: item_size_def head_offset_def)

lemma storage_nat:
  "storage_put (int a) bs mem = take a mem @ bs @ drop (a + length bs) mem"
  "storage_get (int a) n mem = take n (drop a mem)"
  by (simp_all add: storage_put_def storage_get_def)

lemma slot_put:
  assumes len: "length mem = n * sz" and bs: "length bs = sz" and i: "i < n" and j: "j < n"
  shows "storage_get (int (j * sz)) sz (storage_put (int (i * sz)) bs mem)
       = (if j = i then bs else storage_get (int (j * sz)) sz mem)"
proof -
  have i_le: "i * sz + sz \<le> n * sz" using i mult_le_mono1 [of "Suc i" n sz] by simp
  have "i * sz \<le> n * sz" using i by simp
  then have imin: "min (n * sz) (i * sz) = i * sz" by (rule min_absorb2)
  have j_le: "j * sz + sz \<le> n * sz" using j mult_le_mono1 [of "Suc j" n sz] by simp
  have put: "storage_put (int (i * sz)) bs mem ! k =
      (if i * sz \<le> k \<and> k < i * sz + sz then bs ! (k - i * sz) else mem ! k)" if "k < n * sz" for k
    using that i i_le len bs unfolding storage_nat by (auto simp: nth_append min_def)
  have plen: "length (storage_put (int (i * sz)) bs mem) = n * sz"
    using i_le len bs unfolding storage_nat by simp
  show ?thesis
  proof (cases "j = i")
    case True
    then show ?thesis
      using i_le bs len imin unfolding storage_nat by simp
  next
    case False
    have out: "\<not> (i * sz \<le> j * sz + k \<and> j * sz + k < i * sz + sz)" if "k < sz" for k
    proof (cases "j < i")
      case True
      then have "Suc j * sz \<le> i * sz" by (intro mult_le_mono1) simp
      with that show ?thesis by simp
    next
      case False
      with \<open>j \<noteq> i\<close> have "Suc i * sz \<le> j * sz" by (intro mult_le_mono1) simp
      then show ?thesis by simp
    qed
    have "storage_get (int (j * sz)) sz (storage_put (int (i * sz)) bs mem) = storage_get (int (j * sz)) sz mem"
    proof (rule nth_equalityI)
      fix k assume "k < length (storage_get (int (j * sz)) sz (storage_put (int (i * sz)) bs mem))"
      then have k: "k < sz" by (simp add: storage_nat(2) del: of_nat_mult)
      have inside: "j * sz \<le> n * sz" and kn: "j * sz + k < n * sz" using j_le k j by (simp_all del: mult_le_cancel2)
      have "take sz (drop (j * sz) m) ! k = m ! (j * sz + k)" if "length m = n * sz" for m :: "u8 list"
        using k inside that by (simp only: nth_take nth_drop)
      then show
        "storage_get (int (j * sz)) sz (storage_put (int (i * sz)) bs mem) ! k = storage_get (int (j * sz)) sz mem ! k"
        using put [OF kn] out [OF k] len plen unfolding storage_nat(2) by simp
    qed (simp add: storage_nat(2) len plen del: of_nat_mult)
    with False show ?thesis by simp
  qed
qed

lemma wrap_step:
  assumes "0 < sz" and "r < n"
  shows "(if int ((r + 1) * sz) \<ge> int (n * sz) then 0 else int ((r + 1) * sz)) = int (((r + 1) mod n) * sz)"
proof -
  have "int ((r + 1) * sz) \<ge> int (n * sz) \<longleftrightarrow> n \<le> r + 1"
    using assms(1) by (simp only: of_nat_le_iff mult_le_cancel2) simp
  then show ?thesis using assms(2) by (cases "r + 1 = n") (simp_all del: of_nat_mult of_nat_add)
qed

text \<open>
  One step of the ring, on the numbers: the count, the read slot and the storage determine the contents.
\<close>

lemma ring_index_ne: "i < m \<Longrightarrow> m < n \<Longrightarrow> (r + 1 + i) mod n \<noteq> (r + 1 + m) mod (n :: nat)"
proof
  assume "i < m" "m < n" and "(r + 1 + i) mod n = (r + 1 + m) mod n"
  then have "n dvd (r + 1 + m) - (r + 1 + i)"
    by (metis mod_eq_dvd_iff_nat nat_add_left_cancel_le nat_less_le)
  with \<open>i < m\<close> \<open>m < n\<close> show False by (auto dest: dvd_imp_le)
qed

lemma u32_succ: "a < b \<Longrightarrow> unat (a + 1) = unat a + 1" for a b :: u32
proof -
  assume "a < b"
  then have "unat a < unat b" by (simp add: word_less_nat_alt)
  moreover have "unat b < 2 ^ LENGTH(32)" by (rule unsigned_less)
  ultimately show "unat (a + 1) = unat a + 1" by (simp add: unat_word_ariths)
qed

lemma u32_pred: "a > 0 \<Longrightarrow> unat (a - 1) = unat a - 1" for a :: u32
  by (rule unat_minus_one) auto

lemma queue_less_full: "queue_count q < queue_length q \<longleftrightarrow> uxMessagesWaiting q < uxLength q"
  by (simp add: queue_count_def queue_length_def word_less_nat_alt)

lemma send_back_ok:
  assumes ok: "queue_ok q" and room: "queue_count q < queue_length q" and item: "length item = item_size q"
    and q': "q' = snd (prvCopyDataToQueue disinherit q item queueSEND_TO_BACK)"
  shows "queue_ok q' \<and> contents q' = contents q @ [item]"
proof -
  note D = queue_okD [OF ok]
  let ?n = "queue_length q" and ?sz = "item_size q" and ?r = "read_slot q" and ?m = "queue_count q"
  let ?w = "(?r + 1 + ?m) mod ?n"
  let ?mem = "storage_put (int (?w * ?sz)) item (storage q)"
  have w: "?w < ?n" using D(2) by simp
  have wr: "(if int ((?w + 1) * ?sz) \<ge> int (?n * ?sz) then 0 else int ((?w + 1) * ?sz)) = int (((?w + 1) mod ?n) * ?sz)"
    by (rule wrap_step [OF D(1) w])
  have step: "int (?w * ?sz) + int ?sz = int ((?w + 1) * ?sz)" by (simp add: algebra_simps)
  have mod: "(?w + 1) mod ?n = (?r + 1 + (?m + 1)) mod ?n" by (simp add: mod_simps)
  have wrap: "(if pcTail q \<le> pcWriteTo q + int ?sz then 0 else pcWriteTo q + int ?sz)
      = int (((?r + 1 + (?m + 1)) mod ?n) * ?sz)"
    unfolding D(6,10) step using wr by (simp only: mod)
  have q'_eq: "q' = q\<lparr>storage := ?mem, pcWriteTo := int (((?r + 1 + (?m + 1)) mod ?n) * ?sz),
      uxMessagesWaiting := uxMessagesWaiting q + 1\<rparr>"
    unfolding wrap [symmetric] D(10) [symmetric] q' prvCopyDataToQueue_def
    using D(4,11) item by (cases "pcTail q \<le> pcWriteTo q + int ?sz") (simp_all add: Let_def)
  have sizes: "item_size q' = ?sz" "queue_length q' = ?n" "read_slot q' = ?r" "queue_count q' = ?m + 1"
    using u32_succ room [unfolded queue_less_full]
    by (simp_all add: q'_eq item_size_def queue_length_def read_slot_def queue_count_def)
  have len: "length ?mem = ?n * ?sz"
    using w mult_le_mono1 [of "Suc ?w" ?n ?sz] item D(3) unfolding storage_nat by simp
  have st: "storage q' = ?mem" by (simp add: q'_eq)
  have slots: "slot q' j = (if j = ?w then item else slot q j)" if "j < ?n" for j
    using slot_put [OF D(3) item w that] unfolding slot_def sizes st .
  have "contents q' = contents q @ [item]"
    using D(2) slots ring_index_ne [OF _ room] by (simp add: contents_def sizes)
  moreover have "queue_ok q'"
    using D room sizes len by (simp add: queue_ok_def Let_def del: of_nat_mult) (simp add: q'_eq)
  ultimately show ?thesis by simp
qed

definition prev_slot :: "'t Queue_t \<Rightarrow> nat" where
  "prev_slot q = (if read_slot q = 0 then queue_length q - 1 else read_slot q - 1)"

lemma prev_slot_less: "queue_ok q \<Longrightarrow> prev_slot q < queue_length q"
  using queue_okD(2,8) [of q] by (auto simp: prev_slot_def)

lemma prev_slot_ring:
  "queue_ok q \<Longrightarrow> (prev_slot q + 1 + i) mod queue_length q = (read_slot q + i) mod queue_length q"
  using queue_okD(2,8) [of q] by (cases "read_slot q = 0") (simp_all add: prev_slot_def)

lemma front_read_pointer:
  assumes ok: "queue_ok q"
  shows "(if pcReadFrom q - int (item_size q) < 0 then pcTail q - int (item_size q)
          else pcReadFrom q - int (item_size q)) = int (prev_slot q * item_size q)"
proof -
  note D = queue_okD [OF ok]
  let ?n = "queue_length q" and ?sz = "item_size q" and ?r = "read_slot q"
  have "(if int (?r * ?sz) - int ?sz < 0 then int (?n * ?sz) - int ?sz else int (?r * ?sz) - int ?sz)
      = int (prev_slot q * ?sz)"
  proof (cases "?r = 0")
    case True
    then show ?thesis using D(1,2) by (simp add: prev_slot_def int_ops(6) diff_mult_distrib)
  next
    case False
    then have "?sz \<le> ?r * ?sz" by simp
    with False show ?thesis
      by (simp add: prev_slot_def diff_mult_distrib of_nat_diff del: of_nat_mult)
  qed
  then show ?thesis by (simp only: D(6,9))
qed

lemma front_count:
  assumes ok: "queue_ok q" and room: "if pos = queueOVERWRITE then queue_length q = 1 else queue_count q < queue_length q"
  shows "unat ((if pos = queueOVERWRITE \<and> uxMessagesWaiting q > 0 then uxMessagesWaiting q - 1
                else uxMessagesWaiting q) + 1)
       = (if pos = queueOVERWRITE then 1 else queue_count q + 1)"
proof (cases "pos = queueOVERWRITE")
  case True
  with room queue_okD(7) [OF ok] have "queue_count q \<le> 1" by (simp)
  then have "(if pos = queueOVERWRITE \<and> uxMessagesWaiting q > 0 then uxMessagesWaiting q - 1
              else uxMessagesWaiting q) = 0"
    using True u32_pred [of "uxMessagesWaiting q"]
    by (auto simp: queue_count_def word_gt_0 unat_eq_zero [symmetric] le_Suc_eq)
  with True show ?thesis by simp
next
  case False
  with room u32_succ [of "uxMessagesWaiting q" "uxLength q"] show ?thesis
    by (simp add: queue_less_full) (simp add: queue_count_def)
qed

lemma send_front_effect:
  assumes ok: "queue_ok q" and item: "length item = item_size q" and pos: "pos \<noteq> queueSEND_TO_BACK"
    and room: "if pos = queueOVERWRITE then queue_length q = 1 else queue_count q < queue_length q" and q': "q' = snd (prvCopyDataToQueue disinherit q item pos)"
  shows "storage q' = storage_put (int (read_slot q * item_size q)) item (storage q)"
    and "uxLength q' = uxLength q" and "uxItemSize q' = uxItemSize q" and "pcTail q' = pcTail q"
    and "pcWriteTo q' = pcWriteTo q" and "pcReadFrom q' = int (prev_slot q * item_size q)"
    and "queue_count q' = (if pos = queueOVERWRITE then 1 else queue_count q + 1)"
    and "pcHead q' = pcHead q"
proof -
  note D = queue_okD [OF ok]
  let ?msgs = "if pos = queueOVERWRITE \<and> uxMessagesWaiting q > 0 then uxMessagesWaiting q - 1 else uxMessagesWaiting q"
  have eq: "q' = q\<lparr>storage := storage_put (int (read_slot q * item_size q)) item (storage q),
      pcReadFrom := int (prev_slot q * item_size q), uxMessagesWaiting := ?msgs + 1\<rparr>"
    unfolding front_read_pointer [OF ok, symmetric] D(9) [symmetric] q' prvCopyDataToQueue_def
    using D(4,11) item pos by (cases "pcReadFrom q - int (item_size q) < 0") (simp_all add: Let_def)
  show "storage q' = storage_put (int (read_slot q * item_size q)) item (storage q)"
    and "uxLength q' = uxLength q" and "uxItemSize q' = uxItemSize q" and "pcTail q' = pcTail q"
    and "pcWriteTo q' = pcWriteTo q" and "pcReadFrom q' = int (prev_slot q * item_size q)"
    and "pcHead q' = pcHead q"
    by (simp_all add: eq del: of_nat_mult)
  show "queue_count q' = (if pos = queueOVERWRITE then 1 else queue_count q + 1)"
    using front_count [OF ok room] by (simp add: eq queue_count_def)
qed

lemma send_front_contents:
  assumes ok: "queue_ok q" and item: "length item = item_size q" and pos: "pos \<noteq> queueSEND_TO_BACK"
    and room: "if pos = queueOVERWRITE then queue_length q = 1 else queue_count q < queue_length q"
    and q': "q' = snd (prvCopyDataToQueue disinherit q item pos)"
  shows "contents q' = item # (if pos = queueOVERWRITE then [] else contents q)"
proof -
  note D = queue_okD [OF ok] and E = send_front_effect [OF ok item pos room q']
  let ?n = "queue_length q" and ?r = "read_slot q" and ?m = "queue_count q"
  have sizes: "item_size q' = item_size q" "queue_length q' = ?n" "read_slot q' = prev_slot q"
    using D(1) E(2,3,6) by (simp_all add: item_size_def queue_length_def read_slot_def del: of_nat_mult)
  have slots: "slot q' j = (if j = ?r then item else slot q j)" if "j < ?n" for j
    using slot_put [OF D(3) item D(8) that] unfolding slot_def sizes E(1) .
  have all: "contents q' = map (\<lambda>i. slot q' ((?r + i) mod ?n)) [0..<queue_count q']"
    unfolding contents_def sizes prev_slot_ring [OF ok] by simp
  show ?thesis
  proof (cases "pos = queueOVERWRITE")
    case True
    then show ?thesis using slots [OF D(8)] D(8) by (simp add: all E(7))
  next
    case False
    have ne: "(?r + Suc i) mod ?n \<noteq> ?r" if "i < ?m" for i
      using that room False D(8) by (auto simp: mod_if)
    have "contents q' = slot q' (?r mod ?n) # map (\<lambda>i. slot q' ((?r + Suc i) mod ?n)) [0..<?m]"
      using False by (simp add: all E(7) map_upt_Suc del: upt_Suc)
    also have "\<dots> = item # contents q"
      using slots D(2,8) ne by (simp add: contents_def)
    finally show ?thesis using False by simp
  qed
qed

lemma send_front_ok:
  assumes ok: "queue_ok q" and item: "length item = item_size q" and pos: "pos \<noteq> queueSEND_TO_BACK"
    and room: "if pos = queueOVERWRITE then queue_length q = 1 else queue_count q < queue_length q"
    and q': "q' = snd (prvCopyDataToQueue disinherit q item pos)"
  shows "queue_ok q' \<and> contents q' = item # (if pos = queueOVERWRITE then [] else contents q)"
proof -
  note D = queue_okD [OF ok] and E = send_front_effect [OF ok item pos room q']
  let ?n = "queue_length q" and ?sz = "item_size q" and ?r = "read_slot q" and ?m = "queue_count q"
  have sizes: "item_size q' = ?sz" "queue_length q' = ?n" "read_slot q' = prev_slot q"
    using D(1) E(2,3,6) by (simp_all add: item_size_def queue_length_def read_slot_def del: of_nat_mult)
  have len: "length (storage q') = ?n * ?sz"
    using D(8) mult_le_mono1 [of "Suc ?r" ?n ?sz] item D(3) unfolding E(1) storage_nat by simp
  have wr: "pcWriteTo q' = int (((prev_slot q + 1 + queue_count q') mod ?n) * ?sz)"
  proof (cases "pos = queueOVERWRITE")
    case True
    with room have "?n = 1" by simp
    then show ?thesis using D(10) by (simp add: E(5))
  next
    case False
    then have "(prev_slot q + 1 + queue_count q') mod ?n = (?r + 1 + ?m) mod ?n"
      unfolding prev_slot_ring [OF ok] E(7) by simp
    with D(10) show ?thesis by (simp only: E(5))
  qed
  have "queue_count q' \<le> ?n" using room D(2) by (auto simp: E(7) split: if_splits)
  then have "queue_ok q'"
    using D(1,2,5,6) E(4,6,8) len wr sizes prev_slot_less [OF ok] by (simp add: queue_ok_def Let_def del: of_nat_mult)
  with send_front_contents [OF ok item pos room q'] show ?thesis by simp
qed

lemma receive_ok:
  assumes ok: "queue_ok q" and some: "0 < queue_count q"
    and run: "prvCopyDataFromQueue q = (item, q1)" and q': "q' = q1\<lparr>uxMessagesWaiting := uxMessagesWaiting q - 1\<rparr>"
  shows "queue_ok q' \<and> contents q = item # contents q'"
proof -
  note D = queue_okD [OF ok]
  let ?n = "queue_length q" and ?sz = "item_size q" and ?r = "read_slot q" and ?m = "queue_count q"
  let ?r' = "(?r + 1) mod ?n"
  have step: "int (?r * ?sz) + int ?sz = int ((?r + 1) * ?sz)" by (simp add: algebra_simps)
  have wrap: "(if pcTail q \<le> pcReadFrom q + int ?sz then 0 else pcReadFrom q + int ?sz) = int (?r' * ?sz)"
    unfolding D(6,9) step using wrap_step [OF D(1,8)] by simp
  have q'_eq: "q' = q\<lparr>pcReadFrom := int (?r' * ?sz), uxMessagesWaiting := uxMessagesWaiting q - 1\<rparr>"
    and item: "item = slot q ?r'"
    using run unfolding q' prvCopyDataFromQueue_def slot_def wrap [symmetric]
    using D(4,11) by (auto simp: Let_def split: if_splits)
  have count: "unat (uxMessagesWaiting q - 1) = ?m - 1"
    using some u32_pred [of "uxMessagesWaiting q"] by (simp add: queue_count_def word_gt_0 unat_gt_0)
  have sizes: "item_size q' = ?sz" "queue_length q' = ?n" "read_slot q' = ?r'" "queue_count q' = ?m - 1"
    using D(1) count
    by (simp_all add: q'_eq item_size_def queue_length_def read_slot_def queue_count_def del: of_nat_mult)
  have slots: "slot q' j = slot q j" for j unfolding slot_def sizes by (simp add: q'_eq)
  have ring: "(?r' + k) mod ?n = (?r + 1 + k) mod ?n" for k by (simp add: mod_simps)
  have "contents q = map (\<lambda>i. slot q ((?r + 1 + i) mod ?n)) [0..<Suc (?m - 1)]"
    using some by (simp add: contents_def)
  also have "\<dots> = slot q ?r' # map (\<lambda>i. slot q ((?r + 1 + Suc i) mod ?n)) [0..<?m - 1]"
    by (simp add: map_upt_Suc del: upt_Suc)
  also have "\<dots> = item # contents q'"
    unfolding contents_def sizes slots item
    using ring [of "1 + i" for i] by (simp add: add.assoc)
  finally have "contents q = item # contents q'" .
  moreover have "queue_ok q'"
  proof -
    have "pcWriteTo q' = int (((?r' + 1 + queue_count q') mod ?n) * ?sz)"
      using D(10) ring [of "1 + (?m - 1)"] some by (simp add: sizes add.assoc) (simp add: q'_eq)
    moreover have "?r' < ?n" using D(2) by simp
    ultimately show ?thesis
      using D(1,2,3,5,6,7) sizes unfolding queue_ok_def Let_def
      by (simp del: of_nat_mult) (simp add: q'_eq)
  qed
  ultimately show ?thesis by simp
qed

end
