(* ===== verification/Rtos_Fifo.thy ===== *)
theory Rtos_Fifo
  imports Rtos_Queue "HOL-Library.Multiset"
begin

text \<open>
  The contract of the queue of \<^verbatim>\<open>Rtos_Queue\<close>: what each operation does to the sequence of items the queue
  holds, who is woken, when a blocking call returns, and that events which interrupts raise while a queue is
  locked wake tasks when it is unlocked. The locale \<open>bounded_fifo\<close> is the interface the application relies on, a bounded
  first-in first-out buffer; the queue is an instance of it.
\<close>

section \<open>The tasks and the rest of the structure\<close>

lemma queue_ok_tasks [simp]:
  "queue_ok (q\<lparr>xTasksWaitingToReceive := ts\<rparr>) = queue_ok q" "queue_ok (q\<lparr>xTasksWaitingToSend := ts\<rparr>) = queue_ok q"
  "queue_ok (q\<lparr>cTxLock := k\<rparr>) = queue_ok q" "queue_ok (q\<lparr>cRxLock := k\<rparr>) = queue_ok q"
  "contents (q\<lparr>xTasksWaitingToReceive := ts\<rparr>) = contents q" "contents (q\<lparr>xTasksWaitingToSend := ts\<rparr>) = contents q"
  "contents (q\<lparr>cTxLock := k\<rparr>) = contents q" "contents (q\<lparr>cRxLock := k\<rparr>) = contents q"
  by (simp_all add: queue_ok_def contents_def queue_length_def item_size_def read_slot_def queue_count_def slot_def)

lemma queue_sizes [simp]:
  "queue_length (q\<lparr>xTasksWaitingToReceive := ts\<rparr>) = queue_length q"
  "queue_length (q\<lparr>xTasksWaitingToSend := ts\<rparr>) = queue_length q"
  "queue_length (q\<lparr>cTxLock := k\<rparr>) = queue_length q" "queue_length (q\<lparr>cRxLock := k\<rparr>) = queue_length q"
  "queue_length (q\<lparr>storage := a\<rparr>) = queue_length q" "queue_length (q\<lparr>pcWriteTo := p\<rparr>) = queue_length q"
  "queue_length (q\<lparr>pcReadFrom := p\<rparr>) = queue_length q" "queue_length (q\<lparr>uxMessagesWaiting := m\<rparr>) = queue_length q"
  "item_size (q\<lparr>xTasksWaitingToReceive := ts\<rparr>) = item_size q" "item_size (q\<lparr>xTasksWaitingToSend := ts\<rparr>) = item_size q"
  "item_size (q\<lparr>cTxLock := k\<rparr>) = item_size q" "item_size (q\<lparr>cRxLock := k\<rparr>) = item_size q"
  by (simp_all add: queue_length_def item_size_def)

lemma queue_count_contents: "length (contents q) = queue_count q"
  by (simp add: contents_def)

lemma copy_to_keeps:
  assumes "prvCopyDataToQueue disinherit q item pos = (y, q')"
  shows "xTasksWaitingToReceive q' = xTasksWaitingToReceive q" "xTasksWaitingToSend q' = xTasksWaitingToSend q"
    "cTxLock q' = cTxLock q" "cRxLock q' = cRxLock q" "queue_length q' = queue_length q" "item_size q' = item_size q"
  using assms by (auto simp: prvCopyDataToQueue_def Let_def queue_length_def item_size_def split: if_splits)

lemma copy_from_keeps:
  assumes "prvCopyDataFromQueue q = (item, q')"
  shows "xTasksWaitingToReceive q' = xTasksWaitingToReceive q" "xTasksWaitingToSend q' = xTasksWaitingToSend q"
    "cTxLock q' = cTxLock q" "cRxLock q' = cRxLock q" "queue_length q' = queue_length q" "item_size q' = item_size q"
    "uxMessagesWaiting q' = uxMessagesWaiting q" "storage q' = storage q"
  using assms by (auto simp: prvCopyDataFromQueue_def Let_def queue_length_def item_size_def split: if_splits)

lemma remove_first_take_drop:
  "remove_first_if_any ts = (case ts of [] \<Rightarrow> None | t # _ \<Rightarrow> Some t, drop 1 ts)"
  by (simp add: remove_first_if_any_def split: list.splits)

text \<open>What a send at each position makes of the contents.\<close>

definition sent_to :: "queue_position \<Rightarrow> 'a \<Rightarrow> 'a list \<Rightarrow> 'a list" where
  "sent_to pos x xs = (case pos of queueSEND_TO_BACK \<Rightarrow> xs @ [x] | queueSEND_TO_FRONT \<Rightarrow> x # xs | queueOVERWRITE \<Rightarrow> [x])"

definition room_for :: "queue_position \<Rightarrow> 't Queue_t \<Rightarrow> bool" where
  "room_for pos q \<longleftrightarrow> (if pos = queueOVERWRITE then queue_length q = 1 else queue_count q < queue_length q)"

lemma copy_to_ok:
  assumes "queue_ok q" "length item = item_size q" "room_for pos q" "prvCopyDataToQueue disinherit q item pos = (y, q')"
  shows "queue_ok q' \<and> contents q' = sent_to pos item (contents q)"
proof (cases pos)
  case queueSEND_TO_BACK
  with assms send_back_ok [of q item q' disinherit] show ?thesis by (simp add: room_for_def sent_to_def)
next
  case queueSEND_TO_FRONT
  with assms send_front_ok [of q item pos q' disinherit] show ?thesis by (simp add: room_for_def sent_to_def)
next
  case queueOVERWRITE
  with assms send_front_ok [of q item pos q' disinherit] show ?thesis by (simp add: room_for_def sent_to_def)
qed

lemma send_pass_ok:
  assumes ok: "queue_ok q" and item: "length item = item_size q" and room: "room_for pos q"
  obtains q' where "send_pass disinherit q item pos = Some (take 1 (xTasksWaitingToReceive q), q')"
    "queue_ok q'" "contents q' = sent_to pos item (contents q)"
    "xTasksWaitingToReceive q' = drop 1 (xTasksWaitingToReceive q)" "xTasksWaitingToSend q' = xTasksWaitingToSend q"
    "queue_length q' = queue_length q" "item_size q' = item_size q"
    "cTxLock q' = cTxLock q" "cRxLock q' = cRxLock q"
proof -
  obtain y q1 where run: "prvCopyDataToQueue disinherit q item pos = (y, q1)" by fastforce
  have open_: "uxMessagesWaiting q < uxLength q \<or> pos = queueOVERWRITE"
    using room queue_less_full [of q] by (auto simp: room_for_def split: if_splits)
  let ?q' = "q1\<lparr>xTasksWaitingToReceive := drop 1 (xTasksWaitingToReceive q)\<rparr>"
  have "send_pass disinherit q item pos = Some (take 1 (xTasksWaitingToReceive q), ?q')"
    using open_ run copy_to_keeps [OF run]
    by (cases "xTasksWaitingToReceive q") (simp_all add: send_pass_def remove_first_if_any_def)
  then show ?thesis
    using that [of ?q'] copy_to_ok [OF ok item room run] copy_to_keeps [OF run] by simp
qed

lemma receive_pass_ok:
  assumes ok: "queue_ok q" and some: "contents q = x # xs"
  obtains q' where "receive_pass q = Some (x, take 1 (xTasksWaitingToSend q), q')"
    "queue_ok q'" "contents q' = xs"
    "xTasksWaitingToSend q' = drop 1 (xTasksWaitingToSend q)" "xTasksWaitingToReceive q' = xTasksWaitingToReceive q"
    "queue_length q' = queue_length q" "item_size q' = item_size q"
    "cTxLock q' = cTxLock q" "cRxLock q' = cRxLock q"
proof -
  obtain item q1 where run: "prvCopyDataFromQueue q = (item, q1)" by fastforce
  have pos: "0 < queue_count q" using some queue_count_contents [of q] by simp
  then have open_: "0 < uxMessagesWaiting q" by (simp add: queue_count_def unat_gt_0 word_gt_0)
  note R = receive_ok [OF ok pos run refl]
  let ?q1 = "q1\<lparr>uxMessagesWaiting := uxMessagesWaiting q - 1\<rparr>"
  let ?q' = "?q1\<lparr>xTasksWaitingToSend := drop 1 (xTasksWaitingToSend q)\<rparr>"
  have "receive_pass q = Some (x, take 1 (xTasksWaitingToSend q), ?q')"
    using open_ run copy_from_keeps [OF run] R some
    by (cases "xTasksWaitingToSend q") (simp_all add: receive_pass_def remove_first_if_any_def)
  moreover have "item_size ?q' = item_size q" "queue_length ?q' = queue_length q"
    using copy_from_keeps [OF run] by simp_all
  ultimately show ?thesis
    using that [of ?q'] R copy_from_keeps [OF run] some by simp
qed

lemma peek_pass_ok:
  assumes ok: "queue_ok q" and some: "contents q = x # xs"
  obtains q' where "peek_pass q = Some (x, take 1 (xTasksWaitingToReceive q), q')"
    "queue_ok q'" "contents q' = contents q"
    "xTasksWaitingToSend q' = xTasksWaitingToSend q"
    "xTasksWaitingToReceive q' = drop 1 (xTasksWaitingToReceive q)"
proof -
  obtain item q1 where run: "prvCopyDataFromQueue q = (item, q1)" by fastforce
  have pos: "0 < queue_count q" using some queue_count_contents [of q] by simp
  then have open_: "0 < uxMessagesWaiting q" by (simp add: queue_count_def unat_gt_0 word_gt_0)
  have item: "item = x" using receive_ok [OF ok pos run refl] some by simp
  have restored: "q1\<lparr>pcReadFrom := pcReadFrom q\<rparr> = q"
    using run by (auto simp: prvCopyDataFromQueue_def Let_def split: if_splits)
  let ?q' = "q\<lparr>xTasksWaitingToReceive := drop 1 (xTasksWaitingToReceive q)\<rparr>"
  have "peek_pass q = Some (x, take 1 (xTasksWaitingToReceive q), ?q')"
    using open_ by (cases "xTasksWaitingToReceive q")
      (simp_all add: peek_pass_def Let_def run restored item copy_from_keeps(1) [OF run] remove_first_if_any_def)
  then show ?thesis using that [of ?q'] ok by simp
qed

lemma send_pass_full: "\<not> uxMessagesWaiting q < uxLength q \<Longrightarrow> pos \<noteq> queueOVERWRITE \<Longrightarrow> send_pass disinherit q item pos = None"
  by (simp add: send_pass_def)

lemma receive_pass_empty: "contents q = [] \<Longrightarrow> receive_pass q = None"
  using queue_count_contents [of q] by (simp add: receive_pass_def queue_count_def unat_eq_zero)

section \<open>The operations on the contents\<close>

lemma loop_hit:
  "send_pass disinherit q item pos = Some (ready, q') \<Longrightarrow>
    send_loop disinherit prio self env expired k q item block pos = Some (True, ready, q')"
  "receive_pass q = Some (x, ready, q') \<Longrightarrow> receive_loop prio self env expired k q block = Some (Some x, ready, q')"
  "peek_pass q = Some (x, ready, q') \<Longrightarrow> peek_loop prio self env expired k q block = Some (Some x, ready, q')"
  by (subst send_loop.simps receive_loop.simps peek_loop.simps, simp)+

lemma loop_miss:
  "send_pass disinherit q item pos = None \<Longrightarrow>
    send_loop disinherit prio self env expired k q item False pos = Some (False, [], q)"
  "receive_pass q = None \<Longrightarrow> receive_loop prio self env expired k q False = Some (None, [], q)"
  "peek_pass q = None \<Longrightarrow> peek_loop prio self env expired k q False = Some (None, [], q)"
  by (subst send_loop.simps receive_loop.simps peek_loop.simps, simp)+

lemma no_waiter_unlock: "unlock_events n [] = ([], [])"
  by (cases n) simp_all

lemma unlock_take_drop: "unlock_events n ts = (take n ts, drop n ts)"
  by (induction n ts rule: unlock_events.induct) simp_all

definition ptr_mem :: "u8 list" where
  "ptr_mem = replicate 32 0"

definition some_queue :: "nat Queue_t" where
  "some_queue = \<lparr>storage = [], pcHead = None, pcWriteTo = 5, pcTail = 0, pcReadFrom = 9, xMutexHolder = None,
     xTasksWaitingToSend = [1], xTasksWaitingToReceive = [2], uxMessagesWaiting = 3, uxLength = 0, uxItemSize = 0,
     cRxLock = 4, cTxLock = 4\<rparr>"

definition ptr_queue :: "nat Queue_t" where
  "ptr_queue = the (xQueueGenericCreateStatic 8 4 (Some ptr_mem) (Some some_queue))"

lemma create_static_empty:
  assumes "uxQueueLength > 0" "isz > 0" "length mem = unat uxQueueLength * unat isz"
    and "unat uxQueueLength * unat isz < 2 ^ 32"
  shows "\<exists>q'. xQueueGenericCreateStatic uxQueueLength isz (Some mem) (Some q) = Some q' \<and> queue_ok q' \<and>
      contents q' = [] \<and> uxQueueSpacesAvailable q' = uxQueueLength \<and> uxQueueMessagesWaiting q' = 0 \<and>
      xTasksWaitingToSend q' = [] \<and> xTasksWaitingToReceive q' = [] \<and> cRxLock q' = -1 \<and> cTxLock q' = -1 \<and>
      item_size q' = unat isz \<and> queue_length q' = unat uxQueueLength"
proof -
  have pos: "0 < unat uxQueueLength" "0 < unat isz"
    using assms(1,2) by (simp_all add: unat_gt_0 word_gt_0)
  have "unat isz \<le> (2 ^ 32 - 1) div unat uxQueueLength"
    using assms(4) pos by (simp add: less_eq_div_iff_mult_less_eq mult.commute)
  then have fits: "unat isz \<le> unat (0xFFFFFFFF div uxQueueLength :: u32)"
    by (simp add: unat_div)
  have one: "uxQueueLength \<ge> 1" using assms(1) by (simp add: word_le_nat_alt word_less_nat_alt)
  let ?q = "q\<lparr>pcHead := Some 0, storage := mem, uxLength := uxQueueLength, uxItemSize := isz,
      pcTail := int (unat uxQueueLength * unat isz), uxMessagesWaiting := 0, pcWriteTo := 0,
      pcReadFrom := int ((unat uxQueueLength - 1) * unat isz), cRxLock := -1, cTxLock := -1,
      xTasksWaitingToSend := [], xTasksWaitingToReceive := []\<rparr>"
  have create: "xQueueGenericCreateStatic uxQueueLength isz (Some mem) (Some q) = Some ?q"
    using assms(1,2) one fits
    by (simp add: xQueueGenericCreateStatic_def prvInitialiseNewQueue_def xQueueGenericReset_def Let_def
          head_offset_def item_size_def word_gt_0 del: of_nat_mult)
  have slot: "read_slot ?q = unat uxQueueLength - 1"
    using pos by (simp add: read_slot_def item_size_def del: of_nat_mult)
  have "queue_ok ?q"
    using assms(3) pos slot unfolding queue_ok_def Let_def
    by (simp add: queue_length_def item_size_def queue_count_def)
  then show ?thesis
    using create by (auto simp: contents_def queue_count_def uxQueueSpacesAvailable_def uxQueueMessagesWaiting_def
        item_size_def queue_length_def)
qed

text \<open>
  Creating a queue over a storage area of the right size succeeds and gives a queue that satisfies the invariant, is
  unlocked, holds nothing, has room for every item and has no task waiting, whatever the memory held before; a queue of length
  0 is refused by the assertion.
\<close>

theorem queue_create_empty:
  assumes "uxQueueLength > 0" "isz > 0" "length mem = unat uxQueueLength * unat isz"
    and "unat uxQueueLength * unat isz < 2 ^ 32"
  shows "\<exists>q'. xQueueGenericCreateStatic uxQueueLength isz (Some mem) (Some q) = Some q' \<and> queue_ok q' \<and>
      contents q' = [] \<and> uxQueueSpacesAvailable q' = uxQueueLength \<and> uxQueueMessagesWaiting q' = 0 \<and>
      xTasksWaitingToSend q' = [] \<and> xTasksWaitingToReceive q' = [] \<and> cRxLock q' = -1 \<and> cTxLock q' = -1
    \<and> xQueueGenericCreateStatic 0 isz (Some mem) (Some q) = None"
proof -
  have "xQueueGenericCreateStatic 0 isz (Some mem) (Some q) = None" by (simp add: xQueueGenericCreateStatic_def)
  then show ?thesis using create_static_empty [OF assms, of q] by blast
qed

theorem queue_create_empty_witness:
  "\<exists>q'. xQueueGenericCreateStatic 8 4 (Some ptr_mem) (Some some_queue) = Some q' \<and> queue_ok q' \<and> contents q' = []"
  using queue_create_empty [of 8 4 ptr_mem some_queue] by (auto simp: ptr_mem_def)

text \<open>The queue the witnesses use: eight pointers of four bytes, and the same queue after one send.\<close>

lemma ptr_queue_eq:
  "ptr_queue = \<lparr>storage = ptr_mem, pcHead = Some 0, pcWriteTo = 0, pcTail = 32, pcReadFrom = 28, xMutexHolder = None,
     xTasksWaitingToSend = [], xTasksWaitingToReceive = [], uxMessagesWaiting = 0, uxLength = 8, uxItemSize = 4,
     cRxLock = -1, cTxLock = -1\<rparr>"
  by (simp add: ptr_queue_def xQueueGenericCreateStatic_def prvInitialiseNewQueue_def xQueueGenericReset_def Let_def
      head_offset_def item_size_def some_queue_def)

lemma ptr_queue_facts:
  "queue_ok ptr_queue" "contents ptr_queue = []" "item_size ptr_queue = 4" "queue_length ptr_queue = 8"
  "xTasksWaitingToReceive ptr_queue = []" "xTasksWaitingToSend ptr_queue = []" "cTxLock ptr_queue = -1"
  "cRxLock ptr_queue = -1"
  unfolding ptr_queue_eq
  by (simp_all add: queue_ok_def contents_def queue_count_def queue_length_def item_size_def read_slot_def ptr_mem_def)

text \<open>
  C12. A send that finds room returns \<^verbatim>\<open>pdPASS\<close> at once, whatever its waiting time: the item goes behind the others,
  before them, or replaces the only one of a queue of length 1, and of the tasks waiting for an item exactly the first is made
  ready.
\<close>

theorem queue_send_delivers:
  assumes "queue_ok q" "length item = item_size q" "room_for pos q"
  shows "\<exists>q'. xQueueGenericSend disinherit prio self env expired (Some q) (Some item) ticks pos
        = Some (True, take 1 (xTasksWaitingToReceive q), q') \<and>
      queue_ok q' \<and> contents q' = sent_to pos item (contents q) \<and> queue_length q' = queue_length q \<and>
      xTasksWaitingToReceive q' = drop 1 (xTasksWaitingToReceive q) \<and> xTasksWaitingToSend q' = xTasksWaitingToSend q"
proof -
  have "\<not> (pos = queueOVERWRITE \<and> uxLength q \<noteq> 1)"
    using assms(3) by (auto simp: room_for_def queue_length_def word_unat_eq_iff)
  moreover obtain q' where "send_pass disinherit q item pos = Some (take 1 (xTasksWaitingToReceive q), q')"
    "queue_ok q'" "contents q' = sent_to pos item (contents q)" "queue_length q' = queue_length q"
    "xTasksWaitingToReceive q' = drop 1 (xTasksWaitingToReceive q)" "xTasksWaitingToSend q' = xTasksWaitingToSend q"
    by (rule send_pass_ok [OF assms])
  ultimately show ?thesis
    by (auto simp: xQueueGenericSend_def loop_hit)
qed

theorem queue_send_delivers_witness:
  "\<exists>q'. xQueueGenericSend (\<lambda>_. False) (\<lambda>_. 0) (7 :: nat) (\<lambda>_ _ q. q) (\<lambda>_. True) (Some ptr_queue) (Some [1, 2, 3, 4]) 0
      queueSEND_TO_BACK = Some (True, [], q') \<and> contents q' = [[1, 2, 3, 4]]"
  using queue_send_delivers [of ptr_queue "[1, 2, 3, 4]" queueSEND_TO_BACK "\<lambda>_. False" "\<lambda>_. 0" 7 "\<lambda>_ _ q. q" "\<lambda>_. True" 0]
  by (auto simp: ptr_queue_facts room_for_def sent_to_def queue_count_contents [symmetric])

text \<open>
  C11. A receive from a queue that is not empty returns the oldest item at once and takes it out of the queue, and makes ready
  the first task that waits for room; looking at the queue returns the same item, leaves the queue's
  contents as they are, and makes ready the first task that waits for an item.
\<close>

theorem queue_receive_oldest:
  assumes "queue_ok q" "contents q = x # xs"
  shows "(\<exists>q'. xQueueReceive prio self env expired (Some q) True ticks
        = Some (Some x, take 1 (xTasksWaitingToSend q), q') \<and> queue_ok q' \<and> contents q' = xs \<and>
          xTasksWaitingToSend q' = drop 1 (xTasksWaitingToSend q) \<and> xTasksWaitingToReceive q' = xTasksWaitingToReceive q)
    \<and> (\<exists>q'. xQueuePeek prio self env expired (Some q) True ticks
        = Some (Some x, take 1 (xTasksWaitingToReceive q), q') \<and> queue_ok q' \<and> contents q' = contents q \<and>
          xTasksWaitingToSend q' = xTasksWaitingToSend q \<and>
          xTasksWaitingToReceive q' = drop 1 (xTasksWaitingToReceive q))"
proof -
  obtain q' where "receive_pass q = Some (x, take 1 (xTasksWaitingToSend q), q')" "queue_ok q'" "contents q' = xs"
    "xTasksWaitingToSend q' = drop 1 (xTasksWaitingToSend q)" "xTasksWaitingToReceive q' = xTasksWaitingToReceive q"
    by (rule receive_pass_ok [OF assms])
  moreover obtain q'' where "peek_pass q = Some (x, take 1 (xTasksWaitingToReceive q), q'')" "queue_ok q''"
    "contents q'' = contents q" "xTasksWaitingToSend q'' = xTasksWaitingToSend q"
    "xTasksWaitingToReceive q'' = drop 1 (xTasksWaitingToReceive q)"
    by (rule peek_pass_ok [OF assms])
  ultimately show ?thesis
    by (auto simp: xQueueReceive_def xQueuePeek_def loop_hit)
qed

theorem queue_receive_oldest_witness:
  "\<exists>q'. xQueueReceive (\<lambda>_. 0) (7 :: nat) (\<lambda>_ _ q. q) (\<lambda>_. True)
      (Some (ptr_queue\<lparr>storage := [1, 2, 3, 4] @ replicate 28 0, pcWriteTo := 4, uxMessagesWaiting := 1\<rparr>)) True 0
    = Some (Some [1, 2, 3, 4], [], q') \<and> contents q' = []"
proof -
  let ?q = "ptr_queue\<lparr>storage := [1, 2, 3, 4] @ replicate 28 0, pcWriteTo := 4, uxMessagesWaiting := 1\<rparr>"
  have "queue_ok ?q" "contents ?q = [[1, 2, 3, 4]]"
    by (simp_all add: ptr_queue_eq queue_ok_def contents_def queue_count_def queue_length_def item_size_def
        read_slot_def slot_def storage_get_def)
  from queue_receive_oldest [OF this, of "\<lambda>_. 0" 7 "\<lambda>_ _ q. q" "\<lambda>_. True" 0] show ?thesis
    by (auto simp: ptr_queue_eq)
qed

text \<open>
  Without a waiting time, a send to a full queue and a receive from an empty one return their error at once and change
  nothing; null handles and buffers stop the system.
\<close>

theorem queue_refuses_without_waiting:
  assumes "queue_ok q"
  shows "(queue_count q = queue_length q \<and> pos \<noteq> queueOVERWRITE \<longrightarrow>
      xQueueGenericSend disinherit prio self env expired (Some q) (Some item) 0 pos = Some (False, [], q))
    \<and> (contents q = [] \<longrightarrow>
      xQueueReceive prio self env expired (Some q) True 0 = Some (None, [], q) \<and>
      xQueuePeek prio self env expired (Some q) True 0 = Some (None, [], q) \<and>
      xQueueReceiveFromISR ntasks (Some q) True = Some (None, None, q))
    \<and> xQueueGenericSend disinherit prio self env expired None (Some item) 0 pos = None
    \<and> xQueueGenericSend disinherit prio self env expired (Some q) None 0 pos = None
    \<and> xQueueReceive prio self env expired (Some q) False 0 = None"
proof -
  have "receive_pass q = None" "peek_pass q = None" if "contents q = []"
    using queue_count_contents [of q] that
    by (simp_all add: receive_pass_def peek_pass_def queue_count_def unat_eq_zero)
  moreover have "\<not> 0 < uxMessagesWaiting q" if "contents q = []"
    using queue_count_contents [of q] that by (simp add: queue_count_def unat_eq_zero)
  moreover have "send_pass disinherit q item pos = None" if "queue_count q = queue_length q" "pos \<noteq> queueOVERWRITE"
    using that queue_less_full [of q] by (simp add: send_pass_def)
  ultimately show ?thesis
    using queue_okD(11) [OF assms]
    by (auto simp: xQueueGenericSend_def xQueueReceive_def xQueuePeek_def xQueueReceiveFromISR_def loop_miss)
qed

theorem queue_refuses_without_waiting_witness:
  "xQueueReceive (\<lambda>_. 0) (7 :: nat) (\<lambda>_ _ q. q) (\<lambda>_. True) (Some ptr_queue) True 0 = Some (None, [], ptr_queue)"
  using queue_refuses_without_waiting [OF ptr_queue_facts(1), of queueSEND_TO_BACK "\<lambda>_. False" "\<lambda>_. 0" 7 "\<lambda>_ _ q. q" "\<lambda>_. True" "[]" 0]
    ptr_queue_facts(2) by blast

section \<open>Interrupts and a locked queue\<close>

fun isr_sends :: "nat \<Rightarrow> u8 list list \<Rightarrow> 't Queue_t \<Rightarrow> 't Queue_t option" where
  "isr_sends ntasks [] q = Some q"
| "isr_sends ntasks (x # xs) q =
     (case xQueueGenericSendFromISR (\<lambda>_. False) ntasks (Some q) (Some x) queueSEND_TO_BACK of
        Some (True, None, q) \<Rightarrow> isr_sends ntasks xs q
      | _ \<Rightarrow> None)"

lemma isr_send_locked:
  assumes ok: "queue_ok q" and item: "length x = item_size q" and room: "queue_count q < queue_length q"
    and locked: "cTxLock q = int k" and few: "k \<le> ntasks" "ntasks \<le> 127"
  obtains q' where
    "xQueueGenericSendFromISR (\<lambda>_. False) ntasks (Some q) (Some x) queueSEND_TO_BACK = Some (True, None, q')"
    "queue_ok q'" "contents q' = contents q @ [x]" "cTxLock q' = int (min (Suc k) ntasks)"
    "queue_length q' = queue_length q" "item_size q' = item_size q" "cRxLock q' = cRxLock q"
    "xTasksWaitingToReceive q' = xTasksWaitingToReceive q" "xTasksWaitingToSend q' = xTasksWaitingToSend q"
proof -
  obtain y q1 where run: "prvCopyDataToQueue (\<lambda>_. False) q x queueSEND_TO_BACK = (y, q1)" by fastforce
  note keeps = copy_to_keeps [OF run]
  have q1: "queue_ok q1 \<and> contents q1 = contents q @ [x]"
    using copy_to_ok [OF ok item _ run] room by (simp add: room_for_def sent_to_def)
  have w: "uint (word_of_int (int k) :: u32) = int k"
    using few by (simp add: unsigned_of_nat take_bit_nat_eq_self)
  let ?q' = "if k < ntasks then q1\<lparr>cTxLock := int k + 1\<rparr> else q1"
  have inc: "prvIncrementQueueTxLock ntasks (int k) q1 = Some ?q'"
    using few w by (simp add: prvIncrementQueueTxLock_def)
  have "xQueueGenericSendFromISR (\<lambda>_. False) ntasks (Some q) (Some x) queueSEND_TO_BACK = Some (True, None, ?q')"
    using room run inc locked by (simp add: xQueueGenericSendFromISR_def queue_less_full Let_def)
  moreover have "cTxLock ?q' = int (min (Suc k) ntasks)"
    using few locked keeps(3) by (simp add: min_def)
  ultimately show ?thesis using that [of ?q'] q1 keeps by simp
qed

lemma isr_sends_locked:
  assumes "queue_ok q" "\<forall>x \<in> set xs. length x = item_size q" "queue_count q + length xs \<le> queue_length q"
    and "cTxLock q = int k" "k \<le> ntasks" "ntasks \<le> 127"
  shows "\<exists>q'. isr_sends ntasks xs q = Some q' \<and> queue_ok q' \<and> contents q' = contents q @ xs \<and>
      cTxLock q' = int (min (k + length xs) ntasks) \<and> cRxLock q' = cRxLock q \<and>
      xTasksWaitingToReceive q' = xTasksWaitingToReceive q \<and> xTasksWaitingToSend q' = xTasksWaitingToSend q"
  using assms
proof (induction xs arbitrary: q k)
  case Nil
  then show ?case by (simp add: min_def)
next
  case (Cons x xs)
  have prems: "length x = item_size q" "queue_count q < queue_length q" using Cons.prems(2,3) by simp_all
  obtain q1 where
    run: "xQueueGenericSendFromISR (\<lambda>_. False) ntasks (Some q) (Some x) queueSEND_TO_BACK = Some (True, None, q1)"
    and q1: "queue_ok q1" "contents q1 = contents q @ [x]" "cTxLock q1 = int (min (Suc k) ntasks)"
    "queue_length q1 = queue_length q" "item_size q1 = item_size q" "cRxLock q1 = cRxLock q"
    "xTasksWaitingToReceive q1 = xTasksWaitingToReceive q" "xTasksWaitingToSend q1 = xTasksWaitingToSend q"
    by (rule isr_send_locked [OF Cons.prems(1) prems Cons.prems(4,5,6)])
  have count: "queue_count q1 = queue_count q + 1"
    using q1(2) by (metis queue_count_contents length_append_singleton Suc_eq_plus1)
  have "min (min (Suc k) ntasks + length xs) ntasks = min (k + length (x # xs)) ntasks" by simp
  then show ?case
    using Cons.IH [of q1 "min (Suc k) ntasks"] Cons.prems(2,3,6) q1 run count by (auto simp: add.commute)
qed

text \<open>
  Interrupts that send to a queue while a task holds it locked lose nothing: the items arrive in order, no event
  list is touched before the unlock, and unlocking makes ready as many of the waiting tasks as items arrived, in their order,
  and leaves the queue unlocked.
\<close>

theorem queue_locked_sends_wake:
  assumes "queue_ok q" "cTxLock q = -1" "cRxLock q = -1" "\<forall>x \<in> set xs. length x = item_size q"
    and "queue_count q + length xs \<le> queue_length q"
    and "length (xTasksWaitingToReceive q) \<le> ntasks" "ntasks \<le> 127"
  shows "\<exists>q'. isr_sends ntasks xs (prvLockQueue q) = Some q' \<and> contents q' = contents q @ xs \<and>
      xTasksWaitingToReceive q' = xTasksWaitingToReceive q \<and>
      (case prvUnlockQueue q' of (ready, q'') \<Rightarrow>
        ready = take (length xs) (xTasksWaitingToReceive q) \<and>
        xTasksWaitingToReceive q'' = drop (length xs) (xTasksWaitingToReceive q) \<and>
        xTasksWaitingToSend q'' = xTasksWaitingToSend q \<and>
        queue_ok q'' \<and> contents q'' = contents q @ xs \<and> cTxLock q'' = -1 \<and> cRxLock q'' = -1)"
proof -
  have lock: "prvLockQueue q = q\<lparr>cRxLock := 0, cTxLock := 0\<rparr>" using assms(2,3) by (simp add: prvLockQueue_def)
  have start: "queue_ok (prvLockQueue q)" "contents (prvLockQueue q) = contents q"
    "item_size (prvLockQueue q) = item_size q" "cTxLock (prvLockQueue q) = int 0"
    "queue_count (prvLockQueue q) = queue_count q" "queue_length (prvLockQueue q) = queue_length q"
    using assms(1) by (simp_all add: lock queue_count_def)
  obtain q' where q': "isr_sends ntasks xs (prvLockQueue q) = Some q'" "queue_ok q'" "contents q' = contents q @ xs"
    "cTxLock q' = int (min (length xs) ntasks)" "cRxLock q' = 0"
    "xTasksWaitingToReceive q' = xTasksWaitingToReceive q" "xTasksWaitingToSend q' = xTasksWaitingToSend q"
    using isr_sends_locked [OF start(1) _ _ start(4), of xs ntasks] assms(4,5,7) start by (auto simp: lock)
  have "take (min (length xs) ntasks) (xTasksWaitingToReceive q) = take (length xs) (xTasksWaitingToReceive q)"
    "drop (min (length xs) ntasks) (xTasksWaitingToReceive q) = drop (length xs) (xTasksWaitingToReceive q)"
    using assms(6) by (simp_all add: min_def)
  with q' show ?thesis by (auto simp: prvUnlockQueue_def unlock_take_drop)
qed

theorem queue_locked_sends_wake_witness:
  "\<exists>q'. isr_sends 2 [[1, 2, 3, 4]] (prvLockQueue (ptr_queue\<lparr>xTasksWaitingToReceive := [5, 6]\<rparr>)) = Some q' \<and>
     fst (prvUnlockQueue q') = [5] \<and> xTasksWaitingToReceive (snd (prvUnlockQueue q')) = [6]"
  using queue_locked_sends_wake [of "ptr_queue\<lparr>xTasksWaitingToReceive := [5, 6]\<rparr>" "[[1, 2, 3, 4]]" 2]
  by (auto simp: ptr_queue_facts queue_count_contents [symmetric] case_prod_beta simp del: isr_sends.simps)

section \<open>A receiver that waits\<close>

text \<open>
  What the others may do while a task waits: tasks and interrupts that send items to the back. Tasks send without
  waiting; what does not fit is lost.
\<close>

datatype 't sender = From_task 't | From_interrupt

definition item_sent :: "('t \<Rightarrow> nat) \<Rightarrow> nat \<Rightarrow> 't sender \<times> u8 list \<Rightarrow> 't Queue_t \<Rightarrow> 't Queue_t" where
  "item_sent prio ntasks m q = (case fst m of
     From_task t \<Rightarrow>
       (case xQueueGenericSend (\<lambda>_. False) prio t (\<lambda>_ _ q. q) (\<lambda>_. True) (Some q) (Some (snd m)) 0 queueSEND_TO_BACK of
          Some (_, _, q') \<Rightarrow> q' | None \<Rightarrow> q)
   | From_interrupt \<Rightarrow>
       (case xQueueGenericSendFromISR (\<lambda>_. False) ntasks (Some q) (Some (snd m)) queueSEND_TO_BACK of
          Some (_, _, q') \<Rightarrow> q' | None \<Rightarrow> q))"

fun sends :: "('t \<Rightarrow> nat) \<Rightarrow> nat \<Rightarrow> ('t sender \<times> u8 list) list \<Rightarrow> 't Queue_t \<Rightarrow> 't Queue_t" where
  "sends prio ntasks [] q = q"
| "sends prio ntasks (m # ms) q = sends prio ntasks ms (item_sent prio ntasks m q)"

definition sent_items :: "('t sender \<times> u8 list) list \<Rightarrow> 't Queue_t \<Rightarrow> 't Queue_t \<Rightarrow> bool" where
  "sent_items ms q q' \<longleftrightarrow> queue_ok q' \<and> contents q' = contents q @ map snd ms \<and> queue_length q' = queue_length q \<and>
     item_size q' = item_size q \<and> cRxLock q' = cRxLock q \<and> xTasksWaitingToSend q' = xTasksWaitingToSend q"

lemma item_sent_unlocked:
  assumes ok: "queue_ok q" and item: "length (snd m) = item_size q" and room: "queue_count q < queue_length q"
    and free: "cTxLock q = -1"
  shows "sent_items [m] q (item_sent prio ntasks m q) \<and> cTxLock (item_sent prio ntasks m q) = -1 \<and>
    xTasksWaitingToReceive (item_sent prio ntasks m q) = drop 1 (xTasksWaitingToReceive q)"
proof (cases "fst m")
  case (From_task t)
  have rm: "room_for queueSEND_TO_BACK q" using room by (simp add: room_for_def)
  show ?thesis
    by (rule send_pass_ok [OF ok item rm, of "\<lambda>_. False"])
      (use From_task free queue_okD(11) [OF ok] in
        \<open>simp add: item_sent_def xQueueGenericSend_def loop_hit sent_items_def sent_to_def\<close>)
next
  case From_interrupt
  obtain y q1 where run: "prvCopyDataToQueue (\<lambda>_. False) q (snd m) queueSEND_TO_BACK = (y, q1)" by fastforce
  have "queue_ok q1 \<and> contents q1 = contents q @ [snd m]"
    using copy_to_ok [OF ok item _ run] room by (simp add: room_for_def sent_to_def)
  with From_interrupt room run free copy_to_keeps [OF run] show ?thesis
    by (simp add: item_sent_def xQueueGenericSendFromISR_def queue_less_full Let_def remove_first_take_drop sent_items_def)
qed

lemma item_sent_locked:
  assumes "queue_ok q" "length (snd m) = item_size q" "queue_count q < queue_length q" "fst m = From_interrupt"
    and "cTxLock q = int k" "k \<le> ntasks" "ntasks \<le> 127"
  shows "sent_items [m] q (item_sent prio ntasks m q) \<and>
    cTxLock (item_sent prio ntasks m q) = int (min (Suc k) ntasks) \<and>
    xTasksWaitingToReceive (item_sent prio ntasks m q) = xTasksWaitingToReceive q"
  by (rule isr_send_locked [OF assms(1-3,5-7)]) (use assms(4) in \<open>simp add: item_sent_def sent_items_def\<close>)

lemma sent_items_Cons:
  "sent_items [m] q q1 \<Longrightarrow> sent_items ms q1 q' \<Longrightarrow> sent_items (m # ms) q q'"
  by (simp add: sent_items_def)

lemma sent_items_room:
  "sent_items [m] q q1 \<Longrightarrow> length (contents q) + length (m # ms) \<le> queue_length q \<Longrightarrow>
    length (contents q1) + length ms \<le> queue_length q1 \<and> queue_count q < queue_length q"
  by (simp add: sent_items_def queue_count_contents [symmetric])

lemma sends_unlocked:
  "queue_ok q \<Longrightarrow> \<forall>m \<in> set ms. length (snd m) = item_size q \<Longrightarrow>
    length (contents q) + length ms \<le> queue_length q \<Longrightarrow> cTxLock q = -1 \<Longrightarrow>
    sent_items ms q (sends prio ntasks ms q) \<and> cTxLock (sends prio ntasks ms q) = -1 \<and>
    xTasksWaitingToReceive (sends prio ntasks ms q) = drop (length ms) (xTasksWaitingToReceive q)"
proof (induction ms arbitrary: q)
  case (Cons m ms)
  have one: "sent_items [m] q (item_sent prio ntasks m q) \<and> cTxLock (item_sent prio ntasks m q) = -1 \<and>
      xTasksWaitingToReceive (item_sent prio ntasks m q) = drop 1 (xTasksWaitingToReceive q)"
    using Cons.prems by (intro item_sent_unlocked) (simp_all add: queue_count_contents)
  with Cons.IH [of "item_sent prio ntasks m q"] Cons.prems sent_items_room [of m q _ ms] sent_items_Cons [of m q _ ms]
  show ?case by (simp add: sent_items_def)
qed (simp add: sent_items_def)

lemma sends_locked:
  "queue_ok q \<Longrightarrow> \<forall>m \<in> set ms. length (snd m) = item_size q \<and> fst m = From_interrupt \<Longrightarrow>
    length (contents q) + length ms \<le> queue_length q \<Longrightarrow> cTxLock q = int k \<Longrightarrow> k \<le> ntasks \<Longrightarrow> ntasks \<le> 127 \<Longrightarrow>
    sent_items ms q (sends prio ntasks ms q) \<and> cTxLock (sends prio ntasks ms q) = int (min (k + length ms) ntasks) \<and>
    xTasksWaitingToReceive (sends prio ntasks ms q) = xTasksWaitingToReceive q"
proof (induction ms arbitrary: q k)
  case (Cons m ms)
  have one: "sent_items [m] q (item_sent prio ntasks m q) \<and>
      cTxLock (item_sent prio ntasks m q) = int (min (Suc k) ntasks) \<and>
      xTasksWaitingToReceive (item_sent prio ntasks m q) = xTasksWaitingToReceive q"
    using Cons.prems by (intro item_sent_locked) (simp_all add: queue_count_contents [symmetric])
  have "min (min (Suc k) ntasks + length ms) ntasks = min (k + length (m # ms)) ntasks" by simp
  with one Cons.IH [of "item_sent prio ntasks m q" "min (Suc k) ntasks"] Cons.prems
    sent_items_room [of m q _ ms] sent_items_Cons [of m q _ ms]
  show ?case by (simp add: sent_items_def)
qed (simp add: sent_items_def)

lemma place_behind:
  "vTaskPlaceOnEventList prio t us =
     takeWhile (\<lambda>u. prio t \<le> prio u) us @ t # dropWhile (\<lambda>u. prio t \<le> prio u) us"
  by (induction us) simp_all

lemma in_drop_placed:
  assumes "t \<notin> set us"
  shows "t \<in> set (drop n (vTaskPlaceOnEventList prio t us)) \<longleftrightarrow> n \<le> length (takeWhile (\<lambda>u. prio t \<le> prio u) us)"
proof -
  have "t \<notin> set (drop k (takeWhile (\<lambda>u. prio t \<le> prio u) us))" "t \<notin> set (drop k (dropWhile (\<lambda>u. prio t \<le> prio u) us))" for k
    using assms by (meson in_set_dropD set_takeWhileD set_dropWhileD)+
  then show ?thesis
    unfolding place_behind by (cases "n \<le> length (takeWhile (\<lambda>u. prio t \<le> prio u) us)")
      (auto simp: drop_Cons' in_set_dropD dest: in_set_dropD)
qed

lemma lock_free:
  assumes "queue_ok q" "cTxLock q = -1" "cRxLock q = -1"
  shows "queue_ok (prvLockQueue q)" "contents (prvLockQueue q) = contents q" "cTxLock (prvLockQueue q) = int 0"
    "item_size (prvLockQueue q) = item_size q" "queue_length (prvLockQueue q) = queue_length q"
    "cRxLock (prvLockQueue q) = 0" "xTasksWaitingToReceive (prvLockQueue q) = xTasksWaitingToReceive q"
  using assms by (simp_all add: prvLockQueue_def)

lemma unlock_locked:
  assumes "queue_ok q" "cTxLock q = int k" "cRxLock q = 0"
  shows "\<exists>ready q'. prvUnlockQueue q = (ready, q') \<and> queue_ok q' \<and> contents q' = contents q \<and> cTxLock q' = -1 \<and>
      cRxLock q' = -1 \<and> queue_length q' = queue_length q \<and> item_size q' = item_size q \<and>
      xTasksWaitingToReceive q' = drop k (xTasksWaitingToReceive q)"
  using assms by (auto simp: prvUnlockQueue_def unlock_take_drop)

lemma drop_min: "length us \<le> n \<Longrightarrow> drop (min k n) us = drop k us"
  by (simp add: min_def)

lemma length_place: "length (vTaskPlaceOnEventList prio t us) = Suc (length us)"
  by (induction us) simp_all

lemma empty_iff: "prvIsQueueEmpty q \<longleftrightarrow> contents q = []"
  using queue_count_contents [of q] by (auto simp: prvIsQueueEmpty_def queue_count_def unat_eq_zero)

text \<open>
  The wait of one round on an empty queue, with items sent at each of its points: the queue is free again, nothing is
  lost, and the task is on the event list exactly when nothing came before the queue was looked at and too little came
  afterwards to wake those ahead of it and the task.
\<close>

lemma wait_round:
  assumes ok: "queue_ok q" "contents q = []" "cTxLock q = -1" "cRxLock q = -1"
    and tasks: "self \<notin> set (xTasksWaitingToReceive q)" "length (xTasksWaitingToReceive q) < ntasks" "ntasks \<le> 127"
    and size: "\<forall>p < 4. \<forall>m \<in> set (ms p). length (snd m) = item_size q"
    and isr: "\<forall>p \<in> {1, 2, 3}. \<forall>m \<in> set (ms p). fst m = From_interrupt"
    and room: "length (ms 0 @ ms 1 @ ms 2 @ ms 3) \<le> queue_length q"
    and e: "\<forall>p < 4. e p = sends prio ntasks (ms p)"
  shows "\<exists>ready q'. receive_wait prio self False e q = (False, ready, q') \<and> queue_ok q' \<and>
      contents q' = map snd (ms 0 @ ms 1 @ ms 2 @ ms 3) \<and> cTxLock q' = -1 \<and> cRxLock q' = -1 \<and>
      queue_length q' = queue_length q \<and> item_size q' = item_size q \<and>
      (if ms 0 @ ms 1 = []
       then xTasksWaitingToReceive q' =
         drop (length (ms 2 @ ms 3)) (vTaskPlaceOnEventList prio self (xTasksWaitingToReceive q))
       else set (xTasksWaitingToReceive q') \<subseteq> set (xTasksWaitingToReceive q))"
proof -
  have e': "e 0 = sends prio ntasks (ms 0)" "e 1 = sends prio ntasks (ms 1)" "e 2 = sends prio ntasks (ms 2)"
    "e 3 = sends prio ntasks (ms 3)" using e by simp_all
  have sz: "\<forall>m \<in> set (ms p). length (snd m) = item_size q" if "p < 4" for p using size that by blast
  have ir: "\<forall>m \<in> set (ms p). length (snd m) = item_size q \<and> fst m = From_interrupt" if "p \<in> {1, 2, 3}" for p
  proof -
    have "p < 4" using that by auto
    with isr sz that show ?thesis by blast
  qed
  define q1 where "q1 = prvLockQueue (e 0 q)"
  have s0: "sent_items (ms 0) q (e 0 q) \<and> cTxLock (e 0 q) = -1 \<and>
      xTasksWaitingToReceive (e 0 q) = drop (length (ms 0)) (xTasksWaitingToReceive q)"
    unfolding e'(1) using ok sz [of 0] room by (intro sends_unlocked) simp_all
  then have q1: "queue_ok q1" "contents q1 = map snd (ms 0)" "cTxLock q1 = int 0" "cRxLock q1 = 0"
    "item_size q1 = item_size q" "queue_length q1 = queue_length q"
    "xTasksWaitingToReceive q1 = drop (length (ms 0)) (xTasksWaitingToReceive q)"
    using lock_free [of "e 0 q"] ok unfolding q1_def by (simp_all add: sent_items_def)
  define q2 where "q2 = e 1 q1"
  have "sent_items (ms 1) q1 q2 \<and> cTxLock q2 = int (min (0 + length (ms 1)) ntasks) \<and>
      xTasksWaitingToReceive q2 = xTasksWaitingToReceive q1"
    unfolding e'(2) q2_def using q1 ir [of 1] room tasks(3) by (intro sends_locked) simp_all
  with q1 have q2: "queue_ok q2" "contents q2 = map snd (ms 0 @ ms 1)" "cTxLock q2 = int (min (length (ms 1)) ntasks)"
    "cRxLock q2 = 0" "item_size q2 = item_size q" "queue_length q2 = queue_length q"
    "xTasksWaitingToReceive q2 = drop (length (ms 0)) (xTasksWaitingToReceive q)"
    by (simp_all add: sent_items_def)
  have wait: "receive_wait prio self False e q = (if prvIsQueueEmpty q2
      then (False, prvUnlockQueue (e 3 ((e 2 q2)\<lparr>xTasksWaitingToReceive :=
        vTaskPlaceOnEventList prio self (xTasksWaitingToReceive (e 2 q2))\<rparr>)))
      else (False, prvUnlockQueue (e 3 (e 2 q2))))"
    by (simp add: receive_wait_def q2_def q1_def Let_def)
  define q3 where "q3 = e 2 q2"
  have "sent_items (ms 2) q2 q3 \<and>
      cTxLock q3 = int (min (min (length (ms 1)) ntasks + length (ms 2)) ntasks) \<and>
      xTasksWaitingToReceive q3 = xTasksWaitingToReceive q2"
    unfolding e'(3) q3_def using q2 ir [of 2] room tasks(3) by (intro sends_locked) simp_all
  with q2 have q3: "queue_ok q3" "contents q3 = map snd (ms 0 @ ms 1 @ ms 2)"
    "cTxLock q3 = int (min (length (ms 1 @ ms 2)) ntasks)" "cRxLock q3 = 0" "item_size q3 = item_size q"
    "queue_length q3 = queue_length q" "xTasksWaitingToReceive q3 = drop (length (ms 0)) (xTasksWaitingToReceive q)"
    by (simp_all add: sent_items_def)
  define q4 where "q4 = (if ms 0 @ ms 1 = []
    then q3\<lparr>xTasksWaitingToReceive := vTaskPlaceOnEventList prio self (xTasksWaitingToReceive q)\<rparr> else q3)"
  have q4: "queue_ok q4" "contents q4 = contents q3" "cTxLock q4 = cTxLock q3" "cRxLock q4 = cRxLock q3"
    "item_size q4 = item_size q3" "queue_length q4 = queue_length q3"
    using q3 by (simp_all add: q4_def)
  have run: "receive_wait prio self False e q = (False, prvUnlockQueue (e 3 q4))"
    using wait q2(2) q3(7) by (auto simp: empty_iff q3_def [symmetric] q4_def)
  have "sent_items (ms 3) q4 (e 3 q4) \<and>
      cTxLock (e 3 q4) = int (min (min (length (ms 1 @ ms 2)) ntasks + length (ms 3)) ntasks) \<and>
      xTasksWaitingToReceive (e 3 q4) = xTasksWaitingToReceive q4"
    unfolding e'(4) using q4 q3 ir [of 3] room tasks(3) by (intro sends_locked) simp_all
  moreover have "min (min (length (ms 1 @ ms 2)) ntasks + length (ms 3)) ntasks = min (length (ms 1 @ ms 2 @ ms 3)) ntasks"
    by simp
  ultimately have q5: "queue_ok (e 3 q4)" "contents (e 3 q4) = map snd (ms 0 @ ms 1 @ ms 2 @ ms 3)"
    "cTxLock (e 3 q4) = int (min (length (ms 1 @ ms 2 @ ms 3)) ntasks)" "cRxLock (e 3 q4) = 0"
    "item_size (e 3 q4) = item_size q" "queue_length (e 3 q4) = queue_length q"
    "xTasksWaitingToReceive (e 3 q4) = xTasksWaitingToReceive q4"
    using q4 q3 by (simp_all add: sent_items_def)
  have len: "length (vTaskPlaceOnEventList prio self (xTasksWaitingToReceive q)) \<le> ntasks"
    using tasks(2) by (simp add: length_place)
  have list: "if ms 0 @ ms 1 = []
      then xTasksWaitingToReceive q4 = vTaskPlaceOnEventList prio self (xTasksWaitingToReceive q)
      else set (xTasksWaitingToReceive q4) \<subseteq> set (xTasksWaitingToReceive q)"
    using q3(7) by (auto simp: q4_def dest: in_set_dropD)
  from unlock_locked [OF q5(1,3,4)] obtain ready q' where "prvUnlockQueue (e 3 q4) = (ready, q')"
    and q': "queue_ok q'" "contents q' = contents (e 3 q4)" "cTxLock q' = -1" "cRxLock q' = -1"
      "queue_length q' = queue_length (e 3 q4)" "item_size q' = item_size (e 3 q4)"
      "xTasksWaitingToReceive q' = drop (min (length (ms 1 @ ms 2 @ ms 3)) ntasks) (xTasksWaitingToReceive q4)"
    unfolding q5(7) by blast
  with run have "receive_wait prio self False e q = (False, ready, q')" by simp
  moreover have "if ms 0 @ ms 1 = []
       then xTasksWaitingToReceive q' =
         drop (length (ms 2 @ ms 3)) (vTaskPlaceOnEventList prio self (xTasksWaitingToReceive q))
       else set (xTasksWaitingToReceive q') \<subseteq> set (xTasksWaitingToReceive q)"
  proof (cases "ms 0 @ ms 1 = []")
    case True
    with list q'(7) show ?thesis by (simp add: drop_min [OF len])
  next
    case False
    with list have "set (xTasksWaitingToReceive q4) \<subseteq> set (xTasksWaitingToReceive q)" by meson
    with False show ?thesis unfolding q'(7) by (metis set_drop_subset subset_trans)
  qed
  ultimately show ?thesis using q' q5 by (intro exI [of _ ready] exI [of _ q']) simp
qed

text \<open>
  C34. A receiver that may wait for ever and finds the queue empty is not forgotten: whatever interrupts send while it
  decides to wait, at every point of it, and whatever tasks and interrupts send before and after, the call returns exactly when
  something was there before it looked again, or more came afterwards than there are tasks waiting ahead of it, and
  then it returns the oldest item and leaves the others. Otherwise it stays on the event list and does not return.
\<close>

theorem queue_receiver_not_forgotten:
  assumes "queue_ok q" "contents q = []" "cTxLock q = -1" "cRxLock q = -1"
    and "self \<notin> set (xTasksWaitingToReceive q)" "length (xTasksWaitingToReceive q) < ntasks" "ntasks \<le> 127"
    and "\<forall>p < 5. \<forall>m \<in> set (ms p). length (snd m) = item_size q"
    and "\<forall>p \<in> {1, 2, 3}. \<forall>m \<in> set (ms p). fst m = From_interrupt"
    and "length (ms 0 @ ms 1 @ ms 2 @ ms 3 @ ms 4) \<le> queue_length q"
    and "\<forall>p < 5. env 0 p = sends prio ntasks (ms p)"
  shows "if ms 0 @ ms 1 \<noteq> [] \<or>
       length (takeWhile (\<lambda>t. prio self \<le> prio t) (xTasksWaitingToReceive q)) < length (ms 2 @ ms 3 @ ms 4)
     then \<exists>ready q'. xQueueReceive prio self env (\<lambda>_. False) (Some q) True 0xFFFFFFFF =
         Some (Some (hd (map snd (ms 0 @ ms 1 @ ms 2 @ ms 3 @ ms 4))), ready, q') \<and>
       contents q' = tl (map snd (ms 0 @ ms 1 @ ms 2 @ ms 3 @ ms 4)) \<and> queue_ok q' \<and>
       cTxLock q' = -1 \<and> cRxLock q' = -1 \<and> self \<notin> set (xTasksWaitingToReceive q')
     else xQueueReceive prio self env (\<lambda>_. False) (Some q) True 0xFFFFFFFF = None"
proof -
  let ?all = "map snd (ms 0 @ ms 1 @ ms 2 @ ms 3 @ ms 4)"
  let ?ahead = "length (takeWhile (\<lambda>t. prio self \<le> prio t) (xTasksWaitingToReceive q))"
  have "p < 5" if "p < 4" for p :: nat using that by simp
  with assms(8,11) have sz: "\<forall>p < 4. \<forall>m \<in> set (ms p). length (snd m) = item_size q"
    and e: "\<forall>p < 4. env 0 p = sends prio ntasks (ms p)" by blast+
  have room: "length (ms 0 @ ms 1 @ ms 2 @ ms 3) \<le> queue_length q" using assms(10) by simp
  from wait_round [OF assms(1-7) sz assms(9) room e] obtain ready q1 where
    wait: "receive_wait prio self False (env 0) q = (False, ready, q1)"
    and q1: "queue_ok q1" "contents q1 = map snd (ms 0 @ ms 1 @ ms 2 @ ms 3)" "cTxLock q1 = -1" "cRxLock q1 = -1"
      "queue_length q1 = queue_length q" "item_size q1 = item_size q"
    and list: "if ms 0 @ ms 1 = []
       then xTasksWaitingToReceive q1 =
         drop (length (ms 2 @ ms 3)) (vTaskPlaceOnEventList prio self (xTasksWaitingToReceive q))
       else set (xTasksWaitingToReceive q1) \<subseteq> set (xTasksWaitingToReceive q)" by blast
  define q2 where "q2 = env 0 4 q1"
  have "sent_items (ms 4) q1 q2 \<and> cTxLock q2 = -1 \<and>
      xTasksWaitingToReceive q2 = drop (length (ms 4)) (xTasksWaitingToReceive q1)"
  proof -
    have "(4 :: nat) < 5" by simp
    then have "\<forall>m \<in> set (ms 4). length (snd m) = item_size q" "env 0 4 = sends prio ntasks (ms 4)"
      using assms(8,11) by blast+
    then show ?thesis using assms(10) q1 sends_unlocked [of q1 "ms 4" prio ntasks] by (simp add: q2_def)
  qed
  with q1 have q2: "queue_ok q2" "contents q2 = ?all" "cTxLock q2 = -1" "cRxLock q2 = -1"
    "xTasksWaitingToReceive q2 = drop (length (ms 4)) (xTasksWaitingToReceive q1)"
    by (simp_all add: sent_items_def)
  have asleep: "self \<in> set (xTasksWaitingToReceive q2) \<longleftrightarrow> ms 0 @ ms 1 = [] \<and> length (ms 2 @ ms 3 @ ms 4) \<le> ?ahead"
    using list q2(5) assms(5) in_drop_placed [OF assms(5)]
    by (auto simp: add.commute add.left_commute dest: in_set_dropD split: if_splits)
  have call: "receive_loop prio self env (\<lambda>_. False) 0 q True = (if self \<in> set (xTasksWaitingToReceive q2)
      then None else Option.bind (receive_loop prio self env (\<lambda>_. False) 1 q2 True)
        (\<lambda>(st, ready', q). Some (st, ready @ ready', q)))"
    using assms(2) wait unfolding q2_def
    by (subst receive_loop.simps) (simp add: receive_pass_empty)
  show ?thesis
  proof (cases "self \<in> set (xTasksWaitingToReceive q2)")
    case True
    with asleep call show ?thesis by (auto simp: xQueueReceive_def)
  next
    case False
    with asleep have awake: "ms 0 @ ms 1 \<noteq> [] \<or> ?ahead < length (ms 2 @ ms 3 @ ms 4)" by (meson not_le)
    then obtain x xs where all: "?all = x # xs" by (cases ?all) auto
    show ?thesis
    proof (rule receive_pass_ok [OF q2(1) q2(2) [unfolded all]])
      fix q' assume pass: "receive_pass q2 = Some (x, take 1 (xTasksWaitingToSend q2), q')"
        and q': "queue_ok q'" "contents q' = xs" "xTasksWaitingToReceive q' = xTasksWaitingToReceive q2"
          "cTxLock q' = cTxLock q2" "cRxLock q' = cRxLock q2"
      have "xQueueReceive prio self env (\<lambda>_. False) (Some q) True 0xFFFFFFFF
          = Some (Some x, ready @ take 1 (xTasksWaitingToSend q2), q')"
        using call False by (simp add: xQueueReceive_def loop_hit(2) [OF pass])
      with q' q2(3,4) False show ?thesis unfolding all if_P [OF awake] list.sel by auto
    qed
  qed
qed

theorem queue_receiver_not_forgotten_witness:
  "\<exists>ready q'. xQueueReceive (\<lambda>_. 0) (7 :: nat)
      (\<lambda>k p. sends (\<lambda>_. 0) 2 (if k = 0 \<and> p = 2 then [(From_interrupt, [1, 2, 3, 4])] else [])) (\<lambda>_. False)
      (Some ptr_queue) True 0xFFFFFFFF = Some (Some [1, 2, 3, 4], ready, q') \<and> contents q' = []"
  using queue_receiver_not_forgotten [of ptr_queue 7 2 "\<lambda>p. if p = 2 then [(From_interrupt, [1, 2, 3, 4])] else []"
      "\<lambda>k p. sends (\<lambda>_. 0) 2 (if k = 0 \<and> p = 2 then [(From_interrupt, [1, 2, 3, 4])] else [])" "\<lambda>_. 0"]
  by (auto simp: ptr_queue_facts)

section \<open>The interface of the application\<close>

text \<open>
  A bounded first-in first-out buffer with tasks that wait for an item. \<open>put\<close> and \<open>get\<close> do not wait and give the tasks
  they make ready; \<open>wait\<close> puts a task that found nothing on the list of the waiting ones.
\<close>

locale bounded_fifo =
  fixes ok :: "'q \<Rightarrow> bool" and items :: "'q \<Rightarrow> 'a list" and capacity :: "'q \<Rightarrow> nat"
    and readers :: "'q \<Rightarrow> 't list" and writers :: "'q \<Rightarrow> 't list"
    and put :: "'a \<Rightarrow> 'q \<Rightarrow> ('t list \<times> 'q) option" and get :: "'q \<Rightarrow> ('a \<times> 't list \<times> 'q) option"
    and wait :: "'t \<Rightarrow> 'q \<Rightarrow> 'q"
  assumes put_room: "ok q \<Longrightarrow> length (items q) < capacity q \<Longrightarrow> \<exists>q'. put x q = Some (take 1 (readers q), q') \<and>
      ok q' \<and> items q' = items q @ [x] \<and> capacity q' = capacity q \<and> readers q' = drop 1 (readers q) \<and> writers q' = writers q"
    and get_next: "ok q \<Longrightarrow> items q = x # xs \<Longrightarrow> \<exists>q'. get q = Some (x, take 1 (writers q), q') \<and>
      ok q' \<and> items q' = xs \<and> capacity q' = capacity q \<and> readers q' = readers q \<and> writers q' = drop 1 (writers q)"
    and get_empty: "ok q \<Longrightarrow> items q = [] \<Longrightarrow> get q = None"
    and wait_empty: "ok q \<Longrightarrow> items q = [] \<Longrightarrow> readers q = [] \<Longrightarrow> ok (wait t q) \<and> items (wait t q) = [] \<and>
      capacity (wait t q) = capacity q \<and> readers (wait t q) = [t] \<and> writers (wait t q) = writers q"
begin

lemma get_someD:
  assumes "ok q" "get q = Some (x, ready, q')"
  shows "items q = x # items q' \<and> ok q' \<and> capacity q' = capacity q \<and> readers q' = readers q \<and>
    writers q' = drop 1 (writers q) \<and> ready = take 1 (writers q)"
proof (cases "items q")
  case Nil
  with assms get_empty show ?thesis by simp
next
  case (Cons y ys)
  from get_next [OF assms(1) Cons] assms(2) Cons show ?thesis by auto
qed

text \<open>The operations keep a queue on which one task at most waits, and that one only while the queue is empty.\<close>

definition one_waits :: "'q \<Rightarrow> bool" where
  "one_waits q \<longleftrightarrow> ok q \<and> writers q = [] \<and> (readers q = [] \<or> (\<exists>t. readers q = [t]) \<and> items q = [])"

lemma put_one_waits:
  assumes "one_waits q" "length (items q) < capacity q"
  obtains q' where "put x q = Some (readers q, q')" "one_waits q'" "items q' = items q @ [x]"
    "capacity q' = capacity q" "readers q' = []"
proof -
  from assms(1) have o: "ok q" "writers q = []" and r: "take 1 (readers q) = readers q" "drop 1 (readers q) = []"
    unfolding one_waits_def by auto
  from put_room [OF o(1) assms(2), of x] o(2) r that show ?thesis unfolding one_waits_def by auto
qed

lemma get_one_waits:
  assumes "one_waits q" "items q = x # xs"
  obtains q' where "get q = Some (x, [], q')" "one_waits q'" "items q' = xs" "capacity q' = capacity q"
    "readers q' = []"
proof -
  from assms have o: "ok q" "writers q = []" "readers q = []" unfolding one_waits_def by auto
  from get_next [OF o(1) assms(2)] o that show ?thesis unfolding one_waits_def by auto
qed

lemma wait_one_waits:
  assumes "one_waits q" "items q = []" "readers q = []"
  shows "one_waits (wait t q)" "items (wait t q) = []" "readers (wait t q) = [t]" "capacity (wait t q) = capacity q"
  using wait_empty [of q t] assms unfolding one_waits_def by auto

text \<open>Filling an empty buffer: as many items as it has room for go in, in their order.\<close>

fun put_all :: "'a list \<Rightarrow> 'q \<Rightarrow> 'q option" where
  "put_all [] q = Some q"
| "put_all (x # xs) q = (case put x q of None \<Rightarrow> None | Some (_, q) \<Rightarrow> put_all xs q)"

lemma put_all_room:
  "ok q \<Longrightarrow> length (items q) + length xs \<le> capacity q \<Longrightarrow>
    \<exists>q'. put_all xs q = Some q' \<and> ok q' \<and> items q' = items q @ xs \<and> capacity q' = capacity q"
proof (induction xs arbitrary: q)
  case (Cons x xs)
  obtain q1 where "put x q = Some (take 1 (readers q), q1)" "ok q1" "items q1 = items q @ [x]" "capacity q1 = capacity q"
    using put_room [of q x] Cons.prems by auto
  then show ?case using Cons.IH [of q1] Cons.prems(2) by auto
qed auto

text \<open>An item moved from one buffer to another is neither lost nor copied.\<close>

lemma move_conserves:
  assumes "ok a" "ok b" "get a = Some (x, w, a')" "length (items b) < capacity b"
  shows "\<exists>w' b'. put x b = Some (w', b') \<and> mset (items a') + mset (items b') = mset (items a) + mset (items b)"
  using get_someD [OF assms(1,3)] put_room [OF assms(2,4), of x] by auto

end

section \<open>Queues of pointers\<close>

text \<open>
  The application's queues hold pointers, four bytes each, low byte first. The first two operations are calls with waiting time
  0, which do not use the priorities and never wait; the third is the branch of a blocking receive that waits.
\<close>

definition ptr_bytes :: "u32 \<Rightarrow> u8 list" where
  "ptr_bytes p = [ucast p, ucast (drop_bit 8 p), ucast (drop_bit 16 p), ucast (drop_bit 24 p)]"

definition ptr_of_bytes :: "u8 list \<Rightarrow> u32" where
  "ptr_of_bytes bs = ucast (bs ! 0) OR push_bit 8 (ucast (bs ! 1)) OR push_bit 16 (ucast (bs ! 2)) OR push_bit 24 (ucast (bs ! 3))"

lemma ptr_of_ptr_bytes [simp]: "ptr_of_bytes (ptr_bytes p) = p"
  unfolding ptr_of_bytes_def ptr_bytes_def
  by (rule bit_word_eqI, rename_tac n, case_tac "n < 8"; case_tac "n < 16"; case_tac "n < 24")
    (auto simp: bit_or_iff bit_push_bit_iff bit_unsigned_iff bit_drop_bit_eq)

lemma length_ptr_bytes [simp]: "length (ptr_bytes p) = 4"
  by (simp add: ptr_bytes_def)

definition ptr_queue_ok :: "'t Queue_t \<Rightarrow> bool" where
  "ptr_queue_ok q \<longleftrightarrow> queue_ok q \<and> item_size q = 4 \<and> cTxLock q = -1 \<and> cRxLock q = -1"

definition ptr_items :: "'t Queue_t \<Rightarrow> u32 list" where
  "ptr_items q = map ptr_of_bytes (contents q)"

definition ptr_put :: "('t \<Rightarrow> nat) \<Rightarrow> 't \<Rightarrow> u32 \<Rightarrow> 't Queue_t \<Rightarrow> ('t list \<times> 't Queue_t) option" where
  "ptr_put prio self p q =
     (case xQueueGenericSend (\<lambda>_. False) prio self (\<lambda>_ _ q. q) (\<lambda>_. True) (Some q) (Some (ptr_bytes p)) 0 queueSEND_TO_BACK of
        Some (True, ready, q) \<Rightarrow> Some (ready, q)
      | _ \<Rightarrow> None)"

definition ptr_get :: "('t \<Rightarrow> nat) \<Rightarrow> 't \<Rightarrow> 't Queue_t \<Rightarrow> (u32 \<times> 't list \<times> 't Queue_t) option" where
  "ptr_get prio self q =
     (case xQueueReceive prio self (\<lambda>_ _ q. q) (\<lambda>_. True) (Some q) True 0 of
        Some (Some item, ready, q) \<Rightarrow> Some (ptr_of_bytes item, ready, q)
      | _ \<Rightarrow> None)"

definition ptr_wait :: "('t \<Rightarrow> nat) \<Rightarrow> 't \<Rightarrow> 't Queue_t \<Rightarrow> 't Queue_t" where
  "ptr_wait prio self q = snd (snd (receive_wait prio self False (\<lambda>_ q. q) q))"

lemma ptr_put_room:
  assumes "ptr_queue_ok q" "length (ptr_items q) < queue_length q"
  shows "\<exists>q'. ptr_put prio self p q = Some (take 1 (xTasksWaitingToReceive q), q') \<and> ptr_queue_ok q' \<and>
      ptr_items q' = ptr_items q @ [p] \<and> queue_length q' = queue_length q \<and>
      xTasksWaitingToReceive q' = drop 1 (xTasksWaitingToReceive q) \<and> xTasksWaitingToSend q' = xTasksWaitingToSend q"
proof -
  have ok: "queue_ok q" and sz: "length (ptr_bytes p) = item_size q" and rm: "room_for queueSEND_TO_BACK q"
    and lck: "cTxLock q = -1" "cRxLock q = -1"
    using assms by (simp_all add: ptr_queue_ok_def ptr_items_def queue_count_contents room_for_def)
  show ?thesis
    by (rule send_pass_ok [OF ok sz rm, of "\<lambda>_. False"])
      (use sz lck queue_okD(11) [OF ok] in
        \<open>auto simp: ptr_put_def xQueueGenericSend_def loop_hit ptr_queue_ok_def ptr_items_def sent_to_def\<close>)
qed

lemma ptr_get_next:
  assumes "ptr_queue_ok q" "ptr_items q = p # ps"
  shows "\<exists>q'. ptr_get prio self q = Some (p, take 1 (xTasksWaitingToSend q), q') \<and> ptr_queue_ok q' \<and>
      ptr_items q' = ps \<and> queue_length q' = queue_length q \<and>
      xTasksWaitingToReceive q' = xTasksWaitingToReceive q \<and> xTasksWaitingToSend q' = drop 1 (xTasksWaitingToSend q)"
proof -
  from assms obtain x xs where c: "contents q = x # xs" "p = ptr_of_bytes x" "ps = map ptr_of_bytes xs"
    by (auto simp: ptr_items_def)
  have ok: "queue_ok q" and sz: "item_size q = 4" and lck: "cTxLock q = -1" "cRxLock q = -1"
    using assms(1) by (simp_all add: ptr_queue_ok_def)
  show ?thesis
    by (rule receive_pass_ok [OF ok c(1)])
      (use c sz lck in \<open>auto simp: ptr_get_def xQueueReceive_def loop_hit ptr_queue_ok_def ptr_items_def\<close>)
qed

lemma ptr_get_empty: "ptr_items q = [] \<Longrightarrow> ptr_get prio self q = None"
  by (simp add: ptr_get_def xQueueReceive_def loop_miss receive_pass_empty ptr_items_def)

lemma ptr_wait_empty:
  assumes "ptr_queue_ok q" "ptr_items q = []" "xTasksWaitingToReceive q = []"
  shows "ptr_queue_ok (ptr_wait prio t q) \<and> ptr_items (ptr_wait prio t q) = [] \<and>
    queue_length (ptr_wait prio t q) = queue_length q \<and> xTasksWaitingToReceive (ptr_wait prio t q) = [t] \<and>
    xTasksWaitingToSend (ptr_wait prio t q) = xTasksWaitingToSend q"
proof -
  have "uxMessagesWaiting q = 0"
    using assms(2) queue_count_contents [of q] by (simp add: ptr_items_def queue_count_def unat_eq_zero)
  then show ?thesis
    using assms by (auto simp: ptr_wait_def receive_wait_def prvLockQueue_def prvIsQueueEmpty_def prvUnlockQueue_def
        ptr_queue_ok_def ptr_items_def)
qed

interpretation ptr_fifo: bounded_fifo ptr_queue_ok ptr_items queue_length xTasksWaitingToReceive
    xTasksWaitingToSend "ptr_put prio self" "ptr_get prio self" "ptr_wait prio"
  for prio :: "'t \<Rightarrow> nat" and self :: 't
  by unfold_locales (rule ptr_put_room ptr_get_next ptr_get_empty ptr_wait_empty; assumption)+

end
