(* ===== verification/Rtos_Config.thy ===== *)
theory Rtos_Config
  imports Enc28_Prelude
begin

text \<open>
  The configuration of the kernel, \<^verbatim>\<open>FreeRTOSConfig.h\<close>: one constant for each option with a value, at the type the kernel
  reads it with. Options the kernel tests with \<^verbatim>\<open>#if\<close> choose the code the other theories translate: no preemption, 32-bit ticks,
  static and dynamic allocation, no trace macros and no stack check.
\<close>

section \<open>Options\<close>

definition configUSE_PREEMPTION :: nat where "configUSE_PREEMPTION = 0"
definition configUSE_IDLE_HOOK :: nat where "configUSE_IDLE_HOOK = 0"
definition configUSE_TICK_HOOK :: nat where "configUSE_TICK_HOOK = 0"
definition configTICK_RATE_HZ :: u32 where "configTICK_RATE_HZ = 1000"
definition configMAX_PRIORITIES :: nat where "configMAX_PRIORITIES = 5"
definition configMINIMAL_STACK_SIZE :: u16 where "configMINIMAL_STACK_SIZE = 130"
definition configTOTAL_HEAP_SIZE :: u32 where "configTOTAL_HEAP_SIZE = 75 * 1024"
definition configMAX_TASK_NAME_LEN :: nat where "configMAX_TASK_NAME_LEN = 10"
definition configUSE_TRACE_FACILITY :: nat where "configUSE_TRACE_FACILITY = 1"
definition configUSE_16_BIT_TICKS :: nat where "configUSE_16_BIT_TICKS = 0"
definition configIDLE_SHOULD_YIELD :: nat where "configIDLE_SHOULD_YIELD = 1"
definition configUSE_MUTEXES :: nat where "configUSE_MUTEXES = 1"
definition configQUEUE_REGISTRY_SIZE :: nat where "configQUEUE_REGISTRY_SIZE = 8"
definition configCHECK_FOR_STACK_OVERFLOW :: nat where "configCHECK_FOR_STACK_OVERFLOW = 0"
definition configUSE_RECURSIVE_MUTEXES :: nat where "configUSE_RECURSIVE_MUTEXES = 1"
definition configUSE_MALLOC_FAILED_HOOK :: nat where "configUSE_MALLOC_FAILED_HOOK = 0"
definition configUSE_APPLICATION_TASK_TAG :: nat where "configUSE_APPLICATION_TASK_TAG = 0"
definition configUSE_COUNTING_SEMAPHORES :: nat where "configUSE_COUNTING_SEMAPHORES = 1"
definition configGENERATE_RUN_TIME_STATS :: nat where "configGENERATE_RUN_TIME_STATS = 0"
definition configKERNEL_PROVIDED_STATIC_MEMORY :: nat where "configKERNEL_PROVIDED_STATIC_MEMORY = 1"
definition configSUPPORT_STATIC_ALLOCATION :: nat where "configSUPPORT_STATIC_ALLOCATION = 1"

definition configUSE_TIMERS :: nat where "configUSE_TIMERS = 0"
definition configTIMER_TASK_PRIORITY :: nat where "configTIMER_TASK_PRIORITY = 2"
definition configTIMER_QUEUE_LENGTH :: nat where "configTIMER_QUEUE_LENGTH = 10"
definition configTIMER_TASK_STACK_DEPTH :: nat where
  "configTIMER_TASK_STACK_DEPTH = unat configMINIMAL_STACK_SIZE * 2"

section \<open>Interrupt priorities\<close>

text \<open>\<^verbatim>\<open>__NVIC_PRIO_BITS\<close> is not defined where the kernel includes the header, so the default holds.\<close>

definition configPRIO_BITS :: nat where "configPRIO_BITS = 4"
definition configLIBRARY_LOWEST_INTERRUPT_PRIORITY :: u32 where
  "configLIBRARY_LOWEST_INTERRUPT_PRIORITY = 0xF"
definition configLIBRARY_MAX_SYSCALL_INTERRUPT_PRIORITY :: u32 where
  "configLIBRARY_MAX_SYSCALL_INTERRUPT_PRIORITY = 5"
definition configKERNEL_INTERRUPT_PRIORITY :: u32 where
  "configKERNEL_INTERRUPT_PRIORITY = push_bit (8 - configPRIO_BITS) configLIBRARY_LOWEST_INTERRUPT_PRIORITY"
definition configMAX_SYSCALL_INTERRUPT_PRIORITY :: u32 where
  "configMAX_SYSCALL_INTERRUPT_PRIORITY = push_bit (8 - configPRIO_BITS) configLIBRARY_MAX_SYSCALL_INTERRUPT_PRIORITY"

text \<open>The kernel's own interrupts have the lowest priority, that is the highest number, and no option reaches over a byte.\<close>

lemma interrupt_priorities:
  "configKERNEL_INTERRUPT_PRIORITY = 0xF0" "configMAX_SYSCALL_INTERRUPT_PRIORITY = 0x50"
  by (simp_all add: configKERNEL_INTERRUPT_PRIORITY_def configMAX_SYSCALL_INTERRUPT_PRIORITY_def configPRIO_BITS_def
      configLIBRARY_LOWEST_INTERRUPT_PRIORITY_def configLIBRARY_MAX_SYSCALL_INTERRUPT_PRIORITY_def push_bit_eq_mult)

lemma unat_of_nat_u32: "a < 2 ^ 32 \<Longrightarrow> unat (of_nat a :: u32) = a"
  by (simp add: unat_of_nat take_bit_nat_eq_self)

end
