(* ===== verification/Rtos_List.thy ===== *)
theory Rtos_List
  imports Rtos_Config
begin

text \<open>
  The kernel's lists, \<^verbatim>\<open>list.c\<close> and the macros of \<^verbatim>\<open>list.h\<close>: rings of items linked in both directions through an end marker inside the
  list, with an index that walks round. Items and lists are stored by their address; the item part of the end marker, which has no
  owner and no container, is an item at its address in the list. The data integrity checks are off, so they translate to nothing.
\<close>

section \<open>Items, lists and their store\<close>

record ListItem_t =
  xItemValue :: u32
  pxNext :: u32
  pxPrevious :: u32
  pvOwner :: u32
  pxContainer :: u32

record List_t =
  uxNumberOfItems :: u32
  pxIndex :: u32

record list_store =
  list_item :: "u32 \<Rightarrow> ListItem_t"
  list_head :: "u32 \<Rightarrow> List_t"

definition portMAX_DELAY :: u32 where "portMAX_DELAY = 0xffffffff"

lemma le_portMAX_DELAY: "(v :: u32) \<le> portMAX_DELAY"
proof -
  have "unat v < 2 ^ 32" using unsigned_less [of v] by simp
  then show ?thesis by (simp add: portMAX_DELAY_def word_le_nat_alt)
qed

definition xListEnd :: "u32 \<Rightarrow> u32" where "xListEnd pxList = pxList + 8"

definition set_item :: "u32 \<Rightarrow> (ListItem_t \<Rightarrow> ListItem_t) \<Rightarrow> list_store \<Rightarrow> list_store" where
  "set_item p f m = m\<lparr>list_item := (list_item m)(p := f (list_item m p))\<rparr>"

definition set_head :: "u32 \<Rightarrow> (List_t \<Rightarrow> List_t) \<Rightarrow> list_store \<Rightarrow> list_store" where
  "set_head l f m = m\<lparr>list_head := (list_head m)(l := f (list_head m l))\<rparr>"

section \<open>Operations\<close>

definition vListInitialise :: "u32 \<Rightarrow> list_store \<Rightarrow> list_store" where
  "vListInitialise pxList m =
     (let m = set_head pxList (pxIndex_update (\<lambda>_. xListEnd pxList)) m;
          m = set_item (xListEnd pxList) (xItemValue_update (\<lambda>_. portMAX_DELAY)) m;
          m = set_item (xListEnd pxList) (pxNext_update (\<lambda>_. xListEnd pxList)) m;
          m = set_item (xListEnd pxList) (pxPrevious_update (\<lambda>_. xListEnd pxList)) m
      in set_head pxList (uxNumberOfItems_update (\<lambda>_. 0)) m)"

definition vListInitialiseItem :: "u32 \<Rightarrow> list_store \<Rightarrow> list_store" where
  "vListInitialiseItem pxItem m = set_item pxItem (pxContainer_update (\<lambda>_. 0)) m"

definition vListInsertEnd :: "u32 \<Rightarrow> u32 \<Rightarrow> list_store \<Rightarrow> list_store" where
  "vListInsertEnd pxList pxNewListItem m =
     (let ix = pxIndex (list_head m pxList);
          m = set_item pxNewListItem (pxNext_update (\<lambda>_. ix)) m;
          m = set_item pxNewListItem (pxPrevious_update (\<lambda>_. pxPrevious (list_item m ix))) m;
          m = set_item (pxPrevious (list_item m ix)) (pxNext_update (\<lambda>_. pxNewListItem)) m;
          m = set_item ix (pxPrevious_update (\<lambda>_. pxNewListItem)) m;
          m = set_item pxNewListItem (pxContainer_update (\<lambda>_. pxList)) m
      in set_head pxList (uxNumberOfItems_update (\<lambda>n. n + 1)) m)"

text \<open>The loop of \<^verbatim>\<open>vListInsert\<close>.\<close>

partial_function (option) insert_position :: "u32 \<Rightarrow> list_store \<Rightarrow> u32 \<Rightarrow> u32 option" where
  "insert_position v m pxIterator =
     (if xItemValue (list_item m (pxNext (list_item m pxIterator))) \<le> v
      then insert_position v m (pxNext (list_item m pxIterator)) else Some pxIterator)"

definition vListInsert :: "u32 \<Rightarrow> u32 \<Rightarrow> list_store \<Rightarrow> list_store option" where
  "vListInsert pxList pxNewListItem m =
     (let xValueOfInsertion = xItemValue (list_item m pxNewListItem) in
      case (if xValueOfInsertion = portMAX_DELAY then Some (pxPrevious (list_item m (xListEnd pxList)))
            else insert_position xValueOfInsertion m (xListEnd pxList)) of
        None \<Rightarrow> None
      | Some pxIterator \<Rightarrow>
          let m = set_item pxNewListItem (pxNext_update (\<lambda>_. pxNext (list_item m pxIterator))) m;
              m = set_item (pxNext (list_item m pxNewListItem)) (pxPrevious_update (\<lambda>_. pxNewListItem)) m;
              m = set_item pxNewListItem (pxPrevious_update (\<lambda>_. pxIterator)) m;
              m = set_item pxIterator (pxNext_update (\<lambda>_. pxNewListItem)) m;
              m = set_item pxNewListItem (pxContainer_update (\<lambda>_. pxList)) m
          in Some (set_head pxList (uxNumberOfItems_update (\<lambda>n. n + 1)) m))"

definition uxListRemove :: "u32 \<Rightarrow> list_store \<Rightarrow> u32 \<times> list_store" where
  "uxListRemove pxItemToRemove m =
     (let pxList = pxContainer (list_item m pxItemToRemove);
          m = set_item (pxNext (list_item m pxItemToRemove)) (pxPrevious_update (\<lambda>_. pxPrevious (list_item m pxItemToRemove))) m;
          m = set_item (pxPrevious (list_item m pxItemToRemove)) (pxNext_update (\<lambda>_. pxNext (list_item m pxItemToRemove))) m;
          m = (if pxIndex (list_head m pxList) = pxItemToRemove
               then set_head pxList (pxIndex_update (\<lambda>_. pxPrevious (list_item m pxItemToRemove))) m else m);
          m = set_item pxItemToRemove (pxContainer_update (\<lambda>_. 0)) m;
          m = set_head pxList (uxNumberOfItems_update (\<lambda>n. n - 1)) m
      in (uxNumberOfItems (list_head m pxList), m))"

text \<open>The owner of the next item round the ring, which the index then points to.\<close>

definition listGET_OWNER_OF_NEXT_ENTRY :: "u32 \<Rightarrow> list_store \<Rightarrow> u32 \<times> list_store" where
  "listGET_OWNER_OF_NEXT_ENTRY pxList m =
     (let m = set_head pxList (pxIndex_update (\<lambda>ix. pxNext (list_item m ix))) m;
          m = (if pxIndex (list_head m pxList) = xListEnd pxList
               then set_head pxList (pxIndex_update (\<lambda>_. pxNext (list_item m (xListEnd pxList)))) m else m)
      in (pvOwner (list_item m (pxIndex (list_head m pxList))), m))"

definition listGET_OWNER_OF_HEAD_ENTRY :: "u32 \<Rightarrow> list_store \<Rightarrow> u32" where
  "listGET_OWNER_OF_HEAD_ENTRY pxList m = pvOwner (list_item m (pxNext (list_item m (xListEnd pxList))))"

definition listGET_ITEM_VALUE_OF_HEAD_ENTRY :: "u32 \<Rightarrow> list_store \<Rightarrow> u32" where
  "listGET_ITEM_VALUE_OF_HEAD_ENTRY pxList m = xItemValue (list_item m (pxNext (list_item m (xListEnd pxList))))"

definition listLIST_IS_EMPTY :: "u32 \<Rightarrow> list_store \<Rightarrow> bool" where
  "listLIST_IS_EMPTY pxList m \<longleftrightarrow> uxNumberOfItems (list_head m pxList) = 0"

lemma store_simps [simp]:
  "list_item (set_item p f m) = (list_item m)(p := f (list_item m p))" "list_head (set_item p f m) = list_head m"
  "list_item (set_head l g m) = list_item m" "list_head (set_head l g m) = (list_head m)(l := g (list_head m l))"
  by (simp_all add: set_item_def set_head_def)

section \<open>Rings\<close>

text \<open>Neighbours point to each other.\<close>

fun linked :: "(u32 \<Rightarrow> ListItem_t) \<Rightarrow> u32 list \<Rightarrow> bool" where
  "linked h (a # b # cs) \<longleftrightarrow> pxNext (h a) = b \<and> pxPrevious (h b) = a \<and> linked h (b # cs)"
| "linked h [a] \<longleftrightarrow> True"
| "linked h [] \<longleftrightarrow> True"

lemma linked_append: "linked h (us @ p # vs) \<longleftrightarrow> linked h (us @ [p]) \<and> linked h (p # vs)"
proof (induction us)
  case (Cons u us)
  then show ?case by (cases us) auto
qed simp

lemma linked_mid: "linked h (us @ p # q # vs) \<Longrightarrow> pxNext (h p) = q \<and> pxPrevious (h q) = p"
  by (subst (asm) linked_append) simp

lemma linked_cong:
  "(\<And>a. a \<in> set (butlast cs) \<Longrightarrow> pxNext (h' a) = pxNext (h a)) \<Longrightarrow>
    (\<And>b. b \<in> set (tl cs) \<Longrightarrow> pxPrevious (h' b) = pxPrevious (h b)) \<Longrightarrow> linked h' cs \<longleftrightarrow> linked h cs"
proof (induction h cs rule: linked.induct)
  case (1 h a b cs)
  have "linked h' (b # cs) \<longleftrightarrow> linked h (b # cs)"
    by (rule "1.IH") (use "1.prems" in \<open>auto split: if_splits\<close>)
  with "1.prems" show ?case by simp
qed simp_all

text \<open>A list of items goes on being linked when its inner neighbours are not written to.\<close>

definition apart :: "u32 list \<Rightarrow> u32 \<Rightarrow> u32 \<Rightarrow> u32 list \<Rightarrow> u32 \<Rightarrow> bool" where
  "apart us p q vs x \<longleftrightarrow> p \<notin> set us \<and> p \<notin> set (butlast (q # vs)) \<and> q \<notin> set (tl (us @ [p])) \<and> q \<notin> set vs \<and>
     x \<notin> set (us @ p # q # vs)"

lemma linked_outside:
  assumes "apart us p q vs x"
    and "\<And>y. y \<noteq> p \<Longrightarrow> y \<noteq> x \<Longrightarrow> pxNext (h' y) = pxNext (h y)" "\<And>y. y \<noteq> q \<Longrightarrow> y \<noteq> x \<Longrightarrow> pxPrevious (h' y) = pxPrevious (h y)"
  shows "linked h' (us @ [p]) \<longleftrightarrow> linked h (us @ [p])" "linked h' (q # vs) \<longleftrightarrow> linked h (q # vs)"
proof -
  show "linked h' (us @ [p]) \<longleftrightarrow> linked h (us @ [p])"
  proof (rule linked_cong)
    fix a assume "a \<in> set (butlast (us @ [p]))"
    then have "a \<noteq> p" "a \<noteq> x" using assms(1) by (auto simp: apart_def)
    then show "pxNext (h' a) = pxNext (h a)" by (rule assms(2))
  next
    fix b assume b: "b \<in> set (tl (us @ [p]))"
    then have "b \<in> set (us @ [p])" by (rule list.set_sel(2) [rotated]) simp
    then have "b \<noteq> q" "b \<noteq> x" using assms(1) b by (auto simp: apart_def)
    then show "pxPrevious (h' b) = pxPrevious (h b)" by (rule assms(3))
  qed
  show "linked h' (q # vs) \<longleftrightarrow> linked h (q # vs)"
  proof (rule linked_cong)
    fix a assume a: "a \<in> set (butlast (q # vs))"
    then have "a \<in> set (q # vs)" by (rule in_set_butlastD)
    then have "a \<noteq> p" "a \<noteq> x" using assms(1) a by (auto simp: apart_def)
    then show "pxNext (h' a) = pxNext (h a)" by (rule assms(2))
  next
    fix b assume "b \<in> set (tl (q # vs))"
    then have "b \<noteq> q" "b \<noteq> x" using assms(1) by (auto simp: apart_def)
    then show "pxPrevious (h' b) = pxPrevious (h b)" by (rule assms(3))
  qed
qed

text \<open>The gap between two neighbours of a ring, opened and closed.\<close>

lemma linked_insert:
  assumes "linked h (us @ p # q # vs)" "apart us p q vs x"
    and "pxNext (h' p) = x" "pxPrevious (h' x) = p" "pxNext (h' x) = q" "pxPrevious (h' q) = x"
    and "\<And>y. y \<noteq> p \<Longrightarrow> y \<noteq> x \<Longrightarrow> pxNext (h' y) = pxNext (h y)" "\<And>y. y \<noteq> q \<Longrightarrow> y \<noteq> x \<Longrightarrow> pxPrevious (h' y) = pxPrevious (h y)"
  shows "linked h' (us @ p # x # q # vs)"
  using assms(1,3-6) linked_outside [OF assms(2,7,8)]
  unfolding linked_append [of h us p "q # vs"] linked_append [of h' us p "x # q # vs"] by simp

lemma linked_remove:
  assumes "linked h (us @ p # x # q # vs)" "apart us p q vs x"
    and "pxNext (h' p) = q" "pxPrevious (h' q) = p"
    and "\<And>y. y \<noteq> p \<Longrightarrow> y \<noteq> x \<Longrightarrow> pxNext (h' y) = pxNext (h y)" "\<And>y. y \<noteq> q \<Longrightarrow> y \<noteq> x \<Longrightarrow> pxPrevious (h' y) = pxPrevious (h y)"
  shows "linked h' (us @ p # q # vs)"
  using assms(1,3,4) linked_outside [OF assms(2,5,6)]
  unfolding linked_append [of h us p "x # q # vs"] linked_append [of h' us p "q # vs"] by simp

section \<open>A list in the store\<close>

definition list_is :: "list_store \<Rightarrow> u32 \<Rightarrow> u32 list \<Rightarrow> bool" where
  "list_is m l xs \<longleftrightarrow>
     distinct (xListEnd l # xs) \<and> linked (list_item m) (xListEnd l # xs @ [xListEnd l]) \<and>
     (\<forall>x \<in> set xs. pxContainer (list_item m x) = l) \<and> uxNumberOfItems (list_head m l) = of_nat (length xs) \<and>
     pxIndex (list_head m l) \<in> set (xListEnd l # xs) \<and> xItemValue (list_item m (xListEnd l)) = portMAX_DELAY"

lemma list_isD:
  assumes "list_is m l xs"
  shows "distinct (xListEnd l # xs)" "linked (list_item m) (xListEnd l # xs @ [xListEnd l])"
    "x \<in> set xs \<Longrightarrow> pxContainer (list_item m x) = l" "uxNumberOfItems (list_head m l) = of_nat (length xs)"
    "pxIndex (list_head m l) = xListEnd l \<or> pxIndex (list_head m l) \<in> set xs" "xItemValue (list_item m (xListEnd l)) = portMAX_DELAY"
  using assms by (auto simp: list_is_def)

text \<open>Every place in a list is a gap of its ring.\<close>

lemma ring_gap:
  "e # as @ bs @ [e] = butlast (e # as) @ last (e # as) # hd (bs @ [e]) # tl (bs @ [e])"
  "e # as @ x # bs @ [e] = butlast (e # as) @ last (e # as) # x # hd (bs @ [e]) # tl (bs @ [e])"
  by (cases as rule: rev_cases; cases bs; simp)+

lemma ring_apart:
  assumes "distinct (e # as @ bs)" "x \<notin> set (e # as @ bs)"
  shows "apart (butlast (e # as)) (last (e # as)) (hd (bs @ [e])) (tl (bs @ [e])) x"
  using assms by (cases as rule: rev_cases; cases bs) (auto simp: apart_def butlast_append)

lemma list_is_insert:
  assumes "list_is m l (as @ bs)" "x \<notin> set (xListEnd l # as @ bs)"
    and "p = last (xListEnd l # as)" "q = hd (bs @ [xListEnd l])"
    and "pxNext (list_item m' p) = x" "pxPrevious (list_item m' x) = p" "pxNext (list_item m' x) = q" "pxPrevious (list_item m' q) = x"
    and "\<And>y. y \<noteq> p \<Longrightarrow> y \<noteq> x \<Longrightarrow> pxNext (list_item m' y) = pxNext (list_item m y)"
    and "\<And>y. y \<noteq> q \<Longrightarrow> y \<noteq> x \<Longrightarrow> pxPrevious (list_item m' y) = pxPrevious (list_item m y)"
    and "\<And>y. y \<noteq> x \<Longrightarrow> pxContainer (list_item m' y) = pxContainer (list_item m y)" "pxContainer (list_item m' x) = l"
    and "\<And>y. y \<noteq> x \<Longrightarrow> xItemValue (list_item m' y) = xItemValue (list_item m y)"
    and "list_head m' l = uxNumberOfItems_update (\<lambda>n. n + 1) (list_head m l)"
  shows "list_is m' l (as @ x # bs)"
proof -
  let ?e = "xListEnd l"
  note D = list_isD [OF assms(1)]
  have "linked (list_item m') (butlast (?e # as) @ last (?e # as) # x # hd (bs @ [?e]) # tl (bs @ [?e]))"
  proof (rule linked_insert)
    show "linked (list_item m) (butlast (?e # as) @ last (?e # as) # hd (bs @ [?e]) # tl (bs @ [?e]))"
      using D(2) unfolding ring_gap(1) [symmetric] by simp
    show "apart (butlast (?e # as)) (last (?e # as)) (hd (bs @ [?e])) (tl (bs @ [?e])) x" by (rule ring_apart [OF D(1) assms(2)])
  qed (use assms(3-10) in auto)
  then have "linked (list_item m') (?e # (as @ x # bs) @ [?e])" unfolding ring_gap(2) [symmetric] by simp
  moreover have "pxContainer (list_item m' y) = l" if "y \<in> set (as @ x # bs)" for y
  proof (cases "y = x")
    case False
    with that show ?thesis using assms(11) [OF False] D(3) [of y] by simp
  qed (simp add: assms(12))
  moreover have "xItemValue (list_item m' ?e) = portMAX_DELAY" using assms(13) [of ?e] assms(2) D(6) by auto
  ultimately show ?thesis
    using D(1,4,5) assms(2,14) by (simp add: list_is_def) blast
qed

lemma list_is_remove:
  assumes "list_is m l (as @ x # bs)"
    and "p = last (xListEnd l # as)" "q = hd (bs @ [xListEnd l])"
    and "pxNext (list_item m' p) = q" "pxPrevious (list_item m' q) = p"
    and "\<And>y. y \<noteq> p \<Longrightarrow> y \<noteq> x \<Longrightarrow> pxNext (list_item m' y) = pxNext (list_item m y)"
    and "\<And>y. y \<noteq> q \<Longrightarrow> y \<noteq> x \<Longrightarrow> pxPrevious (list_item m' y) = pxPrevious (list_item m y)"
    and "\<And>y. y \<noteq> x \<Longrightarrow> pxContainer (list_item m' y) = pxContainer (list_item m y)"
    and "\<And>y. y \<noteq> x \<Longrightarrow> xItemValue (list_item m' y) = xItemValue (list_item m y)"
    and "uxNumberOfItems (list_head m' l) = uxNumberOfItems (list_head m l) - 1"
    and "pxIndex (list_head m' l) = (if pxIndex (list_head m l) = x then p else pxIndex (list_head m l))"
  shows "list_is m' l (as @ bs)"
proof -
  let ?e = "xListEnd l"
  note D = list_isD [OF assms(1)]
  have d: "distinct (?e # as @ bs)" "x \<notin> set (?e # as @ bs)" using D(1) by auto
  have "linked (list_item m') (butlast (?e # as) @ last (?e # as) # hd (bs @ [?e]) # tl (bs @ [?e]))"
  proof (rule linked_remove)
    show "linked (list_item m) (butlast (?e # as) @ last (?e # as) # x # hd (bs @ [?e]) # tl (bs @ [?e]))"
      using D(2) unfolding ring_gap(2) [symmetric] by simp
    show "apart (butlast (?e # as)) (last (?e # as)) (hd (bs @ [?e])) (tl (bs @ [?e])) x" by (rule ring_apart [OF d])
  qed (use assms(2-7) in auto)
  then have "linked (list_item m') (?e # (as @ bs) @ [?e])" unfolding ring_gap(1) [symmetric] by simp
  moreover have "p \<in> set (?e # as)" unfolding assms(2) by (rule last_in_set) simp
  moreover have "pxContainer (list_item m' y) = l" if "y \<in> set (as @ bs)" for y
    using assms(8) [of y] D(3) [of y] d that by auto
  moreover have "xItemValue (list_item m' ?e) = portMAX_DELAY" using assms(9) [of ?e] d D(6) by auto
  moreover have "pxIndex (list_head m' l) \<in> set (?e # as @ bs)" using calculation(2) assms(11) D(5) by auto
  ultimately show ?thesis using D(4) d assms(10) by (simp add: list_is_def)
qed

text \<open>The neighbours of an item.\<close>

lemma list_is_neighbours:
  assumes "list_is m l (as @ x # bs)"
  shows "pxPrevious (list_item m x) = last (xListEnd l # as)" "pxNext (list_item m x) = hd (bs @ [xListEnd l])"
proof -
  let ?e = "xListEnd l"
  have 1: "linked (list_item m) (butlast (?e # as) @ last (?e # as) # x # hd (bs @ [?e]) # tl (bs @ [?e]))"
    using list_isD(2) [OF assms] unfolding ring_gap(2) [symmetric] by simp
  then have "linked (list_item m) ((butlast (?e # as) @ [last (?e # as)]) @ x # hd (bs @ [?e]) # tl (bs @ [?e]))" by simp
  from linked_mid [OF 1] linked_mid [OF this]
  show "pxPrevious (list_item m x) = last (xListEnd l # as)" "pxNext (list_item m x) = hd (bs @ [xListEnd l])" by simp_all
qed

lemma list_is_gap:
  assumes "list_is m l (as @ bs)"
  shows "pxNext (list_item m (last (xListEnd l # as))) = hd (bs @ [xListEnd l])"
    "pxPrevious (list_item m (hd (bs @ [xListEnd l]))) = last (xListEnd l # as)"
proof -
  let ?e = "xListEnd l"
  have "linked (list_item m) (butlast (?e # as) @ last (?e # as) # hd (bs @ [?e]) # tl (bs @ [?e]))"
    using list_isD(2) [OF assms] unfolding ring_gap(1) [symmetric] by simp
  from linked_mid [OF this] show "pxNext (list_item m (last (xListEnd l # as))) = hd (bs @ [xListEnd l])"
    "pxPrevious (list_item m (hd (bs @ [xListEnd l]))) = last (xListEnd l # as)" by simp_all
qed

section \<open>Several lists in one store\<close>

text \<open>The contents of every list in use, by its address; no item is in two lists, nor twice in one.\<close>

definition nodes :: "u32 \<Rightarrow> u32 list \<Rightarrow> u32 set" where
  "nodes l xs = set (xListEnd l # xs)"

definition lists_are :: "list_store \<Rightarrow> (u32 \<rightharpoonup> u32 list) \<Rightarrow> bool" where
  "lists_are m C \<longleftrightarrow> (\<forall>l xs. C l = Some xs \<longrightarrow> list_is m l xs) \<and>
     (\<forall>l l' xs xs'. C l = Some xs \<longrightarrow> C l' = Some xs' \<longrightarrow> l \<noteq> l' \<longrightarrow> nodes l xs \<inter> nodes l' xs' = {})"

definition in_no_list :: "(u32 \<rightharpoonup> u32 list) \<Rightarrow> u32 \<Rightarrow> bool" where
  "in_no_list C x \<longleftrightarrow> (\<forall>l xs. C l = Some xs \<longrightarrow> x \<notin> nodes l xs)"

lemma lists_areD: "lists_are m C \<Longrightarrow> C l = Some xs \<Longrightarrow> list_is m l xs"
  by (simp add: lists_are_def)

lemma nodes_simps [simp]: "x \<in> nodes l xs \<longleftrightarrow> x = xListEnd l \<or> x \<in> set xs"
  by (auto simp: nodes_def)

lemma list_is_cong:
  assumes "list_is m l xs" "\<And>a. a \<in> nodes l xs \<Longrightarrow> list_item m' a = list_item m a" "list_head m' l = list_head m l"
  shows "list_is m' l xs"
proof -
  have "linked (list_item m') (xListEnd l # xs @ [xListEnd l]) \<longleftrightarrow> linked (list_item m) (xListEnd l # xs @ [xListEnd l])"
    by (rule linked_cong) (use assms(2) in \<open>auto dest!: in_set_butlastD split: if_splits\<close>)
  then show ?thesis using assms by (simp add: list_is_def)
qed

lemma lists_are_update:
  assumes "lists_are m C" "C l = Some xs" "list_is m' l xs'"
    and "set xs' \<subseteq> insert x (set xs)" "x \<in> set xs \<or> in_no_list C x"
    and "\<And>a. a \<notin> nodes l xs \<Longrightarrow> a \<noteq> x \<Longrightarrow> list_item m' a = list_item m a" "\<And>k. k \<noteq> l \<Longrightarrow> list_head m' k = list_head m k"
  shows "lists_are m' (C(l \<mapsto> xs'))"
proof -
  have other: "nodes l xs' \<inter> nodes k ys = {} \<and> x \<notin> nodes k ys \<and> nodes l xs \<inter> nodes k ys = {}" if "C k = Some ys" "k \<noteq> l" for k ys
  proof -
    have d: "nodes l xs \<inter> nodes k ys = {}" using assms(1,2) that by (simp add: lists_are_def)
    moreover have "x \<notin> nodes k ys" using assms(5) that(1) d by (auto simp: in_no_list_def)
    ultimately show ?thesis using assms(4) unfolding nodes_def by auto
  qed
  have "list_is m' k ys" if "C k = Some ys" "k \<noteq> l" for k ys
    using list_is_cong [OF lists_areD [OF assms(1) that(1)]] assms(6,7) other [OF that] that by blast
  with assms(1,3) other show ?thesis
    unfolding lists_are_def by (auto simp del: nodes_simps split: if_splits simp: Int_commute)
qed

section \<open>What the operations do to a list\<close>

lemma store_values [simp]:
  "pvOwner (list_item (vListInsertEnd l x m) y) = pvOwner (list_item m y)"
  "xItemValue (list_item (vListInsertEnd l x m) y) = xItemValue (list_item m y)"
  "pvOwner (list_item (snd (uxListRemove x m)) y) = pvOwner (list_item m y)"
  "xItemValue (list_item (snd (uxListRemove x m)) y) = xItemValue (list_item m y)"
  "pxContainer (list_item (vListInsertEnd l x m) y) = (if y = x then l else pxContainer (list_item m y))"
  "pxContainer (list_item (snd (uxListRemove x m)) y) = (if y = x then 0 else pxContainer (list_item m y))"
  "pxIndex (list_head (vListInsertEnd l x m) k) = pxIndex (list_head m k)"
  "list_item (snd (listGET_OWNER_OF_NEXT_ENTRY l m)) = list_item m"
  by (simp_all add: vListInsertEnd_def uxListRemove_def listGET_OWNER_OF_NEXT_ENTRY_def Let_def)

lemma vListInsert_fields:
  assumes "vListInsert l x m = Some m'"
  shows "pvOwner (list_item m' y) = pvOwner (list_item m y)" "xItemValue (list_item m' y) = xItemValue (list_item m y)"
    "pxContainer (list_item m' y) = (if y = x then l else pxContainer (list_item m y))"
  using assms by (auto simp: vListInsert_def Let_def split: option.splits)

text \<open>Before the item the index points to; at the end where it points to the end marker.\<close>

definition insert_before :: "u32 \<Rightarrow> u32 \<Rightarrow> u32 list \<Rightarrow> u32 list" where
  "insert_before i x xs = takeWhile (\<lambda>y. y \<noteq> i) xs @ x # dropWhile (\<lambda>y. y \<noteq> i) xs"

lemma takeWhile_not_in:
  "i \<notin> set xs \<Longrightarrow> takeWhile (\<lambda>y. y \<noteq> i) xs = xs" "i \<notin> set xs \<Longrightarrow> dropWhile (\<lambda>y. y \<noteq> i) xs = []"
  "i \<notin> set as \<Longrightarrow> takeWhile (\<lambda>y. y \<noteq> i) (as @ i # bs) = as" "i \<notin> set as \<Longrightarrow> dropWhile (\<lambda>y. y \<noteq> i) (as @ i # bs) = i # bs"
  by (induction xs; auto)+ (induction as; auto)+

lemma vListInsertEnd_lists:
  assumes "lists_are m C" "C l = Some xs" "in_no_list C x"
  shows "lists_are (vListInsertEnd l x m) (C(l \<mapsto> insert_before (pxIndex (list_head m l)) x xs))"
proof -
  define i where "i = pxIndex (list_head m l)"
  define p where "p = pxPrevious (list_item m i)"
  let ?e = "xListEnd l" and ?m = "vListInsertEnd l x m"
  let ?as = "takeWhile (\<lambda>y. y \<noteq> i) xs" and ?bs = "dropWhile (\<lambda>y. y \<noteq> i) xs"
  have L: "list_is m l (?as @ ?bs)" using lists_areD [OF assms(1,2)] by simp
  note D = list_isD [OF lists_areD [OF assms(1,2)], folded i_def]
  have x: "x \<noteq> ?e" "x \<notin> set xs" using assms(2,3) by (auto simp: in_no_list_def)
  have i: "hd (?bs @ [?e]) = i"
  proof (cases "i \<in> set xs")
    case True
    then have "?bs \<noteq> []" by (auto simp: dropWhile_eq_Nil_conv)
    then show ?thesis using hd_dropWhile [of "\<lambda>y. y \<noteq> i" xs] by simp
  next
    case False
    then have "?bs = []" by (auto simp: dropWhile_eq_Nil_conv)
    moreover have "i = ?e" using D(5) False by simp
    ultimately show ?thesis by (simp only: append_Nil list.sel)
  qed
  have p: "p = last (?e # ?as)" using list_is_gap(2) [OF L] i p_def by simp
  have "p \<in> set (?e # ?as)" unfolding p by (rule last_in_set) simp
  then have p_in: "p = ?e \<or> p \<in> set xs" by (auto dest: set_takeWhileD)
  have i_in: "i = ?e \<or> i \<in> set xs" using D(5) by auto
  have ne: "i \<noteq> x" "p \<noteq> x" using x p_in i_in by auto
  have m: "pxNext (list_item ?m y) = (if y = x then i else if y = p then x else pxNext (list_item m y))"
    "pxPrevious (list_item ?m y) = (if y = x then p else if y = i then x else pxPrevious (list_item m y))"
    "pxContainer (list_item ?m y) = (if y = x then l else pxContainer (list_item m y))"
    "list_head ?m = (list_head m)(l := uxNumberOfItems_update (\<lambda>n. n + 1) (list_head m l))"
    "y \<noteq> x \<Longrightarrow> y \<noteq> i \<Longrightarrow> y \<noteq> p \<Longrightarrow> list_item ?m y = list_item m y" for y
    using ne by (simp_all add: vListInsertEnd_def Let_def i_def [symmetric] p_def [symmetric])
  have "list_is ?m l (?as @ x # ?bs)"
    by (rule list_is_insert [OF L _ p i [symmetric]]) (use ne x in \<open>simp_all add: m del: last.simps\<close>)
  then have "lists_are ?m (C(l \<mapsto> ?as @ x # ?bs))"
  proof (rule lists_are_update [OF assms(1,2)])
    show "list_item ?m a = list_item m a" if "a \<notin> nodes l xs" "a \<noteq> x" for a
      by (rule m(5)) (use that p_in i_in in auto)
  qed (use assms(3) in \<open>auto simp: m(4) dest: set_takeWhileD set_dropWhileD\<close>)
  then show ?thesis by (simp add: insert_before_def i_def)
qed

lemma uxListRemove_lists:
  assumes "lists_are m C" "C l = Some xs" "x \<in> set xs"
  shows "lists_are (snd (uxListRemove x m)) (C(l \<mapsto> remove1 x xs))" "in_no_list (C(l \<mapsto> remove1 x xs)) x"
    "fst (uxListRemove x m) = of_nat (length xs - 1)"
proof -
  let ?e = "xListEnd l" and ?m = "snd (uxListRemove x m)"
  obtain as bs where xs: "xs = as @ x # bs" using split_list [OF assms(3)] by blast
  have L: "list_is m l (as @ x # bs)" using lists_areD [OF assms(1,2)] xs by simp
  note D = list_isD [OF L]
  have d: "x \<noteq> ?e" "x \<notin> set as" "x \<notin> set bs" using D(1) by auto
  have r: "remove1 x xs = as @ bs" using d xs by (simp add: remove1_append)
  note N = list_is_neighbours [OF L]
  let ?p = "pxPrevious (list_item m x)" and ?q = "pxNext (list_item m x)"
  have in_nodes: "?p \<in> set (?e # as)" "?q \<in> set (bs @ [?e])"
    unfolding N using last_in_set [of "?e # as"] hd_in_set [of "bs @ [?e]"] by simp_all
  have c: "pxContainer (list_item m x) = l" using D(3) [of x] by simp
  have "list_is ?m l (as @ bs)"
    by (rule list_is_remove [OF L N(1) N(2)])
      (use in_nodes d c in \<open>auto simp: uxListRemove_def Let_def\<close>)
  then show "lists_are ?m (C(l \<mapsto> remove1 x xs))" unfolding r
    by (intro lists_are_update [OF assms(1,2), of ?m "as @ bs" x])
      (use in_nodes d c xs in \<open>auto simp: uxListRemove_def Let_def\<close>)
  have "x \<notin> nodes k ys" if "C k = Some ys" "k \<noteq> l" for k ys
    using assms that unfolding lists_are_def by fastforce
  then show "in_no_list (C(l \<mapsto> remove1 x xs)) x" unfolding r using d by (auto simp: in_no_list_def)
  show "fst (uxListRemove x m) = of_nat (length xs - 1)"
    using D(4) c xs by (simp add: uxListRemove_def Let_def)
qed

text \<open>Behind the items that have the value or a smaller one.\<close>

definition insert_value :: "list_store \<Rightarrow> u32 \<Rightarrow> u32 list \<Rightarrow> u32 list" where
  "insert_value m x xs =
     (let small = (\<lambda>y. xItemValue (list_item m y) \<le> xItemValue (list_item m x)) in takeWhile small xs @ x # dropWhile small xs)"

lemma insert_position_found:
  assumes "list_is m l (as @ bs)" "v < portMAX_DELAY"
  shows "insert_position v m (last (xListEnd l # as)) =
    Some (last (xListEnd l # as @ takeWhile (\<lambda>y. xItemValue (list_item m y) \<le> v) bs))"
  using assms(1)
proof (induction bs arbitrary: as)
  case Nil
  have "xItemValue (list_item m (pxNext (list_item m (last (xListEnd l # as))))) = portMAX_DELAY"
    using list_is_gap(1) [OF Nil] list_isD(6) [OF Nil] by simp
  moreover have "portMAX_DELAY \<le> v \<longleftrightarrow> False" using assms(2) by simp
  ultimately show ?case by (subst insert_position.simps) (simp del: last.simps)
next
  case (Cons b bs)
  have nx: "pxNext (list_item m (last (xListEnd l # as))) = b" using list_is_gap(1) [OF Cons.prems] by simp
  have "insert_position v m b = Some (last (xListEnd l # (as @ [b]) @ takeWhile (\<lambda>y. xItemValue (list_item m y) \<le> v) bs))"
    using Cons.IH [of "as @ [b]"] Cons.prems by simp
  with nx show ?case by (subst insert_position.simps) simp
qed

lemma vListInsert_lists:
  assumes "lists_are m C" "C l = Some xs" "in_no_list C x"
  obtains m' where "vListInsert l x m = Some m'" "lists_are m' (C(l \<mapsto> insert_value m x xs))"
    "\<And>y. pvOwner (list_item m' y) = pvOwner (list_item m y)" "\<And>y. xItemValue (list_item m' y) = xItemValue (list_item m y)"
    "\<And>y. pxContainer (list_item m' y) = (if y = x then l else pxContainer (list_item m y))"
    "\<And>k. pxIndex (list_head m' k) = pxIndex (list_head m k)"
proof -
  let ?e = "xListEnd l" and ?v = "xItemValue (list_item m x)"
  let ?as = "takeWhile (\<lambda>y. xItemValue (list_item m y) \<le> ?v) xs" and ?bs = "dropWhile (\<lambda>y. xItemValue (list_item m y) \<le> ?v) xs"
  have L: "list_is m l (?as @ ?bs)" using lists_areD [OF assms(1,2)] by simp
  have L0: "list_is m l ([] @ xs)" using lists_areD [OF assms(1,2)] by simp
  have x: "x \<noteq> ?e" "x \<notin> set xs" using assms(2,3) by (auto simp: in_no_list_def)
  define p where "p = last (?e # ?as)"
  define q where "q = hd (?bs @ [?e])"
  have pos: "(if ?v = portMAX_DELAY then Some (pxPrevious (list_item m ?e)) else insert_position ?v m ?e) = Some p"
  proof (cases "?v = portMAX_DELAY")
    case True
    have "?as = xs" using True le_portMAX_DELAY by (simp add: takeWhile_eq_all_conv)
    then have "p = last (?e # xs)" unfolding p_def by (simp only:)
    then show ?thesis using True list_is_gap(2) [of m l xs "[]"] L0 by simp
  next
    case False
    then have "?v < portMAX_DELAY" using le_portMAX_DELAY [of ?v] by simp
    from insert_position_found [OF L0 this] False show ?thesis by (simp add: p_def)
  qed
  have "p \<in> set (?e # ?as)" "q \<in> set (?bs @ [?e])"
    unfolding p_def q_def using last_in_set [of "?e # ?as"] hd_in_set [of "?bs @ [?e]"] by simp_all
  then have in_nodes: "p = ?e \<or> p \<in> set xs" "q = ?e \<or> q \<in> set xs" by (auto dest: set_takeWhileD set_dropWhileD)
  then have ne: "p \<noteq> x" "q \<noteq> x" using x by auto
  have pq: "pxNext (list_item m p) = q" using list_is_gap(1) [OF L] by (simp only: p_def q_def)
  obtain m' where m': "vListInsert l x m = Some m'" using pos by (simp add: vListInsert_def Let_def)
  note m'_def = m' [unfolded vListInsert_def Let_def pos, simplified, symmetric]
  have m: "pxNext (list_item m' y) = (if y = x then q else if y = p then x else pxNext (list_item m y))"
    "pxPrevious (list_item m' y) = (if y = x then p else if y = q then x else pxPrevious (list_item m y))"
    "pxContainer (list_item m' y) = (if y = x then l else pxContainer (list_item m y))"
    "list_head m' = (list_head m)(l := uxNumberOfItems_update (\<lambda>n. n + 1) (list_head m l))"
    "y \<noteq> x \<Longrightarrow> y \<noteq> p \<Longrightarrow> y \<noteq> q \<Longrightarrow> list_item m' y = list_item m y"
    "xItemValue (list_item m' y) = xItemValue (list_item m y)" "pvOwner (list_item m' y) = pvOwner (list_item m y)" for y
    using ne pq by (simp_all add: m'_def)
  have "list_is m' l (?as @ x # ?bs)"
    by (rule list_is_insert [OF L _ p_def q_def]) (use ne x in \<open>simp_all add: m\<close>)
  then have "lists_are m' (C(l \<mapsto> ?as @ x # ?bs))"
  proof (rule lists_are_update [OF assms(1,2)])
    show "list_item m' a = list_item m a" if "a \<notin> nodes l xs" "a \<noteq> x" for a
      by (rule m(5)) (use that in_nodes in auto)
  qed (use assms(3) in \<open>auto simp: m(4) dest: set_takeWhileD set_dropWhileD\<close>)
  then show ?thesis
    by (intro that [OF m']) (simp_all add: m insert_value_def Let_def)
qed

lemma insert_value_props:
  "set (insert_value m x xs) = insert x (set xs)" "length (insert_value m x xs) = Suc (length xs)"
  "sorted (map (\<lambda>y. xItemValue (list_item m y)) xs) \<Longrightarrow> sorted (map (\<lambda>y. xItemValue (list_item m y)) (insert_value m x xs))"
proof -
  let ?v = "\<lambda>y. xItemValue (list_item m y)"
  let ?as = "takeWhile (\<lambda>y. ?v y \<le> ?v x) xs" and ?bs = "dropWhile (\<lambda>y. ?v y \<le> ?v x) xs"
  have S: "set ?as \<union> set ?bs = set xs" by (metis set_append takeWhile_dropWhile_id)
  show "set (insert_value m x xs) = insert x (set xs)"
    unfolding insert_value_def Let_def set_append list.set(2) Un_insert_right by (simp only: S)
  have N: "length ?as + length ?bs = length xs" by (metis length_append takeWhile_dropWhile_id)
  show "length (insert_value m x xs) = Suc (length xs)"
    unfolding insert_value_def Let_def length_append list.size(4) add_Suc_right N [symmetric] by simp
  assume s: "sorted (map ?v xs)"
  have "sorted (map ?v ?as @ map ?v ?bs)" using s by (metis map_append takeWhile_dropWhile_id)
  then have "sorted (map ?v ?as)" and sb: "sorted (map ?v ?bs)" by (simp_all only: sorted_append)
  moreover have "?v x \<le> ?v y" if "y \<in> set ?bs" for y
  proof (cases ?bs)
    case (Cons b bs)
    have "?v x \<le> ?v b" using hd_dropWhile [of "\<lambda>y. ?v y \<le> ?v x" xs] Cons by simp
    moreover have "?v b \<le> ?v y" using sb that unfolding Cons by auto
    ultimately show ?thesis by simp
  next
    case Nil
    with that show ?thesis by (simp only: list.set(1) empty_iff)
  qed
  moreover have "?v y \<le> ?v x" if "y \<in> set ?as" for y using set_takeWhileD [OF that] by simp
  ultimately show "sorted (map ?v (insert_value m x xs))"
    using sb unfolding insert_value_def Let_def map_append list.map sorted_append sorted_simps(2)
    by (auto simp del: takeWhile_dropWhile_id intro: order_trans)
qed

section \<open>The order of turns\<close>

text \<open>The items in the order in which repeated calls of \<^verbatim>\<open>listGET_OWNER_OF_NEXT_ENTRY\<close> come to them.\<close>

definition turns :: "u32 \<Rightarrow> u32 \<Rightarrow> u32 list \<Rightarrow> u32 list" where
  "turns e i xs = (if i = e then xs else tl (dropWhile (\<lambda>y. y \<noteq> i) xs) @ takeWhile (\<lambda>y. y \<noteq> i) xs @ [i])"

definition list_turns :: "list_store \<Rightarrow> u32 \<Rightarrow> u32 list \<Rightarrow> u32 list" where
  "list_turns m l xs = turns (xListEnd l) (pxIndex (list_head m l)) xs"

lemma turns_mid: "i \<noteq> e \<Longrightarrow> i \<notin> set as \<Longrightarrow> turns e i (as @ i # bs) = bs @ as @ [i]"
  by (simp add: turns_def takeWhile_not_in)

lemma list_turns_cases:
  assumes "list_is m l xs"
  obtains (start) "pxIndex (list_head m l) = xListEnd l" "list_turns m l xs = xs"
  | (mid) as i bs where "pxIndex (list_head m l) = i" "xs = as @ i # bs" "i \<noteq> xListEnd l" "i \<notin> set as" "i \<notin> set bs"
      "list_turns m l xs = bs @ as @ [i]"
proof (cases "pxIndex (list_head m l) = xListEnd l")
  case True
  then show ?thesis using start by (simp add: list_turns_def turns_def)
next
  case False
  then have "pxIndex (list_head m l) \<in> set xs" using list_isD(5) [OF assms] by simp
  then obtain as bs where xs: "xs = as @ pxIndex (list_head m l) # bs" using split_list by fast
  moreover have "pxIndex (list_head m l) \<notin> set as" "pxIndex (list_head m l) \<notin> set bs"
    using list_isD(1) [OF assms] xs by (metis distinct.simps(2) not_distinct_conv_prefix distinct_append disjoint_insert(1) list.set(2))+
  ultimately show ?thesis
    using False turns_mid [of "pxIndex (list_head m l)" "xListEnd l" as bs] by (intro mid [OF refl xs]) (auto simp: list_turns_def)
qed

lemma set_list_turns: "list_is m l xs \<Longrightarrow> set (list_turns m l xs) = set xs \<and> length (list_turns m l xs) = length xs"
  by (rule list_turns_cases) auto

text \<open>A new item comes after all others, but for the one whose turn it is, whose next turn comes later still.\<close>

lemma list_turns_insert_end:
  assumes "lists_are m C" "C l = Some xs" "in_no_list C x"
  shows "list_turns (vListInsertEnd l x m) l (insert_before (pxIndex (list_head m l)) x xs) =
    (if pxIndex (list_head m l) = xListEnd l then list_turns m l xs @ [x]
     else butlast (list_turns m l xs) @ [x, pxIndex (list_head m l)])"
  using lists_areD [OF assms(1,2)]
proof (cases rule: list_turns_cases)
  case start
  have "xListEnd l \<notin> set xs" using list_isD(1) [OF lists_areD [OF assms(1,2)]] by simp
  then have "insert_before (xListEnd l) x xs = xs @ [x]"
    by (simp add: insert_before_def takeWhile_not_in)
  with start show ?thesis by (simp add: list_turns_def turns_def)
next
  case (mid as i bs)
  have "x \<noteq> i" using assms(2,3) mid(2) by (fastforce simp: in_no_list_def)
  moreover have "insert_before i x xs = (as @ [x]) @ i # bs"
    using mid(2,4) by (simp add: insert_before_def takeWhile_not_in)
  ultimately have "list_turns (vListInsertEnd l x m) l (insert_before i x xs) = bs @ (as @ [x]) @ [i]"
    using turns_mid [of i "xListEnd l" "as @ [x]" bs] mid by (simp add: list_turns_def)
  with mid show ?thesis by (simp add: butlast_append)
qed

lemma list_turns_remove:
  assumes "lists_are m C" "C l = Some xs" "x \<in> set xs"
  shows "list_turns (snd (uxListRemove x m)) l (remove1 x xs) = remove1 x (list_turns m l xs)"
proof -
  obtain us vs where xs: "xs = us @ x # vs" using split_list [OF assms(3)] by blast
  have L: "list_is m l (us @ x # vs)" using lists_areD [OF assms(1,2)] xs by simp
  note D = list_isD [OF L] and N = list_is_neighbours [OF L]
  have c: "pxContainer (list_item m x) = l" using D(3) [of x] by simp
  have d: "x \<noteq> xListEnd l" "x \<notin> set us" "x \<notin> set vs" using D(1) by auto
  have ix: "pxIndex (list_head (snd (uxListRemove x m)) l) =
      (if pxIndex (list_head m l) = x then last (xListEnd l # us) else pxIndex (list_head m l))"
    using c d N(1) list_is_gap by (auto simp: uxListRemove_def Let_def)
  show ?thesis
    using lists_areD [OF assms(1,2)]
  proof (cases rule: list_turns_cases)
    case start
    with ix d show ?thesis by (simp add: list_turns_def turns_def xs)
  next
    case (mid as i bs)
    show ?thesis
    proof (cases "i = x")
      case True
      then have eq: "as = us" "bs = vs" using mid(2,4) xs d by (auto simp: append_Cons_eq_iff)
      show ?thesis
      proof (cases us rule: rev_cases)
        case Nil
        then show ?thesis using ix True mid eq d xs by (simp add: list_turns_def turns_def remove1_append)
      next
        case (snoc ws w)
        have w: "w \<noteq> xListEnd l" "w \<notin> set ws" using D(1) snoc by auto
        have "turns (xListEnd l) w (ws @ w # vs) = vs @ ws @ [w]" by (rule turns_mid [OF w])
        then show ?thesis using ix True mid eq d xs snoc by (simp add: list_turns_def remove1_append)
      qed
    next
      case False
      have "i \<in> set (us @ vs)" using mid(2) xs False by (metis Un_iff in_set_conv_decomp set_ConsD set_append list.set_intros(1))
      obtain as' bs' where r: "remove1 x xs = as' @ i # bs'" "i \<notin> set as'" "bs' @ as' @ [i] = remove1 x (bs @ as @ [i])"
      proof (cases "x \<in> set as")
        case True
        have "distinct xs" using D(1) xs by simp
        with True have "x \<notin> set bs" unfolding mid(2) by auto
        then show ?thesis using True mid False that [of "remove1 x as" bs] by (auto simp: remove1_append dest: notin_set_remove1)
      next
        case x: False
        then show ?thesis using mid False that [of as "remove1 x bs"] by (auto simp: remove1_append remove1_idem)
      qed
      then show ?thesis using ix mid False turns_mid [OF mid(3) r(2), of bs'] by (simp add: list_turns_def)
    qed
  qed
qed

text \<open>The next entry is the head of the turns, and its turn goes to the end.\<close>

lemma list_next_turn:
  assumes "lists_are m C" "C l = Some xs" "xs \<noteq> []"
  shows "fst (listGET_OWNER_OF_NEXT_ENTRY l m) = pvOwner (list_item m (hd (list_turns m l xs)))"
    "lists_are (snd (listGET_OWNER_OF_NEXT_ENTRY l m)) C"
    "list_turns (snd (listGET_OWNER_OF_NEXT_ENTRY l m)) l xs = rotate1 (list_turns m l xs)"
    "k \<noteq> l \<Longrightarrow> list_head (snd (listGET_OWNER_OF_NEXT_ENTRY l m)) k = list_head m k"
proof -
  let ?e = "xListEnd l" and ?m = "snd (listGET_OWNER_OF_NEXT_ENTRY l m)"
  have L: "list_is m l xs" by (rule lists_areD [OF assms(1,2)])
  note D = list_isD [OF L]
  have head: "pxIndex (list_head ?m l) = hd (list_turns m l xs) \<and> turns ?e (hd (list_turns m l xs)) xs = rotate1 (list_turns m l xs)"
    using L
  proof (cases rule: list_turns_cases)
    case start
    obtain y ys where xs: "xs = y # ys" using assms(3) by (cases xs) auto
    have "pxNext (list_item m ?e) = y" using list_is_gap(1) [of m l "[]" xs] L xs by simp
    with start D(1) xs turns_mid [of y ?e "[]" ys] show ?thesis
      by (auto simp: listGET_OWNER_OF_NEXT_ENTRY_def Let_def)
  next
    case (mid as i bs)
    have nx: "pxNext (list_item m i) = hd (bs @ [?e])" using list_is_neighbours(2) [of m l as i bs] L mid(2) by simp
    have ne: "pxNext (list_item m ?e) = hd (as @ i # bs)" using list_is_gap(1) [of m l "[]" xs] L mid(2) by (cases as) simp_all
    show ?thesis
    proof (cases bs)
      case (Cons b bs')
      have "turns ?e b ((as @ [i]) @ b # bs') = bs' @ (as @ [i]) @ [b]"
        by (rule turns_mid) (use D(1) mid(2) Cons in auto)
      then show ?thesis using nx mid Cons D(1) by (auto simp: listGET_OWNER_OF_NEXT_ENTRY_def Let_def)
    next
      case Nil
      have "turns ?e (hd (as @ [i])) (as @ [i]) = rotate1 (as @ [i])"
      proof (cases as)
        case (Cons a as')
        then have "a \<noteq> ?e" using D(1) mid(2) by auto
        then show ?thesis using turns_mid [of a ?e "[]" "as' @ [i]"] Cons by simp
      next
        case Nil
        then show ?thesis using turns_mid [of i ?e "[]" "[]"] mid(3) by simp
      qed
      then show ?thesis using nx ne mid Nil by (simp add: listGET_OWNER_OF_NEXT_ENTRY_def Let_def)
    qed
  qed
  then show "list_turns ?m l xs = rotate1 (list_turns m l xs)" by (simp add: list_turns_def)
  show "fst (listGET_OWNER_OF_NEXT_ENTRY l m) = pvOwner (list_item m (hd (list_turns m l xs)))"
    using head by (simp add: listGET_OWNER_OF_NEXT_ENTRY_def Let_def split: if_splits)
  have "hd (list_turns m l xs) \<in> set xs"
    using set_list_turns [OF L] assms(3) by (metis hd_in_set length_0_conv)
  then have "list_is ?m l xs" using L head by (simp add: list_is_def) (simp add: listGET_OWNER_OF_NEXT_ENTRY_def Let_def)
  then have "lists_are ?m (C(l \<mapsto> xs))"
    by (rule lists_are_update [OF assms(1,2), where x = "hd xs"])
      (use assms(3) in \<open>auto simp: listGET_OWNER_OF_NEXT_ENTRY_def Let_def\<close>)
  then show "lists_are ?m C" using assms(2) by (simp add: map_upd_triv)
  show "k \<noteq> l \<Longrightarrow> list_head ?m k = list_head m k" by (simp add: listGET_OWNER_OF_NEXT_ENTRY_def Let_def)
qed

lemma vListInitialise_lists:
  assumes "lists_are m C" "C l = None" "\<And>k ys. C k = Some ys \<Longrightarrow> xListEnd l \<notin> nodes k ys"
  shows "lists_are (vListInitialise l m) (C(l \<mapsto> []))"
proof -
  let ?m = "vListInitialise l m"
  have new: "list_is ?m l []" by (simp add: list_is_def vListInitialise_def Let_def)
  have "list_is ?m k ys" if "C k = Some ys" for k ys
  proof (rule list_is_cong [OF lists_areD [OF assms(1) that]])
    have "k \<noteq> l" using that assms(2) by auto
    then show "list_head ?m k = list_head m k" by (simp add: vListInitialise_def Let_def)
    show "list_item ?m a = list_item m a" if "a \<in> nodes k ys" for a
      using that assms(3) [OF \<open>C k = Some ys\<close>] by (auto simp: vListInitialise_def Let_def)
  qed
  moreover have "nodes k ys \<inter> nodes l [] = {}" if "C k = Some ys" for k ys
    using assms(3) [OF that] by (simp add: nodes_def)
  ultimately show ?thesis using new assms(1) unfolding lists_are_def
    by (auto simp del: nodes_simps simp: Int_commute split: if_splits)
qed

end
