(* ===== verification/Rtos_Sched.thy ===== *)
theory Rtos_Sched
  imports Rtos_List
begin

text \<open>
  The scheduler of \<^verbatim>\<open>tasks.c\<close> for one core and without preemption: the lists of ready, delayed and suspended tasks, the choice of the
  next task, blocking, waking by an event or by the tick. A task is the address of its control block; its two list items lie in
  the block behind the stack pointer. The priorities come in a bit map, as the processor's port selects tasks.
\<close>

section \<open>The state\<close>

text \<open>Where the linker puts the lists; the array of the ready lists is given by the address of each element.\<close>

record kernel_places =
  pxReadyTasksLists :: "nat \<Rightarrow> u32"
  xDelayedTaskList1 :: u32
  xDelayedTaskList2 :: u32
  xPendingReadyList :: u32
  xSuspendedTaskList :: u32
  xTasksWaitingTermination :: u32

record kernel =
  lists :: list_store
  uxPriority :: "u32 \<Rightarrow> nat"
  pxCurrentTCB :: u32
  uxTopReadyPriority :: u32
  pxDelayedTaskList :: u32
  pxOverflowDelayedTaskList :: u32
  xTickCount :: u32
  xNextTaskUnblockTime :: u32
  xPendedTicks :: u32
  xNumOfOverflows :: u32
  uxSchedulerSuspended :: u32
  xYieldPending :: bool
  uxCurrentNumberOfTasks :: u32
  xSchedulerRunning :: bool

definition xStateListItem :: "u32 \<Rightarrow> u32" where "xStateListItem pxTCB = pxTCB + 4"
definition xEventListItem :: "u32 \<Rightarrow> u32" where "xEventListItem pxTCB = pxTCB + 24"

section \<open>The bit map of priorities\<close>

definition portRECORD_READY_PRIORITY :: "nat \<Rightarrow> u32 \<Rightarrow> u32" where
  "portRECORD_READY_PRIORITY p ready = ready OR push_bit p 1"

definition portRESET_READY_PRIORITY :: "nat \<Rightarrow> u32 \<Rightarrow> u32" where
  "portRESET_READY_PRIORITY p ready = ready AND NOT (push_bit p 1)"

text \<open>The processor's instruction \<^verbatim>\<open>clz\<close>.\<close>

definition ucPortCountLeadingZeros :: "u32 \<Rightarrow> nat" where
  "ucPortCountLeadingZeros w = length (takeWhile (\<lambda>i. \<not> bit w (31 - i)) [0..<32])"

definition portGET_HIGHEST_PRIORITY :: "u32 \<Rightarrow> u32" where
  "portGET_HIGHEST_PRIORITY ready = 31 - of_nat (ucPortCountLeadingZeros ready)"

section \<open>Ready tasks\<close>

definition prvAddTaskToReadyList :: "kernel_places \<Rightarrow> u32 \<Rightarrow> kernel \<Rightarrow> kernel" where
  "prvAddTaskToReadyList P pxTCB k =
     k\<lparr>uxTopReadyPriority := portRECORD_READY_PRIORITY (uxPriority k pxTCB) (uxTopReadyPriority k),
       lists := vListInsertEnd (pxReadyTasksLists P (uxPriority k pxTCB)) (xStateListItem pxTCB) (lists k)\<rparr>"

text \<open>An index outside of the array of lists is undefined behaviour; a failed assertion stops the system (\<open>None\<close>).\<close>

definition taskSELECT_HIGHEST_PRIORITY_TASK :: "kernel_places \<Rightarrow> kernel \<Rightarrow> kernel outcome option" where
  "taskSELECT_HIGHEST_PRIORITY_TASK P k =
     (let uxTopPriority = unat (portGET_HIGHEST_PRIORITY (uxTopReadyPriority k)) in
      if uxTopPriority \<ge> configMAX_PRIORITIES then Some Undef
      else if listLIST_IS_EMPTY (pxReadyTasksLists P uxTopPriority) (lists k) then None
      else case listGET_OWNER_OF_NEXT_ENTRY (pxReadyTasksLists P uxTopPriority) (lists k) of
        (tcb, m) \<Rightarrow> Some (Ret (k\<lparr>pxCurrentTCB := tcb, lists := m\<rparr>)))"

definition vTaskSwitchContext :: "kernel_places \<Rightarrow> kernel \<Rightarrow> kernel outcome option" where
  "vTaskSwitchContext P k =
     (if uxSchedulerSuspended k \<noteq> 0 then Some (Ret (k\<lparr>xYieldPending := True\<rparr>))
      else taskSELECT_HIGHEST_PRIORITY_TASK P (k\<lparr>xYieldPending := False\<rparr>))"

section \<open>Blocking\<close>

definition prvAddCurrentTaskToDelayedList :: "kernel_places \<Rightarrow> u32 \<Rightarrow> bool \<Rightarrow> kernel \<Rightarrow> kernel option" where
  "prvAddCurrentTaskToDelayedList P xTicksToWait xCanBlockIndefinitely k =
     (let x = xStateListItem (pxCurrentTCB k) in
      case uxListRemove x (lists k) of (left, m) \<Rightarrow>
      let k = k\<lparr>lists := m\<rparr>;
          k = (if left = 0
               then k\<lparr>uxTopReadyPriority := portRESET_READY_PRIORITY (uxPriority k (pxCurrentTCB k)) (uxTopReadyPriority k)\<rparr> else k) in
      if xTicksToWait = portMAX_DELAY \<and> xCanBlockIndefinitely
      then Some (k\<lparr>lists := vListInsertEnd (xSuspendedTaskList P) x (lists k)\<rparr>)
      else
        let xTimeToWake = xTickCount k + xTicksToWait;
            k = k\<lparr>lists := set_item x (xItemValue_update (\<lambda>_. xTimeToWake)) (lists k)\<rparr> in
        if xTimeToWake < xTickCount k
        then map_option (\<lambda>m. k\<lparr>lists := m\<rparr>) (vListInsert (pxOverflowDelayedTaskList k) x (lists k))
        else map_option (\<lambda>m. k\<lparr>lists := m,
               xNextTaskUnblockTime := if xTimeToWake < xNextTaskUnblockTime k then xTimeToWake else xNextTaskUnblockTime k\<rparr>)
             (vListInsert (pxDelayedTaskList k) x (lists k)))"

definition vTaskPlaceOnEventList_TCB :: "kernel_places \<Rightarrow> u32 \<Rightarrow> u32 \<Rightarrow> kernel \<Rightarrow> kernel option" where
  "vTaskPlaceOnEventList_TCB P pxEventList xTicksToWait k =
     (if pxEventList = 0 then None
      else case vListInsert pxEventList (xEventListItem (pxCurrentTCB k)) (lists k) of
        None \<Rightarrow> None
      | Some m \<Rightarrow> prvAddCurrentTaskToDelayedList P xTicksToWait True (k\<lparr>lists := m\<rparr>))"

section \<open>Waking\<close>

text \<open>The result says whether the woken task has a higher priority than the running one.\<close>

definition xTaskRemoveFromEventList :: "kernel_places \<Rightarrow> u32 \<Rightarrow> kernel \<Rightarrow> (bool \<times> kernel) option" where
  "xTaskRemoveFromEventList P pxEventList k =
     (let t = listGET_OWNER_OF_HEAD_ENTRY pxEventList (lists k) in
      if t = 0 then None
      else
        let k = k\<lparr>lists := snd (uxListRemove (xEventListItem t) (lists k))\<rparr>;
            k = (if uxSchedulerSuspended k = 0
                 then let k = k\<lparr>lists := snd (uxListRemove (xStateListItem t) (lists k))\<rparr> in prvAddTaskToReadyList P t k
                 else k\<lparr>lists := vListInsertEnd (xPendingReadyList P) (xEventListItem t) (lists k)\<rparr>)
        in Some (if uxPriority k t > uxPriority k (pxCurrentTCB k) then (True, k\<lparr>xYieldPending := True\<rparr>) else (False, k)))"

text \<open>The notification of an interrupt, as far as it wakes its task; a task on an event list fails an assertion.\<close>

definition wake_notified :: "kernel_places \<Rightarrow> u32 \<Rightarrow> kernel \<Rightarrow> kernel option" where
  "wake_notified P t k =
     (if pxContainer (list_item (lists k) (xEventListItem t)) \<noteq> 0 then None
      else
        let k = (if uxSchedulerSuspended k = 0
                 then let k = k\<lparr>lists := snd (uxListRemove (xStateListItem t) (lists k))\<rparr> in prvAddTaskToReadyList P t k
                 else k\<lparr>lists := vListInsertEnd (xPendingReadyList P) (xEventListItem t) (lists k)\<rparr>)
        in Some (if uxPriority k t > uxPriority k (pxCurrentTCB k) then k\<lparr>xYieldPending := True\<rparr> else k))"

section \<open>The tick\<close>

definition prvResetNextTaskUnblockTime :: "kernel \<Rightarrow> kernel" where
  "prvResetNextTaskUnblockTime k =
     k\<lparr>xNextTaskUnblockTime := if listLIST_IS_EMPTY (pxDelayedTaskList k) (lists k) then portMAX_DELAY
                               else listGET_ITEM_VALUE_OF_HEAD_ENTRY (pxDelayedTaskList k) (lists k)\<rparr>"

definition taskSWITCH_DELAYED_LISTS :: "kernel \<Rightarrow> kernel option" where
  "taskSWITCH_DELAYED_LISTS k =
     (if \<not> listLIST_IS_EMPTY (pxDelayedTaskList k) (lists k) then None
      else Some (prvResetNextTaskUnblockTime
        (k\<lparr>pxDelayedTaskList := pxOverflowDelayedTaskList k, pxOverflowDelayedTaskList := pxDelayedTaskList k,
           xNumOfOverflows := xNumOfOverflows k + 1\<rparr>)))"

text \<open>The loop that wakes the tasks whose time has come.\<close>

partial_function (option) unblock_loop :: "kernel_places \<Rightarrow> kernel \<Rightarrow> kernel option" where
  "unblock_loop P k =
     (if listLIST_IS_EMPTY (pxDelayedTaskList k) (lists k) then Some (k\<lparr>xNextTaskUnblockTime := portMAX_DELAY\<rparr>)
      else
        let t = listGET_OWNER_OF_HEAD_ENTRY (pxDelayedTaskList k) (lists k);
            v = xItemValue (list_item (lists k) (xStateListItem t)) in
        if xTickCount k < v then Some (k\<lparr>xNextTaskUnblockTime := v\<rparr>)
        else
          let m = snd (uxListRemove (xStateListItem t) (lists k));
              m = (if pxContainer (list_item m (xEventListItem t)) \<noteq> 0 then snd (uxListRemove (xEventListItem t) m) else m)
          in unblock_loop P (prvAddTaskToReadyList P t (k\<lparr>lists := m\<rparr>)))"

text \<open>Without preemption a tick never asks for a switch.\<close>

definition xTaskIncrementTick :: "kernel_places \<Rightarrow> kernel \<Rightarrow> (bool \<times> kernel) option" where
  "xTaskIncrementTick P k =
     (if uxSchedulerSuspended k = 0 then
        let xConstTickCount = xTickCount k + 1 in
        case (if xConstTickCount = 0 then taskSWITCH_DELAYED_LISTS (k\<lparr>xTickCount := xConstTickCount\<rparr>)
              else Some (k\<lparr>xTickCount := xConstTickCount\<rparr>)) of
          None \<Rightarrow> None
        | Some k \<Rightarrow> map_option (\<lambda>k. (False, k))
            (if xConstTickCount \<ge> xNextTaskUnblockTime k then unblock_loop P k else Some k)
      else Some (False, k\<lparr>xPendedTicks := xPendedTicks k + 1\<rparr>))"

section \<open>Suspending the scheduler\<close>

definition vTaskSuspendAll :: "kernel \<Rightarrow> kernel" where
  "vTaskSuspendAll k = k\<lparr>uxSchedulerSuspended := uxSchedulerSuspended k + 1\<rparr>"

text \<open>The loop over the tasks that became ready meanwhile; whether there was one.\<close>

partial_function (option) pending_loop :: "kernel_places \<Rightarrow> bool \<Rightarrow> kernel \<Rightarrow> (bool \<times> kernel) option" where
  "pending_loop P moved k =
     (if listLIST_IS_EMPTY (xPendingReadyList P) (lists k) then Some (moved, k)
      else
        let t = listGET_OWNER_OF_HEAD_ENTRY (xPendingReadyList P) (lists k);
            m = snd (uxListRemove (xStateListItem t) (snd (uxListRemove (xEventListItem t) (lists k))));
            k = prvAddTaskToReadyList P t (k\<lparr>lists := m\<rparr>);
            k = (if uxPriority k t > uxPriority k (pxCurrentTCB k) then k\<lparr>xYieldPending := True\<rparr> else k)
        in pending_loop P True k)"

fun pended_ticks :: "kernel_places \<Rightarrow> nat \<Rightarrow> kernel \<Rightarrow> kernel option" where
  "pended_ticks P 0 k = Some k"
| "pended_ticks P (Suc n) k =
     (case xTaskIncrementTick P k of
        None \<Rightarrow> None
      | Some (yield, k) \<Rightarrow> pended_ticks P n (if yield then k\<lparr>xYieldPending := True\<rparr> else k))"

text \<open>Without preemption no yield follows: the result is always false.\<close>

definition xTaskResumeAll :: "kernel_places \<Rightarrow> kernel \<Rightarrow> (bool \<times> kernel) option" where
  "xTaskResumeAll P k =
     (if uxSchedulerSuspended k = 0 then None
      else
        let k = k\<lparr>uxSchedulerSuspended := uxSchedulerSuspended k - 1\<rparr> in
        if uxSchedulerSuspended k \<noteq> 0 then Some (False, k)
        else if \<not> uxCurrentNumberOfTasks k > 0 then Some (False, k)
        else case pending_loop P False k of
          None \<Rightarrow> None
        | Some (moved, k) \<Rightarrow>
            let k = (if moved then prvResetNextTaskUnblockTime k else k) in
            map_option (\<lambda>k'. (False, if xPendedTicks k > 0 then k'\<lparr>xPendedTicks := 0\<rparr> else k'))
              (pended_ticks P (unat (xPendedTicks k)) k))"

section \<open>Creating tasks and starting\<close>

definition prvInitialiseTaskLists :: "kernel_places \<Rightarrow> kernel \<Rightarrow> kernel" where
  "prvInitialiseTaskLists P k =
     (let m = fold (\<lambda>uxPriority. vListInitialise (pxReadyTasksLists P uxPriority)) [0..<configMAX_PRIORITIES] (lists k);
          m = vListInitialise (xDelayedTaskList1 P) m;
          m = vListInitialise (xDelayedTaskList2 P) m;
          m = vListInitialise (xPendingReadyList P) m;
          m = vListInitialise (xTasksWaitingTermination P) m;
          m = vListInitialise (xSuspendedTaskList P) m
      in k\<lparr>lists := m, pxDelayedTaskList := xDelayedTaskList1 P, pxOverflowDelayedTaskList := xDelayedTaskList2 P\<rparr>)"

text \<open>The part that the scheduler sees: the priority and the two items. A priority that is too high fails an assertion.\<close>

definition initialise_task_items :: "nat \<Rightarrow> u32 \<Rightarrow> kernel \<Rightarrow> kernel" where
  "initialise_task_items prio pxNewTCB k =
     (let prio = (if prio \<ge> configMAX_PRIORITIES then configMAX_PRIORITIES - 1 else prio);
          k = k\<lparr>uxPriority := (uxPriority k)(pxNewTCB := prio)\<rparr>;
          m = vListInitialiseItem (xStateListItem pxNewTCB) (lists k);
          m = vListInitialiseItem (xEventListItem pxNewTCB) m;
          m = set_item (xStateListItem pxNewTCB) (pvOwner_update (\<lambda>_. pxNewTCB)) m;
          m = set_item (xEventListItem pxNewTCB) (xItemValue_update (\<lambda>_. of_nat configMAX_PRIORITIES - of_nat prio)) m;
          m = set_item (xEventListItem pxNewTCB) (pvOwner_update (\<lambda>_. pxNewTCB)) m
      in k\<lparr>lists := m\<rparr>)"

definition prvInitialiseNewTask :: "nat \<Rightarrow> u32 \<Rightarrow> kernel \<Rightarrow> kernel option" where
  "prvInitialiseNewTask prio pxNewTCB k =
     (if \<not> prio < configMAX_PRIORITIES then None else Some (initialise_task_items prio pxNewTCB k))"

definition prvAddNewTaskToReadyList :: "kernel_places \<Rightarrow> u32 \<Rightarrow> kernel \<Rightarrow> kernel" where
  "prvAddNewTaskToReadyList P pxNewTCB k =
     (let k = k\<lparr>uxCurrentNumberOfTasks := uxCurrentNumberOfTasks k + 1\<rparr>;
          k = (if pxCurrentTCB k = 0
               then let k = k\<lparr>pxCurrentTCB := pxNewTCB\<rparr>
                    in if uxCurrentNumberOfTasks k = 1 then prvInitialiseTaskLists P k else k
               else if \<not> xSchedulerRunning k \<and> uxPriority k (pxCurrentTCB k) \<le> uxPriority k pxNewTCB
               then k\<lparr>pxCurrentTCB := pxNewTCB\<rparr> else k)
      in prvAddTaskToReadyList P pxNewTCB k)"

text \<open>The idle task has static memory, so its creation does not fail.\<close>

definition vTaskStartScheduler :: "kernel_places \<Rightarrow> u32 \<Rightarrow> kernel \<Rightarrow> kernel option" where
  "vTaskStartScheduler P idle k =
     map_option (\<lambda>k. (prvAddNewTaskToReadyList P idle k)
         \<lparr>xNextTaskUnblockTime := portMAX_DELAY, xSchedulerRunning := True, xTickCount := 0\<rparr>)
       (prvInitialiseNewTask 0 idle k)"

end
