(* ===== verification/Rtos_Sched_Inv.thy ===== *)
theory Rtos_Sched_Inv
  imports Rtos_Sched
begin

text \<open>
  The invariant of the scheduler's lists and its preservation: every list is whole, each task is in at most one list of each kind, the
  ready list of a priority holds tasks of that priority, the bit map shows the ready lists that are not empty, and the timed and
  the event lists are sorted.
\<close>

section \<open>The bit map\<close>

lemma bit_record: "bit (portRECORD_READY_PRIORITY p w) i \<longleftrightarrow> bit w i \<or> (i = p \<and> p < 32)"
  by (auto simp: portRECORD_READY_PRIORITY_def bit_or_iff bit_push_bit_iff bit_1_iff simp del: push_bit_of_1)

lemma bit_reset: "bit (portRESET_READY_PRIORITY p w) i \<longleftrightarrow> bit w i \<and> i \<noteq> p"
  by (auto simp: portRESET_READY_PRIORITY_def bit_and_iff bit_not_iff bit_push_bit_iff bit_1_iff dest: bit_imp_le_length
      simp del: push_bit_of_1)

lemma highest_priority:
  assumes "bit w p" "\<And>i. bit w i \<Longrightarrow> i \<le> p"
  shows "portGET_HIGHEST_PRIORITY w = of_nat p" "unat (portGET_HIGHEST_PRIORITY w) = p"
proof -
  have p: "p < 32" using bit_imp_le_length [OF assms(1)] by simp
  have split: "[0..<32] = [0..<31 - p] @ (31 - p) # [32 - p..<32]"
    using p upt_add_eq_append [of 0 "31 - p" "Suc p"] upt_conv_Cons [of "31 - p" 32] by (simp add: Suc_diff_le [symmetric])
  have "takeWhile (\<lambda>i. \<not> bit w (31 - i)) [0..<32] = [0..<31 - p]"
    unfolding split
  proof (subst takeWhile_append2)
    fix i assume "i \<in> set [0..<31 - p]"
    then have "p < 31 - i" by auto
    then show "\<not> bit w (31 - i)" using assms(2) [of "31 - i"] by linarith
  qed (use assms(1) p in simp)
  then have clz: "ucPortCountLeadingZeros w = 31 - p" by (simp add: ucPortCountLeadingZeros_def)
  have "(31 :: u32) - of_nat (31 - p) = of_nat p"
    using p by (simp add: of_nat_diff)
  then show 1: "portGET_HIGHEST_PRIORITY w = of_nat p" by (simp add: portGET_HIGHEST_PRIORITY_def clz)
  then show "unat (portGET_HIGHEST_PRIORITY w) = p" using p by (simp add: unsigned_of_nat take_bit_nat_eq_self)
qed

section \<open>The invariant\<close>

definition state_lists :: "kernel_places \<Rightarrow> u32 list" where
  "state_lists P = map (pxReadyTasksLists P) [0..<5] @ [xDelayedTaskList1 P, xDelayedTaskList2 P, xSuspendedTaskList P, xTasksWaitingTermination P]"

definition places_fit :: "kernel_places \<Rightarrow> (u32 \<rightharpoonup> u32 list) \<Rightarrow> bool" where
  "places_fit P C \<longleftrightarrow> distinct (xPendingReadyList P # state_lists P) \<and> set (xPendingReadyList P # state_lists P) \<subseteq> dom C \<and> 0 \<notin> dom C"

text \<open>The tasks: their blocks do not overlap, and their items name them; an event item carries the priority, reversed.\<close>

definition tasks_fit :: "u32 set \<Rightarrow> kernel \<Rightarrow> bool" where
  "tasks_fit ts k \<longleftrightarrow>
     (\<forall>t \<in> ts. t \<noteq> 0 \<and> uxPriority k t < 5 \<and> pvOwner (list_item (lists k) (xStateListItem t)) = t \<and>
        pvOwner (list_item (lists k) (xEventListItem t)) = t \<and>
        xItemValue (list_item (lists k) (xEventListItem t)) = of_nat (5 - uxPriority k t)) \<and>
     xStateListItem ` ts \<inter> xEventListItem ` ts = {}"

definition items_of :: "kernel_places \<Rightarrow> u32 set \<Rightarrow> kernel \<Rightarrow> u32 \<Rightarrow> u32 set" where
  "items_of P ts k l =
     (if l \<in> set (state_lists P)
      then xStateListItem ` {t \<in> ts. \<forall>p < 5. l = pxReadyTasksLists P p \<longrightarrow> uxPriority k t = p}
      else xEventListItem ` ts)"

definition sorted_list :: "kernel_places \<Rightarrow> u32 \<Rightarrow> bool" where
  "sorted_list P l \<longleftrightarrow> l = xDelayedTaskList1 P \<or> l = xDelayedTaskList2 P \<or> l \<notin> set (xPendingReadyList P # state_lists P)"

definition lists_ok :: "kernel_places \<Rightarrow> u32 set \<Rightarrow> (u32 \<rightharpoonup> u32 list) \<Rightarrow> kernel \<Rightarrow> bool" where
  "lists_ok P ts C k \<longleftrightarrow>
     lists_are (lists k) C \<and> places_fit P C \<and> tasks_fit ts k \<and>
     (\<forall>t \<in> ts. pxContainer (list_item (lists k) (xEventListItem t)) \<noteq> 0 \<longrightarrow> \<not> in_no_list C (xEventListItem t)) \<and>
     (\<forall>l xs. C l = Some xs \<longrightarrow> set xs \<subseteq> items_of P ts k l) \<and>
     (\<forall>l xs. C l = Some xs \<longrightarrow> sorted_list P l \<longrightarrow> sorted (map (\<lambda>x. xItemValue (list_item (lists k) x)) xs)) \<and>
     {pxDelayedTaskList k, pxOverflowDelayedTaskList k} = {xDelayedTaskList1 P, xDelayedTaskList2 P}"

definition ready :: "kernel_places \<Rightarrow> (u32 \<rightharpoonup> u32 list) \<Rightarrow> nat \<Rightarrow> u32 list" where
  "ready P C p = the (C (pxReadyTasksLists P p))"

definition bits_ok :: "kernel_places \<Rightarrow> (u32 \<rightharpoonup> u32 list) \<Rightarrow> u32 \<Rightarrow> bool" where
  "bits_ok P C w \<longleftrightarrow> (\<forall>p. bit w p \<longleftrightarrow> p < 5 \<and> ready P C p \<noteq> [])"

text \<open>Every task is in one of the lists that show its state.\<close>

definition homes_ok :: "kernel_places \<Rightarrow> u32 set \<Rightarrow> (u32 \<rightharpoonup> u32 list) \<Rightarrow> bool" where
  "homes_ok P ts C \<longleftrightarrow> (\<forall>t \<in> ts. \<exists>l xs. l \<in> set (state_lists P) \<and> C l = Some xs \<and> xStateListItem t \<in> set xs)"

definition kernel_ok :: "kernel_places \<Rightarrow> u32 set \<Rightarrow> (u32 \<rightharpoonup> u32 list) \<Rightarrow> kernel \<Rightarrow> bool" where
  "kernel_ok P ts C k \<longleftrightarrow> lists_ok P ts C k \<and> bits_ok P C (uxTopReadyPriority k) \<and> homes_ok P ts C"

section \<open>Facts of the layout\<close>

lemma lists_okD:
  assumes "lists_ok P ts C k"
  shows "lists_are (lists k) C" "places_fit P C" "tasks_fit ts k" "C l = Some xs \<Longrightarrow> set xs \<subseteq> items_of P ts k l"
    "C l = Some xs \<Longrightarrow> sorted_list P l \<Longrightarrow> sorted (map (\<lambda>x. xItemValue (list_item (lists k) x)) xs)"
    "{pxDelayedTaskList k, pxOverflowDelayedTaskList k} = {xDelayedTaskList1 P, xDelayedTaskList2 P}"
    "t \<in> ts \<Longrightarrow> in_no_list C (xEventListItem t) \<Longrightarrow> pxContainer (list_item (lists k) (xEventListItem t)) = 0"
  using assms by (auto simp: lists_ok_def)

lemma places:
  assumes "places_fit P C"
  shows "p < 5 \<Longrightarrow> q < 5 \<Longrightarrow> pxReadyTasksLists P p = pxReadyTasksLists P q \<longleftrightarrow> p = q"
    "p < 5 \<Longrightarrow> pxReadyTasksLists P p \<noteq> xDelayedTaskList1 P" "p < 5 \<Longrightarrow> pxReadyTasksLists P p \<noteq> xDelayedTaskList2 P"
    "p < 5 \<Longrightarrow> pxReadyTasksLists P p \<noteq> xSuspendedTaskList P" "p < 5 \<Longrightarrow> pxReadyTasksLists P p \<noteq> xPendingReadyList P"
    "p < 5 \<Longrightarrow> pxReadyTasksLists P p \<in> set (state_lists P)"
    "xDelayedTaskList1 P \<noteq> xDelayedTaskList2 P" "xDelayedTaskList1 P \<noteq> xSuspendedTaskList P" "xDelayedTaskList2 P \<noteq> xSuspendedTaskList P"
    "p < 5 \<Longrightarrow> C (pxReadyTasksLists P p) = Some (ready P C p)"
    "\<exists>xs. C (xDelayedTaskList1 P) = Some xs" "\<exists>xs. C (xDelayedTaskList2 P) = Some xs" "\<exists>xs. C (xSuspendedTaskList P) = Some xs"
    "\<exists>xs. C (xPendingReadyList P) = Some xs" "xPendingReadyList P \<notin> set (state_lists P)" "C l = Some xs \<Longrightarrow> l \<noteq> 0"
proof -
  have d: "distinct (xPendingReadyList P # map (pxReadyTasksLists P) [0..<5] @
      [xDelayedTaskList1 P, xDelayedTaskList2 P, xSuspendedTaskList P, xTasksWaitingTermination P])"
    using assms by (simp add: places_fit_def state_lists_def)
  have "x \<notin> {xDelayedTaskList1 P, xDelayedTaskList2 P, xSuspendedTaskList P, xPendingReadyList P}"
    if "x \<in> pxReadyTasksLists P ` {0..<5}" for x using d that by (simp del: upt_rec_numeral image_iff) blast
  then have r: "pxReadyTasksLists P p \<notin> {xDelayedTaskList1 P, xDelayedTaskList2 P, xSuspendedTaskList P, xPendingReadyList P}"
    if "p < 5" for p using that by simp
  show "p < 5 \<Longrightarrow> q < 5 \<Longrightarrow> pxReadyTasksLists P p = pxReadyTasksLists P q \<longleftrightarrow> p = q"
    using d by (auto simp: distinct_map inj_on_def simp del: upt_rec_numeral)
  show "p < 5 \<Longrightarrow> pxReadyTasksLists P p \<noteq> xDelayedTaskList1 P" "p < 5 \<Longrightarrow> pxReadyTasksLists P p \<noteq> xDelayedTaskList2 P"
    "p < 5 \<Longrightarrow> pxReadyTasksLists P p \<noteq> xSuspendedTaskList P" "p < 5 \<Longrightarrow> pxReadyTasksLists P p \<noteq> xPendingReadyList P"
    "xDelayedTaskList1 P \<noteq> xDelayedTaskList2 P" "xDelayedTaskList1 P \<noteq> xSuspendedTaskList P" "xDelayedTaskList2 P \<noteq> xSuspendedTaskList P"
    using d r [of p] by (simp_all del: upt_rec_numeral)
  show ready_in: "p < 5 \<Longrightarrow> pxReadyTasksLists P p \<in> set (state_lists P)" by (simp add: state_lists_def del: upt_rec_numeral)
  have dom: "set (xPendingReadyList P # state_lists P) \<subseteq> dom C" using assms by (simp add: places_fit_def)
  show "p < 5 \<Longrightarrow> C (pxReadyTasksLists P p) = Some (ready P C p)" using ready_in dom by (auto simp: ready_def)
  show "\<exists>xs. C (xDelayedTaskList1 P) = Some xs" "\<exists>xs. C (xDelayedTaskList2 P) = Some xs" "\<exists>xs. C (xSuspendedTaskList P) = Some xs"
    "\<exists>xs. C (xPendingReadyList P) = Some xs"
    using dom by (auto simp: state_lists_def simp del: upt_rec_numeral)
  show "xPendingReadyList P \<notin> set (state_lists P)" using assms by (simp add: places_fit_def)
  show "C l = Some xs \<Longrightarrow> l \<noteq> 0" using assms by (auto simp: places_fit_def)
qed

lemma item_inj:
  "xStateListItem t = xStateListItem u \<longleftrightarrow> t = u" "xEventListItem t = xEventListItem u \<longleftrightarrow> t = u"
  by (simp_all add: xStateListItem_def xEventListItem_def)

lemma tasks_fitD:
  assumes "tasks_fit ts k" "t \<in> ts"
  shows "t \<noteq> 0" "uxPriority k t < 5" "pvOwner (list_item (lists k) (xStateListItem t)) = t"
    "pvOwner (list_item (lists k) (xEventListItem t)) = t"
    "xItemValue (list_item (lists k) (xEventListItem t)) = of_nat (5 - uxPriority k t)"
    "u \<in> ts \<Longrightarrow> xStateListItem t \<noteq> xEventListItem u"
  using assms by (auto simp: tasks_fit_def)

section \<open>Single list operations\<close>

text \<open>One list changes; owners and priorities stay, and so do the values of items that are in a list.\<close>

lemma lists_ok_update:
  assumes "lists_ok P ts C k" "C l = Some xs" "lists_are (lists k') (C(l \<mapsto> ys))"
    and "uxPriority k' = uxPriority k" "\<And>x. pvOwner (list_item (lists k') x) = pvOwner (list_item (lists k) x)"
    and "\<And>x. xItemValue (list_item (lists k') x) = xItemValue (list_item (lists k) x)"
    and "\<And>y. y \<noteq> x \<Longrightarrow> pxContainer (list_item (lists k') y) = pxContainer (list_item (lists k) y)"
    and "set xs - {x} \<subseteq> set ys" "x \<in> set ys \<or> pxContainer (list_item (lists k') x) = 0"
    and "set ys \<subseteq> items_of P ts k l" "sorted_list P l \<Longrightarrow> sorted (map (\<lambda>x. xItemValue (list_item (lists k) x)) ys)"
    and "pxDelayedTaskList k' = pxDelayedTaskList k" "pxOverflowDelayedTaskList k' = pxOverflowDelayedTaskList k"
  shows "lists_ok P ts (C(l \<mapsto> ys)) k'"
proof -
  note D = lists_okD [OF assms(1)]
  have items: "items_of P ts k' = items_of P ts k" by (simp add: items_of_def assms(4) fun_eq_iff)
  have "places_fit P (C(l \<mapsto> ys))" using D(2) assms(2) by (auto simp: places_fit_def)
  moreover have "tasks_fit ts k'" using D(3) by (simp add: tasks_fit_def assms(4-6))
  moreover have "\<not> in_no_list (C(l \<mapsto> ys)) y"
    if "y \<in> xEventListItem ` ts" "pxContainer (list_item (lists k') y) \<noteq> 0" for y
  proof (cases "y = x")
    case True
    then show ?thesis using assms(9) that(2) by (auto simp: in_no_list_def)
  next
    case False
    then have "\<not> in_no_list C y" using that assms(7) [OF False] assms(1) by (auto simp: lists_ok_def)
    then obtain l' zs where "C l' = Some zs" "y = xListEnd l' \<or> y \<in> set zs" by (auto simp: in_no_list_def)
    then have "y = xListEnd l' \<or> y \<in> set (the ((C(l \<mapsto> ys)) l'))" "l' \<in> dom (C(l \<mapsto> ys))"
      using False assms(2,8) by (auto split: if_splits)
    then show ?thesis by (auto simp: in_no_list_def split: if_splits)
  qed
  ultimately show ?thesis
    using assms(3,10,11) D(4-6) assms(12,13) unfolding lists_ok_def items by (auto simp: assms(6))
qed

lemma lists_ok_remove:
  assumes "lists_ok P ts C k" "C l = Some xs" "x \<in> set xs"
  shows "lists_ok P ts (C(l \<mapsto> remove1 x xs)) (k\<lparr>lists := snd (uxListRemove x (lists k))\<rparr>)"
    "in_no_list (C(l \<mapsto> remove1 x xs)) x"
proof -
  note D = lists_okD [OF assms(1)]
  have rest: "set xs - {x} \<subseteq> set (remove1 x xs)" by (metis DiffE in_set_remove1 insertI1 subsetI)
  show "lists_ok P ts (C(l \<mapsto> remove1 x xs)) (k\<lparr>lists := snd (uxListRemove x (lists k))\<rparr>)"
    by (rule lists_ok_update [OF assms(1,2), where x = x])
      (use uxListRemove_lists(1) [OF D(1) assms(2,3)] D(4) [OF assms(2)] D(5) [OF assms(2)]
        set_remove1_subset [of x xs] rest in \<open>auto simp: sorted_map_remove1\<close>)
  show "in_no_list (C(l \<mapsto> remove1 x xs)) x" by (rule uxListRemove_lists(2) [OF D(1) assms(2,3)])
qed

lemma set_insert_before: "set (insert_before i x xs) = insert x (set xs)"
proof -
  have "set (takeWhile (\<lambda>y. y \<noteq> i) xs) \<union> set (dropWhile (\<lambda>y. y \<noteq> i) xs) = set xs"
    by (metis set_append takeWhile_dropWhile_id)
  then show ?thesis unfolding insert_before_def by auto
qed

lemma lists_ok_insert_end:
  assumes "lists_ok P ts C k" "C l = Some xs" "in_no_list C x" "x \<in> items_of P ts k l" "\<not> sorted_list P l"
  shows "lists_ok P ts (C(l \<mapsto> insert_before (pxIndex (list_head (lists k) l)) x xs)) (k\<lparr>lists := vListInsertEnd l x (lists k)\<rparr>)"
proof -
  note D = lists_okD [OF assms(1)]
  show ?thesis
    by (rule lists_ok_update [OF assms(1,2), where x = x])
      (use vListInsertEnd_lists [OF D(1) assms(2,3)] D(4) [OF assms(2)] assms(4,5) in \<open>auto simp: set_insert_before\<close>)
qed

lemma lists_ok_insert:
  assumes "lists_ok P ts C k" "C l = Some xs" "in_no_list C x" "x \<in> items_of P ts k l"
  obtains m' where "vListInsert l x (lists k) = Some m'" "lists_ok P ts (C(l \<mapsto> insert_value (lists k) x xs)) (k\<lparr>lists := m'\<rparr>)"
proof -
  note D = lists_okD [OF assms(1)]
  obtain m' where m': "vListInsert l x (lists k) = Some m'" "lists_are m' (C(l \<mapsto> insert_value (lists k) x xs))"
    "\<And>y. pvOwner (list_item m' y) = pvOwner (list_item (lists k) y)" "\<And>y. xItemValue (list_item m' y) = xItemValue (list_item (lists k) y)"
    "\<And>y. pxContainer (list_item m' y) = (if y = x then l else pxContainer (list_item (lists k) y))"
    by (rule vListInsert_lists [OF D(1) assms(2,3)]) blast
  have "lists_ok P ts (C(l \<mapsto> insert_value (lists k) x xs)) (k\<lparr>lists := m'\<rparr>)"
    by (rule lists_ok_update [OF assms(1,2), where x = x])
      (use m' D(4) [OF assms(2)] D(5) [OF assms(2)] assms(4) insert_value_props [where m = "lists k" and x = x and xs = xs] in auto)
  with that m'(1) show ?thesis by blast
qed

lemma lists_ok_set_value:
  assumes "lists_ok P ts C k" "in_no_list C x" "x \<notin> xEventListItem ` ts"
  shows "lists_ok P ts C (k\<lparr>lists := set_item x (xItemValue_update (\<lambda>_. v)) (lists k)\<rparr>)"
proof -
  note D = lists_okD [OF assms(1)]
  let ?m = "set_item x (xItemValue_update (\<lambda>_. v)) (lists k)"
  have out: "x \<notin> nodes l xs" if "C l = Some xs" for l xs using assms(2) that by (simp add: in_no_list_def)
  have "list_is ?m l xs" if "C l = Some xs" for l xs
    by (rule list_is_cong [OF lists_areD [OF D(1) that]]) (use out [OF that] in auto)
  then have "lists_are ?m C" using D(1) by (simp add: lists_are_def)
  moreover have "tasks_fit ts (k\<lparr>lists := ?m\<rparr>)" using D(3) assms(3) by (auto simp: tasks_fit_def)
  moreover have "sorted (map (\<lambda>y. xItemValue (list_item ?m y)) xs)" if "C l = Some xs" "sorted_list P l" for l xs
  proof -
    have "map (\<lambda>y. xItemValue (list_item ?m y)) xs = map (\<lambda>y. xItemValue (list_item (lists k) y)) xs"
      using out [OF that(1)] by auto
    then show ?thesis using D(5) [OF that] by (simp only:)
  qed
  moreover have "items_of P ts (k\<lparr>lists := ?m\<rparr>) = items_of P ts k" by (simp add: items_of_def fun_eq_iff)
  ultimately show ?thesis using D(2,4,6) assms(1) by (simp add: lists_ok_def del: store_simps) (auto simp: lists_ok_def)
qed

lemma lists_ok_cong:
  "lists k' = lists k \<Longrightarrow> uxPriority k' = uxPriority k \<Longrightarrow> pxDelayedTaskList k' = pxDelayedTaskList k \<Longrightarrow>
    pxOverflowDelayedTaskList k' = pxOverflowDelayedTaskList k \<Longrightarrow> lists_ok P ts C k' \<longleftrightarrow> lists_ok P ts C k"
  by (simp add: lists_ok_def tasks_fit_def items_of_def)

section \<open>Tasks and their items\<close>

lemma lists_length:
  assumes "lists_are m C" "C l = Some xs"
  shows "length xs < 2 ^ 32"
proof -
  have "distinct (xListEnd l # xs)" by (rule list_isD(1) [OF lists_areD [OF assms]])
  then have "Suc (length xs) = card (set (xListEnd l # xs))" by (metis distinct_card length_Cons)
  also have "\<dots> \<le> card (UNIV :: u32 set)" by (rule card_mono) simp_all
  finally show ?thesis by (simp add: card_word)
qed

lemma empty_list:
  assumes "lists_are m C" "C l = Some xs"
  shows "listLIST_IS_EMPTY l m \<longleftrightarrow> xs = []"
proof -
  have "(of_nat (length xs) :: u32) = 0 \<longleftrightarrow> length xs = 0"
    using lists_length [OF assms] by (simp add: word_unat_eq_iff unsigned_of_nat take_bit_nat_eq_self)
  then show ?thesis using list_isD(4) [OF lists_areD [OF assms]] by (simp add: listLIST_IS_EMPTY_def)
qed

lemma one_list:
  assumes "lists_are m C" "C l = Some xs" "C l' = Some ys" "x \<in> set xs" "x \<in> set ys"
  shows "l = l'"
  using assms unfolding lists_are_def by fastforce

lemma head_owner:
  assumes "lists_are m C" "C l = Some (x # xs)"
  shows "listGET_OWNER_OF_HEAD_ENTRY l m = pvOwner (list_item m x)"
  using list_is_gap(1) [of m l "[]" "x # xs"] lists_areD [OF assms] by (simp add: listGET_OWNER_OF_HEAD_ENTRY_def)

lemma ready_items:
  assumes "lists_ok P ts C k" "p < 5" "x \<in> set (ready P C p)"
  obtains t where "t \<in> ts" "x = xStateListItem t" "uxPriority k t = p"
proof -
  note L = places [OF lists_okD(2) [OF assms(1)]]
  have "x \<in> items_of P ts k (pxReadyTasksLists P p)" using lists_okD(4) [OF assms(1) L(10) [OF assms(2)]] assms(3) by blast
  then show ?thesis using that assms(2) L(6) by (auto simp: items_of_def)
qed

lemma ready_upd:
  assumes "places_fit P C" "p < 5"
  shows "ready P (C(pxReadyTasksLists P p \<mapsto> ys)) p = ys" "q < 5 \<Longrightarrow> q \<noteq> p \<Longrightarrow> ready P (C(pxReadyTasksLists P p \<mapsto> ys)) q = ready P C q"
    "l \<notin> pxReadyTasksLists P ` {..<5} \<Longrightarrow> q < 5 \<Longrightarrow> ready P (C(l \<mapsto> ys)) q = ready P C q"
  using places(1) [OF assms(1)] assms(2) by (auto simp: ready_def)

text \<open>A task on no list becomes ready.\<close>

lemma add_ready:
  assumes ok: "lists_ok P ts C k" and bits: "\<And>q. q \<noteq> uxPriority k t \<Longrightarrow> bit (uxTopReadyPriority k) q \<longleftrightarrow> q < 5 \<and> ready P C q \<noteq> []"
    and homes: "homes_ok P (ts - {t}) C" and t: "t \<in> ts" "in_no_list C (xStateListItem t)"
  obtains ys where "kernel_ok P ts (C(pxReadyTasksLists P (uxPriority k t) \<mapsto> ys)) (prvAddTaskToReadyList P t k)"
    "set ys = insert (xStateListItem t) (set (ready P C (uxPriority k t)))"
proof -
  note D = lists_okD [OF ok]
  note L = places [OF D(2)]
  let ?p = "uxPriority k t" and ?x = "xStateListItem t"
  let ?l = "pxReadyTasksLists P ?p"
  have p: "?p < 5" by (rule tasks_fitD(2) [OF D(3) t(1)])
  let ?ys = "insert_before (pxIndex (list_head (lists k) ?l)) ?x (ready P C ?p)"
  have "?x \<in> items_of P ts k ?l" using p t(1) L(1,6) by (auto simp: items_of_def)
  moreover have "\<not> sorted_list P ?l" using p L(2,3,6) by (simp add: sorted_list_def)
  ultimately have "lists_ok P ts (C(?l \<mapsto> ?ys)) (k\<lparr>lists := vListInsertEnd ?l ?x (lists k)\<rparr>)"
    by (rule lists_ok_insert_end [OF ok L(10) [OF p] t(2)])
  then have "lists_ok P ts (C(?l \<mapsto> ?ys)) (prvAddTaskToReadyList P t k)"
    by (subst lists_ok_cong [of _ "k\<lparr>lists := vListInsertEnd ?l ?x (lists k)\<rparr>"]) (simp_all add: prvAddTaskToReadyList_def)
  moreover have "bits_ok P (C(?l \<mapsto> ?ys)) (uxTopReadyPriority (prvAddTaskToReadyList P t k))"
    unfolding bits_ok_def
  proof
    fix q
    have "?ys \<noteq> []" by (simp add: insert_before_def)
    then show "bit (uxTopReadyPriority (prvAddTaskToReadyList P t k)) q \<longleftrightarrow> q < 5 \<and> ready P (C(?l \<mapsto> ?ys)) q \<noteq> []"
      using bits [of q] p ready_upd(1,2) [OF D(2) p, where ys = ?ys]
      by (cases "q = ?p") (auto simp: prvAddTaskToReadyList_def bit_record)
  qed
  moreover have "homes_ok P ts (C(?l \<mapsto> ?ys))"
    unfolding homes_ok_def
  proof
    fix u assume u: "u \<in> ts"
    show "\<exists>l xs. l \<in> set (state_lists P) \<and> (C(?l \<mapsto> ?ys)) l = Some xs \<and> xStateListItem u \<in> set xs"
    proof (cases "u = t")
      case True
      then show ?thesis using L(6) [OF p] by (intro exI [of _ ?l] exI [of _ ?ys]) (simp add: set_insert_before)
    next
      case False
      then obtain l xs where l: "l \<in> set (state_lists P)" "C l = Some xs" "xStateListItem u \<in> set xs"
        using homes u unfolding homes_ok_def by blast
      then show ?thesis using L(10) [OF p]
        by (cases "l = ?l") (auto intro!: exI [of _ l] simp: set_insert_before)
    qed
  qed
  ultimately show ?thesis using that [of ?ys] by (simp add: kernel_ok_def set_insert_before)
qed

section \<open>The choice of the next task\<close>

text \<open>The tasks that are ready at a priority, in the order of their turns.\<close>

definition ready_turns :: "kernel_places \<Rightarrow> (u32 \<rightharpoonup> u32 list) \<Rightarrow> kernel \<Rightarrow> nat \<Rightarrow> u32 list" where
  "ready_turns P C k p =
     map (\<lambda>x. pvOwner (list_item (lists k) x)) (list_turns (lists k) (pxReadyTasksLists P p) (ready P C p))"

lemma ready_turns_set:
  assumes "lists_ok P ts C k" "p < 5"
  shows "set (ready_turns P C k p) = {t \<in> ts. xStateListItem t \<in> set (ready P C p)}"
    "length (ready_turns P C k p) = length (ready P C p)"
proof -
  note D = lists_okD [OF assms(1)]
  note L = places [OF D(2)]
  have L0: "list_is (lists k) (pxReadyTasksLists P p) (ready P C p)" by (rule lists_areD [OF D(1) L(10) [OF assms(2)]])
  note S = set_list_turns [OF L0]
  show "length (ready_turns P C k p) = length (ready P C p)" using S by (simp add: ready_turns_def)
  show "set (ready_turns P C k p) = {t \<in> ts. xStateListItem t \<in> set (ready P C p)}"
  proof (intro set_eqI iffI)
    fix t assume "t \<in> set (ready_turns P C k p)"
    then obtain x where x: "x \<in> set (ready P C p)" "t = pvOwner (list_item (lists k) x)" using S by (auto simp: ready_turns_def)
    from x(1) obtain u where "u \<in> ts" "x = xStateListItem u" by (rule ready_items [OF assms])
    with x tasks_fitD(3) [OF D(3)] show "t \<in> {t \<in> ts. xStateListItem t \<in> set (ready P C p)}" by auto
  next
    fix t assume "t \<in> {t \<in> ts. xStateListItem t \<in> set (ready P C p)}"
    then have "t \<in> ts" "xStateListItem t \<in> set (list_turns (lists k) (pxReadyTasksLists P p) (ready P C p))" using S by simp_all
    with tasks_fitD(3) [OF D(3)] show "t \<in> set (ready_turns P C k p)"
      unfolding ready_turns_def by (metis (no_types, lifting) image_eqI list.set_map)
  qed
qed

lemma switch_result:
  assumes "kernel_ok P ts C k" "uxSchedulerSuspended k = 0" "p < 5" "ready P C p \<noteq> []"
    and "\<And>q. q < 5 \<Longrightarrow> ready P C q \<noteq> [] \<Longrightarrow> q \<le> p"
  obtains k' where "vTaskSwitchContext P k = Some (Ret k')" "kernel_ok P ts C k'" "pxCurrentTCB k' = hd (ready_turns P C k p)"
    "ready_turns P C k' p = rotate1 (ready_turns P C k p)" "uxSchedulerSuspended k' = 0" "\<not> xYieldPending k'"
    "\<And>q. q < 5 \<Longrightarrow> q \<noteq> p \<Longrightarrow> ready_turns P C k' q = ready_turns P C k q" "uxPriority k' = uxPriority k"
proof -
  have ok: "lists_ok P ts C k" and bits: "bits_ok P C (uxTopReadyPriority k)" using assms(1) by (simp_all add: kernel_ok_def)
  note D = lists_okD [OF ok]
  note L = places [OF D(2)]
  let ?l = "pxReadyTasksLists P p"
  have top: "unat (portGET_HIGHEST_PRIORITY (uxTopReadyPriority k)) = p"
    by (rule highest_priority(2)) (use bits assms(3-5) in \<open>auto simp: bits_ok_def\<close>)
  have C: "C ?l = Some (ready P C p)" by (rule L(10) [OF assms(3)])
  note T = list_next_turn [OF D(1) C assms(4)]
  define k' where "k' = k\<lparr>xYieldPending := False, pxCurrentTCB := fst (listGET_OWNER_OF_NEXT_ENTRY ?l (lists k)),
      lists := snd (listGET_OWNER_OF_NEXT_ENTRY ?l (lists k))\<rparr>"
  have run: "vTaskSwitchContext P k = Some (Ret k')"
    using top assms(2-4) empty_list [OF D(1) C]
    by (simp add: vTaskSwitchContext_def taskSELECT_HIGHEST_PRIORITY_TASK_def Let_def configMAX_PRIORITIES_def k'_def
        split: prod.split)
  have "tasks_fit ts k'" using D(3) by (simp add: tasks_fit_def k'_def)
  moreover have "items_of P ts k' = items_of P ts k" by (simp add: items_of_def k'_def fun_eq_iff)
  ultimately have "lists_ok P ts C k'" using ok T(2) by (simp add: lists_ok_def k'_def)
  then have "kernel_ok P ts C k'" using assms(1) by (simp add: kernel_ok_def k'_def)
  moreover have "list_turns (lists k) ?l (ready P C p) \<noteq> []"
    using set_list_turns [OF lists_areD [OF D(1) C]] assms(4) by (metis length_0_conv)
  then have "pxCurrentTCB k' = hd (ready_turns P C k p)" using T(1) by (simp add: k'_def ready_turns_def hd_map)
  moreover have "ready_turns P C k' p = rotate1 (ready_turns P C k p)" using T(3) by (simp add: k'_def ready_turns_def rotate1_map)
  moreover have "ready_turns P C k' q = ready_turns P C k q" if "q < 5" "q \<noteq> p" for q
    using T(4) [of "pxReadyTasksLists P q"] L(1) [OF that(1) assms(3)] that by (simp add: k'_def ready_turns_def list_turns_def)
  ultimately show ?thesis by (intro that [OF run]) (use assms(2) in \<open>simp_all add: k'_def\<close>)
qed

end
