(* ===== verification/Rtos_Sched_Steps.thy ===== *)
theory Rtos_Sched_Steps
  imports Rtos_Sched_Inv
begin

text \<open>
  Blocking, waking, the tick, and the resumption of the scheduler keep the invariant, and which task they move from which list to which.
\<close>

section \<open>Blocking\<close>

text \<open>The list a task is blocked on.\<close>

definition blocked_list :: "kernel_places \<Rightarrow> u32 \<Rightarrow> bool \<Rightarrow> kernel \<Rightarrow> u32" where
  "blocked_list P xTicksToWait xCanBlockIndefinitely k =
     (if xTicksToWait = portMAX_DELAY \<and> xCanBlockIndefinitely then xSuspendedTaskList P
      else if xTickCount k + xTicksToWait < xTickCount k then pxOverflowDelayedTaskList k else pxDelayedTaskList k)"

definition same_frame :: "kernel \<Rightarrow> kernel \<Rightarrow> bool" where
  "same_frame k k' \<longleftrightarrow> pxCurrentTCB k' = pxCurrentTCB k \<and> uxPriority k' = uxPriority k \<and> xTickCount k' = xTickCount k \<and>
     uxSchedulerSuspended k' = uxSchedulerSuspended k \<and> pxDelayedTaskList k' = pxDelayedTaskList k \<and>
     pxOverflowDelayedTaskList k' = pxOverflowDelayedTaskList k \<and> xPendedTicks k' = xPendedTicks k \<and>
     uxCurrentNumberOfTasks k' = uxCurrentNumberOfTasks k"

lemma items_of_state:
  assumes "l \<in> set (state_lists P)" "\<And>p. p < 5 \<Longrightarrow> pxReadyTasksLists P p \<noteq> l"
  shows "items_of P ts k l = xStateListItem ` ts"
proof -
  have "{t \<in> ts. \<forall>p < 5. l = pxReadyTasksLists P p \<longrightarrow> uxPriority k t = p} = ts" using assms(2) by fastforce
  then show ?thesis using assms(1) by (simp add: items_of_def)
qed

lemma delayed_lists:
  assumes "lists_ok P ts C k" "l = pxDelayedTaskList k \<or> l = pxOverflowDelayedTaskList k"
  shows "l = xDelayedTaskList1 P \<or> l = xDelayedTaskList2 P" "l \<in> set (state_lists P)" "p < 5 \<Longrightarrow> pxReadyTasksLists P p \<noteq> l"
    "\<exists>xs. C l = Some xs" "l \<noteq> xSuspendedTaskList P" "l \<noteq> xPendingReadyList P" "items_of P ts k l = xStateListItem ` ts"
proof -
  note L = places [OF lists_okD(2) [OF assms(1)]]
  show l: "l = xDelayedTaskList1 P \<or> l = xDelayedTaskList2 P" using lists_okD(6) [OF assms(1)] assms(2) by auto
  then show S: "l \<in> set (state_lists P)" by (auto simp: state_lists_def)
  show R: "p < 5 \<Longrightarrow> pxReadyTasksLists P p \<noteq> l" for p using l L(2,3) by metis
  show "\<exists>xs. C l = Some xs" "l \<noteq> xSuspendedTaskList P" using l L(8,9,11,12) by auto
  show "l \<noteq> xPendingReadyList P" using S L(15) by auto
  show "items_of P ts k l = xStateListItem ` ts" using S R by (rule items_of_state)
qed

lemma suspended_items:
  assumes "places_fit P C"
  shows "items_of P ts k (xSuspendedTaskList P) = xStateListItem ` ts" "\<not> sorted_list P (xSuspendedTaskList P)"
    "xSuspendedTaskList P \<in> set (state_lists P)"
proof -
  note L = places [OF assms]
  show S: "xSuspendedTaskList P \<in> set (state_lists P)" by (simp add: state_lists_def)
  show "items_of P ts k (xSuspendedTaskList P) = xStateListItem ` ts" using S L(4) by (rule items_of_state)
  show "\<not> sorted_list P (xSuspendedTaskList P)" using S L(8,9) by (auto simp: sorted_list_def)
qed

lemma homes_move:
  assumes "homes_ok P ts C" "C l = Some xs" "l' \<in> set (state_lists P)" "C' l' = Some ys" "x = xStateListItem t" "x \<in> set ys"
    and "\<And>m zs. m \<noteq> l \<Longrightarrow> m \<noteq> l' \<Longrightarrow> C m = Some zs \<Longrightarrow> C' m = Some zs"
    and "l \<noteq> l' \<Longrightarrow> C' l = Some (remove1 x xs)" "set (the (C l')) - {x} \<subseteq> set ys"
  shows "homes_ok P ts C'"
  unfolding homes_ok_def
proof
  fix u assume u: "u \<in> ts"
  show "\<exists>m zs. m \<in> set (state_lists P) \<and> C' m = Some zs \<and> xStateListItem u \<in> set zs"
  proof (cases "xStateListItem u = x")
    case True
    then show ?thesis using assms(3,4,6) by blast
  next
    case False
    from assms(1) u obtain m zs where m: "m \<in> set (state_lists P)" "C m = Some zs" "xStateListItem u \<in> set zs"
      unfolding homes_ok_def by blast
    consider "m = l'" | "m = l" "l \<noteq> l'" | "m \<noteq> l" "m \<noteq> l'" by blast
    then show ?thesis
    proof cases
      case 1
      then show ?thesis using assms(3,4,9) m False by auto
    next
      case 2
      then have "xStateListItem u \<in> set (remove1 x xs)" using m assms(2) False by simp
      with 2 m(1) assms(8) show ?thesis by auto
    next
      case 3
      with assms(7) m show ?thesis by blast
    qed
  qed
qed

lemma block_current:
  assumes "kernel_ok P ts C k" "pxCurrentTCB k = t" "t \<in> ts" "xStateListItem t \<in> set (ready P C (uxPriority k t))"
  obtains k' ys where "prvAddCurrentTaskToDelayedList P ticks forever k = Some k'"
    "kernel_ok P ts (C(pxReadyTasksLists P (uxPriority k t) \<mapsto> remove1 (xStateListItem t) (ready P C (uxPriority k t)),
        blocked_list P ticks forever k \<mapsto> ys)) k'"
    "set ys = insert (xStateListItem t) (set (the (C (blocked_list P ticks forever k))))" "same_frame k k'"
    "\<not> (ticks = portMAX_DELAY \<and> forever) \<Longrightarrow> xItemValue (list_item (lists k') (xStateListItem t)) = xTickCount k + ticks"
proof -
  have ok: "lists_ok P ts C k" and bits: "bits_ok P C (uxTopReadyPriority k)" and homes: "homes_ok P ts C"
    using assms(1) by (simp_all add: kernel_ok_def)
  note D = lists_okD [OF ok]
  note L = places [OF D(2)]
  let ?p = "uxPriority k t" and ?x = "xStateListItem t"
  let ?r = "pxReadyTasksLists P ?p" and ?d = "blocked_list P ticks forever k"
  have p: "?p < 5" by (rule tasks_fitD(2) [OF D(3) assms(3)])
  have C: "C ?r = Some (ready P C ?p)" by (rule L(10) [OF p])
  define left m where "left = fst (uxListRemove ?x (lists k))" and "m = snd (uxListRemove ?x (lists k))"
  let ?C1 = "C(?r \<mapsto> remove1 ?x (ready P C ?p))"
  have ok1: "lists_ok P ts ?C1 (k\<lparr>lists := m\<rparr>)" "in_no_list ?C1 ?x"
    unfolding m_def by (rule lists_ok_remove [OF ok C assms(4)])+
  have "left = of_nat (length (ready P C ?p) - 1)" unfolding left_def by (rule uxListRemove_lists(3) [OF D(1) C assms(4)])
  moreover have "length (ready P C ?p) < 2 ^ 32" by (rule lists_length [OF D(1) C])
  ultimately have left: "left = 0 \<longleftrightarrow> remove1 ?x (ready P C ?p) = []"
    using assms(4) by (auto simp: word_unat_eq_iff unsigned_of_nat take_bit_nat_eq_self length_remove1 simp flip: length_0_conv)
  define top where "top = (if left = 0 then portRESET_READY_PRIORITY ?p (uxTopReadyPriority k) else uxTopReadyPriority k)"
  define k1 where "k1 = k\<lparr>lists := m, uxTopReadyPriority := top\<rparr>"
  have bits1: "bits_ok P ?C1 top"
    unfolding bits_ok_def
  proof
    fix q show "bit top q \<longleftrightarrow> q < 5 \<and> ready P ?C1 q \<noteq> []"
      using bits p left ready_upd(1,2) [OF D(2) p, where ys = "remove1 ?x (ready P C ?p)"] assms(4)
      by (cases "q = ?p") (auto simp: bits_ok_def top_def bit_reset)
  qed
  have k1_ok: "lists_ok P ts ?C1 k1"
    using ok1(1) by (subst lists_ok_cong [of _ "k\<lparr>lists := m\<rparr>"]) (simp_all add: k1_def)
  have d: "?d \<in> set (state_lists P)" "\<And>q. q < 5 \<Longrightarrow> pxReadyTasksLists P q \<noteq> ?d" "C ?d \<noteq> None" "xStateListItem t \<in> items_of P ts k1 ?d"
    using suspended_items [OF D(2)] L(4,13) delayed_lists [OF ok, of ?d] assms(3)
    by (auto simp: blocked_list_def items_of_def k1_def)
  then obtain ds where ds: "C ?d = Some ds" by auto
  then have ds1: "?C1 ?d = Some ds" using d(2) [OF p] by auto
  have ready_same: "ready P (?C1(?d \<mapsto> ys)) q = ready P ?C1 q" if "q < 5" for q ys
    using d(2) [OF that] by (simp add: ready_def)
  have final: "kernel_ok P ts (?C1(?d \<mapsto> ys)) k'"
    if "lists_ok P ts (?C1(?d \<mapsto> ys)) k'" "uxTopReadyPriority k' = top" "set ys = insert ?x (set ds)" for ys k'
  proof -
    have "bits_ok P (?C1(?d \<mapsto> ys)) (uxTopReadyPriority k')"
      using bits1 ready_same that(2) by (auto simp: bits_ok_def)
    moreover have "homes_ok P ts (?C1(?d \<mapsto> ys))"
      by (rule homes_move [OF homes C d(1)]) (use d(2) [OF p] that(3) ds in auto)
    ultimately show ?thesis using that(1) by (simp add: kernel_ok_def)
  qed
  have run: "prvAddCurrentTaskToDelayedList P ticks forever k =
     (if ticks = portMAX_DELAY \<and> forever then Some (k1\<lparr>lists := vListInsertEnd (xSuspendedTaskList P) ?x (lists k1)\<rparr>)
      else
        let k2 = k1\<lparr>lists := set_item ?x (xItemValue_update (\<lambda>_. xTickCount k + ticks)) (lists k1)\<rparr> in
        if xTickCount k + ticks < xTickCount k
        then map_option (\<lambda>m. k2\<lparr>lists := m\<rparr>) (vListInsert (pxOverflowDelayedTaskList k) ?x (lists k2))
        else map_option (\<lambda>m. k2\<lparr>lists := m,
               xNextTaskUnblockTime := if xTickCount k + ticks < xNextTaskUnblockTime k2 then xTickCount k + ticks else xNextTaskUnblockTime k2\<rparr>)
             (vListInsert (pxDelayedTaskList k) ?x (lists k2)))"
    by (simp add: prvAddCurrentTaskToDelayedList_def assms(2) left_def m_def k1_def top_def Let_def split: prod.split)
  show ?thesis
  proof (cases "ticks = portMAX_DELAY \<and> forever")
    case True
    then have dest: "?d = xSuspendedTaskList P" by (simp add: blocked_list_def)
    let ?k' = "k1\<lparr>lists := vListInsertEnd ?d ?x (lists k1)\<rparr>"
    let ?ys = "insert_before (pxIndex (list_head (lists k1) ?d)) ?x ds"
    have "lists_ok P ts (?C1(?d \<mapsto> ?ys)) ?k'"
      by (rule lists_ok_insert_end [OF k1_ok ds1 ok1(2) d(4)]) (use dest suspended_items(2) [OF D(2)] in simp)
    then have "kernel_ok P ts (?C1(?d \<mapsto> ?ys)) ?k'" by (rule final) (simp_all add: k1_def set_insert_before)
    then show ?thesis
      by (rule that [rotated]) (use run True dest ds in \<open>simp_all add: set_insert_before same_frame_def k1_def\<close>)
  next
    case False
    let ?v = "xTickCount k + ticks"
    let ?k2 = "k1\<lparr>lists := set_item ?x (xItemValue_update (\<lambda>_. ?v)) (lists k1)\<rparr>"
    have "?x \<notin> xEventListItem ` ts" using D(3) assms(3) by (auto simp: tasks_fit_def)
    from lists_ok_set_value [OF k1_ok ok1(2) this] have k2_ok: "lists_ok P ts ?C1 ?k2" .
    have "?x \<in> items_of P ts ?k2 ?d" using assms(3) by (simp add: items_of_state [OF d(1,2)])
    then obtain m' where m': "vListInsert ?d ?x (lists ?k2) = Some m'"
      "lists_ok P ts (?C1(?d \<mapsto> insert_value (lists ?k2) ?x ds)) (?k2\<lparr>lists := m'\<rparr>)"
      by (rule lists_ok_insert [OF k2_ok ds1 ok1(2)])
    let ?ys = "insert_value (lists ?k2) ?x ds"
    obtain m'' where "vListInsert ?d ?x (lists ?k2) = Some m''"
      "\<And>y. xItemValue (list_item m'' y) = xItemValue (list_item (lists ?k2) y)"
      by (rule vListInsert_lists [OF lists_okD(1) [OF k2_ok] ds1 ok1(2)]) blast
    then have val: "xItemValue (list_item m' ?x) = ?v" using m'(1) by (simp add: k1_def)
    define k' where "k' = (if ?v < xTickCount k then ?k2\<lparr>lists := m'\<rparr> else
        ?k2\<lparr>lists := m', xNextTaskUnblockTime := if ?v < xNextTaskUnblockTime ?k2 then ?v else xNextTaskUnblockTime ?k2\<rparr>)"
    have "prvAddCurrentTaskToDelayedList P ticks forever k = Some k'"
      using run False m'(1) by (auto simp: k'_def blocked_list_def Let_def split: if_splits)
    moreover have "lists_ok P ts (?C1(?d \<mapsto> ?ys)) k'"
      using m'(2) by (subst lists_ok_cong [of _ "?k2\<lparr>lists := m'\<rparr>"]) (simp_all add: k'_def)
    then have "kernel_ok P ts (?C1(?d \<mapsto> ?ys)) k'"
      by (rule final) (simp_all add: k'_def k1_def insert_value_props)
    ultimately show ?thesis
      by (rule that) (use ds val in \<open>simp_all add: insert_value_props same_frame_def k'_def k1_def\<close>)
  qed
qed

section \<open>Waking\<close>

lemma state_item_of:
  assumes "lists_ok P ts C k" "l \<in> set (state_lists P)" "C l = Some xs" "xStateListItem t \<in> set xs" "p < 5" "l = pxReadyTasksLists P p"
  shows "t \<in> ts \<and> uxPriority k t = p"
  using lists_okD(4) [OF assms(1,3)] assms(2,4-6) by (auto simp: items_of_def item_inj)

lemma insert_remove1: "insert x (set (remove1 x xs)) = insert x (set xs)"
  by (induction xs) auto

text \<open>A task moves from wherever it is to the end of the turns of its priority.\<close>

lemma wake_task:
  assumes "kernel_ok P ts C k" "t \<in> ts"
  obtains l xs zs where "l \<in> set (state_lists P)" "C l = Some xs" "xStateListItem t \<in> set xs"
    "kernel_ok P ts (C(l \<mapsto> remove1 (xStateListItem t) xs, pxReadyTasksLists P (uxPriority k t) \<mapsto> zs))
       (prvAddTaskToReadyList P t (k\<lparr>lists := snd (uxListRemove (xStateListItem t) (lists k))\<rparr>))"
    "set zs = insert (xStateListItem t) (set (ready P C (uxPriority k t)))"
proof -
  have ok: "lists_ok P ts C k" and bits: "bits_ok P C (uxTopReadyPriority k)" and homes: "homes_ok P ts C"
    using assms(1) by (simp_all add: kernel_ok_def)
  note D = lists_okD [OF ok]
  let ?x = "xStateListItem t" and ?p = "uxPriority k t"
  obtain l xs where l: "l \<in> set (state_lists P)" "C l = Some xs" "?x \<in> set xs"
    using homes assms(2) unfolding homes_ok_def by blast
  let ?C1 = "C(l \<mapsto> remove1 ?x xs)" and ?k1 = "k\<lparr>lists := snd (uxListRemove ?x (lists k))\<rparr>"
  have ok1: "lists_ok P ts ?C1 ?k1" "in_no_list ?C1 ?x" by (rule lists_ok_remove [OF ok l(2,3)])+
  have other: "ready P ?C1 q = ready P C q" if "q < 5" "q \<noteq> ?p" for q
    using state_item_of [OF ok l that(1)] that(2) by (auto simp: ready_def)
  have homes1: "homes_ok P (ts - {t}) ?C1"
    unfolding homes_ok_def
  proof
    fix u assume u: "u \<in> ts - {t}"
    then obtain m zs where m: "m \<in> set (state_lists P)" "C m = Some zs" "xStateListItem u \<in> set zs"
      using homes unfolding homes_ok_def by blast
    then show "\<exists>l' xs'. l' \<in> set (state_lists P) \<and> ?C1 l' = Some xs' \<and> xStateListItem u \<in> set xs'"
      using u l(2) by (cases "m = l") (auto simp: item_inj)
  qed
  have bits1: "bit (uxTopReadyPriority ?k1) q \<longleftrightarrow> q < 5 \<and> ready P ?C1 q \<noteq> []" if "q \<noteq> uxPriority ?k1 t" for q
  proof (cases "q < 5")
    case True
    then have "ready P ?C1 q = ready P C q" using other [of q] that by simp
    then show ?thesis using bits True by (simp add: bits_ok_def)
  qed (use bits in \<open>simp add: bits_ok_def\<close>)
  obtain zs where zs: "kernel_ok P ts (?C1(pxReadyTasksLists P (uxPriority ?k1 t) \<mapsto> zs)) (prvAddTaskToReadyList P t ?k1)"
    "set zs = insert ?x (set (ready P ?C1 (uxPriority ?k1 t)))"
    by (rule add_ready [OF ok1(1) bits1 homes1 assms(2) ok1(2)])
  have "insert ?x (set (ready P ?C1 ?p)) = insert ?x (set (ready P C ?p))"
  proof (cases "pxReadyTasksLists P ?p = l")
    case True
    then have "ready P C ?p = xs" "ready P ?C1 ?p = remove1 ?x xs" using l(2) by (simp_all add: ready_def)
    then show ?thesis by (simp only: insert_remove1)
  qed (simp add: ready_def)
  with zs that [OF l] show ?thesis by simp
qed

text \<open>The event items of tasks move between other lists.\<close>

lemma event_lists_irrelevant:
  assumes "l \<notin> set (state_lists P)" "C l = Some xs"
  shows "bits_ok P (C(l \<mapsto> ys)) w \<longleftrightarrow> bits_ok P C w" "homes_ok P ts (C(l \<mapsto> ys)) \<longleftrightarrow> homes_ok P ts C"
    "p < 5 \<Longrightarrow> ready P (C(l \<mapsto> ys)) p = ready P C p"
proof -
  have "pxReadyTasksLists P p \<noteq> l" if "p < 5" for p
    using assms(1) that by (auto simp: state_lists_def simp del: upt_rec_numeral)
  then show R: "p < 5 \<Longrightarrow> ready P (C(l \<mapsto> ys)) p = ready P C p" for p by (simp add: ready_def)
  then show "bits_ok P (C(l \<mapsto> ys)) w \<longleftrightarrow> bits_ok P C w" by (auto simp: bits_ok_def)
  have "(\<exists>m zs. m \<in> set (state_lists P) \<and> (C(l \<mapsto> ys)) m = Some zs \<and> x \<in> set zs) \<longleftrightarrow>
      (\<exists>m zs. m \<in> set (state_lists P) \<and> C m = Some zs \<and> x \<in> set zs)" for x
    using assms(1) by (metis fun_upd_apply)
  then show "homes_ok P ts (C(l \<mapsto> ys)) \<longleftrightarrow> homes_ok P ts C" by (simp add: homes_ok_def)
qed

lemma kernel_ok_event_remove:
  assumes "kernel_ok P ts C k" "l \<notin> set (state_lists P)" "C l = Some xs" "x \<in> set xs"
  shows "kernel_ok P ts (C(l \<mapsto> remove1 x xs)) (k\<lparr>lists := snd (uxListRemove x (lists k))\<rparr>)" "in_no_list (C(l \<mapsto> remove1 x xs)) x"
  using lists_ok_remove [where C = C, OF _ assms(3,4), of P ts k] event_lists_irrelevant(1,2) [where C = C, OF assms(2,3)] assms(1)
  by (simp_all add: kernel_ok_def)

lemma kernel_ok_pending:
  assumes "kernel_ok P ts C k" "t \<in> ts" "in_no_list C (xEventListItem t)" "C (xPendingReadyList P) = Some xs"
  obtains ys where "kernel_ok P ts (C(xPendingReadyList P \<mapsto> ys)) (k\<lparr>lists := vListInsertEnd (xPendingReadyList P) (xEventListItem t) (lists k)\<rparr>)"
    "set ys = insert (xEventListItem t) (set xs)"
proof -
  have ok: "lists_ok P ts C k" using assms(1) by (simp add: kernel_ok_def)
  note L = places [OF lists_okD(2) [OF ok]]
  let ?ys = "insert_before (pxIndex (list_head (lists k) (xPendingReadyList P))) (xEventListItem t) xs"
  have "xPendingReadyList P \<noteq> xDelayedTaskList1 P" "xPendingReadyList P \<noteq> xDelayedTaskList2 P"
    using L(15) by (auto simp: state_lists_def)
  then have "lists_ok P ts (C(xPendingReadyList P \<mapsto> ?ys)) (k\<lparr>lists := vListInsertEnd (xPendingReadyList P) (xEventListItem t) (lists k)\<rparr>)"
    by (intro lists_ok_insert_end [OF ok assms(4,3)]) (use L(15) assms(2) in \<open>simp_all add: items_of_def sorted_list_def\<close>)
  with event_lists_irrelevant(1,2) [where C = C, OF L(15) assms(4)] assms(1) that [of ?ys] show ?thesis
    by (simp add: kernel_ok_def set_insert_before)
qed

lemma kernel_ok_cong:
  "lists k' = lists k \<Longrightarrow> uxPriority k' = uxPriority k \<Longrightarrow> pxDelayedTaskList k' = pxDelayedTaskList k \<Longrightarrow>
    pxOverflowDelayedTaskList k' = pxOverflowDelayedTaskList k \<Longrightarrow> uxTopReadyPriority k' = uxTopReadyPriority k \<Longrightarrow>
    kernel_ok P ts C k' \<longleftrightarrow> kernel_ok P ts C k"
  by (simp add: kernel_ok_def lists_ok_cong [of k' k])

lemma add_ready_fields [simp]:
  "uxPriority (prvAddTaskToReadyList P t k) = uxPriority k" "pxCurrentTCB (prvAddTaskToReadyList P t k) = pxCurrentTCB k"
  "uxSchedulerSuspended (prvAddTaskToReadyList P t k) = uxSchedulerSuspended k" "xTickCount (prvAddTaskToReadyList P t k) = xTickCount k"
  "pxDelayedTaskList (prvAddTaskToReadyList P t k) = pxDelayedTaskList k"
  "pxOverflowDelayedTaskList (prvAddTaskToReadyList P t k) = pxOverflowDelayedTaskList k"
  "xPendedTicks (prvAddTaskToReadyList P t k) = xPendedTicks k"
  "uxCurrentNumberOfTasks (prvAddTaskToReadyList P t k) = uxCurrentNumberOfTasks k"
  by (simp_all add: prvAddTaskToReadyList_def)

end
