(* ===== verification/Rtos_Sched_Runs.thy ===== *)
theory Rtos_Sched_Runs
  imports Rtos_Sched_Steps
begin

text \<open>
  Runs of the scheduler: switches, blocking, events, notifications, ticks and the suspension of the scheduler in any order, from a state
  that satisfies the invariant; which task is ready after each, and which one is chosen.
\<close>

section \<open>Where a task is\<close>

text \<open>As \<^verbatim>\<open>eTaskGetState\<close> sees it: the list that the task's state item is in.\<close>

definition task_list :: "kernel \<Rightarrow> u32 \<Rightarrow> u32" where
  "task_list k t = pxContainer (list_item (lists k) (xStateListItem t))"

definition task_ready :: "kernel_places \<Rightarrow> kernel \<Rightarrow> u32 \<Rightarrow> bool" where
  "task_ready P k t \<longleftrightarrow> task_list k t = pxReadyTasksLists P (uxPriority k t)"

definition wake_time :: "kernel \<Rightarrow> u32 \<Rightarrow> u32" where
  "wake_time k t = xItemValue (list_item (lists k) (xStateListItem t))"

lemma member_container: "lists_are m C \<Longrightarrow> C l = Some xs \<Longrightarrow> x \<in> set xs \<Longrightarrow> pxContainer (list_item m x) = l"
  using list_isD(3) [OF lists_areD] by blast

lemma task_list_iff:
  assumes "kernel_ok P ts C k" "t \<in> ts" "C l = Some xs" "l \<in> set (state_lists P)"
  shows "task_list k t = l \<longleftrightarrow> xStateListItem t \<in> set xs"
proof
  have ok: "lists_ok P ts C k" and homes: "homes_ok P ts C" using assms(1) by (simp_all add: kernel_ok_def)
  show "task_list k t = l" if "xStateListItem t \<in> set xs"
    unfolding task_list_def by (rule member_container [OF lists_okD(1) [OF ok] assms(3) that])
  assume l: "task_list k t = l"
  obtain m zs where m: "C m = Some zs" "xStateListItem t \<in> set zs" using homes assms(2) unfolding homes_ok_def by blast
  then have "task_list k t = m" unfolding task_list_def by (rule member_container [OF lists_okD(1) [OF ok]])
  with l m assms(3) show "xStateListItem t \<in> set xs" by simp
qed

lemma task_ready_iff:
  assumes "kernel_ok P ts C k" "t \<in> ts"
  shows "task_ready P k t \<longleftrightarrow> xStateListItem t \<in> set (ready P C (uxPriority k t))"
proof -
  have ok: "lists_ok P ts C k" using assms(1) by (simp add: kernel_ok_def)
  note L = places [OF lists_okD(2) [OF ok]] and p = tasks_fitD(2) [OF lists_okD(3) [OF ok] assms(2)]
  show ?thesis unfolding task_ready_def using task_list_iff [OF assms L(10) [OF p] L(6) [OF p]] .
qed

text \<open>A task that has moved to a ready list is ready; the others are where they were.\<close>

lemma task_list_wake:
  assumes "t \<noteq> u"
  shows "task_list (prvAddTaskToReadyList P t (k\<lparr>lists := snd (uxListRemove (xStateListItem t) (lists k))\<rparr>)) u = task_list k u"
    "task_ready P (prvAddTaskToReadyList P t k') t" "task_list (prvAddTaskToReadyList P t k') u = task_list k' u"
  using assms by (simp_all add: task_list_def task_ready_def prvAddTaskToReadyList_def item_inj)

section \<open>The invariant of runs\<close>

text \<open>The list that the task's event item is in: \<open>0\<close> when it waits for no event.\<close>

definition event_list :: "kernel \<Rightarrow> u32 \<Rightarrow> u32" where
  "event_list k t = pxContainer (list_item (lists k) (xEventListItem t))"

text \<open>No task sleeps past its time, and the time of the next check is not too late for any.\<close>

definition timed_ok :: "u32 set \<Rightarrow> kernel \<Rightarrow> bool" where
  "timed_ok ts k \<longleftrightarrow> (\<forall>t \<in> ts. task_list k t = pxDelayedTaskList k \<longrightarrow>
     xTickCount k < wake_time k t \<and> xNextTaskUnblockTime k \<le> wake_time k t)"

text \<open>There are tasks, a ready task waits for no event, and the idle task is ready.\<close>

definition calm :: "kernel_places \<Rightarrow> u32 set \<Rightarrow> u32 \<Rightarrow> kernel \<Rightarrow> bool" where
  "calm P ts idle k \<longleftrightarrow> (\<forall>t \<in> ts. task_ready P k t \<longrightarrow> event_list k t = 0) \<and>
     idle \<in> ts \<and> uxPriority k idle = 0 \<and> task_ready P k idle \<and> pxCurrentTCB k \<in> ts \<and> 0 < uxCurrentNumberOfTasks k"

text \<open>The lists are the kernel's and the event lists \<open>evls\<close> of the queues; the items of tasks are not their end markers.\<close>

definition layout :: "kernel_places \<Rightarrow> u32 set \<Rightarrow> u32 set \<Rightarrow> (u32 \<rightharpoonup> u32 list) \<Rightarrow> bool" where
  "layout P evls ts C \<longleftrightarrow> dom C = evls \<union> set (xPendingReadyList P # state_lists P) \<and>
     evls \<inter> set (xPendingReadyList P # state_lists P) = {} \<and> xEventListItem ` ts \<inter> xListEnd ` dom C = {}"

definition lists_run :: "kernel_places \<Rightarrow> u32 set \<Rightarrow> u32 set \<Rightarrow> (u32 \<rightharpoonup> u32 list) \<Rightarrow> kernel \<Rightarrow> bool" where
  "lists_run P evls ts C k \<longleftrightarrow> kernel_ok P ts C k \<and> layout P evls ts C"

definition run_ok :: "kernel_places \<Rightarrow> u32 set \<Rightarrow> u32 set \<Rightarrow> u32 \<Rightarrow> (u32 \<rightharpoonup> u32 list) \<Rightarrow> kernel \<Rightarrow> bool" where
  "run_ok P evls ts idle C k \<longleftrightarrow> lists_run P evls ts C k \<and> timed_ok ts k \<and> calm P ts idle k"

lemma lists_runD:
  assumes "lists_run P evls ts C k"
  shows "kernel_ok P ts C k" "lists_ok P ts C k" "layout P evls ts C" "places_fit P C" "tasks_fit ts k"
  using assms by (auto simp: lists_run_def kernel_ok_def lists_ok_def)

lemma run_okD:
  assumes "run_ok P evls ts idle C k"
  shows "lists_run P evls ts C k" "timed_ok ts k" "calm P ts idle k" "kernel_ok P ts C k" "lists_ok P ts C k"
  using assms lists_runD [of P evls ts C k] by (simp_all add: run_ok_def)

lemma calmD:
  assumes "calm P ts idle k"
  shows "t \<in> ts \<Longrightarrow> task_ready P k t \<Longrightarrow> event_list k t = 0" "idle \<in> ts" "uxPriority k idle = 0" "task_ready P k idle" "pxCurrentTCB k \<in> ts"
    "0 < uxCurrentNumberOfTasks k"
  using assms by (auto simp: calm_def)

lemma layout_upd:
  assumes "layout P evls ts C" "C l = Some xs"
  shows "layout P evls ts (C(l \<mapsto> ys))"
proof -
  have "dom (C(l \<mapsto> ys)) = dom C" using assms(2) by auto
  with assms(1) show ?thesis unfolding layout_def by metis
qed

lemma event_lists_of:
  assumes "layout P evls ts C"
  shows "l \<in> evls \<Longrightarrow> \<exists>xs. C l = Some xs" "l \<in> evls \<Longrightarrow> l \<notin> set (state_lists P)" "l \<in> evls \<Longrightarrow> l \<noteq> xPendingReadyList P"
    "C l = Some xs \<Longrightarrow> l \<in> evls \<or> l = xPendingReadyList P \<or> l \<in> set (state_lists P)"
    "l = xPendingReadyList P \<Longrightarrow> \<exists>xs. C l = Some xs"
  using assms by (auto simp: layout_def)

text \<open>An event item is in the list that it names, and in none when it names none.\<close>

lemma event_item:
  assumes "lists_run P evls ts C k" "t \<in> ts"
  shows "event_list k t = 0 \<Longrightarrow> in_no_list C (xEventListItem t)"
    "event_list k t \<noteq> 0 \<Longrightarrow> \<exists>xs. C (event_list k t) = Some xs \<and> xEventListItem t \<in> set xs \<and> event_list k t \<notin> set (state_lists P)"
    "C l = Some xs \<Longrightarrow> xEventListItem t \<in> set xs \<Longrightarrow> event_list k t = l"
proof -
  note D = lists_runD [OF assms(1)]
  note ok = lists_okD [OF D(2)]
  have ends: "xEventListItem t \<noteq> xListEnd l" if "C l = Some xs" for l xs
  proof -
    have "xListEnd l \<in> xListEnd ` dom C" "xEventListItem t \<in> xEventListItem ` ts" using that assms(2) by blast+
    with D(3) show ?thesis unfolding layout_def by (metis disjoint_iff)
  qed
  show C: "C l = Some xs \<Longrightarrow> xEventListItem t \<in> set xs \<Longrightarrow> event_list k t = l" for l xs
    unfolding event_list_def by (rule member_container [OF ok(1)])
  show "in_no_list C (xEventListItem t)" if "event_list k t = 0"
    unfolding in_no_list_def nodes_simps using ends C places(16) [OF D(4)] that by metis
  assume "event_list k t \<noteq> 0"
  then have "\<not> in_no_list C (xEventListItem t)" using D(2) assms(2) by (auto simp: lists_ok_def event_list_def)
  then obtain l xs where l: "C l = Some xs" "xEventListItem t \<in> set xs" using ends by (auto simp: in_no_list_def)
  have "l \<notin> set (state_lists P)"
  proof
    assume "l \<in> set (state_lists P)"
    then have "xEventListItem t \<in> xStateListItem ` ts" using ok(4) [OF l(1)] l(2) by (auto simp: items_of_def)
    then obtain u where "u \<in> ts" "xStateListItem u = xEventListItem t" by auto
    with tasks_fitD(6) [OF D(5) _ assms(2)] show False by blast
  qed
  with l C [OF l] show "\<exists>xs. C (event_list k t) = Some xs \<and> xEventListItem t \<in> set xs \<and> event_list k t \<notin> set (state_lists P)" by auto
qed

section \<open>Switching\<close>

text \<open>The highest priority with a ready task.\<close>

definition top_priority :: "kernel_places \<Rightarrow> (u32 \<rightharpoonup> u32 list) \<Rightarrow> nat \<Rightarrow> bool" where
  "top_priority P C p \<longleftrightarrow> p < 5 \<and> ready P C p \<noteq> [] \<and> (\<forall>q < 5. ready P C q \<noteq> [] \<longrightarrow> q \<le> p)"

lemma top_ready:
  assumes "run_ok P evls ts idle C k"
  obtains p where "top_priority P C p"
proof -
  note D = run_okD [OF assms] and I = calmD [OF run_okD(3) [OF assms]]
  have "xStateListItem idle \<in> set (ready P C 0)" using task_ready_iff [OF D(4) I(2)] I(3,4) by simp
  then have "0 \<in> {p. p < 5 \<and> ready P C p \<noteq> []}" by auto
  then have "{p. p < 5 \<and> ready P C p \<noteq> []} \<noteq> {}" by blast
  moreover have "finite {p. p < (5 :: nat) \<and> ready P C p \<noteq> []}" by simp
  ultimately have "Max {p. p < 5 \<and> ready P C p \<noteq> []} \<in> {p. p < 5 \<and> ready P C p \<noteq> []}" by (intro Max_in)
  with that [of "Max {p. p < 5 \<and> ready P C p \<noteq> []}"] show ?thesis by (auto simp: top_priority_def)
qed

lemma ready_turns_tasks:
  assumes "kernel_ok P ts C k" "p < 5"
  shows "set (ready_turns P C k p) = {t \<in> ts. task_ready P k t \<and> uxPriority k t = p}"
proof -
  have ok: "lists_ok P ts C k" using assms(1) by (simp add: kernel_ok_def)
  have "xStateListItem t \<in> set (ready P C p) \<longleftrightarrow> task_ready P k t \<and> uxPriority k t = p" if "t \<in> ts" for t
    using task_ready_iff [OF assms(1) that] ready_items [OF ok assms(2)] by (metis item_inj(1))
  then show ?thesis using ready_turns_set(1) [OF ok assms(2)] by auto
qed

lemma run_switch:
  assumes "run_ok P evls ts idle C k" "uxSchedulerSuspended k = 0" "top_priority P C p"
  obtains k' where "vTaskSwitchContext P k = Some (Ret k')" "run_ok P evls ts idle C k'" "ready_turns P C k p \<noteq> []"
    "pxCurrentTCB k' = hd (ready_turns P C k p)" "ready_turns P C k' p = rotate1 (ready_turns P C k p)"
    "\<And>t. t \<in> ts \<Longrightarrow> task_ready P k t \<Longrightarrow> uxPriority k t \<le> p" "uxSchedulerSuspended k' = 0"
    "\<And>t. task_list k' t = task_list k t" "uxPriority k' = uxPriority k" "\<And>t. event_list k' t = event_list k t"
proof -
  note D = run_okD [OF assms(1)]
  have p: "p < 5" "ready P C p \<noteq> []" "\<forall>q < 5. ready P C q \<noteq> [] \<longrightarrow> q \<le> p" using assms(3) by (simp_all add: top_priority_def)
  then have top: "q \<le> p" if "q < 5" "ready P C q \<noteq> []" for q using that by blast
  obtain k' where k': "vTaskSwitchContext P k = Some (Ret k')" "kernel_ok P ts C k'" "pxCurrentTCB k' = hd (ready_turns P C k p)"
    "ready_turns P C k' p = rotate1 (ready_turns P C k p)" "uxSchedulerSuspended k' = 0" "uxPriority k' = uxPriority k"
    by (rule switch_result [OF D(4) assms(2) p(1,2) top]) blast
  have items: "list_item (lists k') = list_item (lists k)" "pxDelayedTaskList k' = pxDelayedTaskList k" "xTickCount k' = xTickCount k"
    "xNextTaskUnblockTime k' = xNextTaskUnblockTime k" "uxCurrentNumberOfTasks k' = uxCurrentNumberOfTasks k"
    using k'(1) assms(2)
    by (auto simp: vTaskSwitchContext_def taskSELECT_HIGHEST_PRIORITY_TASK_def Let_def split: if_splits prod.splits)
      (metis snd_conv store_values)+
  have ne: "ready_turns P C k p \<noteq> []" using ready_turns_set(2) [OF D(5) p(1)] p(2) by auto
  have "hd (ready_turns P C k p) \<in> ts" using ready_turns_tasks [OF D(4) p(1)] ne hd_in_set by blast
  then have "run_ok P evls ts idle C k'"
    using assms(1) k'(2,3,6) items
    by (simp add: run_ok_def lists_run_def timed_ok_def calm_def task_ready_def task_list_def wake_time_def event_list_def)
  moreover have "uxPriority k t \<le> p" if "t \<in> ts" "task_ready P k t" for t
    using p(3) tasks_fitD(2) [OF lists_okD(3) [OF D(5)] that(1)] task_ready_iff [OF D(4) that(1)] that(2) by force
  ultimately show ?thesis using k' p ne items by (intro that [where k' = k']) (simp_all add: task_list_def event_list_def)
qed

text \<open>A number of switches in a row, with the tasks they choose.\<close>

fun switches :: "kernel_places \<Rightarrow> nat \<Rightarrow> kernel \<Rightarrow> (u32 list \<times> kernel) option" where
  "switches P 0 k = Some ([], k)"
| "switches P (Suc n) k =
     (case vTaskSwitchContext P k of
        Some (Ret k) \<Rightarrow> map_option (\<lambda>(us, k'). (pxCurrentTCB k # us, k')) (switches P n k)
      | _ \<Rightarrow> None)"

lemma rotate_turns:
  assumes "xs \<noteq> []"
  shows "hd xs # map (\<lambda>i. rotate1 xs ! (i mod length xs)) [0..<n] = map (\<lambda>i. xs ! (i mod length xs)) [0..<Suc n]"
proof -
  have "rotate1 xs ! (i mod length xs) = xs ! (Suc i mod length xs)" for i
    using nth_rotate1 [of "i mod length xs" xs] assms by (simp add: mod_Suc_eq)
  then show ?thesis using assms by (simp add: upt_conv_Cons hd_conv_nth map_Suc_upt [symmetric] del: upt_Suc)
qed

lemma run_switches:
  assumes "run_ok P evls ts idle C k" "uxSchedulerSuspended k = 0" "top_priority P C p"
  shows "\<exists>k'. switches P n k = Some (map (\<lambda>i. ready_turns P C k p ! (i mod length (ready_turns P C k p))) [0..<n], k')"
  using assms
proof (induction n arbitrary: k)
  case (Suc n)
  obtain k1 where k1: "vTaskSwitchContext P k = Some (Ret k1)" "run_ok P evls ts idle C k1" "ready_turns P C k p \<noteq> []"
    "pxCurrentTCB k1 = hd (ready_turns P C k p)" "ready_turns P C k1 p = rotate1 (ready_turns P C k p)" "uxSchedulerSuspended k1 = 0"
    by (rule run_switch [OF Suc.prems]) blast
  from Suc.IH [OF k1(2,6) Suc.prems(3)] obtain k' where
    "switches P n k1 = Some (map (\<lambda>i. rotate1 (ready_turns P C k p) ! (i mod length (ready_turns P C k p))) [0..<n], k')"
    using k1(5) by auto
  with k1(1,4) rotate_turns [OF k1(3), of n] show ?case by simp
qed simp

lemma distinct_ready_turns:
  assumes "kernel_ok P ts C k" "p < 5"
  shows "distinct (ready_turns P C k p)"
proof -
  have ok: "lists_ok P ts C k" using assms(1) by (simp add: kernel_ok_def)
  note D = lists_okD [OF ok]
  have L: "list_is (lists k) (pxReadyTasksLists P p) (ready P C p)"
    by (rule lists_areD [OF D(1) places(10) [OF D(2) assms(2)]])
  note S = set_list_turns [OF L]
  have "distinct (list_turns (lists k) (pxReadyTasksLists P p) (ready P C p))"
    using S list_isD(1) [OF L] by (metis card_distinct distinct.simps(2) distinct_card)
  moreover have "inj_on (\<lambda>x. pvOwner (list_item (lists k) x)) (set (ready P C p))"
  proof (rule inj_onI)
    fix x y assume x: "x \<in> set (ready P C p)" "y \<in> set (ready P C p)"
      and eq: "pvOwner (list_item (lists k) x) = pvOwner (list_item (lists k) y)"
    from x(1) obtain t where t: "t \<in> ts" "x = xStateListItem t" by (rule ready_items [OF ok assms(2)])
    from x(2) obtain u where u: "u \<in> ts" "y = xStateListItem u" by (rule ready_items [OF ok assms(2)])
    show "x = y" using eq t u tasks_fitD(3) [OF D(3)] by simp
  qed
  ultimately show ?thesis using S by (simp add: ready_turns_def distinct_map)
qed

end
