(* ===== verification/Rtos_Sched_Wake.thy ===== *)
theory Rtos_Sched_Wake
  imports Rtos_Sched_Runs
begin

text \<open>
  Where each task is after an operation that blocks the running task or wakes a waiting one, and that the invariant of runs is kept.
\<close>

section \<open>Moving one task\<close>

abbreviation to_ready :: "kernel_places \<Rightarrow> u32 \<Rightarrow> kernel \<Rightarrow> kernel" where
  "to_ready P t k \<equiv> prvAddTaskToReadyList P t (k\<lparr>lists := snd (uxListRemove (xStateListItem t) (lists k))\<rparr>)"

abbreviation off_event :: "u32 \<Rightarrow> kernel \<Rightarrow> kernel" where
  "off_event t k \<equiv> k\<lparr>lists := snd (uxListRemove (xEventListItem t) (lists k))\<rparr>"

abbreviation to_pending :: "kernel_places \<Rightarrow> u32 \<Rightarrow> kernel \<Rightarrow> kernel" where
  "to_pending P t k \<equiv> k\<lparr>lists := vListInsertEnd (xPendingReadyList P) (xEventListItem t) (lists k)\<rparr>"

definition ready_list :: "kernel_places \<Rightarrow> kernel \<Rightarrow> u32 \<Rightarrow> u32" where
  "ready_list P k t = pxReadyTasksLists P (uxPriority k t)"

lemma items_apart: "tasks_fit ts k \<Longrightarrow> t \<in> ts \<Longrightarrow> u \<in> ts \<Longrightarrow> xStateListItem t \<noteq> xEventListItem u \<and> xEventListItem u \<noteq> xStateListItem t"
  using tasks_fitD(6) by metis

lemma move_fields:
  assumes "tasks_fit ts k" "t \<in> ts" "u \<in> ts"
  shows "task_list (to_ready P t k) u = (if u = t then ready_list P k t else task_list k u)"
    "event_list (to_ready P t k) u = event_list k u" "wake_time (to_ready P t k) u = wake_time k u"
    "task_list (off_event t k) u = task_list k u" "event_list (off_event t k) u = (if u = t then 0 else event_list k u)"
    "wake_time (off_event t k) u = wake_time k u"
    "task_list (to_pending P t k) u = task_list k u"
    "event_list (to_pending P t k) u = (if u = t then xPendingReadyList P else event_list k u)"
    "wake_time (to_pending P t k) u = wake_time k u"
  using items_apart [OF assms] items_apart [OF assms(1,3,2)]
  by (simp_all add: task_list_def event_list_def wake_time_def ready_list_def prvAddTaskToReadyList_def item_inj)

lemma ready_fields:
  "xNextTaskUnblockTime (prvAddTaskToReadyList P t k) = xNextTaskUnblockTime k"
  "xSchedulerRunning (prvAddTaskToReadyList P t k) = xSchedulerRunning k"
  "task_ready P k t \<longleftrightarrow> task_list k t = ready_list P k t"
  by (simp_all add: prvAddTaskToReadyList_def task_ready_def ready_list_def)

lemma run_to_ready:
  assumes "lists_run P evls ts C k" "t \<in> ts"
  obtains C' where "lists_run P evls ts C' (to_ready P t k)" "\<And>l. l \<notin> set (state_lists P) \<Longrightarrow> C' l = C l"
proof -
  note D = lists_runD [OF assms(1)]
  obtain l xs zs where l: "l \<in> set (state_lists P)" "C l = Some xs"
    and k': "kernel_ok P ts (C(l \<mapsto> remove1 (xStateListItem t) xs, pxReadyTasksLists P (uxPriority k t) \<mapsto> zs)) (to_ready P t k)"
    by (rule wake_task [OF D(1) assms(2)])
  note L = places [OF D(4)] and p = tasks_fitD(2) [OF D(5) assms(2)]
  let ?C1 = "C(l \<mapsto> remove1 (xStateListItem t) xs)"
  obtain rs where rs: "?C1 (pxReadyTasksLists P (uxPriority k t)) = Some rs"
    using L(10) [OF p] by (cases "pxReadyTasksLists P (uxPriority k t) = l") auto
  from layout_upd [OF layout_upd [OF D(3) l(2)] rs, of zs] k' have
    "lists_run P evls ts (?C1(pxReadyTasksLists P (uxPriority k t) \<mapsto> zs)) (to_ready P t k)" by (simp only: lists_run_def)
  then show ?thesis by (rule that) (use l(1) L(6) [OF p] in auto)
qed

lemma run_off_event:
  assumes "lists_run P evls ts C k" "t \<in> ts" "event_list k t \<noteq> 0"
  obtains xs where "C (event_list k t) = Some xs" "xEventListItem t \<in> set xs" "event_list k t \<notin> set (state_lists P)"
    "lists_run P evls ts (C(event_list k t \<mapsto> remove1 (xEventListItem t) xs)) (off_event t k)"
proof -
  note D = lists_runD [OF assms(1)]
  obtain xs where xs: "C (event_list k t) = Some xs" "xEventListItem t \<in> set xs" "event_list k t \<notin> set (state_lists P)"
    using event_item(2) [OF assms] by blast
  moreover have "lists_run P evls ts (C(event_list k t \<mapsto> remove1 (xEventListItem t) xs)) (off_event t k)"
    using kernel_ok_event_remove(1) [OF D(1) xs(3,1,2)] layout_upd [OF D(3) xs(1)] by (simp add: lists_run_def)
  ultimately show ?thesis using that by blast
qed

lemma run_to_pending:
  assumes "lists_run P evls ts C k" "t \<in> ts" "event_list k t = 0"
  obtains C' where "lists_run P evls ts C' (to_pending P t k)"
proof -
  note D = lists_runD [OF assms(1)]
  obtain xs where xs: "C (xPendingReadyList P) = Some xs" using places(14) [OF D(4)] by blast
  from event_item(1) [OF assms] have "in_no_list C (xEventListItem t)" .
  then obtain ys where "kernel_ok P ts (C(xPendingReadyList P \<mapsto> ys)) (to_pending P t k)"
    by (rule kernel_ok_pending [OF D(1) assms(2) _ xs])
  with layout_upd [OF D(3) xs, of ys] have "lists_run P evls ts (C(xPendingReadyList P \<mapsto> ys)) (to_pending P t k)"
    by (simp only: lists_run_def)
  then show ?thesis by (rule that)
qed

section \<open>Blocking the running task\<close>

definition unblock_after :: "kernel_places \<Rightarrow> u32 \<Rightarrow> bool \<Rightarrow> kernel \<Rightarrow> u32" where
  "unblock_after P ticks forever k =
     (if \<not> (ticks = portMAX_DELAY \<and> forever) \<and> \<not> xTickCount k + ticks < xTickCount k \<and> xTickCount k + ticks < xNextTaskUnblockTime k
      then xTickCount k + ticks else xNextTaskUnblockTime k)"

lemma block_store:
  assumes "prvAddCurrentTaskToDelayedList P ticks forever k = Some k'" "x = xStateListItem (pxCurrentTCB k)"
  shows "pxContainer (list_item (lists k') y) = (if y = x then blocked_list P ticks forever k else pxContainer (list_item (lists k) y))"
    "xItemValue (list_item (lists k') y) =
      (if y = x \<and> \<not> (ticks = portMAX_DELAY \<and> forever) then xTickCount k + ticks else xItemValue (list_item (lists k) y))"
    "xNextTaskUnblockTime k' = unblock_after P ticks forever k"
proof -
  let ?m = "snd (uxListRemove x (lists k))" and ?v = "xTickCount k + ticks"
  let ?d = "blocked_list P ticks forever k"
  let ?m1 = "set_item x (xItemValue_update (\<lambda>_. ?v)) ?m"
  consider (forever) "ticks = portMAX_DELAY \<and> forever" "lists k' = vListInsertEnd ?d x ?m" "xNextTaskUnblockTime k' = xNextTaskUnblockTime k"
    | (timed) "\<not> (ticks = portMAX_DELAY \<and> forever)" "vListInsert ?d x ?m1 = Some (lists k')"
        "xNextTaskUnblockTime k' = unblock_after P ticks forever k"
  proof (cases "ticks = portMAX_DELAY \<and> forever")
    case True
    then show ?thesis using assms(1) unfolding assms(2)
      by (intro forever) (auto simp: assms(2) prvAddCurrentTaskToDelayedList_def Let_def blocked_list_def split: if_splits prod.splits)
  next
    case False
    then have "vListInsert ?d x ?m1 = Some (lists k') \<and> xNextTaskUnblockTime k' = unblock_after P ticks forever k"
      using assms(1) unfolding assms(2) prvAddCurrentTaskToDelayedList_def Let_def blocked_list_def unblock_after_def
      by (cases "xTickCount k + ticks < xTickCount k"; auto split: if_splits prod.splits)
    with False show ?thesis by (intro timed) simp_all
  qed
  then show "pxContainer (list_item (lists k') y) = (if y = x then ?d else pxContainer (list_item (lists k) y))"
    "xItemValue (list_item (lists k') y) =
      (if y = x \<and> \<not> (ticks = portMAX_DELAY \<and> forever) then ?v else xItemValue (list_item (lists k) y))"
    "xNextTaskUnblockTime k' = unblock_after P ticks forever k"
    by (cases; simp add: vListInsert_fields unblock_after_def)+
qed

lemma block_fields:
  assumes "prvAddCurrentTaskToDelayedList P ticks forever k = Some k'" "tasks_fit ts k" "pxCurrentTCB k = t" "t \<in> ts" "u \<in> ts"
  shows "task_list k' u = (if u = t then blocked_list P ticks forever k else task_list k u)"
    "event_list k' u = event_list k u"
    "wake_time k' u = (if u = t \<and> \<not> (ticks = portMAX_DELAY \<and> forever) then xTickCount k + ticks else wake_time k u)"
  using items_apart [OF assms(2,4,5)] assms(3) block_store [OF assms(1) refl]
  by (simp_all only: task_list_def event_list_def wake_time_def item_inj if_False simp_thms)

lemma delayed_apart:
  assumes "lists_ok P ts C k"
  shows "pxOverflowDelayedTaskList k \<noteq> pxDelayedTaskList k" "xSuspendedTaskList P \<noteq> pxDelayedTaskList k"
    "p < 5 \<Longrightarrow> pxReadyTasksLists P p \<noteq> pxDelayedTaskList k" "p < 5 \<Longrightarrow> blocked_list P ticks forever k \<noteq> pxReadyTasksLists P p"
proof -
  note L = places [OF lists_okD(2) [OF assms]]
  have d: "pxDelayedTaskList k = xDelayedTaskList1 P \<and> pxOverflowDelayedTaskList k = xDelayedTaskList2 P \<or>
      pxDelayedTaskList k = xDelayedTaskList2 P \<and> pxOverflowDelayedTaskList k = xDelayedTaskList1 P"
    using lists_okD(6) [OF assms] by (auto simp: doubleton_eq_iff)
  then show "pxOverflowDelayedTaskList k \<noteq> pxDelayedTaskList k" "xSuspendedTaskList P \<noteq> pxDelayedTaskList k"
    "p < 5 \<Longrightarrow> pxReadyTasksLists P p \<noteq> pxDelayedTaskList k" using L(2,3,7-9) by metis+
  show "p < 5 \<Longrightarrow> blocked_list P ticks forever k \<noteq> pxReadyTasksLists P p"
    using d L(2-4) [of p] by (auto simp: blocked_list_def)
qed

text \<open>A task that blocks is no longer ready, so that its event item may be in a list.\<close>

lemma blocked_run:
  assumes "lists_run P evls ts C k" "timed_ok ts k" "calm P ts idle k0" "task_ready P k t" "t \<noteq> idle" "0 < ticks" "pxCurrentTCB k = t"
    and "\<And>u. u \<in> ts \<Longrightarrow> task_list k u = task_list k0 u" "uxPriority k = uxPriority k0" "pxCurrentTCB k = pxCurrentTCB k0"
    and "\<And>u. u \<in> ts \<Longrightarrow> u \<noteq> t \<Longrightarrow> event_list k u = event_list k0 u" "uxCurrentNumberOfTasks k = uxCurrentNumberOfTasks k0"
  obtains C' k' where "prvAddCurrentTaskToDelayedList P ticks forever k = Some k'" "run_ok P evls ts idle C' k'" "same_frame k k'"
    "\<And>u. u \<in> ts \<Longrightarrow> task_list k' u = (if u = t then blocked_list P ticks forever k else task_list k u)"
    "\<And>u. u \<in> ts \<Longrightarrow> event_list k' u = event_list k u"
    "\<And>u. u \<in> ts \<Longrightarrow> wake_time k' u = (if u = t \<and> \<not> (ticks = portMAX_DELAY \<and> forever) then xTickCount k + ticks else wake_time k u)"
proof -
  note D = lists_runD [OF assms(1)] and I = calmD [OF assms(3)]
  have t: "t \<in> ts" using I(5) assms(7,10) by simp
  have p: "uxPriority k t < 5" by (rule tasks_fitD(2) [OF D(5) t])
  have x: "xStateListItem t \<in> set (ready P C (uxPriority k t))" using task_ready_iff [OF D(1) t] assms(4) by simp
  let ?d = "blocked_list P ticks forever k" and ?r = "pxReadyTasksLists P (uxPriority k t)"
  obtain k' ys where k': "prvAddCurrentTaskToDelayedList P ticks forever k = Some k'"
    "kernel_ok P ts (C(?r \<mapsto> remove1 (xStateListItem t) (ready P C (uxPriority k t)), ?d \<mapsto> ys)) k'" "same_frame k k'"
    by (rule block_current [OF D(1) assms(7) t x]) blast
  note F = block_fields [OF k'(1) D(5) assms(7) t]
  note apart = delayed_apart [OF D(2)] and L = places [OF D(4)]
  have "\<exists>ds. C ?d = Some ds"
    using L(13) delayed_lists(4) [OF D(2), of "pxDelayedTaskList k"] delayed_lists(4) [OF D(2), of "pxOverflowDelayedTaskList k"]
    by (simp add: blocked_list_def)
  then obtain ds where ds: "C ?d = Some ds" by blast
  let ?C1 = "C(?r \<mapsto> remove1 (xStateListItem t) (ready P C (uxPriority k t)))"
  have "?C1 ?d = Some ds" using ds apart(4) [OF p] by simp
  from layout_upd [OF layout_upd [OF D(3) L(10) [OF p]] this] k'(2) have
    "lists_run P evls ts (?C1(?d \<mapsto> ys)) k'" by (simp only: lists_run_def)
  moreover have "timed_ok ts k'"
    unfolding timed_ok_def
  proof (intro ballI impI)
    fix u assume u: "u \<in> ts" "task_list k' u = pxDelayedTaskList k'"
    have frame: "pxDelayedTaskList k' = pxDelayedTaskList k" "xTickCount k' = xTickCount k" using k'(3) by (simp_all add: same_frame_def)
    show "xTickCount k' < wake_time k' u \<and> xNextTaskUnblockTime k' \<le> wake_time k' u"
    proof (cases "u = t")
      case True
      then have "?d = pxDelayedTaskList k" using u F(1) frame by simp
      then have "\<not> (ticks = portMAX_DELAY \<and> forever)" "\<not> xTickCount k + ticks < xTickCount k"
        using apart(1,2) by (auto simp: blocked_list_def split: if_splits)
      moreover have "xTickCount k + ticks \<noteq> xTickCount k" using assms(6) by auto
      ultimately have "xTickCount k < xTickCount k + ticks" "\<not> (ticks = portMAX_DELAY \<and> forever)" by (auto simp: not_less le_less)
      then show ?thesis
        using True F(3) [OF u(1)] frame block_store(3) [OF k'(1) refl] by (simp add: unblock_after_def not_less)
    next
      case False
      then have "xTickCount k < wake_time k u \<and> xNextTaskUnblockTime k \<le> wake_time k u"
        using assms(2) u F(1) [OF u(1)] frame by (simp add: timed_ok_def)
      then show ?thesis using False F(3) [OF u(1)] frame block_store(3) [OF k'(1) refl] by (auto simp: unblock_after_def)
    qed
  qed
  moreover have "calm P ts idle k'"
  proof -
    have prio: "uxPriority k' = uxPriority k" "pxCurrentTCB k' = pxCurrentTCB k" "uxCurrentNumberOfTasks k' = uxCurrentNumberOfTasks k"
      using k'(3) by (simp_all add: same_frame_def)
    have same: "task_ready P k' u \<longleftrightarrow> u \<noteq> t \<and> task_ready P k0 u" if "u \<in> ts" for u
      using F(1) [OF that] apart(4) [OF p] prio assms(8) [OF that] assms(9) by (auto simp: task_ready_def)
    then show ?thesis
      using I F(2) prio assms(5,7,9-12) by (simp add: calm_def)
  qed
  ultimately have "run_ok P evls ts idle (?C1(?d \<mapsto> ys)) k'" by (simp only: run_ok_def)
  from that [OF k'(1) this k'(3) F] show ?thesis .
qed

text \<open>The running task sleeps, or waits for a notification; or it waits for an event of a queue.\<close>

lemma run_delay:
  assumes "run_ok P evls ts idle C k" "task_ready P k (pxCurrentTCB k)" "pxCurrentTCB k \<noteq> idle" "0 < ticks"
  obtains C' k' where "prvAddCurrentTaskToDelayedList P ticks forever k = Some k'" "run_ok P evls ts idle C' k'" "same_frame k k'"
    "\<And>u. u \<in> ts \<Longrightarrow> task_list k' u = (if u = pxCurrentTCB k then blocked_list P ticks forever k else task_list k u)"
    "\<And>u. u \<in> ts \<Longrightarrow> event_list k' u = event_list k u"
    "\<And>u. u \<in> ts \<Longrightarrow> wake_time k' u =
      (if u = pxCurrentTCB k \<and> \<not> (ticks = portMAX_DELAY \<and> forever) then xTickCount k + ticks else wake_time k u)"
  by (rule blocked_run [OF run_okD(1-3) [OF assms(1)] assms(2,3,4) refl refl refl refl refl refl]) blast

lemma run_wait_event:
  assumes "run_ok P evls ts idle C k" "task_ready P k (pxCurrentTCB k)" "pxCurrentTCB k \<noteq> idle" "0 < ticks" "l \<in> evls"
  obtains C' k' where "vTaskPlaceOnEventList_TCB P l ticks k = Some k'" "run_ok P evls ts idle C' k'" "same_frame k k'"
    "\<And>u. u \<in> ts \<Longrightarrow> task_list k' u = (if u = pxCurrentTCB k then blocked_list P ticks True k else task_list k u)"
    "\<And>u. u \<in> ts \<Longrightarrow> event_list k' u = (if u = pxCurrentTCB k then l else event_list k u)"
    "\<And>u. u \<in> ts \<Longrightarrow> wake_time k' u = (if u = pxCurrentTCB k \<and> ticks \<noteq> portMAX_DELAY then xTickCount k + ticks else wake_time k u)"
proof -
  note R = run_okD [OF assms(1)]
  note D = lists_runD [OF R(1)] and I = calmD [OF R(3)]
  let ?t = "pxCurrentTCB k"
  let ?x = "xEventListItem ?t"
  obtain xs where xs: "C l = Some xs" "l \<notin> set (state_lists P)" using event_lists_of(1,2) [OF D(3) assms(5)] by blast
  have free: "in_no_list C ?x" by (rule event_item(1) [OF R(1) I(5) I(1) [OF I(5) assms(2)]])
  have "?x \<in> items_of P ts k l" using xs(2) I(5) by (simp add: items_of_def)
  from lists_ok_insert [OF D(2) xs(1) free this] obtain m where m: "vListInsert l ?x (lists k) = Some m"
    "lists_ok P ts (C(l \<mapsto> insert_value (lists k) ?x xs)) (k\<lparr>lists := m\<rparr>)" .
  let ?k = "k\<lparr>lists := m\<rparr>" and ?C = "C(l \<mapsto> insert_value (lists k) ?x xs)"
  have "kernel_ok P ts ?C ?k"
    using m(2) D(1) event_lists_irrelevant(1,2) [where C = C, OF xs(2,1)] by (simp add: kernel_ok_def)
  then have run: "lists_run P evls ts ?C ?k" using layout_upd [OF D(3) xs(1)] by (simp only: lists_run_def)
  note F = vListInsert_fields [OF m(1)]
  have state: "task_list ?k u = task_list k u" "wake_time ?k u = wake_time k u"
    "event_list ?k u = (if u = ?t then l else event_list k u)" if "u \<in> ts" for u
    using F items_apart [OF D(5) that I(5)] by (simp_all add: task_list_def wake_time_def event_list_def item_inj)
  have timed: "timed_ok ts ?k" using R(2) state by (simp add: timed_ok_def)
  have ready: "task_ready P ?k ?t" using assms(2) state(1) [OF I(5)] by (simp add: task_ready_def)
  obtain C' k' where k': "prvAddCurrentTaskToDelayedList P ticks True ?k = Some k'" "run_ok P evls ts idle C' k'" "same_frame ?k k'"
    "\<And>u. u \<in> ts \<Longrightarrow> task_list k' u = (if u = ?t then blocked_list P ticks True ?k else task_list ?k u)"
    "\<And>u. u \<in> ts \<Longrightarrow> event_list k' u = event_list ?k u"
    "\<And>u. u \<in> ts \<Longrightarrow> wake_time k' u = (if u = ?t \<and> \<not> (ticks = portMAX_DELAY \<and> True) then xTickCount ?k + ticks else wake_time ?k u)"
  proof (rule blocked_run [where forever = True, OF run timed R(3) ready assms(3,4)])
    show "\<And>u. u \<in> ts \<Longrightarrow> u \<noteq> ?t \<Longrightarrow> event_list ?k u = event_list k u" using state(3) by simp
  qed (use state(1) in \<open>simp_all\<close>)
  have "vTaskPlaceOnEventList_TCB P l ticks k = Some k'"
    using k'(1) m(1) places(16) [OF D(4) xs(1)] by (simp add: vTaskPlaceOnEventList_TCB_def)
  then show ?thesis
    by (rule that [OF _ k'(2)]) (use k'(3-6) state in \<open>simp_all add: same_frame_def blocked_list_def\<close>)
qed

section \<open>Waking\<close>

text \<open>A woken task is ready, waits for no event, and the other tasks stay; with the scheduler suspended it only goes to the pending list.\<close>

definition woken :: "kernel_places \<Rightarrow> u32 \<Rightarrow> kernel \<Rightarrow> kernel" where
  "woken P t k = (if uxSchedulerSuspended k = 0 then to_ready P t k else to_pending P t k)"

lemma woken_frame [simp]:
  "uxPriority (woken P t k) = uxPriority k" "pxCurrentTCB (woken P t k) = pxCurrentTCB k" "xTickCount (woken P t k) = xTickCount k"
  "uxSchedulerSuspended (woken P t k) = uxSchedulerSuspended k" "pxDelayedTaskList (woken P t k) = pxDelayedTaskList k"
  "pxOverflowDelayedTaskList (woken P t k) = pxOverflowDelayedTaskList k" "xPendedTicks (woken P t k) = xPendedTicks k"
  "xNextTaskUnblockTime (woken P t k) = xNextTaskUnblockTime k" "uxCurrentNumberOfTasks (woken P t k) = uxCurrentNumberOfTasks k"
  by (simp_all add: woken_def ready_fields)

lemma woken_fields:
  assumes "tasks_fit ts k" "t \<in> ts" "u \<in> ts"
  shows "task_list (woken P t k) u = (if u = t \<and> uxSchedulerSuspended k = 0 then ready_list P k t else task_list k u)"
    "event_list (woken P t k) u = (if u = t \<and> uxSchedulerSuspended k \<noteq> 0 then xPendingReadyList P else event_list k u)"
    "wake_time (woken P t k) u = wake_time k u"
  using move_fields(1-3,7-9) [where P = P, OF assms] by (cases "uxSchedulerSuspended k = 0"; simp add: woken_def)+

lemma run_cong:
  "lists k' = lists k \<Longrightarrow> uxPriority k' = uxPriority k \<Longrightarrow> pxDelayedTaskList k' = pxDelayedTaskList k \<Longrightarrow>
    pxOverflowDelayedTaskList k' = pxOverflowDelayedTaskList k \<Longrightarrow> uxTopReadyPriority k' = uxTopReadyPriority k \<Longrightarrow>
    pxCurrentTCB k' = pxCurrentTCB k \<Longrightarrow> xTickCount k' = xTickCount k \<Longrightarrow> xNextTaskUnblockTime k' = xNextTaskUnblockTime k \<Longrightarrow>
    uxCurrentNumberOfTasks k' = uxCurrentNumberOfTasks k \<Longrightarrow>
    run_ok P evls ts idle C k' \<longleftrightarrow> run_ok P evls ts idle C k"
  using kernel_ok_cong [of k' k]
  by (simp add: run_ok_def lists_run_def timed_ok_def calm_def task_list_def task_ready_def event_list_def wake_time_def)

lemma run_woken:
  assumes "lists_run P evls ts C k" "timed_ok ts k" "calm P ts idle k" "t \<in> ts" "\<not> task_ready P k t \<or> uxSchedulerSuspended k = 0"
    and "event_list k t = 0"
  obtains C' where "run_ok P evls ts idle C' (woken P t k)"
proof -
  note D = lists_runD [OF assms(1)] and I = calmD [OF assms(3)]
  have p: "uxPriority k t < 5" by (rule tasks_fitD(2) [OF D(5) assms(4)])
  note F = woken_fields [OF D(5) assms(4)] and apart = delayed_apart [OF D(2)]
  obtain C' where "lists_run P evls ts C' (woken P t k)"
  proof (cases "uxSchedulerSuspended k = 0")
    case True
    obtain C' where "lists_run P evls ts C' (to_ready P t k)" by (rule run_to_ready [OF assms(1,4)])
    with True that show ?thesis by (simp add: woken_def)
  next
    case False
    obtain C' where "lists_run P evls ts C' (to_pending P t k)" by (rule run_to_pending [OF assms(1,4,6)])
    with False that show ?thesis by (simp add: woken_def)
  qed
  moreover have "timed_ok ts (woken P t k)"
    using assms(2) F(1,3) apart(3) [OF p] by (simp add: timed_ok_def ready_list_def)
  moreover have "calm P ts idle (woken P t k)"
    using I F(1,2) assms(5,6) by (auto simp: calm_def task_ready_def ready_list_def)
  ultimately show ?thesis using that by (simp add: run_ok_def)
qed

text \<open>The first item of an event list belongs to a waiting task of the highest priority.\<close>

lemma first_waiting:
  assumes "run_ok P evls ts idle C k" "l \<in> evls" "C l = Some (x # xs)"
  obtains t where "t \<in> ts" "x = xEventListItem t" "listGET_OWNER_OF_HEAD_ENTRY l (lists k) = t" "event_list k t = l"
    "\<not> task_ready P k t" "t \<noteq> 0" "\<And>u. u \<in> ts \<Longrightarrow> event_list k u = l \<Longrightarrow> uxPriority k u \<le> uxPriority k t"
proof -
  note R = run_okD [OF assms(1)]
  note D = lists_runD [OF R(1)] and I = calmD [OF R(3)]
  note ok = lists_okD [OF D(2)] and E = event_lists_of [OF D(3)]
  have "x \<in> items_of P ts k l" using ok(4) [OF assms(3)] by simp
  then obtain t where t: "t \<in> ts" "x = xEventListItem t" using E(2) [OF assms(2)] by (auto simp: items_of_def)
  have l: "event_list k t = l" "l \<noteq> 0"
    using event_item(3) [OF R(1) t(1) assms(3)] places(16) [OF D(4) assms(3)] t(2) by simp_all
  have "sorted_list P l" using E(2,3) [OF assms(2)] by (simp add: sorted_list_def)
  from ok(5) [OF assms(3) this] have s: "\<forall>y \<in> set xs. xItemValue (list_item (lists k) x) \<le> xItemValue (list_item (lists k) y)"
    by simp
  have "uxPriority k u \<le> uxPriority k t" if u: "u \<in> ts" "event_list k u = l" for u
  proof -
    have "xEventListItem u \<in> set (x # xs)" using event_item(2) [OF R(1) u(1)] u(2) l(2) assms(3) by simp
    then have "xItemValue (list_item (lists k) x) \<le> xItemValue (list_item (lists k) (xEventListItem u))" using s by auto
    then have "(of_nat (5 - uxPriority k t) :: u32) \<le> of_nat (5 - uxPriority k u)"
      using tasks_fitD(5) [OF D(5)] t u(1) by simp
    moreover have "unat (of_nat (5 - n) :: u32) = 5 - n" for n by (simp add: unsigned_of_nat take_bit_nat_eq_self)
    ultimately have "5 - uxPriority k t \<le> 5 - uxPriority k u" by (simp add: word_le_nat_alt)
    then show ?thesis using tasks_fitD(2) [OF D(5) t(1)] tasks_fitD(2) [OF D(5) u(1)] by linarith
  qed
  then show ?thesis
    using that [OF t] head_owner [OF ok(1) assms(3)] tasks_fitD(1,4) [OF D(5) t(1)] t(2) l I(1) [OF t(1)] by auto
qed

lemma off_event_calm:
  assumes "lists_run P evls ts C k" "t \<in> ts" "\<not> task_ready P k t"
  shows "timed_ok ts k \<Longrightarrow> timed_ok ts (off_event t k)" "calm P ts idle k \<Longrightarrow> calm P ts idle (off_event t k)"
proof -
  note D = lists_runD [OF assms(1)]
  note F = move_fields(4-6) [OF D(5) assms(2)]
  show "timed_ok ts k \<Longrightarrow> timed_ok ts (off_event t k)" using F by (simp add: timed_ok_def)
  show "calm P ts idle k \<Longrightarrow> calm P ts idle (off_event t k)" using F by (simp add: calm_def task_ready_def)
qed

lemma run_wake_event:
  assumes "run_ok P evls ts idle C k" "l \<in> evls" "C l = Some (x # xs)"
  obtains C' k' t where "xTaskRemoveFromEventList P l k = Some (uxPriority k (pxCurrentTCB k) < uxPriority k t, k')"
    "run_ok P evls ts idle C' k'" "t \<in> ts" "event_list k t = l"
    "\<And>u. u \<in> ts \<Longrightarrow> event_list k u = l \<Longrightarrow> uxPriority k u \<le> uxPriority k t"
    "\<And>u. u \<in> ts \<Longrightarrow> task_list k' u = (if u = t \<and> uxSchedulerSuspended k = 0 then ready_list P k t else task_list k u)"
    "uxSchedulerSuspended k' = uxSchedulerSuspended k" "uxPriority k' = uxPriority k" "pxCurrentTCB k' = pxCurrentTCB k"
    "\<And>u. u \<in> ts \<Longrightarrow> u \<noteq> t \<Longrightarrow> event_list k' u = event_list k u"
proof -
  note R = run_okD [OF assms(1)]
  note D = lists_runD [OF R(1)]
  obtain t where t: "t \<in> ts" "x = xEventListItem t" "listGET_OWNER_OF_HEAD_ENTRY l (lists k) = t" "event_list k t = l"
    "\<not> task_ready P k t" "t \<noteq> 0" "\<And>u. u \<in> ts \<Longrightarrow> event_list k u = l \<Longrightarrow> uxPriority k u \<le> uxPriority k t"
    by (rule first_waiting [OF assms]) blast
  have l: "event_list k t \<noteq> 0" using t(4) places(16) [OF D(4) assms(3)] by simp
  let ?k1 = "off_event t k"
  obtain C1 where 1: "lists_run P evls ts C1 ?k1" by (rule run_off_event [OF R(1) t(1) l])
  note F = move_fields [OF D(5) t(1)] and D1 = lists_runD [OF 1]
  note calm = off_event_calm(1,2) [OF R(1) t(1,5)]
  have nr: "\<not> task_ready P ?k1 t \<or> uxSchedulerSuspended ?k1 = 0" "event_list ?k1 t = 0" using t(1,5) F(4,5) by (simp_all add: task_ready_def)
  obtain C' where C': "run_ok P evls ts idle C' (woken P t ?k1)"
    by (rule run_woken [OF 1 calm(1) [OF R(2)] calm(2) [OF R(3)] t(1) nr])
  define k' where "k' = (if uxPriority k (pxCurrentTCB k) < uxPriority k t then (woken P t ?k1)\<lparr>xYieldPending := True\<rparr> else woken P t ?k1)"
  have "xTaskRemoveFromEventList P l k = Some (uxPriority k (pxCurrentTCB k) < uxPriority k t, k')"
    using t(3,6) by (simp add: xTaskRemoveFromEventList_def Let_def k'_def woken_def)
  moreover have "run_ok P evls ts idle C' k'" using C' by (subst run_cong [of _ "woken P t ?k1"]) (simp_all add: k'_def)
  moreover have "task_list k' u = (if u = t \<and> uxSchedulerSuspended k = 0 then ready_list P k t else task_list k u)" if "u \<in> ts" for u
  proof -
    have "task_list k' u = task_list (woken P t ?k1) u" by (simp add: k'_def task_list_def)
    then show ?thesis using woken_fields(1) [OF D1(5) t(1) that] F(4) [OF that] by (simp add: ready_list_def)
  qed
  moreover have "event_list k' u = event_list k u" if "u \<in> ts" "u \<noteq> t" for u
  proof -
    have "event_list k' u = event_list (woken P t ?k1) u" by (simp add: k'_def event_list_def)
    then show ?thesis using woken_fields(2) [OF D1(5) t(1) that(1)] F(5) [OF that(1)] that(2) by simp
  qed
  ultimately show ?thesis using t by (intro that [where t = t and k' = k']) (simp_all add: k'_def)
qed

lemma run_notify:
  assumes "run_ok P evls ts idle C k" "t \<in> ts" "\<not> task_ready P k t \<or> uxSchedulerSuspended k = 0" "event_list k t = 0"
  obtains C' k' where "wake_notified P t k = Some k'" "run_ok P evls ts idle C' k'"
    "\<And>u. u \<in> ts \<Longrightarrow> task_list k' u = (if u = t \<and> uxSchedulerSuspended k = 0 then ready_list P k t else task_list k u)"
    "uxSchedulerSuspended k' = uxSchedulerSuspended k" "uxPriority k' = uxPriority k" "pxCurrentTCB k' = pxCurrentTCB k"
    "\<And>u. u \<in> ts \<Longrightarrow> event_list k' u = (if u = t \<and> uxSchedulerSuspended k \<noteq> 0 then xPendingReadyList P else event_list k u)"
proof -
  note R = run_okD [OF assms(1)]
  note D = lists_runD [OF R(1)]
  obtain C' where C': "run_ok P evls ts idle C' (woken P t k)" by (rule run_woken [OF R(1-3) assms(2-4)])
  define k' where "k' = (if uxPriority k (pxCurrentTCB k) < uxPriority k t then (woken P t k)\<lparr>xYieldPending := True\<rparr> else woken P t k)"
  have "wake_notified P t k = Some k'"
    using assms(4) by (simp add: wake_notified_def Let_def k'_def woken_def event_list_def)
  moreover have "run_ok P evls ts idle C' k'" using C' by (subst run_cong [of _ "woken P t k"]) (simp_all add: k'_def)
  moreover have "task_list k' u = (if u = t \<and> uxSchedulerSuspended k = 0 then ready_list P k t else task_list k u)"
    "event_list k' u = (if u = t \<and> uxSchedulerSuspended k \<noteq> 0 then xPendingReadyList P else event_list k u)" if "u \<in> ts" for u
  proof -
    have "task_list k' u = task_list (woken P t k) u" "event_list k' u = event_list (woken P t k) u"
      by (simp_all add: k'_def task_list_def event_list_def)
    then show "task_list k' u = (if u = t \<and> uxSchedulerSuspended k = 0 then ready_list P k t else task_list k u)"
      "event_list k' u = (if u = t \<and> uxSchedulerSuspended k \<noteq> 0 then xPendingReadyList P else event_list k u)"
      using woken_fields(1,2) [OF D(5) assms(2) that] by simp_all
  qed
  ultimately show ?thesis by (intro that [where k' = k']) (simp_all add: k'_def)
qed

end
