(* ===== verification/Rtos_Sched_Tick.thy ===== *)
theory Rtos_Sched_Tick
  imports Rtos_Sched_Wake
begin

text \<open>
  The tick and the resumption of the scheduler: which tasks they wake, that no tick is lost while the scheduler is suspended, and that
  the invariant of runs is kept.
\<close>

section \<open>Two removals\<close>

lemma remove_fields:
  assumes "pxNext (list_item m x) \<noteq> x" "pxPrevious (list_item m x) \<noteq> x"
  shows "pxNext (list_item (snd (uxListRemove x m)) z) =
      (if z = pxPrevious (list_item m x) then pxNext (list_item m x) else pxNext (list_item m z))"
    "pxPrevious (list_item (snd (uxListRemove x m)) z) =
      (if z = pxNext (list_item m x) then pxPrevious (list_item m x) else pxPrevious (list_item m z))"
    "list_head (snd (uxListRemove x m)) j =
      (if j = pxContainer (list_item m x)
       then \<lparr>uxNumberOfItems = uxNumberOfItems (list_head m j) - 1,
              pxIndex = if pxIndex (list_head m j) = x then pxPrevious (list_item m x) else pxIndex (list_head m j)\<rparr>
       else list_head m j)"
  using assms by (auto simp: uxListRemove_def Let_def)

lemma remove_commute:
  assumes "lists_are m C" "C l = Some xs" "x \<in> set xs" "C l' = Some ys" "y \<in> set ys" "l \<noteq> l'"
  shows "snd (uxListRemove x (snd (uxListRemove y m))) = snd (uxListRemove y (snd (uxListRemove x m)))"
proof -
  have around: "z \<in> nodes j zs \<and> pxNext (list_item m z) \<in> nodes j zs \<and> pxPrevious (list_item m z) \<in> nodes j zs \<and>
      pxContainer (list_item m z) = j \<and> pxNext (list_item m z) \<noteq> z \<and> pxPrevious (list_item m z) \<noteq> z"
    if j: "C j = Some zs" "z \<in> set zs" for z j zs
  proof -
    obtain as bs where zs: "zs = as @ z # bs" using split_list [OF j(2)] by blast
    have L: "list_is m j (as @ z # bs)" using lists_areD [OF assms(1) j(1)] zs by simp
    have "last (xListEnd j # as) \<in> set (xListEnd j # as)" "hd (bs @ [xListEnd j]) \<in> set (bs @ [xListEnd j])"
      using last_in_set [of "xListEnd j # as"] hd_in_set [of "bs @ [xListEnd j]"] by simp_all
    then show ?thesis using list_is_neighbours [OF L] list_isD(1) [OF L] list_isD(3) [OF L, of z] zs by auto
  qed
  have d: "a \<noteq> b" if "a \<in> nodes l xs" "b \<in> nodes l' ys" for a b
    using assms that unfolding lists_are_def by blast
  note X = around [OF assms(2,3)] and Y = around [OF assms(4,5)]
  let ?A = "snd (uxListRemove x m)" and ?B = "snd (uxListRemove y m)"
  have ne: "x \<noteq> y" "x \<noteq> pxNext (list_item m y)" "x \<noteq> pxPrevious (list_item m y)" "y \<noteq> pxNext (list_item m x)"
    "y \<noteq> pxPrevious (list_item m x)" "pxNext (list_item m x) \<noteq> pxNext (list_item m y)"
    "pxPrevious (list_item m x) \<noteq> pxPrevious (list_item m y)"
    using d X Y by metis+
  note Fx = remove_fields [of m x] and Fy = remove_fields [of m y]
  have Bx: "pxNext (list_item ?B x) = pxNext (list_item m x)" "pxPrevious (list_item ?B x) = pxPrevious (list_item m x)"
    using Fy(1,2) [of x] Y ne by simp_all
  have Ay: "pxNext (list_item ?A y) = pxNext (list_item m y)" "pxPrevious (list_item ?A y) = pxPrevious (list_item m y)"
    using Fx(1,2) [of y] X ne by simp_all
  note Gx = remove_fields [of ?B x, unfolded Bx] and Gy = remove_fields [of ?A y, unfolded Ay]
  show ?thesis
  proof (rule list_store.equality)
    show "list_item (snd (uxListRemove x ?B)) = list_item (snd (uxListRemove y ?A))"
    proof
      fix z show "list_item (snd (uxListRemove x ?B)) z = list_item (snd (uxListRemove y ?A)) z"
        by (rule ListItem_t.equality) (use X Y ne in \<open>simp_all add: Gx Gy Fx Fy\<close>)
    qed
    show "list_head (snd (uxListRemove x ?B)) = list_head (snd (uxListRemove y ?A))"
    proof
      fix j show "list_head (snd (uxListRemove x ?B)) j = list_head (snd (uxListRemove y ?A)) j"
        using X Y ne assms(6) by (simp add: Gx Gy Fx Fy)
    qed
  qed simp
qed

section \<open>Tasks whose time has come\<close>

text \<open>A task leaves the event list that it waits on, if there is one, and becomes ready.\<close>

definition roused :: "kernel_places \<Rightarrow> u32 \<Rightarrow> kernel \<Rightarrow> kernel" where
  "roused P t k = to_ready P t (if event_list k t \<noteq> 0 then off_event t k else k)"

lemma roused_frame [simp]:
  "uxPriority (roused P t k) = uxPriority k" "pxCurrentTCB (roused P t k) = pxCurrentTCB k" "xTickCount (roused P t k) = xTickCount k"
  "uxSchedulerSuspended (roused P t k) = uxSchedulerSuspended k" "pxDelayedTaskList (roused P t k) = pxDelayedTaskList k"
  "pxOverflowDelayedTaskList (roused P t k) = pxOverflowDelayedTaskList k" "xPendedTicks (roused P t k) = xPendedTicks k"
  "xNextTaskUnblockTime (roused P t k) = xNextTaskUnblockTime k" "uxCurrentNumberOfTasks (roused P t k) = uxCurrentNumberOfTasks k"
  by (simp_all add: roused_def ready_fields)

lemma run_roused:
  assumes "lists_run P evls ts C k" "calm P ts idle k" "t \<in> ts"
  obtains C' where "lists_run P evls ts C' (roused P t k)" "calm P ts idle (roused P t k)"
    "\<And>u. u \<in> ts \<Longrightarrow> task_list (roused P t k) u = (if u = t then ready_list P k t else task_list k u)"
    "\<And>u. u \<in> ts \<Longrightarrow> event_list (roused P t k) u = (if u = t then 0 else event_list k u)"
    "\<And>u. u \<in> ts \<Longrightarrow> wake_time (roused P t k) u = wake_time k u"
proof -
  note I = calmD [OF assms(2)]
  define k1 where "k1 = (if event_list k t \<noteq> 0 then off_event t k else k)"
  obtain C1 where 1: "lists_run P evls ts C1 k1"
    unfolding k1_def
  proof (cases "event_list k t = 0")
    case True
    with assms(1) that show ?thesis by (auto simp: k1_def)
  next
    case False
    obtain C1 where "lists_run P evls ts C1 (off_event t k)" by (rule run_off_event [OF assms(1,3) False])
    with False that show ?thesis by (simp add: k1_def)
  qed
  note D = lists_runD [OF assms(1)] and D1 = lists_runD [OF 1]
  obtain C' where C': "lists_run P evls ts C' (to_ready P t k1)" by (rule run_to_ready [OF 1 assms(3)])
  have k': "roused P t k = to_ready P t k1" by (simp add: roused_def k1_def)
  have prio: "uxPriority k1 = uxPriority k" "pxCurrentTCB k1 = pxCurrentTCB k" by (simp_all add: k1_def)
  have F1: "task_list k1 u = task_list k u" "event_list k1 u = (if u = t then 0 else event_list k u)" "wake_time k1 u = wake_time k u"
    if "u \<in> ts" for u using move_fields(4-6) [OF D(5) assms(3) that] by (auto simp: k1_def)
  have F: "task_list (roused P t k) u = (if u = t then ready_list P k t else task_list k u)"
    "event_list (roused P t k) u = (if u = t then 0 else event_list k u)" "wake_time (roused P t k) u = wake_time k u"
    if "u \<in> ts" for u
    using move_fields(1-3) [OF D1(5) assms(3) that, of P] F1 [OF that] prio by (simp_all add: k' ready_list_def)
  have "calm P ts idle (roused P t k)"
    using I F prio by (auto simp: calm_def task_ready_def ready_list_def)
  with C' F show ?thesis by (intro that [of C']) (simp_all add: k')
qed

definition due :: "kernel \<Rightarrow> u32 \<Rightarrow> bool" where
  "due k u \<longleftrightarrow> task_list k u = pxDelayedTaskList k \<and> wake_time k u \<le> xTickCount k"

lemma delayed_items:
  assumes "lists_run P evls ts C k" "C (pxDelayedTaskList k) = Some xs" "u \<in> ts"
  shows "task_list k u = pxDelayedTaskList k \<longleftrightarrow> xStateListItem u \<in> set xs"
  using task_list_iff [OF lists_runD(1) [OF assms(1)] assms(3,2)] delayed_lists(2) [OF lists_runD(2) [OF assms(1)]] by blast

lemma first_delayed:
  assumes "lists_run P evls ts C k" "C (pxDelayedTaskList k) = Some (x # xs)"
  obtains t where "t \<in> ts" "x = xStateListItem t" "listGET_OWNER_OF_HEAD_ENTRY (pxDelayedTaskList k) (lists k) = t"
    "task_list k t = pxDelayedTaskList k" "listGET_ITEM_VALUE_OF_HEAD_ENTRY (pxDelayedTaskList k) (lists k) = wake_time k t"
    "\<And>u. u \<in> ts \<Longrightarrow> task_list k u = pxDelayedTaskList k \<Longrightarrow> wake_time k t \<le> wake_time k u"
proof -
  note D = lists_runD [OF assms(1)]
  note ok = lists_okD [OF D(2)] and dl = delayed_lists [OF D(2), of "pxDelayedTaskList k"]
  have "x \<in> xStateListItem ` ts" using ok(4) [OF assms(2)] dl(7) by auto
  then obtain t where t: "t \<in> ts" "x = xStateListItem t" by blast
  have "sorted_list P (pxDelayedTaskList k)" using dl(1) by (auto simp: sorted_list_def)
  from ok(5) [OF assms(2) this] have s: "\<forall>y \<in> set xs. xItemValue (list_item (lists k) x) \<le> xItemValue (list_item (lists k) y)" by simp
  have "wake_time k t \<le> wake_time k u" if u: "u \<in> ts" "task_list k u = pxDelayedTaskList k" for u
    using delayed_items [OF assms u(1)] u(2) s t(2) by (auto simp: wake_time_def)
  moreover have "listGET_ITEM_VALUE_OF_HEAD_ENTRY (pxDelayedTaskList k) (lists k) = wake_time k t"
    using list_is_gap(1) [of "lists k" "pxDelayedTaskList k" "[]" "x # xs"] lists_areD [OF ok(1) assms(2)] t(2)
    by (simp add: listGET_ITEM_VALUE_OF_HEAD_ENTRY_def wake_time_def)
  ultimately show ?thesis
    using that [OF t] head_owner [OF ok(1) assms(2)] tasks_fitD(3) [OF D(5) t(1)] t delayed_items [OF assms t(1)] by auto
qed

lemma run_next:
  "lists_run P evls ts C (k\<lparr>xNextTaskUnblockTime := v\<rparr>) \<longleftrightarrow> lists_run P evls ts C k"
  "calm P ts idle (k\<lparr>xNextTaskUnblockTime := v\<rparr>) \<longleftrightarrow> calm P ts idle k"
  "task_list (k\<lparr>xNextTaskUnblockTime := v\<rparr>) = task_list k" "event_list (k\<lparr>xNextTaskUnblockTime := v\<rparr>) = event_list k"
  "wake_time (k\<lparr>xNextTaskUnblockTime := v\<rparr>) = wake_time k"
  using kernel_ok_cong [of "k\<lparr>xNextTaskUnblockTime := v\<rparr>" k]
  by (simp_all add: lists_run_def calm_def task_list_def task_ready_def event_list_def wake_time_def fun_eq_iff)

lemma unblock_step:
  assumes "lists_run P evls ts C k" "C (pxDelayedTaskList k) = Some (x # xs)" "t \<in> ts"
    and "listGET_OWNER_OF_HEAD_ENTRY (pxDelayedTaskList k) (lists k) = t" "task_list k t = pxDelayedTaskList k"
  shows "unblock_loop P k =
    (if xTickCount k < wake_time k t then Some (k\<lparr>xNextTaskUnblockTime := wake_time k t\<rparr>) else unblock_loop P (roused P t k))"
proof -
  note D = lists_runD [OF assms(1)]
  note ok = lists_okD [OF D(2)] and dl = delayed_lists [OF D(2), of "pxDelayedTaskList k"]
  have ne: "\<not> listLIST_IS_EMPTY (pxDelayedTaskList k) (lists k)" using empty_list [OF ok(1) assms(2)] by simp
  have x: "xStateListItem t \<in> set (x # xs)" using delayed_items [OF assms(1-3)] assms(5) by simp
  have comm: "snd (uxListRemove (xEventListItem t) (snd (uxListRemove (xStateListItem t) (lists k)))) =
      snd (uxListRemove (xStateListItem t) (snd (uxListRemove (xEventListItem t) (lists k))))" if e: "event_list k t \<noteq> 0"
  proof -
    obtain ys where ys: "C (event_list k t) = Some ys" "xEventListItem t \<in> set ys" "event_list k t \<notin> set (state_lists P)"
      using event_item(2) [OF assms(1,3) e] by blast
    then have "event_list k t \<noteq> pxDelayedTaskList k" using dl(2) by auto
    then show ?thesis by (rule remove_commute [OF ok(1) ys(1,2) assms(2) x])
  qed
  show ?thesis
    unfolding unblock_loop.simps [of P k] using ne comm assms(4) items_apart [OF D(5) assms(3,3)]
    by (simp add: Let_def event_list_def roused_def wake_time_def)
qed

lemma fewer_delayed:
  assumes "\<And>u. u \<in> ts \<Longrightarrow> task_list (roused P t k) u = (if u = t then ready_list P k t else task_list k u)"
    and "ready_list P k t \<noteq> pxDelayedTaskList k" "t \<in> ts" "task_list k t = pxDelayedTaskList k"
  shows "card {u \<in> ts. task_list (roused P t k) u = pxDelayedTaskList (roused P t k)} < card {u \<in> ts. task_list k u = pxDelayedTaskList k}"
proof -
  have left: "task_list (roused P t k) u = pxDelayedTaskList (roused P t k) \<longleftrightarrow> u \<noteq> t \<and> task_list k u = pxDelayedTaskList k"
    if "u \<in> ts" for u using assms(1) [OF that] assms(2) by simp
  have "{u \<in> ts. task_list (roused P t k) u = pxDelayedTaskList (roused P t k)} \<subseteq> {u \<in> ts. task_list k u = pxDelayedTaskList k}"
    using left by blast
  moreover have "{u \<in> ts. task_list (roused P t k) u = pxDelayedTaskList (roused P t k)} \<noteq> {u \<in> ts. task_list k u = pxDelayedTaskList k}"
    using left [OF assms(3)] assms(3,4) by blast
  ultimately show ?thesis by (intro psubset_card_mono) auto
qed

lemma unblock_run:
  assumes "lists_run P evls ts C k" "calm P ts idle k"
  shows "\<exists>C' k'. unblock_loop P k = Some k' \<and> run_ok P evls ts idle C' k' \<and> same_frame k k' \<and>
    (\<forall>u \<in> ts. task_list k' u = (if due k u then ready_list P k u else task_list k u) \<and>
       event_list k' u = (if due k u then 0 else event_list k u) \<and> wake_time k' u = wake_time k u)"
  using assms
proof (induction "card {u \<in> ts. task_list k u = pxDelayedTaskList k}" arbitrary: k C rule: less_induct)
  case less
  note D = lists_runD [OF less.prems(1)]
  note ok = lists_okD [OF D(2)]
  obtain xs where xs: "C (pxDelayedTaskList k) = Some xs" using delayed_lists(4) [OF D(2)] by blast
  show ?case
  proof (cases xs)
    case Nil
    have none: "task_list k u \<noteq> pxDelayedTaskList k" if "u \<in> ts" for u using delayed_items [OF less.prems(1) xs that] Nil by simp
    have "unblock_loop P k = Some (k\<lparr>xNextTaskUnblockTime := portMAX_DELAY\<rparr>)"
      using empty_list [OF ok(1) xs] Nil by (simp add: unblock_loop.simps)
    with none less.prems show ?thesis
      by (intro exI [of _ C] exI [of _ "k\<lparr>xNextTaskUnblockTime := portMAX_DELAY\<rparr>"])
        (simp add: run_ok_def run_next timed_ok_def due_def same_frame_def)
  next
    case (Cons x rest)
    obtain t where t: "t \<in> ts" "listGET_OWNER_OF_HEAD_ENTRY (pxDelayedTaskList k) (lists k) = t" "task_list k t = pxDelayedTaskList k"
      "\<And>u. u \<in> ts \<Longrightarrow> task_list k u = pxDelayedTaskList k \<Longrightarrow> wake_time k t \<le> wake_time k u"
      by (rule first_delayed [OF less.prems(1) xs [unfolded Cons]]) blast
    note step = unblock_step [OF less.prems(1) xs [unfolded Cons] t(1-3)]
    show ?thesis
    proof (cases "xTickCount k < wake_time k t")
      case True
      then have "\<not> due k u" if "u \<in> ts" for u using t(4) [OF that] by (auto simp: due_def)
      with True step less.prems t(4) show ?thesis
        by (intro exI [of _ C] exI [of _ "k\<lparr>xNextTaskUnblockTime := wake_time k t\<rparr>"])
          (auto simp: run_ok_def run_next timed_ok_def same_frame_def intro: less_le_trans)
    next
      case False
      obtain C1 where k1: "lists_run P evls ts C1 (roused P t k)" "calm P ts idle (roused P t k)"
        "\<And>u. u \<in> ts \<Longrightarrow> task_list (roused P t k) u = (if u = t then ready_list P k t else task_list k u)"
        "\<And>u. u \<in> ts \<Longrightarrow> event_list (roused P t k) u = (if u = t then 0 else event_list k u)"
        "\<And>u. u \<in> ts \<Longrightarrow> wake_time (roused P t k) u = wake_time k u"
        by (rule run_roused [OF less.prems t(1)]) blast
      have out: "ready_list P k t \<noteq> pxDelayedTaskList k"
        using delayed_apart(3) [OF D(2) tasks_fitD(2) [OF D(5) t(1)]] by (simp add: ready_list_def)
      have "card {u \<in> ts. task_list (roused P t k) u = pxDelayedTaskList (roused P t k)} < card {u \<in> ts. task_list k u = pxDelayedTaskList k}"
        by (rule fewer_delayed [OF k1(3) out t(1,3)])
      from less.hyps [OF this k1(1,2)] obtain C' k' where k': "unblock_loop P (roused P t k) = Some k'" "run_ok P evls ts idle C' k'"
        "same_frame (roused P t k) k'"
        "\<forall>u \<in> ts. task_list k' u = (if due (roused P t k) u then ready_list P (roused P t k) u else task_list (roused P t k) u) \<and>
          event_list k' u = (if due (roused P t k) u then 0 else event_list (roused P t k) u) \<and>
          wake_time k' u = wake_time (roused P t k) u" by blast
      have due: "due k t" "due (roused P t k) u \<longleftrightarrow> u \<noteq> t \<and> due k u" if "u \<in> ts" for u
        using False t(3) k1(3,5) [OF that] out by (auto simp: due_def)
      have "same_frame k k'" using k'(3) by (simp add: same_frame_def)
      moreover have "ready_list P (roused P t k) u = ready_list P k u" for u by (simp add: ready_list_def)
      ultimately show ?thesis using step False k' due k1(3-5) by (intro exI [of _ C'] exI [of _ k']) auto
    qed
  qed
qed

section \<open>A tick\<close>

lemma reset_next:
  assumes "lists_run P evls ts C k" "u \<in> ts" "task_list k u = pxDelayedTaskList k"
  shows "xNextTaskUnblockTime (prvResetNextTaskUnblockTime k) \<le> wake_time k u"
proof -
  note ok = lists_okD [OF lists_runD(2) [OF assms(1)]]
  obtain xs where xs: "C (pxDelayedTaskList k) = Some xs" using delayed_lists(4) [OF lists_runD(2) [OF assms(1)]] by blast
  then obtain x rest where Cons: "xs = x # rest" using delayed_items [OF assms(1) xs assms(2)] assms(3) by (cases xs) auto
  obtain t where "listGET_ITEM_VALUE_OF_HEAD_ENTRY (pxDelayedTaskList k) (lists k) = wake_time k t"
    "\<And>u. u \<in> ts \<Longrightarrow> task_list k u = pxDelayedTaskList k \<Longrightarrow> wake_time k t \<le> wake_time k u"
    by (rule first_delayed [OF assms(1) xs [unfolded Cons]]) blast
  then show ?thesis using assms(2,3) empty_list [OF ok(1) xs] Cons by (simp add: prvResetNextTaskUnblockTime_def)
qed

text \<open>The check whether a time has come, and the wakes if so.\<close>

lemma tick_check:
  assumes "lists_run P evls ts C k" "calm P ts idle k"
    and "\<And>u. u \<in> ts \<Longrightarrow> task_list k u = pxDelayedTaskList k \<Longrightarrow> xNextTaskUnblockTime k \<le> wake_time k u"
  shows "\<exists>C' k'. (if xTickCount k \<ge> xNextTaskUnblockTime k then unblock_loop P k else Some k) = Some k' \<and>
    run_ok P evls ts idle C' k' \<and> same_frame k k' \<and>
    (\<forall>u \<in> ts. task_list k' u = (if due k u then ready_list P k u else task_list k u) \<and>
       event_list k' u = (if due k u then 0 else event_list k u) \<and> wake_time k' u = wake_time k u)"
proof (cases "xTickCount k \<ge> xNextTaskUnblockTime k")
  case True
  with unblock_run [OF assms(1,2)] show ?thesis by simp
next
  case False
  have "\<not> due k u" if "u \<in> ts" for u using False assms(3) [OF that] by (auto simp: due_def)
  moreover have "timed_ok ts k" using False assms(3) by (auto simp: timed_ok_def not_le intro: less_le_trans)
  ultimately show ?thesis using False assms(1,2) by (intro exI [of _ C] exI [of _ k]) (simp add: run_ok_def same_frame_def)
qed

text \<open>The list of the tasks that a tick may wake: the lists change places when the count wraps round.\<close>

definition next_delayed :: "kernel \<Rightarrow> u32" where
  "next_delayed k = (if xTickCount k + 1 = 0 then pxOverflowDelayedTaskList k else pxDelayedTaskList k)"

definition tick_wakes :: "kernel \<Rightarrow> u32 \<Rightarrow> bool" where
  "tick_wakes k u \<longleftrightarrow> task_list k u = next_delayed k \<and> wake_time k u = xTickCount k + 1"

lemma last_tick: "(w :: u32) + 1 = 0 \<Longrightarrow> \<not> w < v"
  using le_portMAX_DELAY [of v] by (simp add: portMAX_DELAY_def eq_neg_iff_add_eq_0 [symmetric] not_less)

lemma next_tick: "(w :: u32) < v \<Longrightarrow> v \<le> w + 1 \<longleftrightarrow> v = w + 1"
  by (metis inc_le order_antisym order_refl)

lemma run_tick_count:
  assumes "run_ok P evls ts idle C k"
  shows "\<exists>k1. (if xTickCount k + 1 = 0 then taskSWITCH_DELAYED_LISTS (k\<lparr>xTickCount := xTickCount k + 1\<rparr>)
        else Some (k\<lparr>xTickCount := xTickCount k + 1\<rparr>)) = Some k1 \<and> lists_run P evls ts C k1 \<and> calm P ts idle k1 \<and>
      (\<forall>u \<in> ts. task_list k1 u = pxDelayedTaskList k1 \<longrightarrow> xNextTaskUnblockTime k1 \<le> wake_time k1 u) \<and>
      (\<forall>u \<in> ts. due k1 u \<longleftrightarrow> tick_wakes k u) \<and> task_list k1 = task_list k \<and> event_list k1 = event_list k \<and> wake_time k1 = wake_time k \<and>
      xTickCount k1 = xTickCount k + 1 \<and> pxCurrentTCB k1 = pxCurrentTCB k \<and> uxPriority k1 = uxPriority k \<and>
      uxSchedulerSuspended k1 = uxSchedulerSuspended k \<and> xPendedTicks k1 = xPendedTicks k \<and> pxDelayedTaskList k1 = next_delayed k \<and>
      {pxDelayedTaskList k1, pxOverflowDelayedTaskList k1} = {pxDelayedTaskList k, pxOverflowDelayedTaskList k}"
proof -
  note R = run_okD [OF assms]
  note ok = lists_okD [OF R(5)]
  let ?k = "k\<lparr>xTickCount := xTickCount k + 1\<rparr>"
  obtain xs where xs: "C (pxDelayedTaskList k) = Some xs" using delayed_lists(4) [OF R(5)] by blast
  show ?thesis
  proof (cases "xTickCount k + 1 = 0")
    case True
    have "task_list k u \<noteq> pxDelayedTaskList k" if "u \<in> ts" for u using R(2) last_tick [OF True] that by (auto simp: timed_ok_def)
    then have none: "xStateListItem u \<notin> set xs" if "u \<in> ts" for u using delayed_items [OF R(1) xs that] that by blast
    have "xs = []"
    proof (cases xs)
      case (Cons x rest)
      obtain t where "t \<in> ts" "x = xStateListItem t" by (rule first_delayed [OF R(1) xs [unfolded Cons]])
      with none Cons show ?thesis by auto
    qed
    then have empty: "listLIST_IS_EMPTY (pxDelayedTaskList k) (lists k)" using empty_list [OF ok(1) xs] by simp
    let ?k1 = "?k\<lparr>pxDelayedTaskList := pxOverflowDelayedTaskList k, pxOverflowDelayedTaskList := pxDelayedTaskList k,
        xNumOfOverflows := xNumOfOverflows k + 1\<rparr>"
    have "items_of P ts ?k1 = items_of P ts k" "tasks_fit ts ?k1 = tasks_fit ts k" by (simp_all add: items_of_def tasks_fit_def fun_eq_iff)
    then have "lists_ok P ts C ?k1" using R(5) unfolding lists_ok_def by (simp add: insert_commute)
    then have L1: "lists_run P evls ts C ?k1" using R(1) by (simp add: lists_run_def kernel_ok_def)
    have C1: "calm P ts idle ?k1" using R(3) by (simp add: calm_def task_ready_def task_list_def event_list_def)
    have view: "task_list ?k1 = task_list k" "event_list ?k1 = event_list k" "wake_time ?k1 = wake_time k"
      by (simp_all add: task_list_def event_list_def wake_time_def fun_eq_iff)
    have "prvResetNextTaskUnblockTime ?k1 = ?k1\<lparr>xNextTaskUnblockTime := xNextTaskUnblockTime (prvResetNextTaskUnblockTime ?k1)\<rparr>"
      by (simp add: prvResetNextTaskUnblockTime_def)
    then obtain v where v: "prvResetNextTaskUnblockTime ?k1 = ?k1\<lparr>xNextTaskUnblockTime := v\<rparr>"
      "v = xNextTaskUnblockTime (prvResetNextTaskUnblockTime ?k1)" by blast
    have le: "v \<le> wake_time k u" if "u \<in> ts" "task_list k u = pxOverflowDelayedTaskList k" for u
      using reset_next [OF L1 that(1)] that(2) view v(2) by simp
    have "taskSWITCH_DELAYED_LISTS ?k = Some (?k1\<lparr>xNextTaskUnblockTime := v\<rparr>)"
      using empty v(1) by (simp add: taskSWITCH_DELAYED_LISTS_def)
    with True L1 C1 le view show ?thesis
      by (simp add: run_next due_def tick_wakes_def next_delayed_def insert_commute)
  next
    case False
    have "wake_time k u \<le> xTickCount k + 1 \<longleftrightarrow> wake_time k u = xTickCount k + 1" if "u \<in> ts" "task_list k u = pxDelayedTaskList k" for u
      using R(2) that next_tick by (simp add: timed_ok_def)
    moreover have "lists_run P evls ts C ?k" "calm P ts idle ?k"
      using R(1,3) kernel_ok_cong [of ?k k] by (simp_all add: lists_run_def calm_def task_ready_def task_list_def event_list_def)
    moreover have "task_list ?k = task_list k" "event_list ?k = event_list k" "wake_time ?k = wake_time k"
      by (simp_all add: task_list_def event_list_def wake_time_def fun_eq_iff)
    ultimately show ?thesis using False R(2) by (auto simp: due_def tick_wakes_def next_delayed_def timed_ok_def)
  qed
qed

lemma run_tick:
  assumes "run_ok P evls ts idle C k" "uxSchedulerSuspended k = 0"
  obtains C' k' where "xTaskIncrementTick P k = Some (False, k')" "run_ok P evls ts idle C' k'"
    "\<And>u. u \<in> ts \<Longrightarrow> task_list k' u = (if tick_wakes k u then ready_list P k u else task_list k u)"
    "\<And>u. u \<in> ts \<Longrightarrow> event_list k' u = (if tick_wakes k u then 0 else event_list k u)"
    "\<And>u. u \<in> ts \<Longrightarrow> wake_time k' u = wake_time k u"
    "xTickCount k' = xTickCount k + 1" "pxCurrentTCB k' = pxCurrentTCB k" "uxPriority k' = uxPriority k"
    "uxSchedulerSuspended k' = 0" "xPendedTicks k' = xPendedTicks k" "pxDelayedTaskList k' = next_delayed k"
    "{pxDelayedTaskList k', pxOverflowDelayedTaskList k'} = {pxDelayedTaskList k, pxOverflowDelayedTaskList k}"
proof -
  obtain k1 where k1: "(if xTickCount k + 1 = 0 then taskSWITCH_DELAYED_LISTS (k\<lparr>xTickCount := xTickCount k + 1\<rparr>)
        else Some (k\<lparr>xTickCount := xTickCount k + 1\<rparr>)) = Some k1" "lists_run P evls ts C k1" "calm P ts idle k1"
      "\<And>u. u \<in> ts \<Longrightarrow> task_list k1 u = pxDelayedTaskList k1 \<Longrightarrow> xNextTaskUnblockTime k1 \<le> wake_time k1 u"
      "\<And>u. u \<in> ts \<Longrightarrow> due k1 u \<longleftrightarrow> tick_wakes k u" "task_list k1 = task_list k" "event_list k1 = event_list k" "wake_time k1 = wake_time k"
      "xTickCount k1 = xTickCount k + 1" "pxCurrentTCB k1 = pxCurrentTCB k" "uxPriority k1 = uxPriority k"
      "uxSchedulerSuspended k1 = uxSchedulerSuspended k" "xPendedTicks k1 = xPendedTicks k" "pxDelayedTaskList k1 = next_delayed k"
      "{pxDelayedTaskList k1, pxOverflowDelayedTaskList k1} = {pxDelayedTaskList k, pxOverflowDelayedTaskList k}"
    using run_tick_count [OF assms(1)] by blast
  obtain C' k' where k': "(if xTickCount k1 \<ge> xNextTaskUnblockTime k1 then unblock_loop P k1 else Some k1) = Some k'"
    "run_ok P evls ts idle C' k'" "same_frame k1 k'"
    "\<And>u. u \<in> ts \<Longrightarrow> task_list k' u = (if due k1 u then ready_list P k1 u else task_list k1 u) \<and>
       event_list k' u = (if due k1 u then 0 else event_list k1 u) \<and> wake_time k' u = wake_time k1 u"
    using tick_check [OF k1(2,3,4)] by blast
  have "xTaskIncrementTick P k = Some (False, k')"
    using k1(1) k'(1) assms(2) k1(9) by (simp add: xTaskIncrementTick_def Let_def del: split_paired_Ex split: if_splits)
  then show ?thesis
    by (rule that [OF _ k'(2)])
      (use k'(3,4) k1(5-15) assms(2) in \<open>simp_all add: same_frame_def ready_list_def\<close>)
qed

lemma run_pended_tick:
  "uxSchedulerSuspended k \<noteq> 0 \<Longrightarrow> xTaskIncrementTick P k = Some (False, k\<lparr>xPendedTicks := xPendedTicks k + 1\<rparr>)"
  by (simp add: xTaskIncrementTick_def)

lemma run_pended:
  assumes "run_ok P evls ts idle C k" "uxSchedulerSuspended k = 0"
  shows "\<exists>C' k'. pended_ticks P n k = Some k' \<and> run_ok P evls ts idle C' k' \<and> xTickCount k' = xTickCount k + of_nat n \<and>
    pxCurrentTCB k' = pxCurrentTCB k \<and> uxPriority k' = uxPriority k \<and> uxSchedulerSuspended k' = 0 \<and>
    (\<forall>u \<in> ts. (task_ready P k u \<longrightarrow> task_ready P k' u) \<and> (event_list k u = 0 \<longrightarrow> event_list k' u = 0))"
  using assms
proof (induction n arbitrary: k C)
  case 0
  then show ?case by auto
next
  case (Suc n)
  obtain C1 k1 where k1: "xTaskIncrementTick P k = Some (False, k1)" "run_ok P evls ts idle C1 k1"
    "\<And>u. u \<in> ts \<Longrightarrow> task_list k1 u = (if tick_wakes k u then ready_list P k u else task_list k u)"
    "xTickCount k1 = xTickCount k + 1" "pxCurrentTCB k1 = pxCurrentTCB k" "uxPriority k1 = uxPriority k" "uxSchedulerSuspended k1 = 0"
    "\<And>u. u \<in> ts \<Longrightarrow> event_list k1 u = (if tick_wakes k u then 0 else event_list k u)"
    by (rule run_tick [OF Suc.prems]) blast
  have "task_ready P k1 u" if "u \<in> ts" "task_ready P k u" for u
    using k1(3) [OF that(1)] that(2) k1(6) by (simp add: task_ready_def ready_list_def)
  with Suc.IH [OF k1(2,7)] k1 show ?case by (auto simp: algebra_simps)
qed

section \<open>Sleeping\<close>

text \<open>A task that sleeps for \<open>r\<close> more ticks: past the wrap of the tick count it is in the overflow list.\<close>

definition sleeps :: "kernel \<Rightarrow> u32 \<Rightarrow> nat \<Rightarrow> bool" where
  "sleeps k t r \<longleftrightarrow> 0 < r \<and> r < 2 ^ 32 \<and> wake_time k t = xTickCount k + of_nat r \<and>
     task_list k t = (if unat (xTickCount k) + r \<ge> 2 ^ 32 then pxOverflowDelayedTaskList k else pxDelayedTaskList k)"

lemma unat_succ: "unat (w + 1 :: u32) = (if w + 1 = 0 then 0 else Suc (unat w))"
  using unatSuc [of w] by (auto simp: add.commute)

lemma last_count: "(w :: u32) + 1 = 0 \<longleftrightarrow> unat w = 2 ^ 32 - 1"
proof -
  have m: "unat (- 1 :: u32) = 2 ^ 32 - 1" by (simp add: unsigned_minus_1_eq_mask mask_eq_exp_minus_1)
  have "w + 1 = 0 \<longleftrightarrow> w = - 1" by (simp add: eq_neg_iff_add_eq_0)
  also have "\<dots> \<longleftrightarrow> unat w = unat (- 1 :: u32)" by (rule word_unat_eq_iff)
  finally show ?thesis unfolding m .
qed

lemma sleeps_not_ready:
  assumes "run_ok P evls ts idle C k" "t \<in> ts" "sleeps k t r"
  shows "\<not> task_ready P k t"
proof -
  note D = lists_runD [OF run_okD(1) [OF assms(1)]]
  have "uxPriority k t < 5" by (rule tasks_fitD(2) [OF D(5) assms(2)])
  then have "pxReadyTasksLists P (uxPriority k t) \<noteq> pxDelayedTaskList k" "pxReadyTasksLists P (uxPriority k t) \<noteq> pxOverflowDelayedTaskList k"
    using delayed_lists(3) [OF D(2)] by blast+
  then show ?thesis using assms(3) by (auto simp: sleeps_def task_ready_def split: if_splits)
qed

lemma sleeps_tick:
  assumes "run_ok P evls ts idle C k" "uxSchedulerSuspended k = 0" "t \<in> ts" "sleeps k t (Suc r)"
  obtains C' k' where "xTaskIncrementTick P k = Some (False, k')" "run_ok P evls ts idle C' k'" "uxSchedulerSuspended k' = 0"
    "r = 0 \<Longrightarrow> task_ready P k' t \<and> event_list k' t = 0" "r > 0 \<Longrightarrow> sleeps k' t r \<and> event_list k' t = event_list k t"
proof -
  obtain C' k' where k': "xTaskIncrementTick P k = Some (False, k')" "run_ok P evls ts idle C' k'"
    "\<And>u. u \<in> ts \<Longrightarrow> task_list k' u = (if tick_wakes k u then ready_list P k u else task_list k u)"
    "\<And>u. u \<in> ts \<Longrightarrow> event_list k' u = (if tick_wakes k u then 0 else event_list k u)"
    "\<And>u. u \<in> ts \<Longrightarrow> wake_time k' u = wake_time k u"
    "xTickCount k' = xTickCount k + 1" "uxPriority k' = uxPriority k" "uxSchedulerSuspended k' = 0" "pxDelayedTaskList k' = next_delayed k"
    "{pxDelayedTaskList k', pxOverflowDelayedTaskList k'} = {pxDelayedTaskList k, pxOverflowDelayedTaskList k}"
    by (rule run_tick [OF assms(1,2)]) blast
  have S: "Suc r < 2 ^ 32" "wake_time k t = xTickCount k + of_nat (Suc r)"
    "task_list k t = (if unat (xTickCount k) + Suc r \<ge> 2 ^ 32 then pxOverflowDelayedTaskList k else pxDelayedTaskList k)"
    using assms(4) by (simp_all add: sleeps_def)
  have "of_nat r = (0 :: u32) \<longleftrightarrow> r = 0" using unat_of_nat_u32 [of r] S(1) by (auto simp: word_unat_eq_iff)
  then have time: "wake_time k t = xTickCount k + 1 \<longleftrightarrow> r = 0" using S(2) by (simp add: add.assoc [symmetric])
  have lt: "unat (xTickCount k) < 2 ^ 32" using unsigned_less [of "xTickCount k"] by simp
  have wakes: "tick_wakes k t \<longleftrightarrow> r = 0"
    using time S(3) last_count [of "xTickCount k"] lt
    by (auto simp: tick_wakes_def next_delayed_def)
  have apart: "pxOverflowDelayedTaskList k \<noteq> pxDelayedTaskList k" by (rule delayed_apart(1) [OF run_okD(5) [OF assms(1)]])
  have over: "pxOverflowDelayedTaskList k' = (if xTickCount k + 1 = 0 then pxDelayedTaskList k else pxOverflowDelayedTaskList k)"
    using k'(9,10) apart by (auto simp: next_delayed_def doubleton_eq_iff split: if_splits)
  have "sleeps k' t r" if "r > 0"
    using that S k'(3,5) [OF assms(3)] wakes over k'(6,9) last_count [of "xTickCount k"] unat_succ [of "xTickCount k"]
    by (cases "xTickCount k + 1 = 0") (simp_all add: sleeps_def next_delayed_def algebra_simps)
  then show ?thesis
    using wakes k'(3,4) [OF assms(3)] k'(7) by (intro that [OF k'(1,2,8)]) (simp_all add: task_ready_def ready_list_def)
qed

text \<open>
  The same including its end: with \<open>r = 0\<close> ticks to go the task is ready and waits for no event; before, it sleeps and waits for the event \<open>l\<close>.
\<close>

definition timed_wait :: "kernel_places \<Rightarrow> kernel \<Rightarrow> u32 \<Rightarrow> nat \<Rightarrow> u32 \<Rightarrow> bool" where
  "timed_wait P k t r l \<longleftrightarrow> (if r = 0 then task_ready P k t \<and> event_list k t = 0 else sleeps k t r \<and> event_list k t = l)"

lemma timed_wait_result:
  assumes "run_ok P evls ts idle C k" "t \<in> ts" "timed_wait P k t r l"
  shows "task_ready P k t \<longleftrightarrow> r = 0" "event_list k t = (if r = 0 then 0 else l)"
  using assms sleeps_not_ready [OF assms(1,2)] by (auto simp: timed_wait_def split: if_splits)

lemma timed_wait_tick:
  assumes "run_ok P evls ts idle C k" "uxSchedulerSuspended k = 0" "t \<in> ts" "timed_wait P k t r l"
  obtains C' k' where "xTaskIncrementTick P k = Some (False, k')" "run_ok P evls ts idle C' k'" "uxSchedulerSuspended k' = 0"
    "timed_wait P k' t (r - 1) l"
proof (cases r)
  case 0
  obtain C' k' where k': "xTaskIncrementTick P k = Some (False, k')" "run_ok P evls ts idle C' k'"
    "\<And>u. u \<in> ts \<Longrightarrow> task_list k' u = (if tick_wakes k u then ready_list P k u else task_list k u)"
    "uxPriority k' = uxPriority k" "uxSchedulerSuspended k' = 0"
    by (rule run_tick [OF assms(1,2)]) blast
  have "task_ready P k' t"
    using k'(3) [OF assms(3)] k'(4) assms(4) 0 by (auto simp: timed_wait_def task_ready_def ready_list_def)
  with calmD(1) [OF run_okD(3) [OF k'(2)] assms(3)] 0 that [OF k'(1,2,5)] show ?thesis by (simp add: timed_wait_def)
next
  case (Suc s)
  with assms(4) have "sleeps k t (Suc s)" "event_list k t = l" by (simp_all add: timed_wait_def)
  with Suc show ?thesis
    by (cases "s = 0") (rule sleeps_tick [OF assms(1-3), of s]; simp add: timed_wait_def that)+
qed

lemma timed_wait_pended:
  assumes "run_ok P evls ts idle C k" "uxSchedulerSuspended k = 0" "t \<in> ts" "timed_wait P k t r l"
  shows "\<exists>k'. pended_ticks P n k = Some k' \<and> timed_wait P k' t (r - n) l"
  using assms
proof (induction n arbitrary: k C r)
  case (Suc n)
  obtain C1 k1 where k1: "xTaskIncrementTick P k = Some (False, k1)" "run_ok P evls ts idle C1 k1" "uxSchedulerSuspended k1 = 0"
    "timed_wait P k1 t (r - 1) l" by (rule timed_wait_tick [OF Suc.prems]) blast
  with Suc.IH [OF k1(2,3) Suc.prems(3) k1(4)] show ?case by simp
qed simp

text \<open>It depends on where the task is, on the tick count and on which list is which.\<close>

lemma timed_wait_cong:
  assumes "task_list k' t = task_list k t" "event_list k' t = event_list k t" "wake_time k' t = wake_time k t"
    "uxPriority k' = uxPriority k" "xTickCount k' = xTickCount k" "pxDelayedTaskList k' = pxDelayedTaskList k"
    "pxOverflowDelayedTaskList k' = pxOverflowDelayedTaskList k"
  shows "timed_wait P k' t r l = timed_wait P k t r l"
  using assms by (simp add: timed_wait_def sleeps_def task_ready_def)

section \<open>Resuming\<close>

definition waits_pending :: "kernel_places \<Rightarrow> kernel \<Rightarrow> u32 \<Rightarrow> bool" where
  "waits_pending P k u \<longleftrightarrow> event_list k u = xPendingReadyList P"

lemma pending_run:
  assumes "run_ok P evls ts idle C k"
  shows "\<exists>C' k' moved'. pending_loop P moved k = Some (moved', k') \<and> run_ok P evls ts idle C' k' \<and>
    (\<forall>u \<in> ts. task_list k' u = (if waits_pending P k u then ready_list P k u else task_list k u)) \<and>
    (\<forall>u \<in> ts. event_list k' u = (if waits_pending P k u then 0 else event_list k u) \<and> wake_time k' u = wake_time k u) \<and>
    same_frame k k'"
  using assms
proof (induction "card {u \<in> ts. waits_pending P k u}" arbitrary: k C moved rule: less_induct)
  case less
  note R = run_okD [OF less.prems]
  note D = lists_runD [OF R(1)] and I = calmD [OF R(3)]
  note ok = lists_okD [OF D(2)]
  obtain xs where xs: "C (xPendingReadyList P) = Some xs" using places(14) [OF D(4)] by blast
  have nz: "xPendingReadyList P \<noteq> 0" by (rule places(16) [OF D(4) xs])
  have wait: "waits_pending P k u \<longleftrightarrow> xEventListItem u \<in> set xs" if "u \<in> ts" for u
  proof
    assume "waits_pending P k u"
    then have e: "event_list k u = xPendingReadyList P" by (simp add: waits_pending_def)
    then show "xEventListItem u \<in> set xs" using event_item(2) [OF R(1) that, unfolded e] xs nz by simp
  next
    assume "xEventListItem u \<in> set xs"
    from event_item(3) [OF R(1) that xs this] show "waits_pending P k u" by (simp add: waits_pending_def)
  qed
  show ?case
  proof (cases xs)
    case Nil
    then have "pending_loop P moved k = Some (moved, k)" using empty_list [OF ok(1) xs] by (simp add: pending_loop.simps)
    with less.prems Nil wait show ?thesis
      by (intro exI [of _ C] exI [of _ k] exI [of _ moved]) (simp add: same_frame_def)
  next
    case (Cons x rest)
    have "x \<in> items_of P ts k (xPendingReadyList P)" using ok(4) [OF xs] Cons by auto
    then obtain t where t: "t \<in> ts" "x = xEventListItem t" using places(15) [OF D(4)] by (auto simp: items_of_def)
    then have ev: "event_list k t = xPendingReadyList P" using wait [OF t(1)] Cons by (simp add: waits_pending_def)
    have nr: "\<not> task_ready P k t" using I(1) [OF t(1)] ev nz by auto
    have owner: "listGET_OWNER_OF_HEAD_ENTRY (xPendingReadyList P) (lists k) = t"
      using head_owner [OF ok(1) xs [unfolded Cons]] tasks_fitD(4) [OF D(5) t(1)] t(2) by simp
    obtain C1 where k1: "lists_run P evls ts C1 (roused P t k)" "calm P ts idle (roused P t k)"
        "\<And>u. u \<in> ts \<Longrightarrow> task_list (roused P t k) u = (if u = t then ready_list P k t else task_list k u)"
        "\<And>u. u \<in> ts \<Longrightarrow> event_list (roused P t k) u = (if u = t then 0 else event_list k u)"
        "\<And>u. u \<in> ts \<Longrightarrow> wake_time (roused P t k) u = wake_time k u"
      by (rule run_roused [OF R(1,3) t(1)]) blast
    have out: "ready_list P k t \<noteq> pxDelayedTaskList k"
      using delayed_apart(3) [OF D(2) tasks_fitD(2) [OF D(5) t(1)]] by (simp add: ready_list_def)
    have "timed_ok ts (roused P t k)" using R(2) k1(3,5) out by (simp add: timed_ok_def)
    then have ok1: "run_ok P evls ts idle C1 (roused P t k)" using k1(1,2) by (simp add: run_ok_def)
    define k2 where "k2 = (if uxPriority k (pxCurrentTCB k) < uxPriority k t then (roused P t k)\<lparr>xYieldPending := True\<rparr> else roused P t k)"
    have ok2: "run_ok P evls ts idle C1 k2" using ok1 by (subst run_cong [of _ "roused P t k"]) (simp_all add: k2_def)
    have k2: "event_list k2 = event_list (roused P t k)" "task_list k2 = task_list (roused P t k)"
      "wake_time k2 = wake_time (roused P t k)" "same_frame k k2" "uxPriority k2 = uxPriority k"
      by (simp_all add: k2_def event_list_def task_list_def wake_time_def same_frame_def fun_eq_iff)
    have left: "waits_pending P k2 u \<longleftrightarrow> u \<noteq> t \<and> waits_pending P k u" if "u \<in> ts" for u
      using k1(4) [OF that] nz by (simp add: waits_pending_def k2(1))
    have "{u \<in> ts. waits_pending P k2 u} \<subset> {u \<in> ts. waits_pending P k u}"
    proof
      show "{u \<in> ts. waits_pending P k2 u} \<subseteq> {u \<in> ts. waits_pending P k u}" using left by blast
      have "waits_pending P k t" using ev by (simp add: waits_pending_def)
      then show "{u \<in> ts. waits_pending P k2 u} \<noteq> {u \<in> ts. waits_pending P k u}" using left [OF t(1)] t(1) by blast
    qed
    then have "card {u \<in> ts. waits_pending P k2 u} < card {u \<in> ts. waits_pending P k u}" by (intro psubset_card_mono) simp_all
    from less.hyps [OF this ok2, of True] obtain C' k' moved' where k': "pending_loop P True k2 = Some (moved', k')"
      "run_ok P evls ts idle C' k'" "\<forall>u \<in> ts. task_list k' u = (if waits_pending P k2 u then ready_list P k2 u else task_list k2 u)"
      "\<forall>u \<in> ts. event_list k' u = (if waits_pending P k2 u then 0 else event_list k2 u) \<and> wake_time k' u = wake_time k2 u"
      "same_frame k2 k'" by blast
    have "pending_loop P moved k = pending_loop P True k2"
      unfolding pending_loop.simps [of P moved k] using empty_list [OF ok(1) xs] Cons owner ev nz
      by (simp add: Let_def roused_def k2_def)
    moreover have "task_list k' u = (if waits_pending P k u then ready_list P k u else task_list k u)"
      "event_list k' u = (if waits_pending P k u then 0 else event_list k u)" "wake_time k' u = wake_time k u" if "u \<in> ts" for u
    proof -
      have "ready_list P k2 u = ready_list P k u" using k2(5) by (simp add: ready_list_def)
      moreover have "waits_pending P k t" using ev by (simp add: waits_pending_def)
      ultimately show "task_list k' u = (if waits_pending P k u then ready_list P k u else task_list k u)"
        "event_list k' u = (if waits_pending P k u then 0 else event_list k u)" "wake_time k' u = wake_time k u"
        using k'(3,4) k2(1-3) k1(3-5) [OF that] left [OF that] that by (cases "u = t"; simp)+
    qed
    moreover have "same_frame k k'" using k'(5) k2(4) by (simp add: same_frame_def)
    ultimately show ?thesis using k'(1,2) by (intro exI [of _ C'] exI [of _ k'] exI [of _ moved']) simp
  qed
qed

lemma run_resume:
  assumes "run_ok P evls ts idle C k" "uxSchedulerSuspended k \<noteq> 0"
  obtains C' k' where "xTaskResumeAll P k = Some (False, k')" "run_ok P evls ts idle C' k'"
    "uxSchedulerSuspended k' = uxSchedulerSuspended k - 1" "pxCurrentTCB k' = pxCurrentTCB k" "uxPriority k' = uxPriority k"
    "uxSchedulerSuspended k = 1 \<Longrightarrow> xTickCount k' = xTickCount k + xPendedTicks k" "uxSchedulerSuspended k = 1 \<Longrightarrow> xPendedTicks k' = 0"
    "\<And>u. uxSchedulerSuspended k = 1 \<Longrightarrow> u \<in> ts \<Longrightarrow> waits_pending P k u \<or> task_ready P k u \<Longrightarrow> task_ready P k' u"
    "\<And>u. u \<in> ts \<Longrightarrow> event_list k u = 0 \<Longrightarrow> event_list k' u = 0"
    "\<And>u. uxSchedulerSuspended k \<noteq> 1 \<Longrightarrow> task_list k' u = task_list k u \<and> event_list k' u = event_list k u"
    "\<And>u r l. uxSchedulerSuspended k = 1 \<Longrightarrow> u \<in> ts \<Longrightarrow> timed_wait P k u r l \<Longrightarrow> \<not> waits_pending P k u \<Longrightarrow>
       timed_wait P k' u (r - unat (xPendedTicks k)) l"
proof -
  let ?k = "k\<lparr>uxSchedulerSuspended := uxSchedulerSuspended k - 1\<rparr>"
  have ok: "run_ok P evls ts idle C ?k" using assms(1) by (subst run_cong [of _ k]) simp_all
  show ?thesis
  proof (cases "uxSchedulerSuspended k = 1")
    case False
    then have "xTaskResumeAll P k = Some (False, ?k)" using assms(2) by (simp add: xTaskResumeAll_def Let_def)
    from that [OF this ok] False show ?thesis by (simp add: event_list_def task_list_def)
  next
    case True
    have view: "waits_pending P ?k u = waits_pending P k u" "task_list ?k u = task_list k u" "event_list ?k u = event_list k u"
      "wake_time ?k u = wake_time k u" for u
      by (simp_all add: waits_pending_def event_list_def task_list_def wake_time_def)
    obtain C1 k1 moved where k1: "pending_loop P False ?k = Some (moved, k1)" "run_ok P evls ts idle C1 k1"
      "\<And>u. u \<in> ts \<Longrightarrow> task_list k1 u = (if waits_pending P ?k u then ready_list P ?k u else task_list ?k u)"
      "\<And>u. u \<in> ts \<Longrightarrow> event_list k1 u = (if waits_pending P ?k u then 0 else event_list ?k u) \<and> wake_time k1 u = wake_time ?k u"
      "same_frame ?k k1"
      using pending_run [OF ok, of False] by blast
    then have frame: "pxCurrentTCB k1 = pxCurrentTCB k" "uxPriority k1 = uxPriority k" "xTickCount k1 = xTickCount k"
      "uxSchedulerSuspended k1 = 0" "xPendedTicks k1 = xPendedTicks k" "pxDelayedTaskList k1 = pxDelayedTaskList k"
      "pxOverflowDelayedTaskList k1 = pxOverflowDelayedTaskList k" using True by (simp_all add: same_frame_def)
    define k2 where "k2 = (if moved then prvResetNextTaskUnblockTime k1 else k1)"
    note R1 = run_okD [OF k1(2)]
    have upd: "prvResetNextTaskUnblockTime k1 = k1\<lparr>xNextTaskUnblockTime := xNextTaskUnblockTime (prvResetNextTaskUnblockTime k1)\<rparr>"
      by (simp add: prvResetNextTaskUnblockTime_def)
    have "timed_ok ts (prvResetNextTaskUnblockTime k1)"
      using R1(2) reset_next [OF R1(1)] by (subst upd) (simp add: timed_ok_def run_next)
    then have "run_ok P evls ts idle C1 (prvResetNextTaskUnblockTime k1)"
      using R1(1,3) by (subst upd, subst (asm) upd) (simp add: run_ok_def run_next)
    then have ok2: "run_ok P evls ts idle C1 k2" using k1(2) by (simp add: k2_def)
    have k2: "task_list k2 = task_list k1" "uxPriority k2 = uxPriority k1" "pxCurrentTCB k2 = pxCurrentTCB k1" "xTickCount k2 = xTickCount k1"
      "uxSchedulerSuspended k2 = 0" "xPendedTicks k2 = xPendedTicks k"
      "event_list k2 = event_list k1" "wake_time k2 = wake_time k1" "pxDelayedTaskList k2 = pxDelayedTaskList k1"
      "pxOverflowDelayedTaskList k2 = pxOverflowDelayedTaskList k1"
      using frame(4,5) by (simp_all add: k2_def event_list_def wake_time_def prvResetNextTaskUnblockTime_def task_list_def fun_eq_iff)
    obtain C3 k3 where k3: "pended_ticks P (unat (xPendedTicks k)) k2 = Some k3" "run_ok P evls ts idle C3 k3"
      "xTickCount k3 = xTickCount k2 + of_nat (unat (xPendedTicks k))" "pxCurrentTCB k3 = pxCurrentTCB k2" "uxPriority k3 = uxPriority k2"
      "uxSchedulerSuspended k3 = 0" "\<forall>u \<in> ts. (task_ready P k2 u \<longrightarrow> task_ready P k3 u) \<and> (event_list k2 u = 0 \<longrightarrow> event_list k3 u = 0)"
      using run_pended [OF ok2 k2(5)] by blast
    define k' where "k' = (if xPendedTicks k > 0 then k3\<lparr>xPendedTicks := 0\<rparr> else k3)"
    have pend0: "pended_ticks P 0 k2 = Some k2" by simp
    have "xTaskResumeAll P k = Some (False, k')"
      using True k1(1) k3(1) k2(6) calmD(6) [OF run_okD(3) [OF assms(1)]] by (simp add: xTaskResumeAll_def Let_def k2_def [symmetric] k'_def)
    moreover have "run_ok P evls ts idle C3 k'" using k3(2) by (subst run_cong [of _ k3]) (simp_all add: k'_def)
    moreover have "xPendedTicks k' = 0"
    proof (cases "xPendedTicks k = 0")
      case True
      with k3(1) have "k3 = k2" by simp
      with True k2(6) show ?thesis by (simp add: k'_def)
    qed (simp add: k'_def word_gt_0)
    moreover have "task_ready P k' u" if "u \<in> ts" "waits_pending P k u \<or> task_ready P k u" for u
    proof -
      have "task_list k1 u = ready_list P k u"
        using k1(3) [OF that(1)] that(2) by (auto simp: view task_ready_def ready_list_def)
      then have "task_ready P k2 u" using k2(1,2) frame(2) by (simp add: task_ready_def ready_list_def)
      then have "task_ready P k3 u" using k3(7) that(1) by blast
      then show ?thesis by (simp add: k'_def task_ready_def task_list_def)
    qed
    moreover have "event_list k' u = 0" if "u \<in> ts" "event_list k u = 0" for u
    proof -
      have "event_list k2 u = 0" using k1(4) [OF that(1)] that(2) by (simp add: view k2)
      with k3(7) that(1) show ?thesis by (simp add: k'_def event_list_def)
    qed
    moreover have "uxSchedulerSuspended k' = uxSchedulerSuspended k - 1" "pxCurrentTCB k' = pxCurrentTCB k"
      "uxPriority k' = uxPriority k" "xTickCount k' = xTickCount k + xPendedTicks k"
      using k3(3-6) k2(2-4) frame(1-3) True by (simp_all add: k'_def)
    moreover have "timed_wait P k' u (r - unat (xPendedTicks k)) l"
      if "u \<in> ts" "timed_wait P k u r l" "\<not> waits_pending P k u" for u r l
    proof -
      have "timed_wait P k2 u r l = timed_wait P k u r l"
        by (rule timed_wait_cong) (use k1(3,4) [OF that(1)] that(3) k2 frame in \<open>simp_all add: view\<close>)
      with timed_wait_pended [OF ok2 k2(5) that(1), of r l "unat (xPendedTicks k)"] k3(1) that(2)
      have "timed_wait P k3 u (r - unat (xPendedTicks k)) l" by simp
      moreover have "timed_wait P k' u (r - unat (xPendedTicks k)) l = timed_wait P k3 u (r - unat (xPendedTicks k)) l"
        by (rule timed_wait_cong) (simp_all add: k'_def task_list_def event_list_def wake_time_def)
      ultimately show ?thesis by simp
    qed
    ultimately show ?thesis using True by (intro that [where k' = k']) simp_all
  qed
qed

section \<open>Ticks taken later\<close>

text \<open>The count of pended ticks does not matter to a tick while the scheduler runs.\<close>

abbreviation pend :: "u32 \<Rightarrow> kernel \<Rightarrow> kernel" where
  "pend v k \<equiv> k\<lparr>xPendedTicks := v\<rparr>"

lemma pend_view:
  "lists_run P evls ts C (pend v k) \<longleftrightarrow> lists_run P evls ts C k" "calm P ts idle (pend v k) \<longleftrightarrow> calm P ts idle k"
  "task_list (pend v k) = task_list k" "event_list (pend v k) = event_list k" "wake_time (pend v k) = wake_time k"
  "roused P t (pend v k) = pend v (roused P t k)"
  using kernel_ok_cong [of "pend v k" k]
  by (simp_all add: lists_run_def calm_def task_list_def task_ready_def event_list_def wake_time_def fun_eq_iff roused_def
      prvAddTaskToReadyList_def)

lemma unblock_pend:
  assumes "lists_run P evls ts C k" "calm P ts idle k"
  shows "unblock_loop P (pend v k) = map_option (pend v) (unblock_loop P k)"
  using assms
proof (induction "card {u \<in> ts. task_list k u = pxDelayedTaskList k}" arbitrary: k C rule: less_induct)
  case less
  note D = lists_runD [OF less.prems(1)]
  obtain xs where xs: "C (pxDelayedTaskList k) = Some xs" using delayed_lists(4) [OF D(2)] by blast
  show ?case
  proof (cases xs)
    case Nil
    then have "listLIST_IS_EMPTY (pxDelayedTaskList k) (lists k)" using empty_list [OF lists_okD(1) [OF D(2)] xs] by simp
    then show ?thesis by (simp add: unblock_loop.simps)
  next
    case (Cons x rest)
    obtain t where t: "t \<in> ts" "listGET_OWNER_OF_HEAD_ENTRY (pxDelayedTaskList k) (lists k) = t" "task_list k t = pxDelayedTaskList k"
      by (rule first_delayed [OF less.prems(1) xs [unfolded Cons]]) blast
    note step = unblock_step [OF less.prems(1) xs [unfolded Cons] t]
    have step': "unblock_loop P (pend v k) =
        (if xTickCount k < wake_time k t then Some (pend v (k\<lparr>xNextTaskUnblockTime := wake_time k t\<rparr>))
         else unblock_loop P (pend v (roused P t k)))"
      using unblock_step [of P evls ts C "pend v k" x rest t] less.prems(1) xs Cons t by (simp add: pend_view)
    show ?thesis
    proof (cases "xTickCount k < wake_time k t")
      case True
      with step step' show ?thesis by simp
    next
      case False
      obtain C1 where k1: "lists_run P evls ts C1 (roused P t k)" "calm P ts idle (roused P t k)"
        "\<And>u. u \<in> ts \<Longrightarrow> task_list (roused P t k) u = (if u = t then ready_list P k t else task_list k u)"
        by (rule run_roused [OF less.prems t(1)]) blast
      have out: "ready_list P k t \<noteq> pxDelayedTaskList k"
        using delayed_apart(3) [OF D(2) tasks_fitD(2) [OF D(5) t(1)]] by (simp add: ready_list_def)
      have "card {u \<in> ts. task_list (roused P t k) u = pxDelayedTaskList (roused P t k)} < card {u \<in> ts. task_list k u = pxDelayedTaskList k}"
        by (rule fewer_delayed [OF k1(3) out t(1,3)])
      from less.hyps [OF this k1(1,2)] step step' False show ?thesis by simp
    qed
  qed
qed

lemma tick_split:
  assumes "(if xTickCount k + 1 = 0 then taskSWITCH_DELAYED_LISTS (k\<lparr>xTickCount := xTickCount k + 1\<rparr>)
        else Some (k\<lparr>xTickCount := xTickCount k + 1\<rparr>)) = Some k1" "uxSchedulerSuspended k = 0"
  shows "xTaskIncrementTick P k =
    map_option (\<lambda>k. (False, k)) (if xTickCount k + 1 \<ge> xNextTaskUnblockTime k1 then unblock_loop P k1 else Some k1)"
  unfolding xTaskIncrementTick_def Let_def assms(1) using assms(2) by simp

lemma tick_pend:
  assumes "run_ok P evls ts idle C k" "uxSchedulerSuspended k = 0"
  shows "xTaskIncrementTick P (pend v k) = map_option (\<lambda>(b, k). (b, pend v k)) (xTaskIncrementTick P k)"
proof -
  let ?count = "\<lambda>k. if xTickCount k + 1 = 0 then taskSWITCH_DELAYED_LISTS (k\<lparr>xTickCount := xTickCount k + 1\<rparr>)
        else Some (k\<lparr>xTickCount := xTickCount k + 1\<rparr>)"
  obtain k1 where k1: "?count k = Some k1" "lists_run P evls ts C k1" "calm P ts idle k1" using run_tick_count [OF assms(1)] by blast
  have k1': "?count (pend v k) = Some (pend v k1)"
    using k1(1) by (auto simp: taskSWITCH_DELAYED_LISTS_def prvResetNextTaskUnblockTime_def split: if_splits)
  have "uxSchedulerSuspended (pend v k) = 0" using assms(2) by simp
  from tick_split [OF k1' this, of P] tick_split [OF k1(1) assms(2), of P] unblock_pend [OF k1(2,3), of v] show ?thesis
    by (simp add: option.map_comp comp_def)
qed

lemma pended_pend:
  assumes "run_ok P evls ts idle C k" "uxSchedulerSuspended k = 0"
  shows "pended_ticks P n (pend v k) = map_option (pend v) (pended_ticks P n k)"
  using assms
proof (induction n arbitrary: k C)
  case (Suc n)
  obtain C1 k1 where k1: "xTaskIncrementTick P k = Some (False, k1)" "run_ok P evls ts idle C1 k1" "uxSchedulerSuspended k1 = 0"
    by (rule run_tick [OF Suc.prems]) blast
  with Suc.IH [OF k1(2,3)] tick_pend [OF Suc.prems, of v] show ?case by simp
qed simp

end
