(* ===== verification/Rtos_Sched_Boot.thy ===== *)
theory Rtos_Sched_Boot
  imports Rtos_Sched_Tick
begin

text \<open>
  Starting up: creating the event lists of queues, creating tasks, starting the scheduler. The state that the scheduler starts in
  satisfies the invariant of runs.
\<close>

section \<open>Empty lists\<close>

definition no_items :: "u32 set \<Rightarrow> u32 \<rightharpoonup> u32 list" where
  "no_items ls l = (if l \<in> ls then Some [] else None)"

lemma no_items_simps [simp]: "no_items ls l = Some xs \<longleftrightarrow> l \<in> ls \<and> xs = []" "no_items ls l = None \<longleftrightarrow> l \<notin> ls" "dom (no_items ls) = ls"
  by (auto simp: no_items_def dom_def)

lemma initialise_lists:
  "lists_are m (no_items S) \<Longrightarrow> distinct ls \<Longrightarrow> set ls \<inter> S = {} \<Longrightarrow> lists_are (fold vListInitialise ls m) (no_items (S \<union> set ls))"
proof (induction ls arbitrary: m S)
  case (Cons l ls)
  have "xListEnd l \<noteq> xListEnd k" if "k \<in> S" for k using Cons.prems(3) that by (auto simp: xListEnd_def)
  then have "lists_are (vListInitialise l m) ((no_items S)(l \<mapsto> []))"
    by (intro vListInitialise_lists [OF Cons.prems(1)]) (use Cons.prems(3) in \<open>auto simp: nodes_def\<close>)
  moreover have "(no_items S)(l \<mapsto> []) = no_items (insert l S)" by (auto simp: no_items_def fun_eq_iff)
  ultimately have "lists_are (vListInitialise l m) (no_items (insert l S))" by simp
  from Cons.IH [OF this] Cons.prems(2,3) show ?case by auto
qed simp

lemma initialise_items:
  "a \<notin> xListEnd ` set ls \<Longrightarrow> list_item (fold vListInitialise ls m) a = list_item m a"
  by (induction ls arbitrary: m) (simp_all add: vListInitialise_def Let_def)

section \<open>A layout of the memory\<close>

definition memory_layout :: "kernel_places \<Rightarrow> u32 list \<Rightarrow> u32 set \<Rightarrow> bool" where
  "memory_layout P evls ts \<longleftrightarrow>
     distinct (xPendingReadyList P # state_lists P @ evls) \<and> 0 \<notin> set (xPendingReadyList P # state_lists P @ evls) \<and> 0 \<notin> ts \<and>
     (xStateListItem ` ts \<union> xEventListItem ` ts) \<inter> xListEnd ` set (xPendingReadyList P # state_lists P @ evls) = {} \<and>
     xStateListItem ` ts \<inter> xEventListItem ` ts = {}"

abbreviation all_lists :: "kernel_places \<Rightarrow> u32 list \<Rightarrow> u32 set" where
  "all_lists P evls \<equiv> set (xPendingReadyList P # state_lists P @ evls)"

lemma layout_subset: "memory_layout P evls ts \<Longrightarrow> us \<subseteq> ts \<Longrightarrow> memory_layout P evls us"
  unfolding memory_layout_def by blast

definition init_order :: "kernel_places \<Rightarrow> u32 list" where
  "init_order P = map (pxReadyTasksLists P) [0..<5] @
     [xDelayedTaskList1 P, xDelayedTaskList2 P, xPendingReadyList P, xTasksWaitingTermination P, xSuspendedTaskList P]"

lemma init_order:
  "lists (prvInitialiseTaskLists P k) = fold vListInitialise (init_order P) (lists k)"
  "set (init_order P) = set (xPendingReadyList P # state_lists P)"
  "distinct (init_order P) \<longleftrightarrow> distinct (xPendingReadyList P # state_lists P)"
  by (auto simp: prvInitialiseTaskLists_def init_order_def state_lists_def configMAX_PRIORITIES_def Let_def fold_map comp_def
      simp del: upt_rec_numeral)

section \<open>Creating a task\<close>

definition task_created :: "kernel \<Rightarrow> u32 \<Rightarrow> bool" where
  "task_created k t \<longleftrightarrow> uxPriority k t < 5 \<and> pvOwner (list_item (lists k) (xStateListItem t)) = t \<and>
     pvOwner (list_item (lists k) (xEventListItem t)) = t \<and>
     xItemValue (list_item (lists k) (xEventListItem t)) = of_nat (5 - uxPriority k t) \<and> event_list k t = 0"

lemma own_items: "xStateListItem t \<noteq> xEventListItem t" "xEventListItem t \<noteq> xStateListItem t"
  by (simp_all add: xStateListItem_def xEventListItem_def)

lemma initialise_new_task:
  "task_created (initialise_task_items prio t k) t" "uxPriority (initialise_task_items prio t k) t = min prio 4"
  "u \<noteq> t \<Longrightarrow> uxPriority (initialise_task_items prio t k) u = uxPriority k u"
  "x \<noteq> xStateListItem t \<Longrightarrow> x \<noteq> xEventListItem t \<Longrightarrow> list_item (lists (initialise_task_items prio t k)) x = list_item (lists k) x"
  "list_head (lists (initialise_task_items prio t k)) = list_head (lists k)"
  by (auto simp: task_created_def event_list_def initialise_task_items_def vListInitialiseItem_def configMAX_PRIORITIES_def Let_def own_items
      min_def of_nat_diff)

lemma new_task_frame [simp]:
  "pxCurrentTCB (initialise_task_items prio t k) = pxCurrentTCB k" "uxTopReadyPriority (initialise_task_items prio t k) = uxTopReadyPriority k"
  "pxDelayedTaskList (initialise_task_items prio t k) = pxDelayedTaskList k"
  "pxOverflowDelayedTaskList (initialise_task_items prio t k) = pxOverflowDelayedTaskList k"
  "uxCurrentNumberOfTasks (initialise_task_items prio t k) = uxCurrentNumberOfTasks k"
  "uxSchedulerSuspended (initialise_task_items prio t k) = uxSchedulerSuspended k"
  by (simp_all add: initialise_task_items_def Let_def)

text \<open>The items of a new task are in no list.\<close>

lemma new_items:
  assumes "memory_layout P evls (insert t ts)" "t \<notin> ts" "dom C = all_lists P evls"
    and "\<And>l xs. C l = Some xs \<Longrightarrow> set xs \<subseteq> xStateListItem ` ts \<union> xEventListItem ` ts"
  shows "in_no_list C (xStateListItem t)" "in_no_list C (xEventListItem t)"
proof -
  have d: "xStateListItem ` insert t ts \<inter> xEventListItem ` insert t ts = {}"
    "(xStateListItem ` insert t ts \<union> xEventListItem ` insert t ts) \<inter> xListEnd ` dom C = {}"
    using assms(1,3) by (auto simp: memory_layout_def simp del: set_append list.set)
  have i: "xStateListItem t \<notin> xStateListItem ` ts \<union> xEventListItem ` ts" "xEventListItem t \<notin> xStateListItem ` ts \<union> xEventListItem ` ts"
    using d(1) assms(2) by (auto simp: item_inj)
  have e: "xStateListItem t \<noteq> xListEnd l" "xEventListItem t \<noteq> xListEnd l" if "C l = Some xs" for l xs
    using d(2) that by blast+
  show "in_no_list C (xStateListItem t)" "in_no_list C (xEventListItem t)"
    using i e assms(4) unfolding in_no_list_def nodes_simps by (metis subsetD)+
qed

lemma store_kept:
  assumes "lists_are (lists k) C" "in_no_list C (xStateListItem t)" "in_no_list C (xEventListItem t)"
  shows "lists_are (lists (initialise_task_items prio t k)) C"
proof -
  have "list_is (lists (initialise_task_items prio t k)) l xs" if "C l = Some xs" for l xs
  proof (rule list_is_cong [OF lists_areD [OF assms(1) that]])
    fix a assume "a \<in> nodes l xs"
    then have "a \<noteq> xStateListItem t" "a \<noteq> xEventListItem t" using assms(2,3) that unfolding in_no_list_def by blast+
    then show "list_item (lists (initialise_task_items prio t k)) a = list_item (lists k) a" by (rule initialise_new_task(4))
  qed (simp add: initialise_new_task(5))
  then show ?thesis using assms(1) by (simp add: lists_are_def)
qed

text \<open>What holds before the scheduler starts: every task is ready.\<close>

definition boot_ok :: "kernel_places \<Rightarrow> u32 list \<Rightarrow> u32 set \<Rightarrow> (u32 \<rightharpoonup> u32 list) \<Rightarrow> kernel \<Rightarrow> bool" where
  "boot_ok P evls ts C k \<longleftrightarrow> lists_run P (set evls) ts C k \<and> (\<forall>t \<in> ts. task_ready P k t \<and> event_list k t = 0) \<and>
     pxCurrentTCB k \<in> ts \<and> \<not> xSchedulerRunning k \<and> uxCurrentNumberOfTasks k = of_nat (card ts)"

text \<open>No task is at address \<open>0\<close>, so that the count of the tasks does not wrap round.\<close>

lemma task_count: "(0 :: u32) \<notin> ts \<Longrightarrow> ts \<noteq> {} \<Longrightarrow> (0 :: u32) < of_nat (card ts)"
proof -
  assume z: "(0 :: u32) \<notin> ts" "ts \<noteq> {}"
  then have "card ts < card (UNIV :: u32 set)" by (intro psubset_card_mono) auto
  then have "card ts < 2 ^ 32" by (simp add: card_word)
  moreover have "card ts \<noteq> 0" using z(2) by simp
  ultimately show ?thesis by (simp add: word_gt_0 word_unat_eq_iff unsigned_of_nat take_bit_nat_eq_self)
qed

lemma add_first_or_next:
  assumes "lists_ok P (insert t ts) C k" "\<And>q. bit (uxTopReadyPriority k) q \<longleftrightarrow> q < 5 \<and> ready P C q \<noteq> []" "homes_ok P ts C" "t \<notin> ts"
    and "in_no_list C (xStateListItem t)" "layout P (set evls) (insert t ts) C" "\<forall>u \<in> ts. task_ready P k u"
    and "\<forall>u \<in> insert t ts. event_list k u = 0" "pxCurrentTCB k \<in> insert t ts" "\<not> xSchedulerRunning k"
    and "uxCurrentNumberOfTasks k = of_nat (card (insert t ts))"
  obtains C' where "boot_ok P evls (insert t ts) C' (prvAddTaskToReadyList P t k)"
proof -
  let ?k = "prvAddTaskToReadyList P t k" and ?l = "pxReadyTasksLists P (uxPriority k t)"
  note D = lists_okD [OF assms(1)]
  obtain ys where ys: "kernel_ok P (insert t ts) (C(?l \<mapsto> ys)) ?k"
    by (rule add_ready [OF assms(1,2) _ _ assms(5)]) (use assms(3,4) in auto)
  have l: "C ?l = Some (ready P C (uxPriority k t))" by (rule places(10) [OF D(2) tasks_fitD(2) [OF D(3)]]) simp
  have "task_ready P ?k u \<and> event_list ?k u = 0" if "u \<in> insert t ts" for u
    using that assms(7,8) items_apart [OF D(3), of t u]
    by (auto simp: task_ready_def task_list_def event_list_def prvAddTaskToReadyList_def item_inj)
  with ys layout_upd [OF assms(6) l] assms(9-11) have "boot_ok P evls (insert t ts) (C(?l \<mapsto> ys)) ?k"
    by (simp add: boot_ok_def lists_run_def ready_fields)
  then show ?thesis by (rule that)
qed

lemma layout_of:
  assumes "memory_layout P evls ts" "dom C = all_lists P evls"
  shows "layout P (set evls) ts C" "places_fit P C"
proof -
  have d: "distinct (xPendingReadyList P # state_lists P)" "set evls \<inter> set (xPendingReadyList P # state_lists P) = {}"
    "xEventListItem ` ts \<inter> xListEnd ` all_lists P evls = {}" "0 \<notin> all_lists P evls"
    using assms(1) unfolding memory_layout_def by auto
  have "all_lists P evls = set evls \<union> set (xPendingReadyList P # state_lists P)" by auto
  with d assms(2) show "layout P (set evls) ts C" unfolding layout_def by (simp add: Un_commute)
  have "set (xPendingReadyList P # state_lists P) \<subseteq> all_lists P evls" by auto
  with d(1,4) show "places_fit P C" unfolding places_fit_def assms(2) by blast
qed

definition create_task :: "kernel_places \<Rightarrow> u32 \<times> nat \<Rightarrow> kernel \<Rightarrow> kernel" where
  "create_task P = (\<lambda>(t, prio) k. prvAddNewTaskToReadyList P t (initialise_task_items prio t k))"

text \<open>The static memory before anything is created, but for the event lists of the queues.\<close>

definition before_tasks :: "kernel_places \<Rightarrow> u32 list \<Rightarrow> kernel \<Rightarrow> bool" where
  "before_tasks P evls k \<longleftrightarrow> lists_are (lists k) (no_items (set evls)) \<and> pxCurrentTCB k = 0 \<and> uxTopReadyPriority k = 0 \<and>
     uxCurrentNumberOfTasks k = 0 \<and> \<not> xSchedulerRunning k"

lemma created_fits:
  "task_created k t \<Longrightarrow> t \<noteq> 0 \<Longrightarrow> tasks_fit ts k \<Longrightarrow> xStateListItem ` insert t ts \<inter> xEventListItem ` insert t ts = {} \<Longrightarrow>
    tasks_fit (insert t ts) k"
  unfolding task_created_def tasks_fit_def by blast

lemma first_task:
  assumes "before_tasks P evls k" "memory_layout P evls {t}"
  obtains C where "boot_ok P evls {t} C (create_task P (t, prio) k)"
proof -
  let ?k1 = "initialise_task_items prio t k"
  let ?k2 = "prvInitialiseTaskLists P (?k1\<lparr>uxCurrentNumberOfTasks := 1, pxCurrentTCB := t\<rparr>)"
  let ?C = "no_items (all_lists P evls)"
  have B: "lists_are (lists k) (no_items (set evls))" "pxCurrentTCB k = 0" "uxTopReadyPriority k = 0"
    "uxCurrentNumberOfTasks k = 0" "\<not> xSchedulerRunning k" using assms(1) by (simp_all add: before_tasks_def)
  have d: "distinct (xPendingReadyList P # state_lists P)" "set (xPendingReadyList P # state_lists P) \<inter> set evls = {}"
    "xStateListItem t \<notin> xListEnd ` all_lists P evls" "xEventListItem t \<notin> xListEnd ` all_lists P evls" "t \<noteq> 0"
    using assms(2) unfolding memory_layout_def by auto
  have dom: "dom ?C = all_lists P evls" by (simp only: no_items_simps)
  note L = layout_of [OF assms(2) dom]
  have "in_no_list (no_items (set evls)) (xStateListItem t)" "in_no_list (no_items (set evls)) (xEventListItem t)"
    using d(3,4) by (auto simp: in_no_list_def)
  then have "lists_are (lists ?k1) (no_items (set evls))" by (rule store_kept [OF B(1)])
  then have "lists_are (fold vListInitialise (init_order P) (lists ?k1)) (no_items (set evls \<union> set (init_order P)))"
    by (rule initialise_lists) (use d(1,2) in \<open>simp_all only: init_order(2,3)\<close>)
  moreover have "set evls \<union> set (init_order P) = all_lists P evls" unfolding init_order(2) by auto
  ultimately have are: "lists_are (lists ?k2) ?C" by (simp add: init_order(1))
  have "list_item (lists ?k2) x = list_item (lists ?k1) x" if "x = xStateListItem t \<or> x = xEventListItem t" for x
    unfolding init_order(1) using initialise_items [of x "init_order P" "lists ?k1"] d(3,4) that
    by (auto simp: init_order(2) simp del: image_iff)
  then have c: "task_created ?k2 t"
    using initialise_new_task(1) [of prio t k]
    by (simp add: task_created_def event_list_def prvInitialiseTaskLists_def Let_def own_items)
  then have ev: "event_list ?k2 t = 0" by (simp add: task_created_def)
  have frame: "pxCurrentTCB ?k2 = t" "uxTopReadyPriority ?k2 = 0" "\<not> xSchedulerRunning ?k2"
    "pxDelayedTaskList ?k2 = xDelayedTaskList1 P" "pxOverflowDelayedTaskList ?k2 = xDelayedTaskList2 P"
    using B by (simp_all add: prvInitialiseTaskLists_def initialise_task_items_def Let_def)
  have "tasks_fit {t} ?k2" using created_fits [OF c d(5), of "{}"] own_items by (simp add: tasks_fit_def)
  then have ok: "lists_ok P {t} ?C ?k2"
    using are L(2) frame ev by (simp add: lists_ok_def event_list_def del: list.set(2) set_append)
  have free: "in_no_list ?C (xStateListItem t)" using d(3) by (auto simp: in_no_list_def)
  have none: "ready P ?C q = []" if "q < 5" for q
    using places(10) [OF L(2) that] unfolding no_items_simps by blast
  have bits: "bit (uxTopReadyPriority ?k2) q \<longleftrightarrow> q < 5 \<and> ready P ?C q \<noteq> []" for q
  proof -
    have "\<not> bit (uxTopReadyPriority ?k2) q" unfolding frame(2) by simp
    then show ?thesis using none by blast
  qed
  have homes: "homes_ok P {} ?C" by (simp only: homes_ok_def ball_simps)
  have E: "\<forall>u \<in> {t}. event_list ?k2 u = 0" "pxCurrentTCB ?k2 \<in> {t}" "\<forall>u \<in> {}. task_ready P ?k2 u" "t \<notin> {}"
    "uxCurrentNumberOfTasks ?k2 = of_nat (card {t})"
    using ev frame(1) by (simp_all add: prvInitialiseTaskLists_def Let_def)
  obtain C' where "boot_ok P evls {t} C' (prvAddTaskToReadyList P t ?k2)"
    by (rule add_first_or_next [OF ok bits homes E(4) free L(1) E(3,1,2) frame(3) E(5)])
  moreover have "create_task P (t, prio) k = prvAddTaskToReadyList P t ?k2"
    using B(2,4) by (simp add: create_task_def prvAddNewTaskToReadyList_def Let_def)
  ultimately show ?thesis using that by simp
qed

lemma boot_dom:
  assumes "layout P (set evls) ts C"
  shows "dom C = all_lists P evls"
  using assms unfolding layout_def by auto

lemma boot_items:
  assumes "lists_ok P ts C k" "C l = Some xs"
  shows "set xs \<subseteq> xStateListItem ` ts \<union> xEventListItem ` ts"
  using lists_okD(4) [OF assms] by (auto simp: items_of_def split: if_splits)

lemma next_task_lists:
  assumes "lists_ok P ts C k" "t \<notin> ts" "t \<noteq> 0" "in_no_list C (xStateListItem t)" "in_no_list C (xEventListItem t)"
    and "xStateListItem ` insert t ts \<inter> xEventListItem ` insert t ts = {}"
  shows "lists_ok P (insert t ts) C (initialise_task_items prio t k)"
proof -
  let ?k = "initialise_task_items prio t k"
  note ok = lists_okD [OF assms(1)]
  note N = initialise_new_task
  have same: "list_item (lists ?k) x = list_item (lists k) x" if "x \<in> xStateListItem ` ts \<union> xEventListItem ` ts" for x
    by (rule N(4)) (use that assms(2,6) in \<open>auto simp: item_inj\<close>)
  have prio: "uxPriority ?k u = uxPriority k u" if "u \<in> ts" for u using N(3) that assms(2) by metis
  have "tasks_fit ts ?k" using ok(3) same prio unfolding tasks_fit_def by simp
  then have fit: "tasks_fit (insert t ts) ?k" by (rule created_fits [OF N(1) assms(3) _ assms(6)])
  have are: "lists_are (lists ?k) C" by (rule store_kept [OF ok(1) assms(4,5)])
  have "pxContainer (list_item (lists ?k) (xEventListItem u)) \<noteq> 0 \<longrightarrow> \<not> in_no_list C (xEventListItem u)" if "u \<in> insert t ts" for u
  proof (cases "u = t")
    case True
    then show ?thesis using N(1) [of prio t k] by (simp add: task_created_def event_list_def)
  next
    case False
    then show ?thesis using same [of "xEventListItem u"] ok(7) [of u] that by auto
  qed
  moreover have "set xs \<subseteq> items_of P (insert t ts) ?k l" if "C l = Some xs" for l xs
  proof -
    have "items_of P ts k l \<subseteq> items_of P (insert t ts) ?k l" using prio by (auto simp: items_of_def)
    with ok(4) [OF that] show ?thesis by blast
  qed
  moreover have "sorted (map (\<lambda>x. xItemValue (list_item (lists ?k) x)) xs)" if "C l = Some xs" "sorted_list P l" for l xs
  proof -
    have "map (\<lambda>x. xItemValue (list_item (lists ?k) x)) xs = map (\<lambda>x. xItemValue (list_item (lists k) x)) xs"
      using same boot_items [OF assms(1) that(1)] by (intro map_cong) (auto simp: subset_iff)
    then show ?thesis using ok(5) [OF that] by (simp only:)
  qed
  ultimately show ?thesis using are ok(2,6) fit by (simp add: lists_ok_def)
qed

lemma next_task:
  assumes "boot_ok P evls ts C k" "memory_layout P evls (insert t ts)" "t \<notin> ts"
  obtains C' where "boot_ok P evls (insert t ts) C' (create_task P (t, prio) k)"
proof -
  have B: "lists_run P (set evls) ts C k" "\<forall>t \<in> ts. task_ready P k t \<and> event_list k t = 0" "pxCurrentTCB k \<in> ts" "\<not> xSchedulerRunning k"
    "uxCurrentNumberOfTasks k = of_nat (card ts)"
    using assms(1) by (simp_all add: boot_ok_def)
  note D = lists_runD [OF B(1)]
  have dom: "dom C = all_lists P evls" by (rule boot_dom [OF D(3)])
  have fresh: "xStateListItem ` insert t ts \<inter> xEventListItem ` insert t ts = {}" "t \<noteq> 0"
    using assms(2) unfolding memory_layout_def by blast+
  note free = new_items [OF assms(2,3) dom boot_items [OF D(2)]]
  let ?k1 = "initialise_task_items prio t k"
  define k2 where "k2 = ?k1\<lparr>uxCurrentNumberOfTasks := uxCurrentNumberOfTasks k + 1,
      pxCurrentTCB := if uxPriority ?k1 (pxCurrentTCB k) \<le> uxPriority ?k1 t then t else pxCurrentTCB k\<rparr>"
  have cur: "pxCurrentTCB k \<noteq> 0" using B(3) tasks_fitD(1) [OF D(5)] by blast
  have run: "create_task P (t, prio) k = prvAddTaskToReadyList P t k2"
    using cur B(4) by (simp add: create_task_def prvAddNewTaskToReadyList_def Let_def k2_def initialise_task_items_def)
  have "lists_ok P (insert t ts) C ?k1" by (rule next_task_lists [OF D(2) assms(3) fresh(2) free fresh(1)])
  then have ok: "lists_ok P (insert t ts) C k2" by (subst lists_ok_cong [of _ ?k1]) (simp_all add: k2_def)
  have bits: "bit (uxTopReadyPriority k2) q \<longleftrightarrow> q < 5 \<and> ready P C q \<noteq> []" for q
    using D(1) by (simp add: kernel_ok_def bits_ok_def k2_def)
  have homes: "homes_ok P ts C" using D(1) by (simp add: kernel_ok_def)
  have view: "task_ready P k2 u \<longleftrightarrow> task_ready P k u" "event_list k2 u = event_list k u" if "u \<in> ts" for u
  proof -
    have ne: "u \<noteq> t" using that assms(3) by blast
    have "xStateListItem u \<noteq> xEventListItem t" "xEventListItem u \<noteq> xStateListItem t"
      using that fresh(1) by (metis disjoint_iff imageI insertCI)+
    then have "list_item (lists ?k1) (xStateListItem u) = list_item (lists k) (xStateListItem u)"
      "list_item (lists ?k1) (xEventListItem u) = list_item (lists k) (xEventListItem u)"
      by (intro initialise_new_task(4); simp add: item_inj ne)+
    then show "task_ready P k2 u \<longleftrightarrow> task_ready P k u" "event_list k2 u = event_list k u"
      using initialise_new_task(3) [OF ne] by (simp_all add: task_ready_def task_list_def event_list_def k2_def)
  qed
  have new: "event_list k2 t = 0"
    using initialise_new_task(1) [of prio t k] by (simp add: task_created_def event_list_def k2_def)
  have R: "\<forall>u \<in> ts. task_ready P k2 u" "\<forall>u \<in> insert t ts. event_list k2 u = 0" "pxCurrentTCB k2 \<in> insert t ts" "\<not> xSchedulerRunning k2"
    "uxCurrentNumberOfTasks k2 = of_nat (card (insert t ts))"
    using B(2-5) assms(3) view new by (simp_all add: k2_def initialise_task_items_def Let_def)
  obtain C' where "boot_ok P evls (insert t ts) C' (prvAddTaskToReadyList P t k2)"
    by (rule add_first_or_next [OF ok bits homes assms(3) free(1) layout_of(1) [OF assms(2) dom] R])
  with that run show ?thesis by simp
qed

section \<open>Starting the scheduler\<close>

lemma create_tasks_boot:
  assumes "boot_ok P evls ts C k" "memory_layout P evls (ts \<union> fst ` set tps)" "distinct (map fst tps)" "fst ` set tps \<inter> ts = {}"
  shows "\<exists>C'. boot_ok P evls (ts \<union> fst ` set tps) C' (fold (create_task P) tps k)"
  using assms
proof (induction tps arbitrary: k ts C)
  case Nil
  then show ?case by auto
next
  case (Cons tp tps)
  obtain t prio where tp: "tp = (t, prio)" by (cases tp)
  have "memory_layout P evls (insert t ts)" by (rule layout_subset [OF Cons.prems(2)]) (auto simp: tp)
  then obtain C1 where "boot_ok P evls (insert t ts) C1 (create_task P (t, prio) k)"
    by (rule next_task [OF Cons.prems(1)]) (use Cons.prems(4) tp in auto)
  from Cons.IH [OF this] Cons.prems(2-4) show ?case by (simp add: tp insert_commute)
qed

lemma create_fold:
  assumes "before_tasks P evls k" "memory_layout P evls (fst ` set tps)" "distinct (map fst tps)" "tps \<noteq> []"
  shows "\<exists>C. boot_ok P evls (fst ` set tps) C (fold (create_task P) tps k)"
proof -
  obtain t prio rest where tps: "tps = (t, prio) # rest" using assms(4) by (cases tps) auto
  have "memory_layout P evls {t}" by (rule layout_subset [OF assms(2)]) (simp add: tps)
  then obtain C where "boot_ok P evls {t} C (create_task P (t, prio) k)" by (rule first_task [OF assms(1)])
  from create_tasks_boot [OF this, of rest] assms(2,3) show ?thesis by (simp add: tps)
qed

definition start_state :: "kernel_places \<Rightarrow> u32 \<Rightarrow> kernel \<Rightarrow> kernel" where
  "start_state P idle k = (create_task P (idle, 0) k)\<lparr>xNextTaskUnblockTime := portMAX_DELAY, xSchedulerRunning := True, xTickCount := 0\<rparr>"

lemma start_scheduler: "vTaskStartScheduler P idle k = Some (start_state P idle k)"
  by (simp add: vTaskStartScheduler_def start_state_def create_task_def prvInitialiseNewTask_def configMAX_PRIORITIES_def)

lemma started:
  assumes "boot_ok P evls ts C k" "memory_layout P evls (insert idle ts)" "idle \<notin> ts"
  obtains C' where "run_ok P (set evls) (insert idle ts) idle C' (start_state P idle k)"
    "\<And>t. t \<in> insert idle ts \<Longrightarrow> task_ready P (start_state P idle k) t"
proof -
  let ?k1 = "create_task P (idle, 0) k" and ?k' = "start_state P idle k"
  obtain C' where C': "boot_ok P evls (insert idle ts) C' ?k1" by (rule next_task [OF assms])
  then have B: "lists_run P (set evls) (insert idle ts) C' ?k1" "\<forall>t \<in> insert idle ts. task_ready P ?k1 t \<and> event_list ?k1 t = 0"
    "pxCurrentTCB ?k1 \<in> insert idle ts" "uxCurrentNumberOfTasks ?k1 = of_nat (card (insert idle ts))" by (simp_all add: boot_ok_def)
  have "0 \<notin> insert idle ts" using assms(2) unfolding memory_layout_def by blast
  then have "0 < uxCurrentNumberOfTasks ?k1" unfolding B(4) by (rule task_count) simp
  moreover have "uxCurrentNumberOfTasks ?k' = uxCurrentNumberOfTasks ?k1" by (simp add: start_state_def)
  ultimately have count: "0 < uxCurrentNumberOfTasks ?k'" by simp
  note D = lists_runD [OF B(1)]
  have k': "?k' = ?k1\<lparr>xNextTaskUnblockTime := portMAX_DELAY, xSchedulerRunning := True, xTickCount := 0\<rparr>"
    by (simp add: start_state_def)
  have view: "task_list ?k' = task_list ?k1" "event_list ?k' = event_list ?k1" "task_ready P ?k' = task_ready P ?k1"
    "uxPriority ?k' = uxPriority ?k1" "pxCurrentTCB ?k' = pxCurrentTCB ?k1" "pxDelayedTaskList ?k' = pxDelayedTaskList ?k1"
    by (simp_all add: k' task_list_def event_list_def task_ready_def fun_eq_iff)
  have "uxPriority ?k1 idle = 0"
    using initialise_new_task(2) [of 0 idle k]
    by (simp add: create_task_def prvAddNewTaskToReadyList_def prvInitialiseTaskLists_def Let_def)
  moreover have "lists_run P (set evls) (insert idle ts) C' ?k'"
    using D(1,3) kernel_ok_cong [of ?k' ?k1] by (simp add: lists_run_def k')
  moreover have "timed_ok (insert idle ts) ?k'"
    unfolding timed_ok_def view
  proof (intro ballI impI)
    fix u assume u: "u \<in> insert idle ts" "task_list ?k1 u = pxDelayedTaskList ?k1"
    have "uxPriority ?k1 u < 5" by (rule tasks_fitD(2) [OF D(5) u(1)])
    with u B(2) delayed_apart(3) [OF D(2)] show "xTickCount ?k' < wake_time ?k' u \<and> xNextTaskUnblockTime ?k' \<le> wake_time ?k' u"
      by (auto simp: task_ready_def)
  qed
  ultimately have "run_ok P (set evls) (insert idle ts) idle C' ?k'"
    using B(2,3) count by (simp add: run_ok_def calm_def view)
  then show ?thesis by (rule that) (use B(2) view(3) in auto)
qed

end
