(* ===== verification/Rtos_Kernel.thy ===== *)
theory Rtos_Kernel
  imports Rtos_Sched_Boot
begin

text \<open>
  The kernel from the start of the scheduler on: any sequence of switches, waits, wakes, ticks, suspensions and resumptions, each
  allowed where the code calls it.
\<close>

section \<open>The started kernel\<close>

text \<open>The static memory is zero, the queues have their event lists, the tasks are created in order, and the scheduler starts.\<close>

definition static_memory :: "kernel \<Rightarrow> bool" where
  "static_memory k \<longleftrightarrow> pxCurrentTCB k = 0 \<and> uxTopReadyPriority k = 0 \<and> uxCurrentNumberOfTasks k = 0 \<and> \<not> xSchedulerRunning k \<and>
     uxSchedulerSuspended k = 0 \<and> xPendedTicks k = 0"

fun create_all :: "kernel_places \<Rightarrow> (u32 \<times> nat) list \<Rightarrow> kernel \<Rightarrow> kernel option" where
  "create_all P [] k = Some k"
| "create_all P ((t, prio) # tps) k =
     (case prvInitialiseNewTask prio t k of None \<Rightarrow> None | Some k \<Rightarrow> create_all P tps (prvAddNewTaskToReadyList P t k))"

definition boot_kernel :: "kernel_places \<Rightarrow> u32 list \<Rightarrow> (u32 \<times> nat) list \<Rightarrow> u32 \<Rightarrow> kernel \<Rightarrow> kernel option" where
  "boot_kernel P evls tps idle k =
     (case create_all P tps (k\<lparr>lists := fold vListInitialise evls (lists k)\<rparr>) of
        None \<Rightarrow> None | Some k \<Rightarrow> vTaskStartScheduler P idle k)"

definition tasks_of :: "(u32 \<times> nat) list \<Rightarrow> u32 \<Rightarrow> u32 set" where
  "tasks_of tps idle = insert idle (fst ` set tps)"

definition boots :: "kernel_places \<Rightarrow> u32 list \<Rightarrow> (u32 \<times> nat) list \<Rightarrow> u32 \<Rightarrow> kernel \<Rightarrow> bool" where
  "boots P evls tps idle k \<longleftrightarrow>
     static_memory k \<and> memory_layout P evls (tasks_of tps idle) \<and> distinct (idle # map fst tps) \<and> tps \<noteq> [] \<and>
     (\<forall>(_, prio) \<in> set tps. prio < configMAX_PRIORITIES)"

lemma create_all_fold:
  "\<forall>(_, prio) \<in> set tps. prio < configMAX_PRIORITIES \<Longrightarrow> create_all P tps k = Some (fold (create_task P) tps k)"
  by (induction tps arbitrary: k) (auto simp: prvInitialiseNewTask_def create_task_def)

lemma boot_run:
  assumes "boots P evls tps idle k"
  obtains C k' where "boot_kernel P evls tps idle k = Some k'" "run_ok P (set evls) (tasks_of tps idle) idle C k'"
    "\<And>t. t \<in> tasks_of tps idle \<Longrightarrow> task_ready P k' t"
    "k' = start_state P idle (fold (create_task P) tps (k\<lparr>lists := fold vListInitialise evls (lists k)\<rparr>))"
proof -
  have A: "static_memory k" "memory_layout P evls (insert idle (fst ` set tps))" "distinct (map fst tps)" "idle \<notin> fst ` set tps" "tps \<noteq> []"
    "\<forall>(_, prio) \<in> set tps. prio < configMAX_PRIORITIES"
    using assms by (auto simp: boots_def tasks_of_def)
  let ?k = "k\<lparr>lists := fold vListInitialise evls (lists k)\<rparr>"
  have "lists_are (lists k) (no_items {})" by (simp add: lists_are_def)
  then have "lists_are (fold vListInitialise evls (lists k)) (no_items ({} \<union> set evls))"
    by (rule initialise_lists) (use A(2) in \<open>simp_all add: memory_layout_def\<close>)
  then have "before_tasks P evls ?k" using A(1) by (simp add: before_tasks_def static_memory_def)
  moreover have "memory_layout P evls (fst ` set tps)" by (rule layout_subset [OF A(2)]) auto
  ultimately obtain C where "boot_ok P evls (fst ` set tps) C (fold (create_task P) tps ?k)"
    using create_fold [OF _ _ A(3,5)] by blast
  then obtain C' where "run_ok P (set evls) (insert idle (fst ` set tps)) idle C' (start_state P idle (fold (create_task P) tps ?k))"
    "\<And>t. t \<in> insert idle (fst ` set tps) \<Longrightarrow> task_ready P (start_state P idle (fold (create_task P) tps ?k)) t"
    by (rule started [OF _ A(2,4)]) blast
  with that create_all_fold [OF A(6), of P ?k] show ?thesis by (simp add: boot_kernel_def tasks_of_def start_scheduler)
qed

section \<open>Operations\<close>

datatype kernel_op =
    Switch
  | Block u32 bool
  | Wait_event u32 u32
  | Wake_event u32
  | Notify u32
  | Tick
  | Suspend
  | Resume

fun kernel_step :: "kernel_places \<Rightarrow> kernel_op \<Rightarrow> kernel \<Rightarrow> kernel outcome option" where
  "kernel_step P Switch k = vTaskSwitchContext P k"
| "kernel_step P (Block ticks forever) k = map_option Ret (prvAddCurrentTaskToDelayedList P ticks forever k)"
| "kernel_step P (Wait_event l ticks) k = map_option Ret (vTaskPlaceOnEventList_TCB P l ticks k)"
| "kernel_step P (Wake_event l) k = map_option (\<lambda>(_, k). Ret k) (xTaskRemoveFromEventList P l k)"
| "kernel_step P (Notify t) k = map_option Ret (wake_notified P t k)"
| "kernel_step P Tick k = map_option (\<lambda>(_, k). Ret k) (xTaskIncrementTick P k)"
| "kernel_step P Suspend k = Some (Ret (vTaskSuspendAll k))"
| "kernel_step P Resume k = map_option (\<lambda>(_, k). Ret k) (xTaskResumeAll P k)"

text \<open>A sequence of operations, as far as they return.\<close>

fun kernel_run :: "kernel_places \<Rightarrow> kernel_op list \<Rightarrow> kernel \<Rightarrow> kernel outcome option" where
  "kernel_run P [] k = Some (Ret k)"
| "kernel_run P (op # ops) k =
     (case kernel_step P op k of Some (Ret k') \<Rightarrow> kernel_run P ops k' | None \<Rightarrow> None | Some Undef \<Rightarrow> Some Undef)"

text \<open>
  When the code calls them: a task that runs, other than the idle task, blocks for some ticks; an event is given to a task when one waits;
  a notification wakes a task that waits for no event; a resumption follows a suspension.
\<close>

fun op_allowed :: "kernel_places \<Rightarrow> u32 list \<Rightarrow> u32 set \<Rightarrow> u32 \<Rightarrow> kernel_op \<Rightarrow> kernel \<Rightarrow> bool" where
  "op_allowed P evls ts idle Switch k \<longleftrightarrow> True"
| "op_allowed P evls ts idle (Block ticks forever) k \<longleftrightarrow> task_ready P k (pxCurrentTCB k) \<and> pxCurrentTCB k \<noteq> idle \<and> 0 < ticks"
| "op_allowed P evls ts idle (Wait_event l ticks) k \<longleftrightarrow>
     task_ready P k (pxCurrentTCB k) \<and> pxCurrentTCB k \<noteq> idle \<and> 0 < ticks \<and> l \<in> set evls"
| "op_allowed P evls ts idle (Wake_event l) k \<longleftrightarrow> l \<in> set evls \<and> \<not> listLIST_IS_EMPTY l (lists k)"
| "op_allowed P evls ts idle (Notify t) k \<longleftrightarrow> t \<in> ts \<and> \<not> task_ready P k t \<and> event_list k t = 0"
| "op_allowed P evls ts idle Tick k \<longleftrightarrow> True"
| "op_allowed P evls ts idle Suspend k \<longleftrightarrow> True"
| "op_allowed P evls ts idle Resume k \<longleftrightarrow> uxSchedulerSuspended k \<noteq> 0"

inductive kernel_reaches :: "kernel_places \<Rightarrow> u32 list \<Rightarrow> u32 set \<Rightarrow> u32 \<Rightarrow> kernel \<Rightarrow> kernel \<Rightarrow> bool"
  for P evls ts idle where
  start: "kernel_reaches P evls ts idle k k"
| step: "kernel_reaches P evls ts idle k k1 \<Longrightarrow> op_allowed P evls ts idle op k1 \<Longrightarrow> kernel_step P op k1 = Some (Ret k2) \<Longrightarrow>
    kernel_reaches P evls ts idle k k2"

lemma kernel_step_runs:
  assumes "run_ok P (set evls) ts idle C k" "op_allowed P evls ts idle op k"
  shows "\<exists>C' k'. kernel_step P op k = Some (Ret k') \<and> run_ok P (set evls) ts idle C' k'"
proof (cases op)
  case Switch
  show ?thesis
  proof (cases "uxSchedulerSuspended k = 0")
    case True
    obtain p where "top_priority P C p" by (rule top_ready [OF assms(1)])
    from run_switch [OF assms(1) True this] Switch show ?thesis by (metis kernel_step.simps(1))
  next
    case False
    have "run_ok P (set evls) ts idle C (k\<lparr>xYieldPending := True\<rparr>)" using assms(1) by (subst run_cong [of _ k]) simp_all
    with False Switch show ?thesis by (auto simp: vTaskSwitchContext_def)
  qed
next
  case (Block ticks forever)
  obtain C' k' where "prvAddCurrentTaskToDelayedList P ticks forever k = Some k'" "run_ok P (set evls) ts idle C' k'"
    by (rule run_delay [OF assms(1)]) (use assms(2) Block in auto)
  with Block show ?thesis by auto
next
  case (Wait_event l ticks)
  obtain C' k' where "vTaskPlaceOnEventList_TCB P l ticks k = Some k'" "run_ok P (set evls) ts idle C' k'"
    by (rule run_wait_event [OF assms(1)]) (use assms(2) Wait_event in auto)
  with Wait_event show ?thesis by auto
next
  case (Wake_event l)
  note D = lists_runD [OF run_okD(1) [OF assms(1)]]
  have l: "l \<in> set evls" "\<not> listLIST_IS_EMPTY l (lists k)" using assms(2) Wake_event by simp_all
  obtain xs where xs: "C l = Some xs" using event_lists_of(1) [OF D(3) l(1)] by blast
  then obtain x rest where "xs = x # rest" using empty_list [OF lists_okD(1) [OF D(2)] xs] l(2) by (cases xs) auto
  with xs have "C l = Some (x # rest)" by simp
  then obtain C' k' t where "xTaskRemoveFromEventList P l k = Some (uxPriority k (pxCurrentTCB k) < uxPriority k t, k')"
    "run_ok P (set evls) ts idle C' k'" by (rule run_wake_event [OF assms(1) l(1)])
  with Wake_event show ?thesis by auto
next
  case (Notify t)
  obtain C' k' where "wake_notified P t k = Some k'" "run_ok P (set evls) ts idle C' k'"
    by (rule run_notify [OF assms(1)]) (use assms(2) Notify in auto)
  with Notify show ?thesis by auto
next
  case Tick
  show ?thesis
  proof (cases "uxSchedulerSuspended k = 0")
    case True
    obtain C' k' where "xTaskIncrementTick P k = Some (False, k')" "run_ok P (set evls) ts idle C' k'"
      by (rule run_tick [OF assms(1) True])
    with Tick show ?thesis by auto
  next
    case False
    have "run_ok P (set evls) ts idle C (k\<lparr>xPendedTicks := xPendedTicks k + 1\<rparr>)" using assms(1) by (subst run_cong [of _ k]) simp_all
    with run_pended_tick [OF False] Tick show ?thesis by auto
  qed
next
  case Suspend
  have "run_ok P (set evls) ts idle C (vTaskSuspendAll k)"
    using assms(1) by (subst run_cong [of _ k]) (simp_all add: vTaskSuspendAll_def)
  with Suspend show ?thesis by auto
next
  case Resume
  obtain C' k' where "xTaskResumeAll P k = Some (False, k')" "run_ok P (set evls) ts idle C' k'"
    by (rule run_resume [OF assms(1)]) (use assms(2) Resume in auto)
  with Resume show ?thesis by auto
qed

lemma reaches_run:
  assumes "kernel_reaches P evls ts idle k k'" "\<exists>C. run_ok P (set evls) ts idle C k"
  shows "\<exists>C. run_ok P (set evls) ts idle C k'"
  using assms
proof induction
  case (step k k1 op k2)
  then obtain C where "run_ok P (set evls) ts idle C k1" by blast
  from kernel_step_runs [OF this step.hyps(2)] step.hyps(3) show ?case by auto
qed

lemma booted_run:
  assumes "boots P evls tps idle k0" "boot_kernel P evls tps idle k0 = Some kb" "kernel_reaches P evls (tasks_of tps idle) idle kb k"
  obtains C where "run_ok P (set evls) (tasks_of tps idle) idle C k"
proof -
  obtain C k' where "boot_kernel P evls tps idle k0 = Some k'" "run_ok P (set evls) (tasks_of tps idle) idle C k'"
    by (rule boot_run [OF assms(1)])
  then have "\<exists>C. run_ok P (set evls) (tasks_of tps idle) idle C k" using assms(2) by (intro reaches_run [OF assms(3)]) auto
  then show ?thesis using that by blast
qed

text \<open>A start with a packet task of priority 1, an IP task of priority 2 and the idle task, and two event lists.\<close>

definition example_places :: kernel_places where
  "example_places = \<lparr>pxReadyTasksLists = (\<lambda>p. 0x20000100 + 20 * of_nat p), xDelayedTaskList1 = 0x20000200, xDelayedTaskList2 = 0x20000220,
     xPendingReadyList = 0x20000240, xSuspendedTaskList = 0x20000260, xTasksWaitingTermination = 0x20000280\<rparr>"

definition example_memory :: kernel where
  "example_memory = \<lparr>lists = \<lparr>list_item = (\<lambda>_. \<lparr>xItemValue = 0, pxNext = 0, pxPrevious = 0, pvOwner = 0, pxContainer = 0\<rparr>),
       list_head = (\<lambda>_. \<lparr>uxNumberOfItems = 0, pxIndex = 0\<rparr>)\<rparr>,
     uxPriority = (\<lambda>_. 0), pxCurrentTCB = 0, uxTopReadyPriority = 0, pxDelayedTaskList = 0, pxOverflowDelayedTaskList = 0, xTickCount = 0,
     xNextTaskUnblockTime = 0, xPendedTicks = 0, xNumOfOverflows = 0, uxSchedulerSuspended = 0, xYieldPending = False,
     uxCurrentNumberOfTasks = 0, xSchedulerRunning = False\<rparr>"

definition example_tasks :: "(u32 \<times> nat) list" where "example_tasks = [(0x20002000, 1), (0x20003000, 2)]"
definition example_evls :: "u32 list" where "example_evls = [0x20000300, 0x20000320]"

abbreviation example_kernel :: kernel where
  "example_kernel \<equiv> the (boot_kernel example_places example_evls example_tasks 0x20004000 example_memory)"

lemma example_boots: "boots example_places example_evls example_tasks 0x20004000 example_memory"
  by (simp add: boots_def static_memory_def memory_layout_def tasks_of_def example_memory_def example_tasks_def example_evls_def
      example_places_def state_lists_def upt_rec configMAX_PRIORITIES_def xStateListItem_def xEventListItem_def xListEnd_def)

lemma create_fields:
  "uxSchedulerSuspended (create_task P (t, prio) k) = uxSchedulerSuspended k" "xPendedTicks (create_task P (t, prio) k) = xPendedTicks k"
  "uxPriority (create_task P (t, prio) k) = (uxPriority k)(t := min prio 4)" "xSchedulerRunning (create_task P (t, prio) k) = xSchedulerRunning k"
  "pxCurrentTCB (create_task P (t, prio) k) =
    (if pxCurrentTCB k = 0 then t
     else if \<not> xSchedulerRunning k \<and> ((uxPriority k)(t := min prio 4)) (pxCurrentTCB k) \<le> min prio 4 then t else pxCurrentTCB k)"
  by (auto simp: create_task_def prvAddNewTaskToReadyList_def initialise_task_items_def prvInitialiseTaskLists_def Let_def ready_fields
      configMAX_PRIORITIES_def min_def)

lemma start_fields: "pxCurrentTCB (start_state P idle k) = pxCurrentTCB (create_task P (idle, 0) k)"
  "uxPriority (start_state P idle k) = uxPriority (create_task P (idle, 0) k)"
  "uxSchedulerSuspended (start_state P idle k) = uxSchedulerSuspended (create_task P (idle, 0) k)"
  "xPendedTicks (start_state P idle k) = xPendedTicks (create_task P (idle, 0) k)"
  by (simp_all add: start_state_def)

lemma example_boot: "boot_kernel example_places example_evls example_tasks 0x20004000 example_memory = Some example_kernel"
  by (rule boot_run [OF example_boots]) simp

lemma example_current: "pxCurrentTCB example_kernel = 0x20003000" "uxSchedulerSuspended example_kernel = 0" "xPendedTicks example_kernel = 0"
  by (rule boot_run [OF example_boots]; simp add: start_fields create_fields example_memory_def example_tasks_def)+

lemma example_ready:
  assumes "t \<in> {0x20002000, 0x20003000, 0x20004000}"
  shows "task_ready example_places example_kernel t" "event_list example_kernel t = 0"
proof -
  have t: "t \<in> tasks_of example_tasks 0x20004000" using assms by (auto simp: tasks_of_def example_tasks_def)
  obtain C where "run_ok example_places (set example_evls) (tasks_of example_tasks 0x20004000) 0x20004000 C example_kernel"
    "\<And>t. t \<in> tasks_of example_tasks 0x20004000 \<Longrightarrow> task_ready example_places example_kernel t"
    by (rule boot_run [OF example_boots]) simp
  with calmD(1) [OF run_okD(3) [OF this(1)] t] t show "task_ready example_places example_kernel t" "event_list example_kernel t = 0" by simp_all
qed

lemma example_evls_in: "0x20000300 \<in> set example_evls"
  by (simp add: example_evls_def)

text \<open>The IP task waits for an event.\<close>

lemma example_waiting:
  "\<exists>k. kernel_reaches example_places example_evls (tasks_of example_tasks 0x20004000) 0x20004000 example_kernel k \<and>
    uxSchedulerSuspended k = 0 \<and> \<not> listLIST_IS_EMPTY 0x20000300 (lists k)"
proof -
  let ?ts = "tasks_of example_tasks 0x20004000" and ?l = "0x20000300 :: u32"
  obtain C where C: "run_ok example_places (set example_evls) ?ts 0x20004000 C example_kernel"
    by (rule boot_run [OF example_boots]) simp
  have ready: "task_ready example_places example_kernel (pxCurrentTCB example_kernel)" "pxCurrentTCB example_kernel \<noteq> 0x20004000"
    using example_ready(1) by (simp_all add: example_current)
  have t: "pxCurrentTCB example_kernel \<in> ?ts" by (rule calmD(5) [OF run_okD(3) [OF C]])
  have pos: "(0 :: u32) < 3" by simp
  obtain C1 k1 where k1: "vTaskPlaceOnEventList_TCB example_places ?l 3 example_kernel = Some k1"
    "run_ok example_places (set example_evls) ?ts 0x20004000 C1 k1" "same_frame example_kernel k1"
    "\<And>u. u \<in> ?ts \<Longrightarrow> event_list k1 u = (if u = pxCurrentTCB example_kernel then ?l else event_list example_kernel u)"
    by (rule run_wait_event [OF C ready pos example_evls_in]) blast
  have e: "event_list k1 (pxCurrentTCB example_kernel) = ?l" using k1(4) [OF t] by simp
  note L = run_okD(1) [OF k1(2)]
  obtain xs where "C1 ?l = Some xs" "xEventListItem (pxCurrentTCB example_kernel) \<in> set xs" using event_item(2) [OF L t, unfolded e] by auto
  then have "C1 ?l = Some xs" "xs \<noteq> []" by auto
  then have "\<not> listLIST_IS_EMPTY ?l (lists k1)" using empty_list [OF lists_okD(1) [OF lists_runD(2) [OF L]]] by blast
  moreover have "kernel_reaches example_places example_evls ?ts 0x20004000 example_kernel k1"
    by (rule kernel_reaches.step [OF kernel_reaches.start, where op = "Wait_event ?l 3"])
      (use ready example_evls_in k1(1) in simp_all)
  ultimately show ?thesis using k1(3) by (auto simp: same_frame_def example_current)
qed

section \<open>Suspension\<close>

text \<open>Ticks while the scheduler is suspended are counted; while it runs each is made.\<close>

lemma run_suspended_ticks:
  "uxSchedulerSuspended k \<noteq> 0 \<Longrightarrow>
    kernel_run P (replicate n Tick @ ops) k = kernel_run P ops (pend (xPendedTicks k + of_nat n) k)"
  by (induction n arbitrary: k) (simp_all add: run_pended_tick algebra_simps)

lemma run_ticks:
  assumes "run_ok P evls ts idle C k" "uxSchedulerSuspended k = 0"
  shows "kernel_run P (replicate n Tick) k = map_option Ret (pended_ticks P n k)"
  using assms
proof (induction n arbitrary: k C)
  case (Suc n)
  obtain C1 k1 where "xTaskIncrementTick P k = Some (False, k1)" "run_ok P evls ts idle C1 k1" "uxSchedulerSuspended k1 = 0"
    by (rule run_tick [OF Suc.prems]) blast
  with Suc.IH [OF this(2,3)] show ?case by simp
qed simp

lemma resume_plain:
  assumes "run_ok P evls ts idle C k" "uxSchedulerSuspended k = 0" "\<And>t. t \<in> ts \<Longrightarrow> event_list k t \<noteq> xPendingReadyList P"
  shows "xTaskResumeAll P (pend v (vTaskSuspendAll k)) = map_option (\<lambda>k'. (False, pend (if v > 0 then 0 else v) k')) (pended_ticks P (unat v) k)"
proof -
  note D = lists_runD [OF run_okD(1) [OF assms(1)]]
  obtain xs where xs: "C (xPendingReadyList P) = Some xs" using places(14) [OF D(4)] by blast
  have "xs = []"
  proof (cases xs)
    case (Cons x rest)
    have "x \<in> items_of P ts k (xPendingReadyList P)" using lists_okD(4) [OF D(2) xs] Cons by auto
    then obtain t where t: "t \<in> ts" "x = xEventListItem t" using places(15) [OF D(4)] by (auto simp: items_of_def)
    with event_item(3) [OF run_okD(1) [OF assms(1)] t(1) xs] Cons assms(3) show ?thesis by simp
  qed simp
  then have empty: "listLIST_IS_EMPTY (xPendingReadyList P) (lists k)" using empty_list [OF lists_okD(1) [OF D(2)] xs] by simp
  have resumed: "(pend v (vTaskSuspendAll k))\<lparr>uxSchedulerSuspended := 0\<rparr> = pend v k"
    using assms(2) by (simp add: vTaskSuspendAll_def)
  have one: "uxSchedulerSuspended (pend v (vTaskSuspendAll k)) = 1" using assms(2) by (simp add: vTaskSuspendAll_def)
  have tasks: "0 < uxCurrentNumberOfTasks k" by (rule calmD(6) [OF run_okD(3) [OF assms(1)]])
  have loop: "pending_loop P False (pend v k) = Some (False, pend v k)" using empty by (simp add: pending_loop.simps)
  show ?thesis
    unfolding xTaskResumeAll_def Let_def one using resumed tasks loop pended_pend [OF assms(1,2), of "unat v" v] assms(2)
    by (simp add: option.map_comp comp_def)
qed

section \<open>Waiting with a time limit\<close>

lemma wraps_round: "(w :: u32) + v < w \<longleftrightarrow> 2 ^ 32 \<le> unat w + unat v"
proof -
  have lt: "unat w < 2 ^ 32" "unat v < 2 ^ 32" using unsigned_less [of w] unsigned_less [of v] by simp_all
  have "unat (w + v) = (unat w + unat v) mod 2 ^ 32" using unat_word_ariths(1) [of w v] by simp
  also have "\<dots> = (if 2 ^ 32 \<le> unat w + unat v then unat w + unat v - 2 ^ 32 else unat w + unat v)"
    using lt by (auto simp: mod_if)
  finally have sum: "unat (w + v) = (if 2 ^ 32 \<le> unat w + unat v then unat w + unat v - 2 ^ 32 else unat w + unat v)" .
  show ?thesis
  proof (cases "2 ^ 32 \<le> unat w + unat v")
    case True
    then have "unat w + unat v - 2 ^ 32 < unat w" using lt by linarith
    with True sum show ?thesis by (simp add: word_less_nat_alt)
  qed (use sum in \<open>simp add: word_less_nat_alt\<close>)
qed

lemma unat_add_of_nat: "unat w + n < 2 ^ 32 \<Longrightarrow> unat ((w :: u32) + of_nat n) = unat w + n"
  by (simp add: unat_word_ariths(1) unat_of_nat_u32)

lemma event_list_not_pending:
  assumes "run_ok P evls ts idle C k" "l \<in> evls"
  shows "l \<noteq> xPendingReadyList P"
  using lists_runD(3) [OF run_okD(1) [OF assms(1)]] assms(2) by (auto simp: layout_def)

lemma blocked_sleeps:
  assumes "same_frame k k1" "task_list k1 t = blocked_list P ticks True k" "wake_time k1 t = xTickCount k + ticks"
    and "0 < ticks" "ticks \<noteq> portMAX_DELAY"
  shows "sleeps k1 t (unat ticks)"
  using assms wraps_round [of "xTickCount k" ticks] unsigned_less [of ticks]
  by (auto simp: sleeps_def same_frame_def blocked_list_def word_gt_0_no word_less_nat_alt unat_gt_0)

lemma run_timed_wait:
  assumes "run_ok P evls ts idle C k" "task_ready P k (pxCurrentTCB k)" "pxCurrentTCB k \<noteq> idle" "0 < ticks"
    and "ticks \<noteq> portMAX_DELAY" "l \<in> evls"
  obtains C' k' where "vTaskPlaceOnEventList_TCB P l ticks k = Some k'" "run_ok P evls ts idle C' k'" "same_frame k k'"
    "timed_wait P k' (pxCurrentTCB k) (unat ticks) l"
proof -
  let ?t = "pxCurrentTCB k"
  have t: "?t \<in> ts" by (rule calmD(5) [OF run_okD(3) [OF assms(1)]])
  obtain C1 k1 where k1: "vTaskPlaceOnEventList_TCB P l ticks k = Some k1" "run_ok P evls ts idle C1 k1"
    "same_frame k k1" "\<And>u. u \<in> ts \<Longrightarrow> task_list k1 u = (if u = ?t then blocked_list P ticks True k else task_list k u)"
    "\<And>u. u \<in> ts \<Longrightarrow> event_list k1 u = (if u = ?t then l else event_list k u)"
    "\<And>u. u \<in> ts \<Longrightarrow> wake_time k1 u = (if u = ?t \<and> ticks \<noteq> portMAX_DELAY then xTickCount k + ticks else wake_time k u)"
    by (rule run_wait_event [OF assms(1-4,6)]) blast
  have "sleeps k1 ?t (unat ticks)"
    by (rule blocked_sleeps [OF k1(3)]) (use k1(4,6) [OF t] assms(4,5) in simp_all)
  with k1(5) [OF t] assms(4) have "timed_wait P k1 ?t (unat ticks) l"
    by (simp add: timed_wait_def word_gt_0 unat_eq_zero)
  with that k1(1-3) show ?thesis .
qed

text \<open>The example with the scheduler suspended by the IP task, and one tick pended since.\<close>

lemma example_suspended:
  "kernel_reaches example_places example_evls (tasks_of example_tasks 0x20004000) 0x20004000 example_kernel
     (vTaskSuspendAll (pend 1 example_kernel))"
proof -
  let ?s = "vTaskSuspendAll example_kernel"
  have "kernel_reaches example_places example_evls (tasks_of example_tasks 0x20004000) 0x20004000 example_kernel ?s"
    by (rule kernel_reaches.step [OF kernel_reaches.start, where op = Suspend]) simp_all
  then have "kernel_reaches example_places example_evls (tasks_of example_tasks 0x20004000) 0x20004000 example_kernel
      (?s\<lparr>xPendedTicks := xPendedTicks ?s + 1\<rparr>)"
    by (rule kernel_reaches.step [where op = Tick])
      (simp_all add: run_pended_tick vTaskSuspendAll_def example_current)
  moreover have "?s\<lparr>xPendedTicks := xPendedTicks ?s + 1\<rparr> = vTaskSuspendAll (pend 1 example_kernel)"
    by (simp add: vTaskSuspendAll_def example_current)
  ultimately show ?thesis by simp
qed

section \<open>The properties\<close>

text \<open>
  C18. The scheduler starts, and from its start on, whatever sequence of switches, waits, wakes, notifications, ticks, suspensions and
  resumptions has run, the next one that is allowed returns: no assertion of the kernel fails, no list is walked without end, and no
  list outside the array of the ready lists is used.
\<close>

theorem kernel_never_stops:
  assumes "boots P evls tps idle k0"
  shows "\<exists>kb. boot_kernel P evls tps idle k0 = Some kb \<and>
    (\<forall>k op. kernel_reaches P evls (tasks_of tps idle) idle kb k \<longrightarrow> op_allowed P evls (tasks_of tps idle) idle op k \<longrightarrow>
       (\<exists>k'. kernel_step P op k = Some (Ret k')))"
proof -
  obtain kb where kb: "boot_kernel P evls tps idle k0 = Some kb" by (rule boot_run [OF assms])
  have "\<exists>k'. kernel_step P op k = Some (Ret k')"
    if k: "kernel_reaches P evls (tasks_of tps idle) idle kb k" "op_allowed P evls (tasks_of tps idle) idle op k" for k op
  proof -
    obtain C where "run_ok P (set evls) (tasks_of tps idle) idle C k" by (rule booted_run [OF assms kb k(1)])
    from kernel_step_runs [OF this k(2)] show ?thesis by blast
  qed
  with kb show ?thesis by blast
qed

theorem kernel_never_stops_witness: "\<exists>k'. kernel_step example_places Tick example_kernel = Some (Ret k')"
proof -
  obtain kb where kb: "boot_kernel example_places example_evls example_tasks 0x20004000 example_memory = Some kb"
    "\<forall>k op. kernel_reaches example_places example_evls (tasks_of example_tasks 0x20004000) 0x20004000 kb k \<longrightarrow>
       op_allowed example_places example_evls (tasks_of example_tasks 0x20004000) 0x20004000 op k \<longrightarrow>
       (\<exists>k'. kernel_step example_places op k = Some (Ret k'))"
    using kernel_never_stops [OF example_boots] by blast
  have "op_allowed example_places example_evls (tasks_of example_tasks 0x20004000) 0x20004000 Tick kb" by simp
  with kb kernel_reaches.start show ?thesis by (metis option.sel)
qed

text \<open>
  C19. In every state that the kernel reaches with the scheduler running, a switch chooses a ready task, and no ready task has a
  higher priority.
\<close>

theorem switch_runs_highest:
  assumes "boots P evls tps idle k0" "boot_kernel P evls tps idle k0 = Some kb"
    and "kernel_reaches P evls (tasks_of tps idle) idle kb k" "uxSchedulerSuspended k = 0"
  shows "\<exists>k'. vTaskSwitchContext P k = Some (Ret k') \<and> pxCurrentTCB k' \<in> tasks_of tps idle \<and> task_ready P k (pxCurrentTCB k') \<and>
    (\<forall>t \<in> tasks_of tps idle. task_ready P k t \<longrightarrow> uxPriority k t \<le> uxPriority k (pxCurrentTCB k'))"
proof -
  obtain C where C: "run_ok P (set evls) (tasks_of tps idle) idle C k" by (rule booted_run [OF assms(1-3)])
  obtain p where p: "top_priority P C p" by (rule top_ready [OF C])
  then have "p < 5" by (simp add: top_priority_def)
  note tasks = ready_turns_tasks [OF run_okD(4) [OF C] this]
  obtain k' where k': "vTaskSwitchContext P k = Some (Ret k')" "ready_turns P C k p \<noteq> []" "pxCurrentTCB k' = hd (ready_turns P C k p)"
    "\<And>t. t \<in> tasks_of tps idle \<Longrightarrow> task_ready P k t \<Longrightarrow> uxPriority k t \<le> p"
    by (rule run_switch [OF C assms(4) p]) blast
  from hd_in_set [OF k'(2)] tasks k'(1,3,4) show ?thesis by auto
qed

text \<open>
  C23. As long as no task blocks or wakes, the switches let the ready tasks of the highest priority run in turn, each once per round,
  in an order that stays.
\<close>

theorem ready_tasks_take_turns:
  assumes "boots P evls tps idle k0" "boot_kernel P evls tps idle k0 = Some kb"
    and "kernel_reaches P evls (tasks_of tps idle) idle kb k" "uxSchedulerSuspended k = 0"
  shows "\<exists>turns. distinct turns \<and> turns \<noteq> [] \<and>
    set turns = {t \<in> tasks_of tps idle. task_ready P k t \<and> (\<forall>u \<in> tasks_of tps idle. task_ready P k u \<longrightarrow> uxPriority k u \<le> uxPriority k t)} \<and>
    (\<forall>n. \<exists>k'. switches P n k = Some (map (\<lambda>i. turns ! (i mod length turns)) [0..<n], k'))"
proof -
  obtain C where C: "run_ok P (set evls) (tasks_of tps idle) idle C k" by (rule booted_run [OF assms(1-3)])
  obtain p where p: "top_priority P C p" by (rule top_ready [OF C])
  then have p5: "p < 5" by (simp add: top_priority_def)
  note tasks = ready_turns_tasks [OF run_okD(4) [OF C] p5]
  obtain k' where k': "ready_turns P C k p \<noteq> []" "\<And>t. t \<in> tasks_of tps idle \<Longrightarrow> task_ready P k t \<Longrightarrow> uxPriority k t \<le> p"
    by (rule run_switch [OF C assms(4) p]) blast
  obtain t where t: "t \<in> tasks_of tps idle" "task_ready P k t" "uxPriority k t = p" using k'(1) hd_in_set tasks by blast
  have "set (ready_turns P C k p) =
      {t \<in> tasks_of tps idle. task_ready P k t \<and> (\<forall>u \<in> tasks_of tps idle. task_ready P k u \<longrightarrow> uxPriority k u \<le> uxPriority k t)}"
    unfolding tasks using k'(2) t by (auto intro: order_antisym)
  then show ?thesis
    using distinct_ready_turns [OF run_okD(4) [OF C] p5] k'(1) run_switches [OF C assms(4) p] by blast
qed

text \<open>
  C24. When an event is given to an event list while the scheduler is not suspended, the task that becomes ready is one that waits for it, no other that waits for it has a
  higher priority, it waits for no event any more, and the caller learns whether it has a higher priority than the running task.
\<close>

theorem event_wakes_highest_waiter:
  assumes "boots P evls tps idle k0" "boot_kernel P evls tps idle k0 = Some kb"
    and "kernel_reaches P evls (tasks_of tps idle) idle kb k" "uxSchedulerSuspended k = 0"
    and "l \<in> set evls" "\<not> listLIST_IS_EMPTY l (lists k)"
  shows "\<exists>t k'. xTaskRemoveFromEventList P l k = Some (uxPriority k (pxCurrentTCB k) < uxPriority k t, k') \<and>
    t \<in> tasks_of tps idle \<and> event_list k t = l \<and> (\<forall>u \<in> tasks_of tps idle. event_list k u = l \<longrightarrow> uxPriority k u \<le> uxPriority k t) \<and>
    task_ready P k' t \<and> event_list k' t = 0 \<and> (\<forall>u \<in> tasks_of tps idle. u \<noteq> t \<longrightarrow> task_list k' u = task_list k u)"
proof -
  obtain C where C: "run_ok P (set evls) (tasks_of tps idle) idle C k" by (rule booted_run [OF assms(1-3)])
  note D = lists_runD [OF run_okD(1) [OF C]]
  obtain xs where xs: "C l = Some xs" using event_lists_of(1) [OF D(3) assms(5)] by blast
  then obtain x rest where "xs = x # rest" using empty_list [OF lists_okD(1) [OF D(2)] xs] assms(6) by (cases xs) auto
  with xs have "C l = Some (x # rest)" by simp
  then obtain C' k' t where k': "xTaskRemoveFromEventList P l k = Some (uxPriority k (pxCurrentTCB k) < uxPriority k t, k')"
    "run_ok P (set evls) (tasks_of tps idle) idle C' k'" "t \<in> tasks_of tps idle" "event_list k t = l"
    "\<And>u. u \<in> tasks_of tps idle \<Longrightarrow> event_list k u = l \<Longrightarrow> uxPriority k u \<le> uxPriority k t"
    "\<And>u. u \<in> tasks_of tps idle \<Longrightarrow> task_list k' u = (if u = t \<and> uxSchedulerSuspended k = 0 then ready_list P k t else task_list k u)"
    "uxPriority k' = uxPriority k" by (rule run_wake_event [OF C assms(5)]) blast
  have "task_ready P k' t" using k'(3,6,7) assms(4) by (simp add: task_ready_def ready_list_def)
  moreover from calmD(1) [OF run_okD(3) [OF k'(2)] k'(3) this] have "event_list k' t = 0" .
  ultimately show ?thesis using k' by auto
qed

text \<open>
  C20. A task that waits for an event with a time limit, as the queues make it wait: with the scheduler suspended, and with any number of ticks
  pended already. However many ticks come before the scheduler resumes and after, the task is ready again exactly when the ticks pended
  at its call and those that came since are together as many as it asked for or more, and it has then left the event list; before, it
  waits there. This also holds when the tick count wraps round in between.
\<close>

theorem event_wait_times_out:
  assumes "boots P evls tps idle k0" "boot_kernel P evls tps idle k0 = Some kb"
    and "kernel_reaches P evls (tasks_of tps idle) idle kb k" "uxSchedulerSuspended k = 1"
    and "task_ready P k (pxCurrentTCB k)" "pxCurrentTCB k \<noteq> idle" "0 < ticks" "ticks \<noteq> portMAX_DELAY" "l \<in> set evls"
    and "unat (xPendedTicks k) + early < 2 ^ 32"
  shows "\<exists>k'. kernel_run P (Wait_event l ticks # replicate early Tick @ Resume # replicate late Tick) k = Some (Ret k') \<and>
    (task_ready P k' (pxCurrentTCB k) \<longleftrightarrow> unat ticks \<le> unat (xPendedTicks k) + early + late) \<and>
    event_list k' (pxCurrentTCB k) = (if unat ticks \<le> unat (xPendedTicks k) + early + late then 0 else l)"
proof -
  let ?t = "pxCurrentTCB k" and ?ts = "tasks_of tps idle" and ?p = "unat (xPendedTicks k) + early"
  obtain C where C: "run_ok P (set evls) ?ts idle C k" by (rule booted_run [OF assms(1-3)])
  have t: "?t \<in> ?ts" by (rule calmD(5) [OF run_okD(3) [OF C]])
  obtain C1 k1 where k1: "vTaskPlaceOnEventList_TCB P l ticks k = Some k1" "run_ok P (set evls) ?ts idle C1 k1"
    "same_frame k k1" "timed_wait P k1 ?t (unat ticks) l"
    by (rule run_timed_wait [OF C assms(5-9)])
  let ?k1 = "pend (xPendedTicks k1 + of_nat early) k1"
  have k1': "run_ok P (set evls) ?ts idle C1 ?k1" using k1(2) by (subst run_cong [of _ k1]) simp_all
  have pended: "unat (xPendedTicks k1 + of_nat early) = ?p"
    using k1(3) assms(10) by (simp add: same_frame_def unat_add_of_nat)
  have susp: "uxSchedulerSuspended ?k1 = 1" "uxSchedulerSuspended k1 = 1" using k1(3) assms(4) by (simp_all add: same_frame_def)
  have "l \<noteq> xPendingReadyList P" by (rule event_list_not_pending [OF C assms(9)])
  then have np: "\<not> waits_pending P ?k1 ?t" and tw: "timed_wait P ?k1 ?t (unat ticks) l"
    using k1(4) assms(7) timed_wait_cong [of ?k1 ?t k1 P "unat ticks" l]
    by (auto simp: timed_wait_def waits_pending_def pend_view word_gt_0 unat_eq_zero)
  obtain C2 k2 where k2: "xTaskResumeAll P ?k1 = Some (False, k2)" "run_ok P (set evls) ?ts idle C2 k2" "uxSchedulerSuspended k2 = 0"
    "timed_wait P k2 ?t (unat ticks - ?p) l"
    by (rule run_resume [OF k1']) (use susp t np tw pended in auto)
  from timed_wait_pended [OF k2(2,3) t k2(4), of late] obtain k3 where k3: "pended_ticks P late k2 = Some k3"
    "timed_wait P k3 ?t (unat ticks - ?p - late) l" by blast
  obtain C3 where C3: "run_ok P (set evls) ?ts idle C3 k3" using run_pended [OF k2(2,3), of late] k3(1) by auto
  have "kernel_run P (Wait_event l ticks # replicate early Tick @ Resume # replicate late Tick) k = Some (Ret k3)"
    using k1(1) k2(1) k3(1) run_ticks [OF k2(2,3)] run_suspended_ticks [of k1] susp by simp
  with timed_wait_result [OF C3 t k3(2)] show ?thesis by auto
qed

theorem event_wait_times_out_witness:
  "\<exists>k'. kernel_run example_places (Wait_event 0x20000300 3 # replicate 1 Tick @ Resume # replicate 1 Tick)
      (vTaskSuspendAll (pend 1 example_kernel)) = Some (Ret k') \<and>
    task_ready example_places k' 0x20003000 \<and> event_list k' 0x20003000 = 0"
  using event_wait_times_out [OF example_boots example_boot example_suspended, where ticks = 3 and l = "0x20000300" and early = 1 and late = 1]
    example_ready(1) [of "0x20003000"]
  by (simp add: example_current example_evls_in portMAX_DELAY_def vTaskSuspendAll_def task_ready_def task_list_def)

text \<open>
  C25. No tick is lost while the scheduler is suspended: a suspension, any number of ticks and the resumption leave the kernel exactly as
  the same ticks made one after the other by the tick interrupt without a suspension, unless a task became ready meanwhile.
\<close>

theorem suspended_ticks_made_up:
  assumes "boots P evls tps idle k0" "boot_kernel P evls tps idle k0 = Some kb"
    and "kernel_reaches P evls (tasks_of tps idle) idle kb k" "uxSchedulerSuspended k = 0"
    and "xPendedTicks k = 0" "\<forall>t \<in> tasks_of tps idle. event_list k t \<noteq> xPendingReadyList P" "n < 2 ^ 32"
  shows "\<exists>k'. kernel_run P (replicate n Tick) k = Some (Ret k') \<and>
    kernel_run P (Suspend # replicate n Tick @ [Resume]) k = Some (Ret k')"
proof -
  obtain C where C: "run_ok P (set evls) (tasks_of tps idle) idle C k" by (rule booted_run [OF assms(1-3)])
  obtain k' where k': "pended_ticks P n k = Some k'" using run_pended [OF C assms(4)] by blast
  have "pend 0 k = k" using assms(5) by simp
  then have same: "pend 0 k' = k'" using pended_pend [OF C assms(4), of n 0] k' by simp
  have "uxSchedulerSuspended (vTaskSuspendAll k) \<noteq> 0" "xPendedTicks (vTaskSuspendAll k) = 0"
    using assms(4,5) by (simp_all add: vTaskSuspendAll_def)
  then have "kernel_run P (Suspend # replicate n Tick @ [Resume]) k =
      map_option (\<lambda>(_, k). Ret k) (xTaskResumeAll P (pend (of_nat n) (vTaskSuspendAll k)))"
    by (simp add: run_suspended_ticks split: option.split)
  also have "\<dots> = Some (Ret (pend (if (of_nat n :: u32) > 0 then 0 else of_nat n) k'))"
    using resume_plain [OF C assms(4), of "of_nat n"] assms(6) k' unat_of_nat_u32 [OF assms(7)] by simp
  also have "(if (of_nat n :: u32) > 0 then 0 else of_nat n) = (0 :: u32)" by (simp add: word_gt_0)
  finally show ?thesis using k' same run_ticks [OF C assms(4)] by simp
qed

theorem suspended_ticks_made_up_witness:
  "\<exists>k'. kernel_run example_places (replicate 5 Tick) example_kernel = Some (Ret k') \<and>
    kernel_run example_places (Suspend # replicate 5 Tick @ [Resume]) example_kernel = Some (Ret k')"
proof (rule suspended_ticks_made_up [OF example_boots example_boot kernel_reaches.start])
  show "\<forall>t \<in> tasks_of example_tasks 0x20004000. event_list example_kernel t \<noteq> xPendingReadyList example_places"
    using example_ready(2) by (auto simp: tasks_of_def example_tasks_def example_places_def)
qed (simp_all add: example_current)

theorem switch_runs_highest_witness:
  "\<exists>k'. vTaskSwitchContext example_places example_kernel = Some (Ret k') \<and> task_ready example_places example_kernel (pxCurrentTCB k')"
  using switch_runs_highest [OF example_boots example_boot kernel_reaches.start example_current(2)] by blast

theorem ready_tasks_take_turns_witness:
  "\<exists>turns k'. turns \<noteq> [] \<and> switches example_places 3 example_kernel = Some (map (\<lambda>i. turns ! (i mod length turns)) [0..<3], k')"
  using ready_tasks_take_turns [OF example_boots example_boot kernel_reaches.start example_current(2)] by blast

theorem event_wakes_highest_waiter_witness:
  "\<exists>k t k'. xTaskRemoveFromEventList example_places 0x20000300 k = Some (uxPriority k (pxCurrentTCB k) < uxPriority k t, k') \<and>
    task_ready example_places k' t \<and> event_list k t = 0x20000300 \<and> event_list k' t = 0"
proof -
  obtain k where "kernel_reaches example_places example_evls (tasks_of example_tasks 0x20004000) 0x20004000 example_kernel k"
    "uxSchedulerSuspended k = 0" "\<not> listLIST_IS_EMPTY 0x20000300 (lists k)" using example_waiting by blast
  from event_wakes_highest_waiter [OF example_boots example_boot this(1,2) example_evls_in this(3)] show ?thesis by blast
qed

end
