(* ===== verification/Rtos_Notify.thy ===== *)
theory Rtos_Notify
  imports Rtos_Kernel
begin

text \<open>
  Direct-to-task notifications as the application uses them (\<^verbatim>\<open>src/third_party/FreeRTOS/tasks.c\<close>): the interrupt of the chip gives
  one to the packet task (\<^verbatim>\<open>enc28_test_app_handle_packet_recv_interrupt\<close>), and the packet task takes all it has been given at the
  end of its loop (\<^verbatim>\<open>ulTaskNotifyTake(pdTRUE, 10)\<close>), sleeping for at most ten ticks when there is none. The call is split at the points
  where an interrupt can come: it works on the kernel's lists with the scheduler suspended, not in one critical section.
\<close>

section \<open>Operations\<close>

datatype notify_state = taskNOT_WAITING_NOTIFICATION | taskWAITING_NOTIFICATION | taskNOTIFICATION_RECEIVED

text \<open>The kernel, and the fields of each task's control block for the one notification index in use.\<close>

record notify_kernel =
  kern :: kernel
  ulNotifiedValue :: "u32 \<Rightarrow> u32"
  ucNotifyState :: "u32 \<Rightarrow> notify_state"

text \<open>
  A null handle fails an assertion and stops the system, and so does a waiting task that is on an event list (in \<open>wake_notified\<close>).
  The application passes no \<^verbatim>\<open>pxHigherPriorityTaskWoken\<close>.
\<close>

definition vTaskGenericNotifyGiveFromISR :: "kernel_places \<Rightarrow> u32 \<Rightarrow> notify_kernel \<Rightarrow> notify_kernel option" where
  "vTaskGenericNotifyGiveFromISR P xTaskToNotify s =
     (if xTaskToNotify = 0 then None
      else
        let ucOriginalNotifyState = ucNotifyState s xTaskToNotify;
            s = s\<lparr>ucNotifyState := (ucNotifyState s)(xTaskToNotify := taskNOTIFICATION_RECEIVED)\<rparr>;
            s = s\<lparr>ulNotifiedValue := (ulNotifiedValue s)(xTaskToNotify := ulNotifiedValue s xTaskToNotify + 1)\<rparr>
        in if ucOriginalNotifyState = taskWAITING_NOTIFICATION
           then map_option (\<lambda>k. s\<lparr>kern := k\<rparr>) (wake_notified P xTaskToNotify (kern s))
           else Some s)"

definition enc28_test_app_handle_packet_recv_interrupt :: "kernel_places \<Rightarrow> u32 \<Rightarrow> notify_kernel \<Rightarrow> notify_kernel option" where
  "enc28_test_app_handle_packet_recv_interrupt P packet_task_handle = vTaskGenericNotifyGiveFromISR P packet_task_handle"

text \<open>A number of interrupts in a row.\<close>

fun interrupts :: "kernel_places \<Rightarrow> u32 \<Rightarrow> nat \<Rightarrow> notify_kernel \<Rightarrow> notify_kernel option" where
  "interrupts P t 0 s = Some s"
| "interrupts P t (Suc n) s =
     Option.bind (enc28_test_app_handle_packet_recv_interrupt P t s) (interrupts P t n)"

text \<open>The first critical section, with the scheduler suspended: whether the task should block.\<close>

definition notify_take_begin :: "u32 \<Rightarrow> notify_kernel \<Rightarrow> bool \<times> notify_kernel" where
  "notify_take_begin xTicksToWait s =
     (let s = s\<lparr>kern := vTaskSuspendAll (kern s)\<rparr> in
      if ulNotifiedValue s (pxCurrentTCB (kern s)) = 0
      then (xTicksToWait > 0, s\<lparr>ucNotifyState := (ucNotifyState s)(pxCurrentTCB (kern s) := taskWAITING_NOTIFICATION)\<rparr>)
      else (False, s))"

definition notify_take_block :: "kernel_places \<Rightarrow> u32 \<Rightarrow> bool \<Rightarrow> notify_kernel \<Rightarrow> notify_kernel option" where
  "notify_take_block P xTicksToWait xShouldBlock s =
     (if xShouldBlock
      then map_option (\<lambda>k. s\<lparr>kern := k\<rparr>) (prvAddCurrentTaskToDelayedList P xTicksToWait True (kern s))
      else Some s)"

definition notify_take_resume :: "kernel_places \<Rightarrow> notify_kernel \<Rightarrow> notify_kernel option" where
  "notify_take_resume P s = map_option (\<lambda>(_, k). s\<lparr>kern := k\<rparr>) (xTaskResumeAll P (kern s))"

text \<open>The last critical section, once the task runs again: what the call returns.\<close>

definition notify_take_end :: "bool \<Rightarrow> notify_kernel \<Rightarrow> u32 \<times> notify_kernel" where
  "notify_take_end xClearCountOnExit s =
     (let t = pxCurrentTCB (kern s);
          ulReturn = ulNotifiedValue s t;
          s = (if ulReturn \<noteq> 0
               then s\<lparr>ulNotifiedValue := (ulNotifiedValue s)(t := if xClearCountOnExit then 0 else ulReturn - 1)\<rparr>
               else s)
      in (ulReturn, s\<lparr>ucNotifyState := (ucNotifyState s)(t := taskNOT_WAITING_NOTIFICATION)\<rparr>))"

text \<open>
  The call up to the end of the suspension, with \<open>i\<close> interrupts between the first critical section and the move to the delayed list and \<open>j\<close>
  between that move and the end of the suspension.
\<close>

definition notify_take_sleep :: "kernel_places \<Rightarrow> u32 \<Rightarrow> nat \<Rightarrow> nat \<Rightarrow> notify_kernel \<Rightarrow> notify_kernel option" where
  "notify_take_sleep P xTicksToWait i j s =
     (case notify_take_begin xTicksToWait s of (xShouldBlock, s') \<Rightarrow>
      Option.bind (interrupts P (pxCurrentTCB (kern s)) i s') (\<lambda>s.
      Option.bind (notify_take_block P xTicksToWait xShouldBlock s) (\<lambda>s.
      Option.bind (interrupts P (pxCurrentTCB (kern s)) j s)
        (notify_take_resume P))))"

text \<open>The whole call; \<open>meanwhile\<close> is what happens until the task runs again, the switch that a task that blocks asks for included.\<close>

definition ulTaskGenericNotifyTake ::
  "kernel_places \<Rightarrow> bool \<Rightarrow> u32 \<Rightarrow> nat \<Rightarrow> nat \<Rightarrow> (notify_kernel \<Rightarrow> notify_kernel option) \<Rightarrow> notify_kernel
   \<Rightarrow> (u32 \<times> notify_kernel) option" where
  "ulTaskGenericNotifyTake P xClearCountOnExit xTicksToWait i j meanwhile s =
     map_option (notify_take_end xClearCountOnExit) (Option.bind (notify_take_sleep P xTicksToWait i j s) meanwhile)"

text \<open>
  What can happen meanwhile: interrupts, \<open>n\<close> of them, and any operation of the kernel that is allowed, but that another task than \<open>t\<close>
  blocks, and that nothing else notifies \<open>t\<close>. An interrupt that comes when the time limit of the call is over already and another task has
  suspended the scheduler is the last event that is followed: the kernel then has the ready task on the pending list as well, until
  the end of that suspension.
\<close>

definition late_notice :: "kernel_places \<Rightarrow> u32 \<Rightarrow> notify_kernel \<Rightarrow> bool" where
  "late_notice P t s \<longleftrightarrow>
     ucNotifyState s t = taskWAITING_NOTIFICATION \<and> task_ready P (kern s) t \<and> uxSchedulerSuspended (kern s) \<noteq> 0"

fun op_of_others :: "u32 \<Rightarrow> kernel \<Rightarrow> kernel_op \<Rightarrow> bool" where
  "op_of_others t k (Block ticks forever) \<longleftrightarrow> pxCurrentTCB k \<noteq> t"
| "op_of_others t k (Wait_event l ticks) \<longleftrightarrow> pxCurrentTCB k \<noteq> t"
| "op_of_others t k (Notify u) \<longleftrightarrow> u \<noteq> t"
| "op_of_others t k _ \<longleftrightarrow> True"

inductive while_asleep :: "kernel_places \<Rightarrow> u32 list \<Rightarrow> u32 set \<Rightarrow> u32 \<Rightarrow> u32 \<Rightarrow> nat \<Rightarrow> notify_kernel \<Rightarrow> notify_kernel \<Rightarrow> bool"
  for P evls ts idle t where
  refl: "while_asleep P evls ts idle t 0 s s"
| interrupt: "while_asleep P evls ts idle t n s s1 \<Longrightarrow> \<not> late_notice P t s1 \<Longrightarrow>
    enc28_test_app_handle_packet_recv_interrupt P t s1 = Some s2 \<Longrightarrow>
    while_asleep P evls ts idle t (Suc n) s s2"
| operation: "while_asleep P evls ts idle t n s s1 \<Longrightarrow> op_allowed P evls ts idle op (kern s1) \<Longrightarrow> op_of_others t (kern s1) op \<Longrightarrow>
    kernel_step P op (kern s1) = Some (Ret k) \<Longrightarrow> while_asleep P evls ts idle t n s (s1\<lparr>kern := k\<rparr>)"

section \<open>Interrupts count\<close>

text \<open>The fields after \<open>n\<close> interrupts.\<close>

definition given :: "u32 \<Rightarrow> nat \<Rightarrow> notify_kernel \<Rightarrow> notify_kernel" where
  "given t n s =
     s\<lparr>ulNotifiedValue := (ulNotifiedValue s)(t := ulNotifiedValue s t + of_nat n),
       ucNotifyState := (if n = 0 then ucNotifyState s else (ucNotifyState s)(t := taskNOTIFICATION_RECEIVED))\<rparr>"

lemma given_fields [simp]:
  "kern (given t n s) = kern s" "given t 0 s = s" "given t n (given t m s) = given t (m + n) s"
  "ulNotifiedValue (given t n s) t = ulNotifiedValue s t + of_nat n"
  "ucNotifyState (given t n s) t = (if n = 0 then ucNotifyState s t else taskNOTIFICATION_RECEIVED)"
  "given t n (s\<lparr>kern := k\<rparr>) = (given t n s)\<lparr>kern := k\<rparr>"
  "given t n (s\<lparr>kern := k, ucNotifyState := w\<rparr>) = (given t n (s\<lparr>ucNotifyState := w\<rparr>))\<lparr>kern := k\<rparr>"
  by (cases s; auto simp: given_def algebra_simps)+

lemma interrupt_given:
  assumes "t \<noteq> 0"
  shows "enc28_test_app_handle_packet_recv_interrupt P t s =
    (if ucNotifyState s t = taskWAITING_NOTIFICATION
     then map_option (\<lambda>k. (given t 1 s)\<lparr>kern := k\<rparr>) (wake_notified P t (kern s)) else Some (given t 1 s))"
  using assms by (cases s) (simp add: enc28_test_app_handle_packet_recv_interrupt_def vTaskGenericNotifyGiveFromISR_def given_def Let_def)

text \<open>Only the first interrupt of a waiting task wakes it.\<close>

lemma interrupts_given:
  assumes "t \<noteq> 0"
  shows "interrupts P t n s =
    (if n = 0 \<or> ucNotifyState s t \<noteq> taskWAITING_NOTIFICATION then Some (given t n s)
     else map_option (\<lambda>k. (given t n s)\<lparr>kern := k\<rparr>) (wake_notified P t (kern s)))"
proof (induction n arbitrary: s)
  case (Suc n)
  have "Some (given t n s') = interrupts P t n s'" if "ucNotifyState s' t = taskNOTIFICATION_RECEIVED" for s'
    using Suc.IH [of s'] that by simp
  from this [of "given t 1 s"] this [of "(given t 1 s)\<lparr>kern := k\<rparr>" for k] show ?case
    by (auto simp: interrupt_given [OF assms] bind_map_option comp_def map_option_case intro!: bind_option_cong
        split: option.split)
qed simp

section \<open>Going to sleep\<close>

lemma suspend_fields:
  "task_ready P (vTaskSuspendAll k) t = task_ready P k t" "event_list (vTaskSuspendAll k) t = event_list k t"
  "run_ok P evls ts idle C (vTaskSuspendAll k) = run_ok P evls ts idle C k"
  by (simp_all add: vTaskSuspendAll_def task_ready_def task_list_def event_list_def) (rule run_cong; simp)

text \<open>
  The running task blocks while an interrupt wakes it: before the move to the delayed list it is put on the pending list while still ready, and the
  move then leaves its event item there.
\<close>

lemma wake_then_block:
  assumes "run_ok P evls ts idle C k" "uxSchedulerSuspended k \<noteq> 0" "task_ready P k (pxCurrentTCB k)" "pxCurrentTCB k \<noteq> idle" "0 < ticks"
  obtains C' k1 k2 where "wake_notified P (pxCurrentTCB k) k = Some k1" "pxCurrentTCB k1 = pxCurrentTCB k"
    "prvAddCurrentTaskToDelayedList P ticks True k1 = Some k2" "run_ok P evls ts idle C' k2"
    "waits_pending P k2 (pxCurrentTCB k)" "same_frame k k2"
proof -
  let ?t = "pxCurrentTCB k"
  note R = run_okD [OF assms(1)]
  have t: "?t \<in> ts" by (rule calmD(5) [OF R(3)])
  have e: "event_list k ?t = 0" by (rule calmD(1) [OF R(3) t assms(3)])
  let ?k1 = "to_pending P ?t k"
  have k1: "wake_notified P ?t k = Some ?k1" using e assms(2) by (simp add: wake_notified_def event_list_def)
  obtain C1 where 1: "lists_run P evls ts C1 ?k1" by (rule run_to_pending [OF R(1) t e])
  note F = move_fields(7-9) [OF lists_runD(5) [OF R(1)] t, of _ P]
  have "timed_ok ts ?k1" using R(2) F by (simp add: timed_ok_def)
  moreover have "task_ready P ?k1 ?t" using assms(3) F(1) [OF t] by (simp add: task_ready_def)
  ultimately obtain C' k2 where k2: "prvAddCurrentTaskToDelayedList P ticks True ?k1 = Some k2" "run_ok P evls ts idle C' k2"
    "same_frame ?k1 k2" "\<And>u. u \<in> ts \<Longrightarrow> event_list k2 u = event_list ?k1 u"
    by (rule blocked_run [where forever = True, OF 1 _ R(3) _ assms(4,5) _]) (use F in simp_all)
  have "waits_pending P k2 ?t" using k2(4) [OF t] F(2) [OF t] by (simp add: waits_pending_def)
  moreover have "same_frame k k2" using k2(3) by (simp add: same_frame_def)
  ultimately show ?thesis using that [OF k1 _ k2(1,2)] by simp
qed

text \<open>
  Asleep or woken: a task that still waits for its notification is on no event list, and one that has been notified is ready, or will
  be when the suspension of the scheduler ends.
\<close>

definition asleep_ok :: "kernel_places \<Rightarrow> u32 set \<Rightarrow> u32 set \<Rightarrow> u32 \<Rightarrow> u32 \<Rightarrow> notify_kernel \<Rightarrow> bool" where
  "asleep_ok P evls ts idle t s \<longleftrightarrow> (\<exists>C. run_ok P evls ts idle C (kern s)) \<and>
     (if ucNotifyState s t = taskWAITING_NOTIFICATION then event_list (kern s) t = 0
      else task_ready P (kern s) t \<or> waits_pending P (kern s) t)"

lemma pending_list_place:
  assumes "run_ok P evls ts idle C k"
  shows "xPendingReadyList P \<noteq> 0"
proof -
  note D = lists_runD [OF run_okD(1) [OF assms]]
  obtain xs where "C (xPendingReadyList P) = Some xs" using places(14) [OF D(4)] by blast
  then show ?thesis by (rule places(16) [OF D(4)])
qed

lemma run_resumed:
  assumes "run_ok P evls ts idle C k" "uxSchedulerSuspended k = 1" "t \<in> ts" "waits_pending P k t \<or> task_ready P k t"
  obtains C' k' where "xTaskResumeAll P k = Some (False, k')" "run_ok P evls ts idle C' k'" "task_ready P k' t" "pxCurrentTCB k' = pxCurrentTCB k"
  by (rule run_resume [OF assms(1)]) (use assms(2-4) in auto)

lemma blocked_sleeping:
  assumes "run_ok P evls ts idle C k" "task_ready P k (pxCurrentTCB k)" "pxCurrentTCB k \<noteq> idle" "0 < ticks" "ticks \<noteq> portMAX_DELAY"
  obtains C' k' where "prvAddCurrentTaskToDelayedList P ticks True k = Some k'" "run_ok P evls ts idle C' k'" "same_frame k k'"
    "timed_wait P k' (pxCurrentTCB k) (unat ticks) 0" "event_list k' (pxCurrentTCB k) = 0" "\<not> task_ready P k' (pxCurrentTCB k)"
proof -
  let ?t = "pxCurrentTCB k"
  note R = run_okD [OF assms(1)]
  have t: "?t \<in> ts" by (rule calmD(5) [OF R(3)])
  have e: "event_list k ?t = 0" by (rule calmD(1) [OF R(3) t assms(2)])
  obtain C' k' where k': "prvAddCurrentTaskToDelayedList P ticks True k = Some k'" "run_ok P evls ts idle C' k'" "same_frame k k'"
    "\<And>u. u \<in> ts \<Longrightarrow> task_list k' u = (if u = ?t then blocked_list P ticks True k else task_list k u)"
    "\<And>u. u \<in> ts \<Longrightarrow> event_list k' u = event_list k u"
    "\<And>u. u \<in> ts \<Longrightarrow> wake_time k' u = (if u = ?t \<and> \<not> (ticks = portMAX_DELAY \<and> True) then xTickCount k + ticks else wake_time k u)"
    by (rule run_delay [OF assms(1-4), of True]) blast
  have "sleeps k' ?t (unat ticks)"
    by (rule blocked_sleeps [OF k'(3) _ _ assms(4,5)]) (use k'(4,6) [OF t] assms(5) in simp_all)
  moreover have "event_list k' ?t = 0" using k'(5) [OF t] e by simp
  moreover have "unat ticks \<noteq> 0" using assms(4) by (simp add: word_gt_0 unat_eq_zero)
  ultimately show ?thesis
    using that [OF k'(1-3)] sleeps_not_ready [OF k'(2) t] by (simp add: timed_wait_def)
qed

text \<open>
  The call up to its sleep: every interrupt counts, the task is ready at the end of the suspension exactly when there was one, before or
  meanwhile, or the ticks that pended were as many as it waits for.
\<close>

lemma take_sleep:
  assumes "run_ok P evls ts idle C (kern s)" "uxSchedulerSuspended (kern s) = 0" "pxCurrentTCB (kern s) = t"
    and "task_ready P (kern s) t" "t \<noteq> idle" "0 < ticks" "ticks \<noteq> portMAX_DELAY" "ucNotifyState s t \<noteq> taskWAITING_NOTIFICATION"
  obtains s1 where "notify_take_sleep P ticks i j s = Some s1" "asleep_ok P evls ts idle t s1" "pxCurrentTCB (kern s1) = t"
    "ulNotifiedValue s1 = (ulNotifiedValue s)(t := ulNotifiedValue s t + of_nat (i + j))"
    "\<And>u. u \<noteq> t \<Longrightarrow> ucNotifyState s1 u = ucNotifyState s u"
    "task_ready P (kern s1) t \<longleftrightarrow> ulNotifiedValue s t \<noteq> 0 \<or> 0 < i + j \<or> unat ticks \<le> unat (xPendedTicks (kern s))"
proof -
  let ?k0 = "vTaskSuspendAll (kern s)"
  have k0: "run_ok P evls ts idle C ?k0" "task_ready P ?k0 t" "event_list ?k0 t = event_list (kern s) t" "pxCurrentTCB ?k0 = t"
    "uxSchedulerSuspended ?k0 = 1" "xPendedTicks ?k0 = xPendedTicks (kern s)"
    using assms(1-4) by (simp_all add: suspend_fields) (simp_all add: vTaskSuspendAll_def)
  have t: "t \<in> ts" using calmD(5) [OF run_okD(3) [OF assms(1)]] assms(3) by simp
  have nz: "t \<noteq> 0" by (rule tasks_fitD(1) [OF lists_runD(5) [OF run_okD(1) [OF assms(1)]] t])
  have cur: "pxCurrentTCB ?k0 = t" by (rule k0(4))
  note blk = k0(1) k0(2) [folded cur] assms(5) [folded cur] assms(6)
  let ?w = "s\<lparr>ucNotifyState := (ucNotifyState s)(t := taskWAITING_NOTIFICATION)\<rparr>"
  note defs = notify_take_sleep_def notify_take_begin_def notify_take_block_def notify_take_resume_def interrupts_given [OF nz] Let_def
  consider (counted) "ulNotifiedValue s t \<noteq> 0" | (early) "ulNotifiedValue s t = 0" "0 < i" | (late) "ulNotifiedValue s t = 0" "i = 0" "0 < j"
    | (none) "ulNotifiedValue s t = 0" "i = 0" "j = 0" by blast
  then show ?thesis
  proof cases
    case counted
    obtain C' k' where k': "xTaskResumeAll P ?k0 = Some (False, k')" "run_ok P evls ts idle C' k'" "task_ready P k' t" "pxCurrentTCB k' = t"
      by (rule run_resumed [OF k0(1,5) t]) (use k0(2,4) in auto)
    have "notify_take_sleep P ticks i j s = Some ((given t (i + j) s)\<lparr>kern := k'\<rparr>)"
      using counted k'(1) assms(3,8) by (simp add: defs k0(4))
    then show ?thesis
      by (rule that) (use k' counted assms(8) in \<open>auto simp: asleep_ok_def given_def\<close>)
  next
    case early
    obtain C1 k1 k2 where k2: "wake_notified P t ?k0 = Some k1" "pxCurrentTCB k1 = t"
      "prvAddCurrentTaskToDelayedList P ticks True k1 = Some k2" "run_ok P evls ts idle C1 k2"
      "waits_pending P k2 t" "same_frame ?k0 k2"
      by (rule wake_then_block [OF k0(1) _ blk(2-4)]) (use k0 in simp_all)
    obtain C' k' where k': "xTaskResumeAll P k2 = Some (False, k')" "run_ok P evls ts idle C' k'" "task_ready P k' t" "pxCurrentTCB k' = t"
      by (rule run_resumed [OF k2(4) _ t]) (use k2(5,6) k0(4,5) in \<open>auto simp: same_frame_def\<close>)
    have "notify_take_sleep P ticks i j s = Some ((given t (i + j) ?w)\<lparr>kern := k'\<rparr>)"
      using early k2(1,3) k2(6) k'(1) assms(3,6) by (simp add: defs k0(4) same_frame_def)
    then show ?thesis
      by (rule that) (use k' early in \<open>auto simp: asleep_ok_def given_def\<close>)
  next
    case late
    obtain C1 k1 where k1: "prvAddCurrentTaskToDelayedList P ticks True ?k0 = Some k1" "run_ok P evls ts idle C1 k1" "same_frame ?k0 k1"
      "event_list k1 t = 0" "\<not> task_ready P k1 t"
      by (rule blocked_sleeping [OF blk assms(7)]) (simp add: k0(4))
    have susp: "uxSchedulerSuspended k1 = 1" using k1(3) k0(5) by (simp add: same_frame_def)
    obtain C2 k2 where k2: "wake_notified P t k1 = Some k2" "run_ok P evls ts idle C2 k2" "uxSchedulerSuspended k2 = 1"
      "event_list k2 t = xPendingReadyList P" "pxCurrentTCB k2 = t"
      by (rule run_notify [OF k1(2) t _ k1(4)]) (use k1(3,5) k0(4) susp t in \<open>auto simp: same_frame_def\<close>)
    obtain C' k' where k': "xTaskResumeAll P k2 = Some (False, k')" "run_ok P evls ts idle C' k'" "task_ready P k' t" "pxCurrentTCB k' = t"
      by (rule run_resumed [OF k2(2,3) t]) (use k2(4,5) in \<open>auto simp: waits_pending_def\<close>)
    have "notify_take_sleep P ticks i j s = Some ((given t j ?w)\<lparr>kern := k'\<rparr>)"
      using late k1(1,3) k2(1) k'(1) assms(3,6) by (simp add: defs k0(4) same_frame_def)
    then show ?thesis
      by (rule that) (use k' late in \<open>auto simp: asleep_ok_def given_def\<close>)
  next
    case none
    obtain C1 k1 where k1: "prvAddCurrentTaskToDelayedList P ticks True ?k0 = Some k1" "run_ok P evls ts idle C1 k1" "same_frame ?k0 k1"
      "timed_wait P k1 t (unat ticks) 0" "event_list k1 t = 0"
      by (rule blocked_sleeping [OF blk assms(7)]) (simp add: k0(4))
    have frame: "uxSchedulerSuspended k1 = 1" "xPendedTicks k1 = xPendedTicks (kern s)" "pxCurrentTCB k1 = t"
      using k1(3) k0(4-6) by (simp_all add: same_frame_def)
    have "\<not> waits_pending P k1 t" using k1(5) pending_list_place [OF k1(2)] by (simp add: waits_pending_def)
    then obtain C' k' where k': "xTaskResumeAll P k1 = Some (False, k')" "run_ok P evls ts idle C' k'"
      "timed_wait P k' t (unat ticks - unat (xPendedTicks (kern s))) 0" "event_list k' t = 0" "pxCurrentTCB k' = t"
      using frame k1(4,5) t cur by (auto intro: run_resume [OF k1(2)])
    have "notify_take_sleep P ticks i j s = Some (?w\<lparr>kern := k'\<rparr>)"
      using none k1(1) k'(1) assms(3,6) by (simp add: defs k0(4))
    then show ?thesis
      by (rule that) (use k'(2,4,5) timed_wait_result(1) [OF k'(2) t k'(3)] none in \<open>auto simp: asleep_ok_def\<close>)
  qed
qed

section \<open>While the task is asleep\<close>

text \<open>
  The operations of others leave a task that is on no event list on none, and a task that is ready, or waits for the end of the suspension, stays so or
  becomes ready.
\<close>

lemma others_keep:
  assumes "run_ok P (set evls) ts idle C k" "t \<in> ts" "op_allowed P evls ts idle op k" "op_of_others t k op"
    and "kernel_step P op k = Some (Ret k')" and "event_list k t = 0 \<or> waits_pending P k t"
  shows "\<exists>C'. run_ok P (set evls) ts idle C' k'" "event_list k t = 0 \<Longrightarrow> event_list k' t = 0"
    "task_ready P k t \<or> waits_pending P k t \<Longrightarrow> task_ready P k' t \<or> waits_pending P k' t"
proof -
  have same: "event_list k t = 0 \<longrightarrow> event_list k' t = 0" "task_ready P k t \<or> waits_pending P k t \<longrightarrow> task_ready P k' t \<or> waits_pending P k' t"
    if "task_list k' t = task_list k t" "event_list k' t = event_list k t" "uxPriority k' = uxPriority k"
    using that by (simp_all add: task_ready_def waits_pending_def)
  obtain C' k2 where k2: "kernel_step P op k = Some (Ret k2)" "run_ok P (set evls) ts idle C' k2"
    using kernel_step_runs [OF assms(1,3)] by blast
  with assms(5) show "\<exists>C'. run_ok P (set evls) ts idle C' k'" by auto
  have "(event_list k t = 0 \<longrightarrow> event_list k' t = 0) \<and> (task_ready P k t \<or> waits_pending P k t \<longrightarrow> task_ready P k' t \<or> waits_pending P k' t)"
  proof (cases op)
    case Switch
    show ?thesis
    proof (cases "uxSchedulerSuspended k = 0")
      case True
      obtain p where p: "top_priority P C p" by (rule top_ready [OF assms(1)])
      obtain k1 where "vTaskSwitchContext P k = Some (Ret k1)" "task_list k1 t = task_list k t" "uxPriority k1 = uxPriority k"
        "event_list k1 t = event_list k t" by (rule run_switch [OF assms(1) True p]) blast
      with same Switch assms(5) show ?thesis by simp
    next
      case False
      then have "k' = k\<lparr>xYieldPending := True\<rparr>" using Switch assms(5) by (simp add: vTaskSwitchContext_def)
      with same show ?thesis by (simp add: task_list_def event_list_def)
    qed
  next
    case (Block ticks forever)
    obtain C1 k1 where "prvAddCurrentTaskToDelayedList P ticks forever k = Some k1" "same_frame k k1"
      "task_list k1 t = task_list k t" "event_list k1 t = event_list k t"
      by (rule run_delay [OF assms(1), of ticks forever]) (use Block assms(2-4) in auto)
    with same Block assms(5) show ?thesis by (simp add: same_frame_def)
  next
    case (Wait_event l ticks)
    obtain C1 k1 where "vTaskPlaceOnEventList_TCB P l ticks k = Some k1" "same_frame k k1"
      "task_list k1 t = task_list k t" "event_list k1 t = event_list k t"
      by (rule run_wait_event [OF assms(1), of ticks l]) (use Wait_event assms(2-4) in auto)
    with same Wait_event assms(5) show ?thesis by (simp add: same_frame_def)
  next
    case (Wake_event l)
    note D = lists_runD [OF run_okD(1) [OF assms(1)]]
    have l: "l \<in> set evls" "\<not> listLIST_IS_EMPTY l (lists k)" using assms(3) Wake_event by simp_all
    obtain xs where xs: "C l = Some xs" using event_lists_of(1) [OF D(3) l(1)] by blast
    then obtain x rest where "xs = x # rest" using empty_list [OF lists_okD(1) [OF D(2)] xs] l(2) by (cases xs) auto
    with xs have xs: "C l = Some (x # rest)" by simp
    have "l \<noteq> 0" "l \<noteq> xPendingReadyList P" using places(16) [OF D(4) xs] event_list_not_pending [OF assms(1) l(1)] by simp_all
    with assms(6) have nl: "event_list k t \<noteq> l" by (auto simp: waits_pending_def)
    obtain C1 k1 u where "xTaskRemoveFromEventList P l k = Some (uxPriority k (pxCurrentTCB k) < uxPriority k u, k1)" "event_list k u = l"
      "task_list k1 t = (if t = u \<and> uxSchedulerSuspended k = 0 then ready_list P k u else task_list k t)"
      "uxPriority k1 = uxPriority k" "t \<noteq> u \<Longrightarrow> event_list k1 t = event_list k t"
      by (rule run_wake_event [OF assms(1) l(1) xs]) (use assms(2) in auto)
    with same nl Wake_event assms(5) show ?thesis by (cases "t = u") auto
  next
    case (Notify u)
    obtain C1 k1 where "wake_notified P u k = Some k1" "task_list k1 t = task_list k t" "event_list k1 t = event_list k t"
      "uxPriority k1 = uxPriority k" by (rule run_notify [OF assms(1), of u]) (use Notify assms(2-4) in auto)
    with same Notify assms(5) show ?thesis by simp
  next
    case Tick
    show ?thesis
    proof (cases "uxSchedulerSuspended k = 0")
      case True
      obtain C1 k1 where "xTaskIncrementTick P k = Some (False, k1)" "uxPriority k1 = uxPriority k"
        "task_list k1 t = (if tick_wakes k t then ready_list P k t else task_list k t)"
        "event_list k1 t = (if tick_wakes k t then 0 else event_list k t)"
        by (rule run_tick [OF assms(1) True]) (use assms(2) in auto)
      with Tick assms(5) show ?thesis by (auto simp: task_ready_def ready_list_def waits_pending_def split: if_splits)
    next
      case False
      then have "k' = k\<lparr>xPendedTicks := xPendedTicks k + 1\<rparr>" using Tick assms(5) by (simp add: run_pended_tick)
      with same show ?thesis by (simp add: task_list_def event_list_def)
    qed
  next
    case Suspend
    then have "k' = vTaskSuspendAll k" using assms(5) by simp
    with same show ?thesis by (simp add: vTaskSuspendAll_def task_list_def event_list_def)
  next
    case Resume
    obtain C1 k1 where k1: "xTaskResumeAll P k = Some (False, k1)" "uxPriority k1 = uxPriority k"
      "uxSchedulerSuspended k = 1 \<Longrightarrow> waits_pending P k t \<or> task_ready P k t \<Longrightarrow> task_ready P k1 t"
      "event_list k t = 0 \<Longrightarrow> event_list k1 t = 0"
      "uxSchedulerSuspended k \<noteq> 1 \<Longrightarrow> task_list k1 t = task_list k t \<and> event_list k1 t = event_list k t"
      by (rule run_resume [OF assms(1)]) (use Resume assms(2,3) in auto)
    with same Resume assms(5) show ?thesis by (cases "uxSchedulerSuspended k = 1") auto
  qed
  then show "event_list k t = 0 \<Longrightarrow> event_list k' t = 0"
    "task_ready P k t \<or> waits_pending P k t \<Longrightarrow> task_ready P k' t \<or> waits_pending P k' t" by blast+
qed

text \<open>An interrupt returns, counts, and leaves the task ready or about to be.\<close>

lemma asleep_interrupt:
  assumes "asleep_ok P evls ts idle t s" "t \<in> ts" "t \<noteq> 0"
  obtains s' where "enc28_test_app_handle_packet_recv_interrupt P t s = Some s'"
    "ulNotifiedValue s' = (ulNotifiedValue s)(t := ulNotifiedValue s t + 1)" "\<And>u. u \<noteq> t \<Longrightarrow> ucNotifyState s' u = ucNotifyState s u"
    "task_ready P (kern s') t \<or> waits_pending P (kern s') t" "\<not> late_notice P t s \<Longrightarrow> asleep_ok P evls ts idle t s'"
proof (cases "ucNotifyState s t = taskWAITING_NOTIFICATION")
  case True
  then obtain C where C: "run_ok P evls ts idle C (kern s)" "event_list (kern s) t = 0"
    using assms(1) by (auto simp: asleep_ok_def)
  show ?thesis
  proof (cases "late_notice P t s")
    case False
    obtain C' k where "wake_notified P t (kern s) = Some k" "run_ok P evls ts idle C' k" "task_ready P k t \<or> waits_pending P k t"
      by (rule run_notify [OF C(1) assms(2) _ C(2)])
        (use False True assms(2) in \<open>auto simp: late_notice_def task_ready_def ready_list_def waits_pending_def\<close>)
    then show ?thesis using True
      by (intro that [of "(given t 1 s)\<lparr>kern := k\<rparr>"]) (auto simp: interrupt_given [OF assms(3)] asleep_ok_def given_def)
  next
    case late: True
    define k where "k = (if uxPriority (kern s) (pxCurrentTCB (kern s)) < uxPriority (kern s) t
      then (to_pending P t (kern s))\<lparr>xYieldPending := True\<rparr> else to_pending P t (kern s))"
    have "wake_notified P t (kern s) = Some k"
      using late C(2) by (simp add: late_notice_def wake_notified_def event_list_def k_def)
    moreover have "task_ready P k t"
      using late move_fields(7) [OF lists_runD(5) [OF run_okD(1) [OF C(1)]] assms(2,2), of P]
      by (auto simp: late_notice_def k_def task_ready_def task_list_def)
    ultimately show ?thesis using True late
      by (intro that [of "(given t 1 s)\<lparr>kern := k\<rparr>"]) (auto simp: interrupt_given [OF assms(3)] given_def)
  qed
next
  case False
  then show ?thesis
    by (intro that [of "given t 1 s"]) (use assms(1) in \<open>auto simp: interrupt_given [OF assms(3)] asleep_ok_def given_def late_notice_def\<close>)
qed

lemma while_asleep_ok:
  assumes "while_asleep P evls ts idle t n s s'" "asleep_ok P (set evls) ts idle t s" "t \<in> ts" "t \<noteq> 0"
  shows "asleep_ok P (set evls) ts idle t s' \<and> ulNotifiedValue s' = (ulNotifiedValue s)(t := ulNotifiedValue s t + of_nat n) \<and>
    (\<forall>u. u \<noteq> t \<longrightarrow> ucNotifyState s' u = ucNotifyState s u) \<and>
    (task_ready P (kern s) t \<or> waits_pending P (kern s) t \<or> n \<noteq> 0 \<longrightarrow> task_ready P (kern s') t \<or> waits_pending P (kern s') t)"
  using assms(1,2)
proof induction
  case (interrupt n s s1 s2)
  then have ok: "asleep_ok P (set evls) ts idle t s1" by blast
  obtain s3 where "enc28_test_app_handle_packet_recv_interrupt P t s1 = Some s3"
    "ulNotifiedValue s3 = (ulNotifiedValue s1)(t := ulNotifiedValue s1 t + 1)" "\<And>u. u \<noteq> t \<Longrightarrow> ucNotifyState s3 u = ucNotifyState s1 u"
    "task_ready P (kern s3) t \<or> waits_pending P (kern s3) t" "\<not> late_notice P t s1 \<Longrightarrow> asleep_ok P (set evls) ts idle t s3"
    by (rule asleep_interrupt [OF ok assms(3,4)]) blast
  with interrupt show ?case by (auto simp: algebra_simps)
next
  case (operation n s s1 op k)
  then have ok: "asleep_ok P (set evls) ts idle t s1" by blast
  then obtain C where C: "run_ok P (set evls) ts idle C (kern s1)" by (auto simp: asleep_ok_def)
  have e: "event_list (kern s1) t = 0 \<or> waits_pending P (kern s1) t"
    using ok calmD(1) [OF run_okD(3) [OF C] assms(3)] by (auto simp: asleep_ok_def split: if_splits)
  note keep = others_keep [OF C assms(3) operation.hyps(2-4) e]
  have "asleep_ok P (set evls) ts idle t (s1\<lparr>kern := k\<rparr>)"
    using ok keep by (auto simp: asleep_ok_def split: if_splits)
  with operation keep(3) show ?case by auto
qed simp

section \<open>The property\<close>

text \<open>
  C30: No interrupt of the chip is lost, wherever it falls: \<open>h\<close> of them before the packet task takes its notifications, \<open>i\<close> between the look at the count and the
  move to the delayed list, \<open>j\<close> between that and the end of the suspension, and \<open>n\<close> after that, among operations of the kernel by other tasks and the
  tick, until the task runs again. The task sleeps exactly when there was none up to the end of the suspension and fewer ticks had pended than it waits for; once there
  has been one it is ready, or on the list of those that the end of a suspension makes ready. No interrupt fails an assertion, and the
  call returns the number of all of them and leaves none, as long as their number fits the counter.
\<close>

theorem packet_interrupt_not_lost:
  assumes "boots P evls tps idle k0" "boot_kernel P evls tps idle k0 = Some kb"
    and "kernel_reaches P evls (tasks_of tps idle) idle kb (kern s0)" "uxSchedulerSuspended (kern s0) = 0"
    and "pxCurrentTCB (kern s0) = t" "task_ready P (kern s0) t" "t \<noteq> idle"
    and "ulNotifiedValue s0 t = 0" "ucNotifyState s0 t = taskNOT_WAITING_NOTIFICATION" "h < 2 ^ 32"
  shows "\<exists>s s1. interrupts P t h s0 = Some s \<and> notify_take_sleep P 10 i j s = Some s1 \<and> pxCurrentTCB (kern s1) = t \<and>
    (task_ready P (kern s1) t \<longleftrightarrow> 0 < h + i + j \<or> 10 \<le> unat (xPendedTicks (kern s0))) \<and>
    (\<forall>n s2. while_asleep P evls (tasks_of tps idle) idle t n s1 s2 \<longrightarrow>
       (0 < h + i + j + n \<longrightarrow> task_ready P (kern s2) t \<or> waits_pending P (kern s2) t) \<and>
       (\<exists>s3. enc28_test_app_handle_packet_recv_interrupt P t s2 = Some s3 \<and> ulNotifiedValue s3 t = ulNotifiedValue s2 t + 1 \<and>
          (task_ready P (kern s3) t \<or> waits_pending P (kern s3) t)) \<and>
       (pxCurrentTCB (kern s2) = t \<longrightarrow>
          (\<exists>s3. ulTaskGenericNotifyTake P True 10 i j (\<lambda>_. Some s2) s = Some (of_nat (h + i + j + n), s3) \<and>
             ulNotifiedValue s3 t = 0 \<and> ucNotifyState s3 t = taskNOT_WAITING_NOTIFICATION)))"
proof -
  let ?ts = "tasks_of tps idle"
  obtain C where C: "run_ok P (set evls) ?ts idle C (kern s0)" by (rule booted_run [OF assms(1-3)])
  have t: "t \<in> ?ts" using calmD(5) [OF run_okD(3) [OF C]] assms(5) by simp
  have nz: "t \<noteq> 0" by (rule tasks_fitD(1) [OF lists_runD(5) [OF run_okD(1) [OF C]] t])
  let ?s = "given t h s0"
  have s: "interrupts P t h s0 = Some ?s" using assms(9) by (simp add: interrupts_given [OF nz])
  have h: "of_nat h = (0 :: u32) \<longleftrightarrow> h = 0" using unat_of_nat_u32 [OF assms(10)] by (auto simp: word_unat_eq_iff)
  obtain s1 where s1: "notify_take_sleep P 10 i j ?s = Some s1" "asleep_ok P (set evls) ?ts idle t s1" "pxCurrentTCB (kern s1) = t"
    "ulNotifiedValue s1 = (ulNotifiedValue ?s)(t := ulNotifiedValue ?s t + of_nat (i + j))"
    "task_ready P (kern s1) t \<longleftrightarrow> ulNotifiedValue ?s t \<noteq> 0 \<or> 0 < i + j \<or> unat (10 :: u32) \<le> unat (xPendedTicks (kern ?s))"
    by (rule take_sleep [where s = ?s and t = t and ticks = 10, OF _ _ _ _ assms(7)])
      (use C assms(4-6,9) in \<open>auto simp: portMAX_DELAY_def\<close>)
  have ready: "task_ready P (kern s1) t \<longleftrightarrow> 0 < h + i + j \<or> 10 \<le> unat (xPendedTicks (kern s0))"
    using s1(5) assms(8) h by auto
  show ?thesis
  proof (rule exI [of _ ?s], rule exI [of _ s1], intro conjI allI impI)
    fix n s2 assume "while_asleep P evls ?ts idle t n s1 s2"
    from while_asleep_ok [OF this s1(2) t nz] have s2: "asleep_ok P (set evls) ?ts idle t s2"
      "ulNotifiedValue s2 = (ulNotifiedValue s1)(t := ulNotifiedValue s1 t + of_nat n)"
      "task_ready P (kern s1) t \<or> waits_pending P (kern s1) t \<or> n \<noteq> 0 \<longrightarrow> task_ready P (kern s2) t \<or> waits_pending P (kern s2) t" by blast+
    show "task_ready P (kern s2) t \<or> waits_pending P (kern s2) t" if "0 < h + i + j + n" using that s2(3) ready by auto
    obtain s3 where "enc28_test_app_handle_packet_recv_interrupt P t s2 = Some s3"
      "ulNotifiedValue s3 = (ulNotifiedValue s2)(t := ulNotifiedValue s2 t + 1)" "task_ready P (kern s3) t \<or> waits_pending P (kern s3) t"
      by (rule asleep_interrupt [OF s2(1) t nz]) blast
    then show "\<exists>s3. enc28_test_app_handle_packet_recv_interrupt P t s2 = Some s3 \<and> ulNotifiedValue s3 t = ulNotifiedValue s2 t + 1 \<and>
        (task_ready P (kern s3) t \<or> waits_pending P (kern s3) t)" by simp
    assume "pxCurrentTCB (kern s2) = t"
    then show "\<exists>s3. ulTaskGenericNotifyTake P True 10 i j (\<lambda>_. Some s2) ?s = Some (of_nat (h + i + j + n), s3) \<and>
        ulNotifiedValue s3 t = 0 \<and> ucNotifyState s3 t = taskNOT_WAITING_NOTIFICATION"
      using s1(1,4) s2(2) assms(8) by (simp add: ulTaskGenericNotifyTake_def notify_take_end_def Let_def algebra_simps)
  qed (use s s1(1,3) ready in simp_all)
qed

text \<open>One interrupt before the call and two while it looks at its lists: the call returns three at once.\<close>

theorem packet_interrupt_not_lost_witness:
  "\<exists>s s1 s3. interrupts example_places 0x20003000 1
      \<lparr>kern = example_kernel, ulNotifiedValue = (\<lambda>_. 0), ucNotifyState = (\<lambda>_. taskNOT_WAITING_NOTIFICATION)\<rparr> = Some s \<and>
    notify_take_sleep example_places 10 1 1 s = Some s1 \<and> task_ready example_places (kern s1) 0x20003000 \<and>
    ulTaskGenericNotifyTake example_places True 10 1 1 (\<lambda>_. Some s1) s = Some (3, s3) \<and> ulNotifiedValue s3 0x20003000 = 0"
proof -
  let ?s0 = "\<lparr>kern = example_kernel, ulNotifiedValue = (\<lambda>_. 0), ucNotifyState = (\<lambda>_. taskNOT_WAITING_NOTIFICATION)\<rparr>"
  have "kernel_reaches example_places example_evls (tasks_of example_tasks 0x20004000) 0x20004000 example_kernel (kern ?s0)"
    "uxSchedulerSuspended (kern ?s0) = 0" "pxCurrentTCB (kern ?s0) = 0x20003000" "task_ready example_places (kern ?s0) 0x20003000"
    "(0x20003000 :: u32) \<noteq> 0x20004000" "ulNotifiedValue ?s0 0x20003000 = 0"
    "ucNotifyState ?s0 0x20003000 = taskNOT_WAITING_NOTIFICATION" "(1 :: nat) < 2 ^ 32"
    using example_ready(1) [of "0x20003000"] by (simp_all add: kernel_reaches.start example_current)
  note lost = packet_interrupt_not_lost [OF example_boots example_boot this, of 1 1]
  from lost obtain s s1 where s: "interrupts example_places 0x20003000 1 ?s0 = Some s" "notify_take_sleep example_places 10 1 1 s = Some s1"
      "pxCurrentTCB (kern s1) = 0x20003000"
      "task_ready example_places (kern s1) 0x20003000 \<longleftrightarrow> 0 < (1 + 1 + 1 :: nat) \<or> 10 \<le> unat (xPendedTicks (kern ?s0))"
      "\<And>n s2. while_asleep example_places example_evls (tasks_of example_tasks 0x20004000) 0x20004000 0x20003000 n s1 s2 \<Longrightarrow>
        pxCurrentTCB (kern s2) = 0x20003000 \<Longrightarrow>
        \<exists>s3. ulTaskGenericNotifyTake example_places True 10 1 1 (\<lambda>_. Some s2) s = Some (of_nat (1 + 1 + 1 + n), s3) \<and>
          ulNotifiedValue s3 0x20003000 = 0"
    by metis
  from s(4) have "task_ready example_places (kern s1) 0x20003000" by simp
  with s(1,2) s(5) [OF while_asleep.refl s(3)] show ?thesis by auto
qed

end
