(* ===== verification/Lwip_Netif.thy ===== *)
theory Lwip_Netif
  imports Enc28_Types
begin

text \<open>
  The network interface the IP task sets up, and what lwIP's interface code does with it: \<^verbatim>\<open>enc28_ip_init_callback\<close> and the
  start of \<^verbatim>\<open>ip_stack_task\<close>, and from lwIP \<^verbatim>\<open>netif_add\<close>, \<^verbatim>\<open>netif_set_default\<close>, \<^verbatim>\<open>netif_set_up\<close>, the way of a received frame
  through \<^verbatim>\<open>netif_input\<close> and \<^verbatim>\<open>ethernet_input\<close>, the addresses \<^verbatim>\<open>ip4_input\<close> accepts, \<^verbatim>\<open>ip4_route\<close> and \<^verbatim>\<open>pbuf_alloced_custom\<close>.

  The build options are those of \<^verbatim>\<open>lwipopts.h\<close> and lwIP's defaults for the rest: IPv4 and ARP, no IPv6, IGMP, VLAN, PPPoE,
  loopback or hooks. Interfaces are kept in a store by their address, as lwIP's list and default interface point
  to them. Addresses are words as they lie in memory on this little-endian processor: the first octet is the lowest byte.
\<close>

section \<open>The configuration\<close>

abbreviation (input) MAC_ADDR_BYTE_0 :: u8 where "MAC_ADDR_BYTE_0 \<equiv> 0xDE"
abbreviation (input) MAC_ADDR_BYTE_1 :: u8 where "MAC_ADDR_BYTE_1 \<equiv> 0xAD"
abbreviation (input) MAC_ADDR_BYTE_2 :: u8 where "MAC_ADDR_BYTE_2 \<equiv> 0xBE"
abbreviation (input) MAC_ADDR_BYTE_3 :: u8 where "MAC_ADDR_BYTE_3 \<equiv> 0xEF"
abbreviation (input) MAC_ADDR_BYTE_4 :: u8 where "MAC_ADDR_BYTE_4 \<equiv> 0xCC"
abbreviation (input) MAC_ADDR_BYTE_5 :: u8 where "MAC_ADDR_BYTE_5 \<equiv> 0xAA"

definition ENC28_IP_ADDR :: u32 where
  "ENC28_IP_ADDR = push_bit 0 192 OR push_bit 8 168 OR push_bit 16 0 OR push_bit 24 22"

definition ip4_octets :: "u32 \<Rightarrow> nat list" where
  "ip4_octets a = map (\<lambda>i. unat (ucast (drop_bit (8 * i) a) :: u8)) [0..<4]"

abbreviation (input) NETIF_FLAG_UP :: u8 where "NETIF_FLAG_UP \<equiv> 0x01"
abbreviation (input) NETIF_FLAG_BROADCAST :: u8 where "NETIF_FLAG_BROADCAST \<equiv> 0x02"
abbreviation (input) NETIF_FLAG_LINK_UP :: u8 where "NETIF_FLAG_LINK_UP \<equiv> 0x04"
abbreviation (input) NETIF_FLAG_ETHARP :: u8 where "NETIF_FLAG_ETHARP \<equiv> 0x08"
abbreviation (input) NETIF_FLAG_ETHERNET :: u8 where "NETIF_FLAG_ETHERNET \<equiv> 0x10"
abbreviation (input) NETIF_FLAG_IGMP :: u8 where "NETIF_FLAG_IGMP \<equiv> 0x20"
abbreviation (input) NETIF_FLAG_MLD6 :: u8 where "NETIF_FLAG_MLD6 \<equiv> 0x40"

section \<open>Interfaces\<close>

text \<open>The functions an interface points to.\<close>

datatype netif_function = Netif_null_output_ip4 | Enc28_netif_output | Etharp_output | Netif_input

record netif =
  ip_addr :: u32
  netmask :: u32
  gw :: u32
  input_fn :: netif_function
  output_fn :: netif_function
  linkoutput_fn :: netif_function
  mtu :: u16
  hwaddr :: "u8 list"
  hwaddr_len :: u8
  netif_flags :: u8
  if_name :: "u8 \<times> u8"

record lwip =
  netifs :: "u32 \<Rightarrow> netif"
  netif_list :: "u32 list"
  netif_default :: "u32 option"

datatype err_t = ERR_OK | ERR_OTHER

definition netif_is_up :: "netif \<Rightarrow> bool" where
  "netif_is_up n \<longleftrightarrow> netif_flags n AND NETIF_FLAG_UP \<noteq> 0"

definition netif_is_link_up :: "netif \<Rightarrow> bool" where
  "netif_is_link_up n \<longleftrightarrow> netif_flags n AND NETIF_FLAG_LINK_UP \<noteq> 0"

text \<open>
  Adding an interface clears its state, sets its addresses and calls the driver's function. The result is \<open>None\<close> when the
  search for a number fails an assertion, because the interface is in the list, or finds none, because 255 interfaces have
  taken the numbers 0 to 254. The number itself, which only serves as an index, is left out.
\<close>

definition netif_add ::
  "u32 \<Rightarrow> u32 \<Rightarrow> u32 \<Rightarrow> u32 \<Rightarrow> (netif \<Rightarrow> err_t \<times> netif) \<Rightarrow> netif_function \<Rightarrow> lwip
   \<Rightarrow> (u32 option \<times> lwip) option" where
  "netif_add ifp ipaddr net_mask gateway init_fn inp s =
     (let n = (netifs s ifp)\<lparr>ip_addr := 0, netmask := 0, gw := 0, output_fn := Netif_null_output_ip4,
                mtu := 0, netif_flags := 0, input_fn := inp\<rparr>;
          n = n\<lparr>ip_addr := ipaddr, netmask := net_mask, gw := gateway\<rparr> in
      case init_fn n of (err, n) \<Rightarrow>
      let s = s\<lparr>netifs := (netifs s)(ifp := n)\<rparr> in
      if err \<noteq> ERR_OK then Some (None, s)
      else if ifp \<in> set (netif_list s) \<or> 255 \<le> length (netif_list s) then None
      else Some (Some ifp, s\<lparr>netif_list := ifp # netif_list s\<rparr>))"

definition netif_set_default :: "u32 \<Rightarrow> lwip \<Rightarrow> lwip" where
  "netif_set_default ifp s = s\<lparr>netif_default := Some ifp\<rparr>"

text \<open>Whether \<^verbatim>\<open>netif_issue_reports\<close> announces the address with a gratuitous ARP.\<close>

definition netif_issue_reports :: "netif \<Rightarrow> bool" where
  "netif_issue_reports n \<longleftrightarrow>
     netif_is_link_up n \<and> netif_is_up n \<and> ip_addr n \<noteq> 0 \<and> netif_flags n AND NETIF_FLAG_ETHARP \<noteq> 0"

definition netif_set_up :: "u32 \<Rightarrow> lwip \<Rightarrow> bool \<times> lwip" where
  "netif_set_up ifp s =
     (let n = netifs s ifp in
      if netif_flags n AND NETIF_FLAG_UP = 0 then
        let n = n\<lparr>netif_flags := netif_flags n OR NETIF_FLAG_UP\<rparr>
        in (netif_issue_reports n, s\<lparr>netifs := (netifs s)(ifp := n)\<rparr>)
      else (False, s))"

section \<open>The interface of the application\<close>

definition enc28_ip_init_callback :: "netif \<Rightarrow> err_t \<times> netif" where
  "enc28_ip_init_callback n_if =
     (ERR_OK,
      n_if\<lparr>netif_flags := NETIF_FLAG_BROADCAST OR NETIF_FLAG_ETHARP OR NETIF_FLAG_ETHERNET OR NETIF_FLAG_IGMP OR NETIF_FLAG_MLD6,
           linkoutput_fn := Enc28_netif_output,
           output_fn := Etharp_output,
           mtu := 1518,
           hwaddr := [MAC_ADDR_BYTE_0, MAC_ADDR_BYTE_1, MAC_ADDR_BYTE_2, MAC_ADDR_BYTE_3, MAC_ADDR_BYTE_4, MAC_ADDR_BYTE_5],
           hwaddr_len := 6\<rparr>)"

text \<open>
  The start of \<^verbatim>\<open>ip_stack_task\<close> on the variable \<^verbatim>\<open>net_ifc\<close>: whether lwIP announced the address, and the state of lwIP. A failed
  assertion stops the task.
\<close>

definition ip_stack_task_start :: "u32 \<Rightarrow> lwip \<Rightarrow> (bool \<times> lwip) option" where
  "ip_stack_task_start net_ifc s =
     (let s = s\<lparr>netifs := (netifs s)(net_ifc := (netifs s net_ifc)\<lparr>if_name := (0x65, 0x31)\<rparr>)\<rparr> in
      case netif_add net_ifc ENC28_IP_ADDR 0 0 enc28_ip_init_callback Netif_input s of
        None \<Rightarrow> None
      | Some (res, s) \<Rightarrow>
        if res = None then None
        else Some (netif_set_up net_ifc (netif_set_default net_ifc s)))"

section \<open>The way of a received frame\<close>

text \<open>Where \<^verbatim>\<open>netif_input\<close> and \<^verbatim>\<open>ethernet_input\<close> send a frame; every branch returns \<^verbatim>\<open>ERR_OK\<close>.\<close>

datatype frame_way = To_ip_input | To_ip4_input | To_etharp_input | Freed

definition ethernet_input :: "u8 list \<Rightarrow> netif \<Rightarrow> frame_way" where
  "ethernet_input frame n =
     (if length frame \<le> 14 then Freed
      else if frame ! 12 = 0x08 \<and> frame ! 13 = 0x00 then
        (if netif_flags n AND NETIF_FLAG_ETHARP = 0 then Freed else To_ip4_input)
      else if frame ! 12 = 0x08 \<and> frame ! 13 = 0x06 then
        (if netif_flags n AND NETIF_FLAG_ETHARP = 0 then Freed else To_etharp_input)
      else Freed)"

definition netif_input :: "u8 list \<Rightarrow> netif \<Rightarrow> frame_way" where
  "netif_input frame n =
     (if netif_flags n AND (NETIF_FLAG_ETHARP OR NETIF_FLAG_ETHERNET) \<noteq> 0 then ethernet_input frame n else To_ip_input)"

definition ip4_addr_net_eq :: "u32 \<Rightarrow> u32 \<Rightarrow> u32 \<Rightarrow> bool" where
  "ip4_addr_net_eq a b net_mask \<longleftrightarrow> a AND net_mask = b AND net_mask"

definition ip4_addr_isbroadcast :: "u32 \<Rightarrow> netif \<Rightarrow> bool" where
  "ip4_addr_isbroadcast addr n \<longleftrightarrow>
     (if NOT addr = 0 \<or> addr = 0 then True
      else if netif_flags n AND NETIF_FLAG_BROADCAST = 0 then False
      else if addr = ip_addr n then False
      else ip4_addr_net_eq addr (ip_addr n) (netmask n) \<and> addr AND NOT (netmask n) = 0xFFFFFFFF AND NOT (netmask n))"

definition ip4_input_accept :: "u32 \<Rightarrow> netif \<Rightarrow> bool" where
  "ip4_input_accept dest n \<longleftrightarrow>
     netif_is_up n \<and> ip_addr n \<noteq> 0 \<and> (dest = ip_addr n \<or> ip4_addr_isbroadcast dest n)"

definition ip4_addr_ismulticast :: "u32 \<Rightarrow> bool" where
  "ip4_addr_ismulticast addr \<longleftrightarrow> addr AND 0xF0 = 0xE0"

definition ip4_addr_isloopback :: "u32 \<Rightarrow> bool" where
  "ip4_addr_isloopback dest \<longleftrightarrow> dest AND 0xFF = 127"

text \<open>
  The interface \<^verbatim>\<open>ip4_input\<close> takes a packet for that came in on \<open>inp\<close>, by its source and destination, once its header
  has been checked; \<open>None\<close> for a packet it drops. Without IGMP every multicast destination is accepted.
\<close>

definition ip4_input_netif :: "u32 \<Rightarrow> u32 \<Rightarrow> u32 \<Rightarrow> lwip \<Rightarrow> u32 option" where
  "ip4_input_netif src dest inp s =
     (let n = netifs s inp;
          target =
            (if ip4_addr_ismulticast dest then if netif_is_up n \<and> ip_addr n \<noteq> 0 then Some inp else None
             else if ip4_input_accept dest n then Some inp
             else if ip4_addr_isloopback dest then None
             else List.find (\<lambda>ifp. ifp \<noteq> inp \<and> ip4_input_accept dest (netifs s ifp)) (netif_list s))
      in if ip4_addr_isbroadcast src n \<or> ip4_addr_ismulticast src then None else target)"

section \<open>The way of a sent packet\<close>

definition ip4_route :: "u32 \<Rightarrow> lwip \<Rightarrow> u32 option" where
  "ip4_route dest s =
     (case List.find (\<lambda>ifp. let n = netifs s ifp in
          netif_is_up n \<and> netif_is_link_up n \<and> ip_addr n \<noteq> 0 \<and>
          (ip4_addr_net_eq dest (ip_addr n) (netmask n) \<or>
           netif_flags n AND NETIF_FLAG_BROADCAST = 0 \<and> dest = gw n)) (netif_list s) of
        Some ifp \<Rightarrow> Some ifp
      | None \<Rightarrow>
        (case netif_default s of
           None \<Rightarrow> None
         | Some ifp \<Rightarrow>
           let n = netifs s ifp in
           if \<not> netif_is_up n \<or> \<not> netif_is_link_up n \<or> ip_addr n = 0 \<or> ip4_addr_isloopback dest
           then None else Some ifp))"

section \<open>Packet buffers\<close>

text \<open>
  A buffer descriptor over foreign memory; \<open>payload\<close> is the memory from \<^verbatim>\<open>p->payload\<close> on. \<^verbatim>\<open>MEM_ALIGNMENT\<close> is 1, so that an
  offset is its own alignment.
\<close>

record pbuf =
  payload :: "u8 list"
  tot_len :: u16
  pbuf_len :: u16
  type_internal :: u8
  pbuf_flags :: u8
  pbuf_ref :: u8

abbreviation (input) PBUF_RAW :: u16 where "PBUF_RAW \<equiv> 0"
abbreviation (input) PBUF_REF :: u16 where "PBUF_REF \<equiv> 0x41"
abbreviation (input) PBUF_FLAG_IS_CUSTOM :: u8 where "PBUF_FLAG_IS_CUSTOM \<equiv> 0x02"

definition LWIP_MEM_ALIGN_SIZE :: "u32 \<Rightarrow> u32" where
  "LWIP_MEM_ALIGN_SIZE sz = (sz + 1 - 1) AND NOT (1 - 1)"

definition pbuf_alloced_custom :: "u16 \<Rightarrow> u16 \<Rightarrow> u16 \<Rightarrow> u8 list \<Rightarrow> u16 \<Rightarrow> pbuf option" where
  "pbuf_alloced_custom l len type payload_mem payload_mem_len =
     (let offset = LWIP_MEM_ALIGN_SIZE (ucast l) in
      if offset + ucast len > ucast payload_mem_len then None
      else Some \<lparr>payload = drop (unat offset) payload_mem, tot_len = len, pbuf_len = len, type_internal = ucast type,
             pbuf_flags = PBUF_FLAG_IS_CUSTOM, pbuf_ref = 1\<rparr>)"

lemma pbuf_alloced_custom_raw [simp]:
  "pbuf_alloced_custom PBUF_RAW n type mem n =
     Some \<lparr>payload = mem, tot_len = n, pbuf_len = n, type_internal = ucast type, pbuf_flags = PBUF_FLAG_IS_CUSTOM, pbuf_ref = 1\<rparr>"
  by (simp add: pbuf_alloced_custom_def LWIP_MEM_ALIGN_SIZE_def)

section \<open>Properties\<close>

text \<open>The interface as it is after the start of the task.\<close>

definition net_ifc_ready :: "netif \<Rightarrow> netif" where
  "net_ifc_ready n =
     n\<lparr>ip_addr := ENC28_IP_ADDR, netmask := 0, gw := 0, input_fn := Netif_input, output_fn := Etharp_output,
       linkoutput_fn := Enc28_netif_output, mtu := 1518, hwaddr := [0xDE, 0xAD, 0xBE, 0xEF, 0xCC, 0xAA], hwaddr_len := 6,
       netif_flags := 0x7B, if_name := (0x65, 0x31)\<rparr>"

lemma ip_stack_task_start_run:
  "ip_stack_task_start ifp s =
     (if ifp \<in> set (netif_list s) \<or> 255 \<le> length (netif_list s) then None
      else Some (False, s\<lparr>netifs := (netifs s)(ifp := net_ifc_ready (netifs s ifp)), netif_list := ifp # netif_list s,
        netif_default := Some ifp\<rparr>))"
  by (cases s; cases "netifs s ifp") (simp add: ip_stack_task_start_def netif_add_def enc28_ip_init_callback_def netif_set_default_def netif_set_up_def
      netif_issue_reports_def netif_is_link_up_def net_ifc_ready_def Let_def)

lemma ENC28_IP_ADDR_value: "ENC28_IP_ADDR = 0x1600A8C0"
  by (simp add: ENC28_IP_ADDR_def)

lemma ip4_first_octet: "ip4_octets a ! 0 = unat a mod 256"
  by (simp add: ip4_octets_def upt_rec unsigned_ucast_eq take_bit_eq_mod)

lemma ip4_ismulticast_octet: "ip4_addr_ismulticast a \<longleftrightarrow> ip4_octets a ! 0 \<in> {224..239}"
proof -
  have "(0xF0 :: nat) = push_bit 4 (mask 4)" by (simp add: mask_eq_exp_minus_1 push_bit_eq_mult)
  moreover have "u AND push_bit 4 (mask 4) = push_bit 4 (take_bit 4 (drop_bit 4 u))" for u :: nat
    by (rule bit_eqI) (auto simp: bit_simps)
  ultimately have "unat a AND 0xF0 = push_bit 4 (take_bit 4 (drop_bit 4 (unat a)))" by (simp only:)
  also have "\<dots> = unat a div 16 mod 16 * 16" by (simp add: push_bit_eq_mult take_bit_eq_mod drop_bit_eq_div)
  finally have "unat (a AND 0xF0) = unat a div 16 mod 16 * 16" by (simp add: unsigned_and_eq)
  then have "a AND 0xF0 = 0xE0 \<longleftrightarrow> unat a div 16 mod 16 = 14" by (simp add: word_unat_eq_iff)
  moreover have "unat a mod 256 = 16 * (unat a div 16 mod 16) + unat a mod 16"
    using mod_mult2_eq [of "unat a" 16 16] by simp
  moreover have "unat a mod 16 < 16" by simp
  ultimately have "a AND 0xF0 = 0xE0 \<longleftrightarrow> 224 \<le> unat a mod 256 \<and> unat a mod 256 \<le> 239" by linarith
  then show ?thesis by (simp add: ip4_addr_ismulticast_def ip4_first_octet)
qed

lemma net_ifc_ready_facts:
  "netif_is_up (net_ifc_ready n)" "ip_addr (net_ifc_ready n) = ENC28_IP_ADDR"
  "ip4_addr_isbroadcast a (net_ifc_ready n) \<longleftrightarrow> a \<in> {0, 0xFFFFFFFF}"
proof -
  have ones: "NOT a = 0 \<longleftrightarrow> a = 0xFFFFFFFF" for a :: u32
  proof -
    have "NOT a = 0 \<longleftrightarrow> a = NOT 0" by (metis bit.double_compl)
    also have "NOT 0 = (0xFFFFFFFF :: u32)" by simp
    finally show ?thesis .
  qed
  show "netif_is_up (net_ifc_ready n)" "ip_addr (net_ifc_ready n) = ENC28_IP_ADDR"
    by (simp_all add: net_ifc_ready_def netif_is_up_def)
  show "ip4_addr_isbroadcast a (net_ifc_ready n) \<longleftrightarrow> a \<in> {0, 0xFFFFFFFF}"
    by (auto simp: net_ifc_ready_def ip4_addr_isbroadcast_def ip4_addr_net_eq_def ones)
qed

text \<open>
  C15: The interface the IP task sets up has the address 192.168.0.22 and the MAC address the chip is given, is up and is
  the default. Every received frame goes through the Ethernet layer: an IPv4 or ARP frame with a payload to its protocol, any other is
  freed. IP takes a packet for this interface exactly when it is for the address itself, one of the two broadcast
  addresses or any multicast group, and its source is neither a broadcast nor a multicast address.
\<close>

theorem interface_ready:
  assumes "ifp \<notin> set (netif_list s)" and "length (netif_list s) < 255"
  shows "\<exists>s'. ip_stack_task_start ifp s = Some (False, s') \<and> netif_default s' = Some ifp \<and> ifp \<in> set (netif_list s') \<and>
     (let n = netifs s' ifp in
        netif_is_up n \<and> ip4_octets (ip_addr n) = [192, 168, 0, 22] \<and>
        hwaddr n = [MAC_ADDR_BYTE_0, MAC_ADDR_BYTE_1, MAC_ADDR_BYTE_2, MAC_ADDR_BYTE_3, MAC_ADDR_BYTE_4, MAC_ADDR_BYTE_5] \<and>
        (\<forall>frame. netif_input frame n =
           (if 14 < length frame \<and> frame ! 12 = 0x08 \<and> frame ! 13 = 0x00 then To_ip4_input
            else if 14 < length frame \<and> frame ! 12 = 0x08 \<and> frame ! 13 = 0x06 then To_etharp_input
            else Freed)) \<and>
        (\<forall>src dest. ip4_input_netif src dest ifp s' = Some ifp \<longleftrightarrow>
           (dest \<in> {ENC28_IP_ADDR, 0, 0xFFFFFFFF} \<or> ip4_octets dest ! 0 \<in> {224..239}) \<and>
           \<not> (src \<in> {0, 0xFFFFFFFF} \<or> ip4_octets src ! 0 \<in> {224..239})))"
proof (intro exI conjI)
  let ?s = "s\<lparr>netifs := (netifs s)(ifp := net_ifc_ready (netifs s ifp)), netif_list := ifp # netif_list s, netif_default := Some ifp\<rparr>"
  show "ip_stack_task_start ifp s = Some (False, ?s)" using assms by (simp add: ip_stack_task_start_run)
  show "netif_default ?s = Some ifp" "ifp \<in> set (netif_list ?s)" by simp_all
  have find: "List.find (\<lambda>i. i \<noteq> ifp \<and> P i) is \<noteq> Some ifp" for P "is" by (auto simp: find_Some_iff)
  have "ip4_input_netif src dest ifp ?s = Some ifp \<longleftrightarrow>
      (dest \<in> {ENC28_IP_ADDR, 0, 0xFFFFFFFF} \<or> ip4_octets dest ! 0 \<in> {224..239}) \<and>
      \<not> (src \<in> {0, 0xFFFFFFFF} \<or> ip4_octets src ! 0 \<in> {224..239})" for src dest
    using find [of "\<lambda>i. ip4_input_accept dest (netifs ?s i)" "netif_list ?s"]
    by (auto simp: ip4_input_netif_def ip4_input_accept_def [of _ "net_ifc_ready n" for n] net_ifc_ready_facts
        ip4_ismulticast_octet ENC28_IP_ADDR_value Let_def)
  then show "let n = netifs ?s ifp in netif_is_up n \<and> ip4_octets (ip_addr n) = [192, 168, 0, 22] \<and>
        hwaddr n = [MAC_ADDR_BYTE_0, MAC_ADDR_BYTE_1, MAC_ADDR_BYTE_2, MAC_ADDR_BYTE_3, MAC_ADDR_BYTE_4, MAC_ADDR_BYTE_5] \<and>
        (\<forall>frame. netif_input frame n =
           (if 14 < length frame \<and> frame ! 12 = 0x08 \<and> frame ! 13 = 0x00 then To_ip4_input
            else if 14 < length frame \<and> frame ! 12 = 0x08 \<and> frame ! 13 = 0x06 then To_etharp_input
            else Freed)) \<and>
        (\<forall>src dest. ip4_input_netif src dest ifp ?s = Some ifp \<longleftrightarrow>
           (dest \<in> {ENC28_IP_ADDR, 0, 0xFFFFFFFF} \<or> ip4_octets dest ! 0 \<in> {224..239}) \<and>
           \<not> (src \<in> {0, 0xFFFFFFFF} \<or> ip4_octets src ! 0 \<in> {224..239}))"
    by (simp add: net_ifc_ready_def netif_is_up_def netif_input_def ethernet_input_def ip4_octets_def upt_rec ENC28_IP_ADDR_value)
qed

definition lwip_fresh :: lwip where
  "lwip_fresh =
     \<lparr>netifs = (\<lambda>_. \<lparr>ip_addr = 0, netmask = 0, gw = 0, input_fn = Netif_input, output_fn = Netif_null_output_ip4,
        linkoutput_fn = Netif_null_output_ip4, mtu = 0, hwaddr = replicate 6 0, hwaddr_len = 0, netif_flags = 0, if_name = (0, 0)\<rparr>),
      netif_list = [], netif_default = None\<rparr>"

lemma lwip_fresh_list [simp]: "netif_list lwip_fresh = []"
  by (simp add: lwip_fresh_def)

text \<open>The all-hosts group 224.0.0.1 is accepted from a host, but not a packet that claims to come from it.\<close>

theorem interface_ready_witness:
  "\<exists>s'. ip_stack_task_start 0x20004000 lwip_fresh = Some (False, s') \<and>
     ip4_input_netif 0x0100A8C0 0x010000E0 0x20004000 s' = Some 0x20004000 \<and>
     ip4_input_netif 0x010000E0 ENC28_IP_ADDR 0x20004000 s' \<noteq> Some 0x20004000"
  using interface_ready [of "0x20004000" lwip_fresh] by (auto simp: Let_def ip4_first_octet)

text \<open>
  C37: The link of the interface is never reported up, neither by the driver's function nor by the task. So the address is not
  announced when the interface comes up, and \<^verbatim>\<open>ip4_route\<close> finds no interface for any destination. With the link up it would
  find this one for every destination.
\<close>

theorem no_route_without_link:
  assumes "ip_stack_task_start ifp s = Some (announced, s')" and "netif_list s = []"
  shows "\<not> announced \<and> \<not> netif_is_link_up (netifs s' ifp) \<and> (\<forall>dest. ip4_route dest s' = None) \<and>
    (\<forall>dest. ip4_route dest (s'\<lparr>netifs := (netifs s')(ifp :=
        (netifs s' ifp)\<lparr>netif_flags := netif_flags (netifs s' ifp) OR NETIF_FLAG_LINK_UP\<rparr>)\<rparr>) = Some ifp)"
proof -
  have s': "announced = False"
    "s' = s\<lparr>netifs := (netifs s)(ifp := net_ifc_ready (netifs s ifp)), netif_list := [ifp], netif_default := Some ifp\<rparr>"
    using assms by (simp_all add: ip_stack_task_start_run)
  show ?thesis
    by (simp add: s' ip4_route_def net_ifc_ready_def netif_is_link_up_def netif_is_up_def ip4_addr_net_eq_def ENC28_IP_ADDR_value)
qed

theorem no_route_without_link_witness:
  "\<exists>s'. ip_stack_task_start 0x20004000 lwip_fresh = Some (False, s') \<and> ip4_route 0x0100A8C0 s' = None"
proof -
  have run: "ip_stack_task_start 0x20004000 lwip_fresh = Some (False, the (map_option snd (ip_stack_task_start 0x20004000 lwip_fresh)))"
    by (simp add: ip_stack_task_start_run)
  from no_route_without_link [OF run] show ?thesis using run by auto
qed

end
