(* ===== verification/App_Tasks.thy ===== *)
theory App_Tasks
  imports Rtos_Fifo App_Ping Enc28_Api Lwip_Netif
begin

text \<open>
  The two tasks of the application (\<^verbatim>\<open>src/stm32_app/tasks\<close>) over the driver and the kernel's queues, and how they
  interleave. Eight packet buffers travel as pointers through three queues: free, ready (received frames for the IP
  stack) and transmit (frames for the chip).

  Each step is the code of one task from one point to the next of its loop. A task that waits in a blocking
  queue call is on the event list of the queue and does not step; when it is taken off the list it tries again, as the
  loop in the queue code does. The scheduler is cooperative (\<^verbatim>\<open>configUSE_PREEMPTION\<close> is 0) and would switch tasks
  only where one waits or sleeps; the relation lets them alternate after every step. The interrupt handler of the chip
  only ends the sleep of the packet task (theory \<open>Rtos_Notify\<close>), which ends by itself after ten ticks. The IP task sets up its
  network interface (theory \<open>Lwip_Netif\<close>) before its first step; lwIP outputs nothing there, as it takes the link to be down.
  With \<open>USE_LWIP\<close> 0 the frames of lwIP's own timers are left out.

  A failed \<^verbatim>\<open>configASSERT\<close> stops the system: the result \<open>None\<close>. Reading or writing outside an object is
  \<open>Some Undef\<close>.
\<close>

section \<open>Data\<close>

datatype app_task = Packet_task | Ip_task

text \<open>\<^verbatim>\<open>PACKET_HANDLER_TASK_PRIO\<close> and \<^verbatim>\<open>IP_STACK_TASK_PRIO\<close>.\<close>

definition task_prio :: "app_task \<Rightarrow> nat" where
  "task_prio t = (case t of Packet_task \<Rightarrow> 1 | Ip_task \<Rightarrow> 2)"

abbreviation (input) MAX_ETH_PACKETS :: nat where "MAX_ETH_PACKETS \<equiv> 8"
abbreviation (input) MAX_ETH_PACKET_SIZE :: nat where "MAX_ETH_PACKET_SIZE \<equiv> 1600"
abbreviation (input) sizeof_eth_packet_buff :: nat where "sizeof_eth_packet_buff \<equiv> 1602"

record eth_packet_buff_t =
  pkt_data :: "u8 list"
  used_bytes :: u16

text \<open>The address of \<^verbatim>\<open>eth_packets[i]\<close>, and the packet a pointer points to.\<close>

definition packet_ptr :: "u32 \<Rightarrow> nat \<Rightarrow> u32" where
  "packet_ptr base i = base + of_nat (i * sizeof_eth_packet_buff)"

definition packet_at :: "u32 \<Rightarrow> u32 \<Rightarrow> nat option" where
  "packet_at base p = List.find (\<lambda>i. packet_ptr base i = p) [0..<MAX_ETH_PACKETS]"

text \<open>
  Where the packet task is: filling the free queue, about to read the chip, with a frame to store, with a buffer to hand
  over, about to transmit, asleep. Where the IP task is: about to take a packet, in the input function of the IP
  stack, in its timers.
\<close>

datatype packet_pc_t =
  Packet_fill | Packet_read | Packet_store | Packet_publish u32 | Packet_transmit | Packet_sleep

datatype ip_pc_t = Ip_wait | Ip_input | Ip_timeouts

text \<open>
  \<open>pbuf_ptr\<close> is \<^verbatim>\<open>pbuf_cst.pbuf.enc28_eth_packet_ptr\<close>, the only buffer descriptor handed to the IP stack; \<open>held\<close> counts
  the times the stack still has to free it.
\<close>

record 'w app =
  drv :: "'w enc28_drv"
  free_packet_buffer_queue :: "app_task Queue_t"
  ready_packet_buffer_queue :: "app_task Queue_t"
  transmit_packet_queue :: "app_task Queue_t"
  eth_packets :: "eth_packet_buff_t list"
  pkt_buf :: "u8 list"
  status_vec :: ENC28_Receive_Status_Vector
  packet_pc :: packet_pc_t
  ip_pc :: ip_pc_t
  pbuf_ptr :: u32
  held :: nat

abbreviation (input) ret :: "'a \<Rightarrow> 'a outcome option" where "ret x \<equiv> Some (Ret x)"

definition deref_packet :: "u32 \<Rightarrow> u32 \<Rightarrow> (nat \<Rightarrow> 'a outcome option) \<Rightarrow> 'a outcome option" where
  "deref_packet base p k = (case packet_at base p of None \<Rightarrow> Some Undef | Some i \<Rightarrow> k i)"

text \<open>
  A send whose result the caller ignores, and the branch of a blocking send that waits for room.
\<close>

definition put_ignored :: "app_task \<Rightarrow> u32 \<Rightarrow> app_task Queue_t \<Rightarrow> app_task Queue_t" where
  "put_ignored self p q = (case ptr_put task_prio self p q of None \<Rightarrow> q | Some (_, q') \<Rightarrow> q')"

definition ptr_wait_room :: "app_task \<Rightarrow> app_task Queue_t \<Rightarrow> app_task Queue_t" where
  "ptr_wait_room self q = snd (snd (send_wait task_prio self False (\<lambda>_ q. q) q))"

section \<open>The packet task\<close>

fun fill_packets :: "u32 \<Rightarrow> nat list \<Rightarrow> 'w app \<Rightarrow> 'w app outcome option" where
  "fill_packets base [] s = ret s"
| "fill_packets base (i # is) s =
     (case ptr_put task_prio Packet_task (packet_ptr base i) (free_packet_buffer_queue s) of
        None \<Rightarrow> None
      | Some (_, q) \<Rightarrow> fill_packets base is
          (s\<lparr>free_packet_buffer_queue := q,
             eth_packets := (eth_packets s)[i := \<lparr>pkt_data = replicate MAX_ETH_PACKET_SIZE 0xFF, used_bytes = 0xFFFF\<rparr>]\<rparr>))"

definition packet_task_fill :: "u32 \<Rightarrow> 'w app \<Rightarrow> 'w app outcome option" where
  "packet_task_fill base s =
     after (fill_packets base [0..<MAX_ETH_PACKETS] s) (\<lambda>s. ret (s\<lparr>packet_pc := Packet_read\<rparr>))"

definition packet_task_read :: "'w ENC28_SPI_Context \<Rightarrow> 'w app \<Rightarrow> 'w app outcome option" where
  "packet_task_read ctx s =
     after (enc28_read_packet (Some ctx) (Some (pkt_buf s)) (of_nat MAX_ETH_PACKET_SIZE) (Some (status_vec s)) (drv s))
       (\<lambda>((rcv_stat, pb, vec), d).
         ret (s\<lparr>drv := d,
                pkt_buf := (case pb of None \<Rightarrow> pkt_buf s | Some b \<Rightarrow> b),
                status_vec := (case vec of None \<Rightarrow> status_vec s | Some v \<Rightarrow> v),
                packet_pc := if rcv_stat = ENC28_OK then Packet_store else Packet_transmit\<rparr>))"

definition packet_task_store :: "u32 \<Rightarrow> 'w app \<Rightarrow> 'w app outcome option" where
  "packet_task_store base s =
     (let packet_len = rsv_packet_len (status_vec s) in
      case ptr_get task_prio Packet_task (free_packet_buffer_queue s) of
        None \<Rightarrow> ret (s\<lparr>free_packet_buffer_queue := ptr_wait task_prio Packet_task (free_packet_buffer_queue s)\<rparr>)
      | Some (free_buf, _, q) \<Rightarrow>
        if free_buf = 0 then None
        else deref_packet base free_buf (\<lambda>i.
          if unat packet_len > MAX_ETH_PACKET_SIZE \<or> unat packet_len > length (pkt_buf s) then Some Undef
          else ret (s\<lparr>free_packet_buffer_queue := q,
                  eth_packets := (eth_packets s)[i :=
                    \<lparr>pkt_data = take (unat packet_len) (pkt_buf s) @ drop (unat packet_len) (pkt_data (eth_packets s ! i)),
                     used_bytes = packet_len\<rparr>],
                  packet_pc := Packet_publish free_buf\<rparr>)))"

definition packet_task_publish :: "u32 \<Rightarrow> 'w app \<Rightarrow> 'w app outcome option" where
  "packet_task_publish free_buf s =
     (case ptr_put task_prio Packet_task free_buf (ready_packet_buffer_queue s) of
        None \<Rightarrow> ret (s\<lparr>ready_packet_buffer_queue := ptr_wait_room Packet_task (ready_packet_buffer_queue s)\<rparr>)
      | Some (_, q) \<Rightarrow> ret (s\<lparr>ready_packet_buffer_queue := q, packet_pc := Packet_read\<rparr>))"

definition packet_task_transmit :: "'w ENC28_SPI_Context \<Rightarrow> u32 \<Rightarrow> 'w app \<Rightarrow> 'w app outcome option" where
  "packet_task_transmit ctx base s =
     (case ptr_get task_prio Packet_task (transmit_packet_queue s) of
        None \<Rightarrow> ret (s\<lparr>packet_pc := Packet_sleep\<rparr>)
      | Some (to_send, _, q) \<Rightarrow> deref_packet base to_send (\<lambda>i.
          let pkt = eth_packets s ! i in
          after (enc28_write_packet (Some ctx) (Some (pkt_data pkt)) (used_bytes pkt) (drv s)) (\<lambda>(send_stat, d).
          if send_stat \<noteq> ENC28_OK then None
          else ret (s\<lparr>drv := d, transmit_packet_queue := q,
                      free_packet_buffer_queue := put_ignored Packet_task to_send (free_packet_buffer_queue s),
                      packet_pc := Packet_sleep\<rparr>))))"

definition packet_task_step :: "'w ENC28_SPI_Context \<Rightarrow> u32 \<Rightarrow> 'w app \<Rightarrow> 'w app outcome option" where
  "packet_task_step ctx base s =
     (case packet_pc s of
        Packet_fill \<Rightarrow> packet_task_fill base s
      | Packet_read \<Rightarrow> packet_task_read ctx s
      | Packet_store \<Rightarrow> packet_task_store base s
      | Packet_publish p \<Rightarrow> packet_task_publish p s
      | Packet_transmit \<Rightarrow> packet_task_transmit ctx base s
      | Packet_sleep \<Rightarrow> ret (s\<lparr>packet_pc := Packet_read\<rparr>))"

section \<open>The IP task\<close>

text \<open>Its loop when \<^verbatim>\<open>USE_LWIP\<close> is 0: it answers pings itself.\<close>

definition ip_task_reply :: "u32 \<Rightarrow> nat \<Rightarrow> 'w app \<Rightarrow> 'w app outcome option" where
  "ip_task_reply base i s =
     (let pkt = eth_packets s ! i in
      if enc28_debug_is_ping_request (pkt_data pkt) (used_bytes pkt) \<noteq> 0 then
        case ptr_get task_prio Ip_task (free_packet_buffer_queue s) of
          None \<Rightarrow> ret s
        | Some (ping_resp, _, fq) \<Rightarrow> deref_packet base ping_resp (\<lambda>j.
            if j = i \<or> unat (used_bytes pkt) > MAX_ETH_PACKET_SIZE then Some Undef
            else case enc28_debug_handle_ping (pkt_data pkt) (used_bytes pkt) (pkt_data (eth_packets s ! j)) (used_bytes pkt) of
              (resp_status, resp) \<Rightarrow>
              let s = s\<lparr>free_packet_buffer_queue := fq,
                        eth_packets := (eth_packets s)[j := \<lparr>pkt_data = resp, used_bytes = used_bytes pkt\<rparr>]\<rparr> in
              if resp_status = 0
              then ret (s\<lparr>transmit_packet_queue := put_ignored Ip_task ping_resp (transmit_packet_queue s)\<rparr>)
              else ret (s\<lparr>free_packet_buffer_queue := put_ignored Ip_task ping_resp (free_packet_buffer_queue s)\<rparr>))
      else ret s)"

definition ip_task_ping :: "u32 \<Rightarrow> 'w app \<Rightarrow> 'w app outcome option" where
  "ip_task_ping base s =
     (case ptr_get task_prio Ip_task (ready_packet_buffer_queue s) of
        None \<Rightarrow> ret (s\<lparr>ready_packet_buffer_queue := ptr_wait task_prio Ip_task (ready_packet_buffer_queue s)\<rparr>)
      | Some (ready_packet, _, q) \<Rightarrow>
        if ready_packet = 0 then None
        else deref_packet base ready_packet (\<lambda>i.
          after (ip_task_reply base i (s\<lparr>ready_packet_buffer_queue := q\<rparr>)) (\<lambda>s.
          ret (s\<lparr>free_packet_buffer_queue := put_ignored Ip_task ready_packet (free_packet_buffer_queue s)\<rparr>))))"

text \<open>
  Its loop when \<^verbatim>\<open>USE_LWIP\<close> is 1: it describes the packet to the IP stack by the one \<^verbatim>\<open>pbuf_cst\<close> and calls the input function.
\<close>

definition ip_task_take :: "u32 \<Rightarrow> 'w app \<Rightarrow> 'w app outcome option" where
  "ip_task_take base s =
     (case ptr_get task_prio Ip_task (ready_packet_buffer_queue s) of
        None \<Rightarrow> ret (s\<lparr>ready_packet_buffer_queue := ptr_wait task_prio Ip_task (ready_packet_buffer_queue s)\<rparr>)
      | Some (ready_packet, _, q) \<Rightarrow>
        if ready_packet = 0 then None
        else deref_packet base ready_packet (\<lambda>i.
          let pkt = eth_packets s ! i;
              input_buf = pbuf_alloced_custom PBUF_RAW (used_bytes pkt) PBUF_REF (pkt_data pkt) (used_bytes pkt) in
          if input_buf = None then None
          else ret (s\<lparr>ready_packet_buffer_queue := q, pbuf_ptr := ready_packet, held := held s + 1, ip_pc := Ip_input\<rparr>)))"

text \<open>The functions the IP stack calls back: the output of a frame, and the end of a buffer's use.\<close>

definition enc28_netif_output :: "u32 \<Rightarrow> u8 list \<Rightarrow> 'w app \<Rightarrow> 'w app outcome option" where
  "enc28_netif_output base frame s =
     (case ptr_get task_prio Ip_task (free_packet_buffer_queue s) of
        None \<Rightarrow> ret s
      | Some (ip_resp, _, q) \<Rightarrow> deref_packet base ip_resp (\<lambda>i.
          if length frame > MAX_ETH_PACKET_SIZE then Some Undef
          else ret (s\<lparr>free_packet_buffer_queue := q,
                  eth_packets := (eth_packets s)[i :=
                    \<lparr>pkt_data = frame @ drop (length frame) (pkt_data (eth_packets s ! i)),
                     used_bytes = of_nat (length frame)\<rparr>],
                  transmit_packet_queue := put_ignored Ip_task ip_resp (transmit_packet_queue s)\<rparr>)))"

definition enc28_pbuf_free :: "'w app \<Rightarrow> 'w app outcome option" where
  "enc28_pbuf_free s =
     (case ptr_put task_prio Ip_task (pbuf_ptr s) (free_packet_buffer_queue s) of
        None \<Rightarrow> ret (s\<lparr>free_packet_buffer_queue := ptr_wait_room Ip_task (free_packet_buffer_queue s)\<rparr>)
      | Some (_, q) \<Rightarrow> ret (s\<lparr>free_packet_buffer_queue := q, held := held s - 1\<rparr>))"

section \<open>The system\<close>

text \<open>A task that is on an event list waits.\<close>

definition waiting :: "app_task \<Rightarrow> 'w app \<Rightarrow> bool" where
  "waiting t s \<longleftrightarrow>
     t \<in> set (xTasksWaitingToReceive (free_packet_buffer_queue s)) \<or> t \<in> set (xTasksWaitingToSend (free_packet_buffer_queue s)) \<or>
     t \<in> set (xTasksWaitingToReceive (ready_packet_buffer_queue s)) \<or> t \<in> set (xTasksWaitingToSend (ready_packet_buffer_queue s)) \<or>
     t \<in> set (xTasksWaitingToReceive (transmit_packet_queue s)) \<or> t \<in> set (xTasksWaitingToSend (transmit_packet_queue s))"

text \<open>
  What a step does to frames: a frame comes from the chip, goes to the IP stack, comes from it, is dropped for want of a buffer,
  goes to the chip.
\<close>

datatype app_event =
  Received "u8 list" | Input "u8 list" | Output "u8 list" | Dropped "u8 list" | Transmitted "u8 list"

definition packet_frame :: "eth_packet_buff_t \<Rightarrow> u8 list" where
  "packet_frame pkt = take (unat (used_bytes pkt)) (pkt_data pkt)"

definition frame_at :: "u32 \<Rightarrow> 'w app \<Rightarrow> u32 \<Rightarrow> u8 list" where
  "frame_at base s p = (case packet_at base p of None \<Rightarrow> [] | Some i \<Rightarrow> packet_frame (eth_packets s ! i))"

definition packet_task_events :: "u32 \<Rightarrow> 'w app \<Rightarrow> app_event list" where
  "packet_task_events base s =
     (case packet_pc s of
        Packet_store \<Rightarrow>
          (if ptr_items (free_packet_buffer_queue s) = [] then []
           else [Received (take (unat (rsv_packet_len (status_vec s))) (pkt_buf s))])
      | Packet_transmit \<Rightarrow>
          (case ptr_items (transmit_packet_queue s) of [] \<Rightarrow> [] | p # _ \<Rightarrow> [Transmitted (frame_at base s p)])
      | _ \<Rightarrow> [])"

definition ip_ping_events :: "u32 \<Rightarrow> 'w app \<Rightarrow> 'w app \<Rightarrow> app_event list" where
  "ip_ping_events base s s' =
     (case ptr_items (ready_packet_buffer_queue s) of
        [] \<Rightarrow> []
      | p # _ \<Rightarrow> Input (frame_at base s p) #
          (case drop (length (ptr_items (transmit_packet_queue s))) (ptr_items (transmit_packet_queue s')) of
             [] \<Rightarrow> [] | r # _ \<Rightarrow> [Output (frame_at base s' r)]))"

text \<open>
  The steps of both tasks. \<open>use_lwip\<close> is the configuration switch. The IP stack is any program that calls the two
  callbacks while its input function or its timers run; \<open>keeps\<close> is false for a stack that frees a packet before its input
  function returns, true for one that may keep it longer.
\<close>

inductive app_step ::
  "bool \<Rightarrow> bool \<Rightarrow> 'w ENC28_SPI_Context \<Rightarrow> u32 \<Rightarrow> 'w app \<Rightarrow> app_event list \<Rightarrow> 'w app \<Rightarrow> bool"
  for use_lwip keeps :: bool and ctx :: "'w ENC28_SPI_Context" and base :: u32
where
  packet_task: "\<not> waiting Packet_task s \<Longrightarrow> packet_task_step ctx base s = ret s' \<Longrightarrow>
    app_step use_lwip keeps ctx base s (packet_task_events base s) s'"
| ip_ping: "\<not> use_lwip \<Longrightarrow> \<not> waiting Ip_task s \<Longrightarrow> ip_task_ping base s = ret s' \<Longrightarrow>
    app_step use_lwip keeps ctx base s (ip_ping_events base s s') s'"
| ip_take: "use_lwip \<Longrightarrow> \<not> waiting Ip_task s \<Longrightarrow> ip_pc s = Ip_wait \<Longrightarrow> ip_task_take base s = ret s' \<Longrightarrow>
    app_step use_lwip keeps ctx base s
      (case ptr_items (ready_packet_buffer_queue s) of [] \<Rightarrow> [] | p # _ \<Rightarrow> [Input (frame_at base s p)]) s'"
| netif_output: "use_lwip \<Longrightarrow> \<not> waiting Ip_task s \<Longrightarrow> ip_pc s \<noteq> Ip_wait \<Longrightarrow> enc28_netif_output base frame s = ret s' \<Longrightarrow>
    app_step use_lwip keeps ctx base s
      (if ptr_items (free_packet_buffer_queue s) = [] then [Dropped frame] else [Output frame]) s'"
| pbuf_free: "use_lwip \<Longrightarrow> \<not> waiting Ip_task s \<Longrightarrow> ip_pc s \<noteq> Ip_wait \<Longrightarrow> 0 < held s \<Longrightarrow> enc28_pbuf_free s = ret s' \<Longrightarrow>
    app_step use_lwip keeps ctx base s [] s'"
| input_returns: "use_lwip \<Longrightarrow> \<not> waiting Ip_task s \<Longrightarrow> ip_pc s = Ip_input \<Longrightarrow> keeps \<or> held s = 0 \<Longrightarrow>
    app_step use_lwip keeps ctx base s [] (s\<lparr>ip_pc := Ip_timeouts\<rparr>)"
| loop_again: "use_lwip \<Longrightarrow> \<not> waiting Ip_task s \<Longrightarrow> ip_pc s = Ip_timeouts \<Longrightarrow>
    app_step use_lwip keeps ctx base s [] (s\<lparr>ip_pc := Ip_wait\<rparr>)"

inductive app_run ::
  "bool \<Rightarrow> bool \<Rightarrow> 'w ENC28_SPI_Context \<Rightarrow> u32 \<Rightarrow> 'w app \<Rightarrow> app_event list \<Rightarrow> 'w app \<Rightarrow> bool"
  for use_lwip keeps :: bool and ctx :: "'w ENC28_SPI_Context" and base :: u32 and s0 :: "'w app"
where
  start: "app_run use_lwip keeps ctx base s0 [] s0"
| step: "app_run use_lwip keeps ctx base s0 es s \<Longrightarrow> app_step use_lwip keeps ctx base s es' s' \<Longrightarrow>
    app_run use_lwip keeps ctx base s0 (es @ es') s'"

section \<open>Starting\<close>

text \<open>
  The entry point up to the start of the scheduler. \<open>sts\<close> are the results of the two task creations; \<open>mems\<close> and \<open>qs\<close> the
  static memory of the queues, \<open>stack\<close> and \<open>vec\<close> the packet task's uninitialised variables. A failed \<^verbatim>\<open>ASSERT_STATUS\<close>
  loops for ever. The output of text is left out.
\<close>

definition ASSERT_STATUS :: "(ENC28_CommandStatus, 'w) cmd \<Rightarrow> ('a, 'w) cmd \<Rightarrow> ('a, 'w) cmd" where
  "ASSERT_STATUS m k = bindM m (\<lambda>status. if status \<noteq> ENC28_OK then (\<lambda>_. None) else k)"

definition app_mac :: ENC28_MAC_Address where
  "app_mac = \<lparr>addr0 = MAC_ADDR_BYTE_0, addr1 = MAC_ADDR_BYTE_1, addr2 = MAC_ADDR_BYTE_2, addr3 = MAC_ADDR_BYTE_3,
     addr4 = MAC_ADDR_BYTE_4, addr5 = MAC_ADDR_BYTE_5\<rparr>"

definition packet_queue :: "u8 list \<Rightarrow> app_task Queue_t \<Rightarrow> app_task Queue_t option" where
  "packet_queue mem q = xQueueGenericCreateStatic (of_nat MAX_ETH_PACKETS) 4 (Some mem) (Some q)"

definition app_chip_start :: "'w ENC28_SPI_Context \<Rightarrow> (unit, 'w) cmd" where
  "app_chip_start ctx =
     bindM (call_nss ctx 1) (\<lambda>_.
     ASSERT_STATUS (enc28_do_soft_reset (Some ctx)) (
     ASSERT_STATUS (enc28_do_init app_mac (Some ctx)) (
     ASSERT_STATUS (bindM (enc28_do_read_hw_rev (Some ctx) (Some \<lparr>phid1 = 0, phid2 = 0, ethrev = 0\<rparr>)) (\<lambda>(st, _). returnM st)) (
     ASSERT_STATUS (enc28_begin_packet_transfer (Some ctx)) (
     returnM ())))))"

definition enc28_test_app ::
  "'w ENC28_SPI_Context \<Rightarrow> bool \<times> bool \<Rightarrow> u8 list \<times> u8 list \<times> u8 list
   \<Rightarrow> app_task Queue_t \<times> app_task Queue_t \<times> app_task Queue_t \<Rightarrow> u8 list \<Rightarrow> ENC28_Receive_Status_Vector
   \<Rightarrow> 'w enc28_drv \<Rightarrow> 'w app outcome option" where
  "enc28_test_app ctx sts mems qs stack vec d =
     after (app_chip_start ctx d) (\<lambda>(_, d).
     if \<not> fst sts then None
     else if \<not> snd sts then None
     else case (packet_queue (fst mems) (fst qs), packet_queue (fst (snd mems)) (fst (snd qs)),
                packet_queue (snd (snd mems)) (snd (snd qs))) of
       (Some free_q, Some ready_q, Some transmit_q) \<Rightarrow>
         ret \<lparr>drv = d, free_packet_buffer_queue = free_q, ready_packet_buffer_queue = ready_q,
              transmit_packet_queue = transmit_q,
              eth_packets = replicate MAX_ETH_PACKETS \<lparr>pkt_data = replicate MAX_ETH_PACKET_SIZE 0, used_bytes = 0\<rparr>,
              pkt_buf = stack, status_vec = vec, packet_pc = Packet_fill, ip_pc = Ip_wait, pbuf_ptr = 0, held = 0\<rparr>
     | _ \<Rightarrow> None)"

end
