(* ===== verification/App_Invariant.thy ===== *)
theory App_Invariant
  imports App_Tasks Enc28_Receive
begin

text \<open>
  The invariant of the two tasks when the IP stack frees every packet before its input function returns: the eight
  buffers are at any moment divided among the three queues, the packet task and the IP stack, none is lost and none is in two
  places. From it follow that no queue overflows, that nothing is read or written outside a buffer, and who can wait for what.
\<close>

section \<open>Pointers to buffers\<close>

definition base_ok :: "u32 \<Rightarrow> bool" where
  "base_ok base \<longleftrightarrow> base \<noteq> 0 \<and> unat base + MAX_ETH_PACKETS * sizeof_eth_packet_buff \<le> 2 ^ 32"

definition all_packets :: "u32 \<Rightarrow> u32 list" where
  "all_packets base = map (packet_ptr base) [0..<MAX_ETH_PACKETS]"

lemma unat_packet_ptr:
  assumes "base_ok base" "i < 8"
  shows "unat (packet_ptr base i) = unat base + i * 1602"
proof -
  have small: "i * 1602 < 2 ^ 32" using assms(2) by simp
  have off: "unat (of_nat (i * 1602) :: u32) = i * 1602"
    using small by (simp add: unsigned_of_nat take_bit_nat_eq_self del: of_nat_mult)
  have "unat base + i * 1602 < 2 ^ 32" using assms by (simp add: base_ok_def)
  then show ?thesis unfolding packet_ptr_def by (simp add: unat_word_ariths(1) off del: of_nat_mult)
qed

lemma packet_ptr_inj: "base_ok base \<Longrightarrow> i < 8 \<Longrightarrow> j < 8 \<Longrightarrow> packet_ptr base i = packet_ptr base j \<longleftrightarrow> i = j"
  by (metis unat_packet_ptr add_left_cancel mult_right_cancel zero_neq_numeral)

lemma packet_ptr_not_null: "base_ok base \<Longrightarrow> i < 8 \<Longrightarrow> packet_ptr base i \<noteq> 0"
  using unat_packet_ptr [of base i] by (auto simp: base_ok_def unat_eq_zero)

lemma packet_at_ptr [simp]:
  assumes "base_ok base" "i < 8"
  shows "packet_at base (packet_ptr base i) = Some i"
  unfolding packet_at_def find_Some_iff using assms
  by (intro exI [of _ i]) (simp add: packet_ptr_inj)

lemma all_packets_iff: "p \<in> set (all_packets base) \<longleftrightarrow> (\<exists>i < 8. p = packet_ptr base i)"
  by (auto simp: all_packets_def)

lemma distinct_all_packets: "base_ok base \<Longrightarrow> distinct (all_packets base)"
  by (auto simp: all_packets_def distinct_map inj_on_def packet_ptr_inj)

lemma length_all_packets [simp]: "length (all_packets base) = 8"
  by (simp add: all_packets_def)

section \<open>The queues of the application\<close>

definition fifo_ok :: "app_task Queue_t \<Rightarrow> bool" where
  "fifo_ok q \<longleftrightarrow> ptr_queue_ok q \<and> queue_length q = 8 \<and> xTasksWaitingToSend q = [] \<and>
     (xTasksWaitingToReceive q = [] \<or> (\<exists>t. xTasksWaitingToReceive q = [t]) \<and> ptr_items q = [])"

lemma fifo_ok_one_waits: "fifo_ok q \<longleftrightarrow> ptr_fifo.one_waits q \<and> queue_length q = 8"
  unfolding fifo_ok_def ptr_fifo.one_waits_def by auto

lemma fifo_put:
  assumes "fifo_ok q" "length (ptr_items q) < 8"
  obtains q' where "ptr_put task_prio self p q = Some (xTasksWaitingToReceive q, q')" "fifo_ok q'"
    "ptr_items q' = ptr_items q @ [p]" "xTasksWaitingToReceive q' = []"
proof -
  have one: "ptr_fifo.one_waits q" and len: "queue_length q = 8" using assms(1) by (simp_all add: fifo_ok_one_waits)
  have room: "length (ptr_items q) < queue_length q" using assms(2) len by simp
  show ?thesis
    by (rule ptr_fifo.put_one_waits [OF one room, of task_prio self p])
      (use that len in \<open>auto simp: fifo_ok_one_waits\<close>)
qed

lemma fifo_get:
  assumes "fifo_ok q" "ptr_items q = p # ps"
  obtains q' where "ptr_get task_prio self q = Some (p, [], q')" "fifo_ok q'" "ptr_items q' = ps"
    "xTasksWaitingToReceive q' = []"
proof -
  have one: "ptr_fifo.one_waits q" and len: "queue_length q = 8" using assms(1) by (simp_all add: fifo_ok_one_waits)
  show ?thesis
    by (rule ptr_fifo.get_one_waits [OF one assms(2), of task_prio self])
      (use that len in \<open>auto simp: fifo_ok_one_waits\<close>)
qed

lemma fifo_wait:
  assumes "fifo_ok q" "ptr_items q = []" "xTasksWaitingToReceive q = []"
  shows "fifo_ok (ptr_wait task_prio t q)" "ptr_items (ptr_wait task_prio t q) = []"
    "xTasksWaitingToReceive (ptr_wait task_prio t q) = [t]"
  using ptr_fifo.wait_one_waits [of q task_prio t] assms by (auto simp: fifo_ok_one_waits)

lemma fifo_writers: "fifo_ok q \<Longrightarrow> xTasksWaitingToSend q = []"
  by (simp add: fifo_ok_def)

lemma fifo_waiting_empty: "fifo_ok q \<Longrightarrow> xTasksWaitingToReceive q \<noteq> [] \<Longrightarrow> ptr_items q = []"
  by (auto simp: fifo_ok_def)

section \<open>The invariant\<close>

text \<open>The buffer the packet task has in hand, those the IP stack holds, and all places a buffer can be.\<close>

definition publishing :: "'w app \<Rightarrow> u32 list" where
  "publishing s = (case packet_pc s of Packet_publish p \<Rightarrow> [p] | _ \<Rightarrow> [])"

definition holding :: "'w app \<Rightarrow> u32 list" where
  "holding s = replicate (held s) (pbuf_ptr s)"

definition loaded :: "'w app \<Rightarrow> u32 list" where
  "loaded s = ptr_items (ready_packet_buffer_queue s) @ publishing s @ ptr_items (transmit_packet_queue s) @ holding s"

definition owned :: "'w app \<Rightarrow> u32 list" where
  "owned s = ptr_items (free_packet_buffer_queue s) @ loaded s"

definition fits :: "u32 \<Rightarrow> 'w app \<Rightarrow> u32 \<Rightarrow> bool" where
  "fits base s p \<longleftrightarrow> (\<forall>i. packet_at base p = Some i \<longrightarrow> unat (used_bytes (eth_packets s ! i)) \<le> MAX_ETH_PACKET_SIZE)"

definition queues_inv :: "'w app \<Rightarrow> bool" where
  "queues_inv s \<longleftrightarrow>
     fifo_ok (free_packet_buffer_queue s) \<and> fifo_ok (ready_packet_buffer_queue s) \<and> fifo_ok (transmit_packet_queue s) \<and>
     (xTasksWaitingToReceive (free_packet_buffer_queue s) = [] \<or>
      xTasksWaitingToReceive (free_packet_buffer_queue s) = [Packet_task] \<and> packet_pc s = Packet_store) \<and>
     (xTasksWaitingToReceive (ready_packet_buffer_queue s) = [] \<or>
      xTasksWaitingToReceive (ready_packet_buffer_queue s) = [Ip_task] \<and> ip_pc s = Ip_wait) \<and>
     xTasksWaitingToReceive (transmit_packet_queue s) = []"

definition memory_inv :: "u32 \<Rightarrow> 'w app \<Rightarrow> bool" where
  "memory_inv base s \<longleftrightarrow>
     base_ok base \<and> length (eth_packets s) = MAX_ETH_PACKETS \<and>
     (\<forall>pkt \<in> set (eth_packets s). length (pkt_data pkt) = MAX_ETH_PACKET_SIZE) \<and>
     length (pkt_buf s) = MAX_ETH_PACKET_SIZE \<and>
     (packet_pc s = Packet_store \<longrightarrow> unat (rsv_packet_len (status_vec s)) \<le> MAX_ETH_PACKET_SIZE) \<and>
     (\<forall>p \<in> set (loaded s). fits base s p)"

definition owner_inv :: "u32 \<Rightarrow> 'w app \<Rightarrow> bool" where
  "owner_inv base s \<longleftrightarrow>
     mset (owned s) = (if packet_pc s = Packet_fill then {#} else mset (all_packets base)) \<and>
     held s \<le> 1"

definition app_inv :: "u32 \<Rightarrow> 'w app \<Rightarrow> bool" where
  "app_inv base s \<longleftrightarrow> queues_inv s \<and> memory_inv base s \<and> owner_inv base s"

lemma app_invD:
  assumes "app_inv base s"
  shows "queues_inv s" "memory_inv base s" "owner_inv base s" "base_ok base"
    "fifo_ok (free_packet_buffer_queue s)" "fifo_ok (ready_packet_buffer_queue s)" "fifo_ok (transmit_packet_queue s)"
    "length (eth_packets s) = MAX_ETH_PACKETS" "length (pkt_buf s) = MAX_ETH_PACKET_SIZE"
    "\<And>i. i < 8 \<Longrightarrow> length (pkt_data (eth_packets s ! i)) = MAX_ETH_PACKET_SIZE"
    "\<And>p. p \<in> set (loaded s) \<Longrightarrow> fits base s p"
  using assms by (auto simp: app_inv_def queues_inv_def memory_inv_def)

lemma owned_places:
  assumes "app_inv base s" "packet_pc s \<noteq> Packet_fill"
  shows "mset (owned s) = mset (all_packets base)" "distinct (owned s)" "length (owned s) = 8"
    "\<And>p. p \<in> set (owned s) \<Longrightarrow> \<exists>i < 8. p = packet_ptr base i"
proof -
  show m: "mset (owned s) = mset (all_packets base)" using assms by (simp add: app_inv_def owner_inv_def)
  show "distinct (owned s)" using mset_eq_imp_distinct_iff [OF m] distinct_all_packets app_invD(4) [OF assms(1)] by blast
  show "length (owned s) = 8" using mset_eq_length [OF m] by simp
  show "\<exists>i < 8. p = packet_ptr base i" if "p \<in> set (owned s)" for p
    using that mset_eq_setD [OF m] all_packets_iff by blast
qed

lemma owned_fill: "app_inv base s \<Longrightarrow> packet_pc s = Packet_fill \<Longrightarrow> owned s = []"
  by (simp add: app_inv_def owner_inv_def)

text \<open>A pointer that is in some place is the address of a buffer.\<close>

lemma owned_ptr:
  assumes "app_inv base s" "p \<in> set (owned s)"
  obtains i where "i < 8" "p = packet_ptr base i" "packet_at base p = Some i" "p \<noteq> 0"
proof -
  have "packet_pc s \<noteq> Packet_fill" using owned_fill [OF assms(1)] assms(2) by auto
  from owned_places(4) [OF assms(1) this assms(2)] obtain i where "i < 8" "p = packet_ptr base i" by blast
  then show ?thesis using that packet_ptr_not_null app_invD(4) [OF assms(1)] by simp
qed

lemma free_member: "p \<in> set (ptr_items (free_packet_buffer_queue s)) \<Longrightarrow> p \<in> set (owned s)"
  and ready_member: "p \<in> set (ptr_items (ready_packet_buffer_queue s)) \<Longrightarrow> p \<in> set (owned s)"
  and transmit_member: "p \<in> set (ptr_items (transmit_packet_queue s)) \<Longrightarrow> p \<in> set (owned s)"
  by (simp_all add: owned_def loaded_def)

text \<open>The fields of the state that the places depend on.\<close>

lemma place_upd [simp]:
  "publishing (s\<lparr>free_packet_buffer_queue := q\<rparr>) = publishing s" "publishing (s\<lparr>ready_packet_buffer_queue := q\<rparr>) = publishing s"
  "publishing (s\<lparr>transmit_packet_queue := q\<rparr>) = publishing s" "publishing (s\<lparr>eth_packets := ps\<rparr>) = publishing s"
  "publishing (s\<lparr>drv := d\<rparr>) = publishing s" "publishing (s\<lparr>pkt_buf := b\<rparr>) = publishing s"
  "publishing (s\<lparr>status_vec := v\<rparr>) = publishing s" "publishing (s\<lparr>ip_pc := pc\<rparr>) = publishing s"
  "publishing (s\<lparr>pbuf_ptr := p\<rparr>) = publishing s" "publishing (s\<lparr>held := n\<rparr>) = publishing s"
  "holding (s\<lparr>free_packet_buffer_queue := q\<rparr>) = holding s" "holding (s\<lparr>ready_packet_buffer_queue := q\<rparr>) = holding s"
  "holding (s\<lparr>transmit_packet_queue := q\<rparr>) = holding s" "holding (s\<lparr>eth_packets := ps\<rparr>) = holding s"
  "holding (s\<lparr>drv := d\<rparr>) = holding s" "holding (s\<lparr>pkt_buf := b\<rparr>) = holding s"
  "holding (s\<lparr>status_vec := v\<rparr>) = holding s" "holding (s\<lparr>ip_pc := pc\<rparr>) = holding s"
  "holding (s\<lparr>packet_pc := ppc\<rparr>) = holding s"
  "publishing (s\<lparr>packet_pc := ppc\<rparr>) = (case ppc of Packet_publish p \<Rightarrow> [p] | _ \<Rightarrow> [])"
  by (simp_all add: publishing_def holding_def)

lemma fits_upd [simp]:
  "fits base (s\<lparr>free_packet_buffer_queue := q\<rparr>) p = fits base s p" "fits base (s\<lparr>ready_packet_buffer_queue := q\<rparr>) p = fits base s p"
  "fits base (s\<lparr>transmit_packet_queue := q\<rparr>) p = fits base s p" "fits base (s\<lparr>packet_pc := ppc\<rparr>) p = fits base s p"
  "fits base (s\<lparr>drv := d\<rparr>) p = fits base s p" "fits base (s\<lparr>pkt_buf := b\<rparr>) p = fits base s p"
  "fits base (s\<lparr>status_vec := v\<rparr>) p = fits base s p" "fits base (s\<lparr>ip_pc := pc\<rparr>) p = fits base s p"
  "fits base (s\<lparr>pbuf_ptr := p'\<rparr>) p = fits base s p" "fits base (s\<lparr>held := n\<rparr>) p = fits base s p"
  by (simp_all add: fits_def)

lemma frame_at_upd [simp]:
  "frame_at base (s\<lparr>free_packet_buffer_queue := q\<rparr>) = frame_at base s" "frame_at base (s\<lparr>ready_packet_buffer_queue := q\<rparr>) = frame_at base s"
  "frame_at base (s\<lparr>transmit_packet_queue := q\<rparr>) = frame_at base s" "frame_at base (s\<lparr>packet_pc := ppc\<rparr>) = frame_at base s"
  "frame_at base (s\<lparr>drv := d\<rparr>) = frame_at base s" "frame_at base (s\<lparr>pkt_buf := b\<rparr>) = frame_at base s"
  "frame_at base (s\<lparr>status_vec := v\<rparr>) = frame_at base s" "frame_at base (s\<lparr>ip_pc := pc\<rparr>) = frame_at base s"
  "frame_at base (s\<lparr>pbuf_ptr := p'\<rparr>) = frame_at base s" "frame_at base (s\<lparr>held := n\<rparr>) = frame_at base s"
  by (simp_all add: frame_at_def fun_eq_iff cong: option.case_cong)

text \<open>Writing one buffer leaves what the pointers to the others point to.\<close>

lemma other_packet:
  assumes "base_ok base" "i < 8" "p \<noteq> packet_ptr base i" "length (eth_packets s) = 8"
  shows "frame_at base (s\<lparr>eth_packets := (eth_packets s)[i := pkt]\<rparr>) p = frame_at base s p"
    "fits base (s\<lparr>eth_packets := (eth_packets s)[i := pkt]\<rparr>) p = fits base s p"
proof -
  have "packet_at base p \<noteq> Some i"
    using assms(3) by (auto simp: packet_at_def find_Some_iff)
  then show "frame_at base (s\<lparr>eth_packets := (eth_packets s)[i := pkt]\<rparr>) p = frame_at base s p"
    "fits base (s\<lparr>eth_packets := (eth_packets s)[i := pkt]\<rparr>) p = fits base s p"
    by (auto simp: frame_at_def fits_def split: option.split)
qed

lemma this_packet:
  assumes "base_ok base" "i < 8" "length (eth_packets s) = 8"
  shows "frame_at base (s\<lparr>eth_packets := (eth_packets s)[i := pkt]\<rparr>) (packet_ptr base i) = packet_frame pkt"
    "fits base (s\<lparr>eth_packets := (eth_packets s)[i := pkt]\<rparr>) (packet_ptr base i) \<longleftrightarrow> unat (used_bytes pkt) \<le> MAX_ETH_PACKET_SIZE"
  using assms by (simp_all add: frame_at_def fits_def)

section \<open>What each step does\<close>

text \<open>
  On a state that satisfies the invariant each operation has one of a few explicit results.
\<close>

lemma store_result:
  assumes inv: "app_inv base s" and pc: "packet_pc s = Packet_store" and run: "packet_task_store base s = ret s'"
    and awake: "xTasksWaitingToReceive (free_packet_buffer_queue s) = []"
  obtains (wait) q where "ptr_items (free_packet_buffer_queue s) = []" "s' = s\<lparr>free_packet_buffer_queue := q\<rparr>"
      "fifo_ok q" "ptr_items q = []" "xTasksWaitingToReceive q = [Packet_task]"
  | (store) i ps q where "ptr_items (free_packet_buffer_queue s) = packet_ptr base i # ps" "i < 8"
      "s' = s\<lparr>free_packet_buffer_queue := q,
              eth_packets := (eth_packets s)[i :=
                \<lparr>pkt_data = take (unat (rsv_packet_len (status_vec s))) (pkt_buf s) @
                            drop (unat (rsv_packet_len (status_vec s))) (pkt_data (eth_packets s ! i)),
                 used_bytes = rsv_packet_len (status_vec s)\<rparr>],
              packet_pc := Packet_publish (packet_ptr base i)\<rparr>"
      "fifo_ok q" "ptr_items q = ps" "xTasksWaitingToReceive q = []"
proof (cases "ptr_items (free_packet_buffer_queue s)")
  case Nil
  have "ptr_get task_prio Packet_task (free_packet_buffer_queue s) = None" using Nil by (rule ptr_get_empty)
  then have "s' = s\<lparr>free_packet_buffer_queue := ptr_wait task_prio Packet_task (free_packet_buffer_queue s)\<rparr>"
    using run by (simp add: packet_task_store_def)
  then show ?thesis using wait [OF Nil] fifo_wait [OF app_invD(5) [OF inv] Nil awake, of Packet_task] by blast
next
  case (Cons p ps)
  obtain i where i: "i < 8" "p = packet_ptr base i" "packet_at base p = Some i" "p \<noteq> 0"
    by (rule owned_ptr [OF inv, of p]) (use Cons in \<open>auto simp: owned_def\<close>)
  obtain q where q: "ptr_get task_prio Packet_task (free_packet_buffer_queue s) = Some (p, [], q)" "fifo_ok q"
    "ptr_items q = ps" "xTasksWaitingToReceive q = []"
    by (rule fifo_get [OF app_invD(5) [OF inv] Cons])
  have "unat (rsv_packet_len (status_vec s)) \<le> MAX_ETH_PACKET_SIZE"
    using inv pc by (simp add: app_inv_def memory_inv_def)
  then show ?thesis
    using store [OF _ i(1) _ q(2-4)] run q(1) i Cons app_invD(9) [OF inv]
    by (simp add: packet_task_store_def Let_def deref_packet_def)
qed

lemma publish_result:
  assumes inv: "app_inv base s" and pc: "packet_pc s = Packet_publish p" and run: "packet_task_publish p s = ret s'"
  obtains q where "s' = s\<lparr>ready_packet_buffer_queue := q, packet_pc := Packet_read\<rparr>" "fifo_ok q"
    "ptr_items q = ptr_items (ready_packet_buffer_queue s) @ [p]" "xTasksWaitingToReceive q = []"
proof -
  have "length (ptr_items (ready_packet_buffer_queue s)) < 8"
    using owned_places(3) [OF inv] pc by (simp add: owned_def loaded_def publishing_def)
  from fifo_put [OF app_invD(6) [OF inv] this, of Packet_task p] obtain q where
    "ptr_put task_prio Packet_task p (ready_packet_buffer_queue s) =
        Some (xTasksWaitingToReceive (ready_packet_buffer_queue s), q)"
    "fifo_ok q" "ptr_items q = ptr_items (ready_packet_buffer_queue s) @ [p]" "xTasksWaitingToReceive q = []" .
  moreover from this(1) have "s' = s\<lparr>ready_packet_buffer_queue := q, packet_pc := Packet_read\<rparr>"
    using run by (simp add: packet_task_publish_def)
  ultimately show ?thesis using that by blast
qed

lemma put_ignored_result:
  assumes "fifo_ok q" "length (ptr_items q) < 8"
  shows "fifo_ok (put_ignored self p q)" "ptr_items (put_ignored self p q) = ptr_items q @ [p]"
    "xTasksWaitingToReceive (put_ignored self p q) = []"
  by (rule fifo_put [OF assms, of self p]; simp add: put_ignored_def)+

lemma transmit_result:
  assumes inv: "app_inv base s" and pc: "packet_pc s = Packet_transmit" and run: "packet_task_transmit ctx base s = ret s'"
  obtains (idle) "ptr_items (transmit_packet_queue s) = []" "s' = s\<lparr>packet_pc := Packet_sleep\<rparr>"
  | (sent) i ps d q fq where "ptr_items (transmit_packet_queue s) = packet_ptr base i # ps" "i < 8"
      "enc28_write_packet (Some ctx) (Some (pkt_data (eth_packets s ! i))) (used_bytes (eth_packets s ! i)) (drv s)
         = ret (ENC28_OK, d)"
      "s' = s\<lparr>drv := d, transmit_packet_queue := q, free_packet_buffer_queue := fq, packet_pc := Packet_sleep\<rparr>"
      "fifo_ok q" "ptr_items q = ps" "xTasksWaitingToReceive q = []"
      "fifo_ok fq" "ptr_items fq = ptr_items (free_packet_buffer_queue s) @ [packet_ptr base i]"
      "xTasksWaitingToReceive fq = []"
proof (cases "ptr_items (transmit_packet_queue s)")
  case Nil
  then show ?thesis using idle run by (simp add: packet_task_transmit_def ptr_get_empty)
next
  case (Cons p ps)
  obtain i where i: "i < 8" "p = packet_ptr base i" "packet_at base p = Some i"
    by (rule owned_ptr [OF inv, of p]) (use Cons in \<open>auto simp: owned_def loaded_def\<close>)
  obtain q where q: "ptr_get task_prio Packet_task (transmit_packet_queue s) = Some (p, [], q)" "fifo_ok q"
    "ptr_items q = ps" "xTasksWaitingToReceive q = []"
    by (rule fifo_get [OF app_invD(7) [OF inv] Cons])
  have "length (ptr_items (free_packet_buffer_queue s)) < 8"
    using owned_places(3) [OF inv] pc Cons by (simp add: owned_def loaded_def)
  note fq = put_ignored_result [OF app_invD(5) [OF inv] this, of Packet_task p]
  from run q(1) i obtain d where
    w: "enc28_write_packet (Some ctx) (Some (pkt_data (eth_packets s ! i))) (used_bytes (eth_packets s ! i)) (drv s)
         = ret (ENC28_OK, d)" and
    "s' = s\<lparr>drv := d, transmit_packet_queue := q,
            free_packet_buffer_queue := put_ignored Packet_task p (free_packet_buffer_queue s), packet_pc := Packet_sleep\<rparr>"
    by (auto simp: packet_task_transmit_def deref_packet_def Let_def after_eq_Ret split: if_splits)
  then show ?thesis using sent [OF _ i(1)] Cons q fq i(2) by blast
qed

lemma take_result:
  assumes inv: "app_inv base s" and run: "ip_task_take base s = ret s'"
    and awake: "xTasksWaitingToReceive (ready_packet_buffer_queue s) = []"
  obtains (wait) q where "ptr_items (ready_packet_buffer_queue s) = []" "s' = s\<lparr>ready_packet_buffer_queue := q\<rparr>"
      "fifo_ok q" "ptr_items q = []" "xTasksWaitingToReceive q = [Ip_task]"
  | (take) p ps q where "ptr_items (ready_packet_buffer_queue s) = p # ps"
      "s' = s\<lparr>ready_packet_buffer_queue := q, pbuf_ptr := p, held := held s + 1, ip_pc := Ip_input\<rparr>"
      "fifo_ok q" "ptr_items q = ps" "xTasksWaitingToReceive q = []"
proof (cases "ptr_items (ready_packet_buffer_queue s)")
  case Nil
  have "ptr_get task_prio Ip_task (ready_packet_buffer_queue s) = None" using Nil by (rule ptr_get_empty)
  then have "s' = s\<lparr>ready_packet_buffer_queue := ptr_wait task_prio Ip_task (ready_packet_buffer_queue s)\<rparr>"
    using run by (simp add: ip_task_take_def)
  then show ?thesis using wait [OF Nil] fifo_wait [OF app_invD(6) [OF inv] Nil awake, of Ip_task] by blast
next
  case (Cons p ps)
  obtain i where i: "i < 8" "p = packet_ptr base i" "packet_at base p = Some i" "p \<noteq> 0"
    by (rule owned_ptr [OF inv, of p]) (use Cons in \<open>auto simp: owned_def loaded_def\<close>)
  obtain q where q: "ptr_get task_prio Ip_task (ready_packet_buffer_queue s) = Some (p, [], q)" "fifo_ok q"
    "ptr_items q = ps" "xTasksWaitingToReceive q = []"
    by (rule fifo_get [OF app_invD(6) [OF inv] Cons])
  then show ?thesis
    using take [OF Cons _ q(2-4)] run i by (simp add: ip_task_take_def deref_packet_def)
qed

lemma output_result:
  assumes inv: "app_inv base s" and run: "enc28_netif_output base frame s = ret s'"
  obtains (drop) "ptr_items (free_packet_buffer_queue s) = []" "s' = s"
  | (sent) i ps q tq where "ptr_items (free_packet_buffer_queue s) = packet_ptr base i # ps" "i < 8" "length frame \<le> MAX_ETH_PACKET_SIZE"
      "s' = s\<lparr>free_packet_buffer_queue := q,
              eth_packets := (eth_packets s)[i :=
                 \<lparr>pkt_data = frame @ drop (length frame) (pkt_data (eth_packets s ! i)), used_bytes = of_nat (length frame)\<rparr>],
              transmit_packet_queue := tq\<rparr>"
      "fifo_ok q" "ptr_items q = ps" "xTasksWaitingToReceive q = []"
      "fifo_ok tq" "ptr_items tq = ptr_items (transmit_packet_queue s) @ [packet_ptr base i]" "xTasksWaitingToReceive tq = []"
proof (cases "ptr_items (free_packet_buffer_queue s)")
  case Nil
  then show ?thesis using drop run by (simp add: enc28_netif_output_def ptr_get_empty)
next
  case (Cons p ps)
  then have mem: "p \<in> set (owned s)" by (simp add: owned_def)
  obtain i where i: "i < 8" "p = packet_ptr base i" "packet_at base p = Some i"
    by (rule owned_ptr [OF inv mem])
  have pc: "packet_pc s \<noteq> Packet_fill" using owned_fill [OF inv] mem by auto
  obtain q where q: "ptr_get task_prio Ip_task (free_packet_buffer_queue s) = Some (p, [], q)" "fifo_ok q"
    "ptr_items q = ps" "xTasksWaitingToReceive q = []"
    by (rule fifo_get [OF app_invD(5) [OF inv] Cons])
  have "length (ptr_items (transmit_packet_queue s)) < 8"
    using owned_places(3) [OF inv pc] Cons by (simp add: owned_def loaded_def)
  note tq = put_ignored_result [OF app_invD(7) [OF inv] this, of Ip_task p]
  from run q(1) i have "length frame \<le> MAX_ETH_PACKET_SIZE" and
    "s' = s\<lparr>free_packet_buffer_queue := q,
            eth_packets := (eth_packets s)[i :=
               \<lparr>pkt_data = frame @ drop (length frame) (pkt_data (eth_packets s ! i)), used_bytes = of_nat (length frame)\<rparr>],
            transmit_packet_queue := put_ignored Ip_task p (transmit_packet_queue s)\<rparr>"
    by (auto simp: enc28_netif_output_def deref_packet_def split: if_splits)
  then show ?thesis using sent [OF _ i(1)] Cons q tq i(2) by blast
qed

lemma pbuf_free_result:
  assumes inv: "app_inv base s" and "0 < held s" and run: "enc28_pbuf_free s = ret s'"
  obtains q where "s' = s\<lparr>free_packet_buffer_queue := q, held := held s - 1\<rparr>" "fifo_ok q"
    "ptr_items q = ptr_items (free_packet_buffer_queue s) @ [pbuf_ptr s]" "xTasksWaitingToReceive q = []"
proof -
  have h: "holding s \<noteq> []" using assms(2) by (simp add: holding_def)
  then have pc: "packet_pc s \<noteq> Packet_fill" using owned_fill [OF inv] by (auto simp: owned_def loaded_def)
  have "length (ptr_items (free_packet_buffer_queue s)) + length (holding s) \<le> 8"
    using owned_places(3) [OF inv pc] by (simp add: owned_def loaded_def)
  with h have "length (ptr_items (free_packet_buffer_queue s)) < 8" by (cases "holding s") auto
  from fifo_put [OF app_invD(5) [OF inv] this, of Ip_task "pbuf_ptr s"] obtain q where
    q: "ptr_put task_prio Ip_task (pbuf_ptr s) (free_packet_buffer_queue s) =
        Some (xTasksWaitingToReceive (free_packet_buffer_queue s), q)"
    "fifo_ok q" "ptr_items q = ptr_items (free_packet_buffer_queue s) @ [pbuf_ptr s]" "xTasksWaitingToReceive q = []" .
  have "s' = s\<lparr>free_packet_buffer_queue := q, held := held s - 1\<rparr>"
    using run q(1) by (simp add: enc28_pbuf_free_def)
  with q that show ?thesis by blast
qed

section \<open>The invariant is preserved\<close>

text \<open>The places after an update, and the parts of the invariant a step leaves alone.\<close>

lemmas place_defs = owned_def loaded_def
lemmas inv_defs = app_inv_def queues_inv_def memory_inv_def owner_inv_def

text \<open>A buffer taken from the free queue is filled and goes somewhere else.\<close>

lemma write_buffer:
  assumes inv: "app_inv base s" and i: "i < 8" and fresh: "packet_ptr base i \<notin> set (loaded s)"
    and pkt: "length (pkt_data pkt) = MAX_ETH_PACKET_SIZE" "unat (used_bytes pkt) \<le> MAX_ETH_PACKET_SIZE"
    and s': "eth_packets s' = (eth_packets s)[i := pkt]"
    and places: "set (loaded s') \<subseteq> insert (packet_ptr base i) (set (loaded s))"
  shows "\<forall>p \<in> set (loaded s'). fits base s' p"
    "length (eth_packets s') = MAX_ETH_PACKETS \<and> (\<forall>pkt \<in> set (eth_packets s'). length (pkt_data pkt) = MAX_ETH_PACKET_SIZE)"
    "\<And>p. p \<in> set (loaded s) \<Longrightarrow> frame_at base s' p = frame_at base s p"
    "frame_at base s' (packet_ptr base i) = packet_frame pkt"
proof -
  have eq: "fits base s' = fits base (s\<lparr>eth_packets := (eth_packets s)[i := pkt]\<rparr>)"
    "frame_at base s' = frame_at base (s\<lparr>eth_packets := (eth_packets s)[i := pkt]\<rparr>)"
    using s' by (simp_all add: fits_def frame_at_def fun_eq_iff split: option.split)
  note base = app_invD(4) [OF inv] and len = app_invD(8) [OF inv]
  have other: "p \<noteq> packet_ptr base i" if "p \<in> set (loaded s)" for p using fresh that by blast
  show "\<forall>p \<in> set (loaded s'). fits base s' p"
  proof
    fix p assume "p \<in> set (loaded s')"
    with places consider "p = packet_ptr base i" | "p \<in> set (loaded s)" by blast
    then show "fits base s' p"
      using this_packet(2) [OF base i len] pkt(2) other_packet(2) [OF base i other len] app_invD(11) [OF inv]
      unfolding eq by cases simp_all
  qed
  show "length (eth_packets s') = MAX_ETH_PACKETS \<and> (\<forall>pkt \<in> set (eth_packets s'). length (pkt_data pkt) = MAX_ETH_PACKET_SIZE)"
    using s' inv pkt(1) by (auto simp: app_inv_def memory_inv_def dest!: subsetD [OF set_update_subset_insert])
  show "frame_at base s' p = frame_at base s p" if "p \<in> set (loaded s)" for p
    unfolding eq by (rule other_packet(1) [OF base i other [OF that] len])
  show "frame_at base s' (packet_ptr base i) = packet_frame pkt"
    unfolding eq by (rule this_packet(1) [OF base i len])
qed

lemma free_fresh:
  assumes "app_inv base s" "ptr_items (free_packet_buffer_queue s) = p # ps"
  shows "p \<notin> set (loaded s)" "p \<notin> set ps" "packet_pc s \<noteq> Packet_fill"
proof -
  show pc: "packet_pc s \<noteq> Packet_fill" using owned_fill [OF assms(1)] assms(2) by (auto simp: owned_def)
  show "p \<notin> set (loaded s)" "p \<notin> set ps"
    using owned_places(2) [OF assms(1) pc] assms(2) by (auto simp: owned_def)
qed

lemma write_memory_inv:
  assumes inv: "app_inv base s" and i: "i < 8" and fresh: "packet_ptr base i \<notin> set (loaded s)"
    and pkt: "length (pkt_data pkt) = MAX_ETH_PACKET_SIZE" "unat (used_bytes pkt) \<le> MAX_ETH_PACKET_SIZE"
    and s': "eth_packets s' = (eth_packets s)[i := pkt]"
    and places: "set (loaded s') \<subseteq> insert (packet_ptr base i) (set (loaded s))"
    and rest: "pkt_buf s' = pkt_buf s" "status_vec s' = status_vec s"
    and pc: "packet_pc s' = Packet_store \<longrightarrow> packet_pc s = Packet_store"
  shows "memory_inv base s'"
proof -
  note W = write_buffer(1,2) [OF inv i fresh pkt s' places]
  have "packet_pc s' = Packet_store \<longrightarrow> unat (rsv_packet_len (status_vec s')) \<le> MAX_ETH_PACKET_SIZE"
    using pc rest(2) inv by (simp add: app_inv_def memory_inv_def)
  with W show ?thesis
    unfolding memory_inv_def rest(1) using app_invD(4,9) [OF inv] by simp
qed

lemma inv_store:
  assumes inv: "app_inv base s" and pc: "packet_pc s = Packet_store" and run: "packet_task_store base s = ret s'"
    and awake: "xTasksWaitingToReceive (free_packet_buffer_queue s) = []"
  shows "app_inv base s'"
  using inv pc run awake
proof (cases rule: store_result)
  case (wait q)
  have "owned s' = owned s" "loaded s' = loaded s" using wait by (simp_all add: place_defs)
  with wait inv pc show ?thesis by (simp add: inv_defs)
next
  case (store i ps q)
  let ?n = "unat (rsv_packet_len (status_vec s))"
  have n: "?n \<le> MAX_ETH_PACKET_SIZE" using inv pc by (simp add: inv_defs)
  have places: "mset (owned s') = mset (owned s)" "set (loaded s') \<subseteq> insert (packet_ptr base i) (set (loaded s))"
    using store pc by (auto simp: place_defs publishing_def)
  have "memory_inv base s'"
    by (rule write_memory_inv [OF inv store(2) free_fresh(1) [OF inv store(1)], of
          "\<lparr>pkt_data = take ?n (pkt_buf s) @ drop ?n (pkt_data (eth_packets s ! i)), used_bytes = rsv_packet_len (status_vec s)\<rparr>"])
      (use store(3) n places(2) app_invD(9) [OF inv] app_invD(10) [OF inv store(2)] in simp_all)
  show ?thesis
    unfolding app_inv_def
  proof (intro conjI)
    show "queues_inv s'" using inv store(3-6) pc by (simp add: inv_defs)
    show "memory_inv base s'" by fact
    show "owner_inv base s'" using inv store(3) pc places(1) by (simp add: inv_defs)
  qed
qed

lemma inv_publish:
  assumes inv: "app_inv base s" and pc: "packet_pc s = Packet_publish p" and run: "packet_task_publish p s = ret s'"
  shows "app_inv base s'"
  using inv pc run
proof (rule publish_result)
  fix q assume q: "s' = s\<lparr>ready_packet_buffer_queue := q, packet_pc := Packet_read\<rparr>" "fifo_ok q"
    "ptr_items q = ptr_items (ready_packet_buffer_queue s) @ [p]" "xTasksWaitingToReceive q = []"
  have "loaded s' = loaded s" using q pc by (simp add: place_defs publishing_def)
  then have "loaded s' = loaded s" "owned s' = owned s" using q by (simp_all add: owned_def)
  with q inv pc show ?thesis by (simp add: inv_defs)
qed

lemma inv_transmit:
  assumes inv: "app_inv base s" and pc: "packet_pc s = Packet_transmit" and run: "packet_task_transmit ctx base s = ret s'"
  shows "app_inv base s'"
  using inv pc run
proof (cases rule: transmit_result)
  case idle
  have "owned s' = owned s" "loaded s' = loaded s" using idle pc by (simp_all add: place_defs publishing_def)
  with idle inv pc show ?thesis by (simp add: inv_defs)
next
  case (sent i ps d q fq)
  have "mset (owned s') = mset (owned s)" "set (loaded s') \<subseteq> set (loaded s)"
    using sent pc by (auto simp: place_defs publishing_def)
  with sent inv pc show ?thesis by (auto simp: inv_defs)
qed

lemma inv_take:
  assumes inv: "app_inv base s" and run: "ip_task_take base s = ret s'" and h: "held s = 0"
    and awake: "xTasksWaitingToReceive (ready_packet_buffer_queue s) = []" and pc: "ip_pc s = Ip_wait"
  shows "app_inv base s'"
  using inv run awake
proof (cases rule: take_result)
  case (wait q)
  have "owned s' = owned s" "loaded s' = loaded s" using wait by (simp_all add: place_defs)
  with wait inv pc show ?thesis by (simp add: inv_defs)
next
  case (take p ps q)
  have "mset (owned s') = mset (owned s)" "set (loaded s') = set (loaded s)"
    using take h by (auto simp: place_defs holding_def publishing_def)
  with take inv pc h show ?thesis by (simp add: inv_defs)
qed

lemma inv_output:
  assumes inv: "app_inv base s" and run: "enc28_netif_output base frame s = ret s'"
  shows "app_inv base s'"
  using inv run
proof (cases rule: output_result)
  case drop
  with inv show ?thesis by simp
next
  case (sent i ps q tq)
  have n: "unat (of_nat (length frame) :: u16) = length frame"
    using sent(3) by (simp add: unsigned_of_nat take_bit_nat_eq_self)
  have places: "mset (owned s') = mset (owned s)" "set (loaded s') \<subseteq> insert (packet_ptr base i) (set (loaded s))"
    using sent by (auto simp: place_defs publishing_def)
  have "memory_inv base s'"
    by (rule write_memory_inv [OF inv sent(2) free_fresh(1) [OF inv sent(1)], of
          "\<lparr>pkt_data = frame @ drop (length frame) (pkt_data (eth_packets s ! i)), used_bytes = of_nat (length frame)\<rparr>"])
      (use sent(3,4) n places(2) app_invD(10) [OF inv sent(2)] in simp_all)
  show ?thesis
    unfolding app_inv_def
  proof (intro conjI)
    show "queues_inv s'" using inv sent(4-10) by (simp add: inv_defs)
    show "memory_inv base s'" by fact
    show "owner_inv base s'" using inv sent(4) places(1) by (simp add: inv_defs)
  qed
qed

lemma inv_pbuf_free:
  assumes inv: "app_inv base s" and held: "0 < held s" and run: "enc28_pbuf_free s = ret s'"
  shows "app_inv base s'"
  using inv held run
proof (rule pbuf_free_result)
  fix q assume q: "s' = s\<lparr>free_packet_buffer_queue := q, held := held s - 1\<rparr>" "fifo_ok q"
    "ptr_items q = ptr_items (free_packet_buffer_queue s) @ [pbuf_ptr s]" "xTasksWaitingToReceive q = []"
  have h: "held s = 1" using inv held by (simp add: inv_defs)
  have "mset (owned s') = mset (owned s)" "set (loaded s') \<subseteq> set (loaded s)"
    using q h by (auto simp: place_defs holding_def publishing_def)
  with q inv h show ?thesis by (auto simp: inv_defs)
qed

section \<open>What the driver promises\<close>

lemma yields_read_tail:
  assumes "unat len \<le> length buf" and "len \<le> n" and "\<And>v. vec' = Some v \<Longrightarrow> rsv_packet_len v = len"
    and "vec' = None \<longrightarrow> vec = None"
  shows "yields (\<lambda>(st, pb, vec'). (\<exists>buf'. pb = Some buf' \<and> length buf' = length buf) \<and>
      (st = ENC28_OK \<and> vec \<noteq> None \<longrightarrow> (\<exists>v. vec' = Some v \<and> rsv_packet_len v \<le> n)))
    (bindM (rbm_data_window (bus_ctx d) (Some buf) (unat len)) (\<lambda>pb.
     bindM (read_packet_release (Some (bus_ctx d)) hdr) (\<lambda>st. returnM (st, pb, vec'))))"
proof (rule yields_bindM [OF yields_rbm_data [OF assms(1)]])
  fix pb assume "\<exists>bs. length bs = unat len \<and> pb = Some (bs @ drop (unat len) buf)"
  then show "yields (\<lambda>(st, pb, vec'). (\<exists>buf'. pb = Some buf' \<and> length buf' = length buf) \<and>
      (st = ENC28_OK \<and> vec \<noteq> None \<longrightarrow> (\<exists>v. vec' = Some v \<and> rsv_packet_len v \<le> n)))
    (bindM (read_packet_release (Some (bus_ctx d)) hdr) (\<lambda>st. returnM (st, pb, vec')))"
    by (intro yields_bindM [OF yields_release]) (use assms in \<open>auto simp: yields_def returnM_def\<close>)
qed

lemma yields_not_ok:
  "st \<noteq> ENC28_OK \<Longrightarrow> yields (\<lambda>st. st \<noteq> ENC28_OK) (returnM st)"
  "yields (\<lambda>st. st \<noteq> ENC28_OK) k \<Longrightarrow> yields (\<lambda>st. st \<noteq> ENC28_OK) (then_ok m k)"
  "yields (\<lambda>st. st \<noteq> ENC28_OK) m \<Longrightarrow> (\<And>st. st \<noteq> ENC28_OK \<Longrightarrow> P (st, pb, vec)) \<Longrightarrow>
    yields P (bindM m (\<lambda>st. returnM (st, pb, vec)))"
  by (auto simp: yields_def then_ok_def bindM_eq_Ret exit_if_err_def returnM_def split: if_splits)

text \<open>A successful read reports a length that fits the buffer, and never changes the buffer's size.\<close>

lemma yields_read_fits:
  assumes "unat n \<le> length buf"
  shows "yields (\<lambda>(st, pb, vec'). (\<exists>buf'. pb = Some buf' \<and> length buf' = length buf) \<and>
      (st = ENC28_OK \<and> vec \<noteq> None \<longrightarrow> (\<exists>v. vec' = Some v \<and> rsv_packet_len v \<le> n)))
    (enc28_read_packet (Some (bus_ctx d)) (Some buf) n vec)"
  unfolding enc28_read_packet_def read_packet_pending_def body_simps packet_window_folds
  by (rule yields_read_tail | rule yields_not_ok | rule yields_intros |
    (use assms in \<open>simp add: not_less word_le_nat_alt; fail\<close>))+

lemma inv_read:
  assumes inv: "app_inv base s" and pc: "packet_pc s = Packet_read" and run: "packet_task_read (bus_ctx d) s = ret s'"
  shows "app_inv base s'"
proof -
  have room: "unat (of_nat MAX_ETH_PACKET_SIZE :: u16) \<le> length (pkt_buf s)" using app_invD(9) [OF inv] by simp
  from run obtain st pb vec dd where
    r: "enc28_read_packet (Some (bus_ctx d)) (Some (pkt_buf s)) (of_nat MAX_ETH_PACKET_SIZE) (Some (status_vec s)) (drv s)
        = ret ((st, pb, vec), dd)"
    and s': "s' = s\<lparr>drv := dd, pkt_buf := (case pb of None \<Rightarrow> pkt_buf s | Some b \<Rightarrow> b),
                status_vec := (case vec of None \<Rightarrow> status_vec s | Some v \<Rightarrow> v),
                packet_pc := if st = ENC28_OK then Packet_store else Packet_transmit\<rparr>"
    by (auto simp: packet_task_read_def after_eq_Ret)
  from yieldsD [OF yields_read_fits [OF room] r] obtain buf' where
    buf: "pb = Some buf'" "length buf' = length (pkt_buf s)"
    and len: "st = ENC28_OK \<longrightarrow> (\<exists>v. vec = Some v \<and> rsv_packet_len v \<le> of_nat MAX_ETH_PACKET_SIZE)"
    by auto
  have "owned s' = owned s" "loaded s' = loaded s" using pc s' by (simp_all add: place_defs publishing_def)
  with s' buf len inv pc show ?thesis
    by (cases "st = ENC28_OK") (auto simp: inv_defs word_le_nat_alt)
qed

section \<open>Filling the free queue\<close>

lemma fill_loop:
  assumes "fifo_ok (free_packet_buffer_queue s)" "xTasksWaitingToReceive (free_packet_buffer_queue s) = []"
    and "length (ptr_items (free_packet_buffer_queue s)) + length is \<le> 8" "length (eth_packets s) = 8"
    and "\<forall>pkt \<in> set (eth_packets s). length (pkt_data pkt) = MAX_ETH_PACKET_SIZE"
  shows "\<exists>q ps. fill_packets base is s = ret (s\<lparr>free_packet_buffer_queue := q, eth_packets := ps\<rparr>) \<and>
      fifo_ok q \<and> xTasksWaitingToReceive q = [] \<and>
      ptr_items q = ptr_items (free_packet_buffer_queue s) @ map (packet_ptr base) is \<and>
      length ps = 8 \<and> (\<forall>pkt \<in> set ps. length (pkt_data pkt) = MAX_ETH_PACKET_SIZE)"
  using assms
proof (induction "is" arbitrary: s)
  case Nil
  then show ?case by (intro exI [of _ "free_packet_buffer_queue s"] exI [of _ "eth_packets s"]) simp
next
  case (Cons i js)
  have room: "length (ptr_items (free_packet_buffer_queue s)) < 8" using Cons.prems(3) by simp
  from fifo_put [OF Cons.prems(1) this, of Packet_task "packet_ptr base i"] Cons.prems(2) obtain q where
    q: "ptr_put task_prio Packet_task (packet_ptr base i) (free_packet_buffer_queue s) = Some ([], q)" "fifo_ok q"
    "ptr_items q = ptr_items (free_packet_buffer_queue s) @ [packet_ptr base i]" "xTasksWaitingToReceive q = []"
    by metis
  let ?s = "s\<lparr>free_packet_buffer_queue := q,
      eth_packets := (eth_packets s)[i := \<lparr>pkt_data = replicate MAX_ETH_PACKET_SIZE 0xFF, used_bytes = 0xFFFF\<rparr>]\<rparr>"
  have "\<forall>pkt \<in> set (eth_packets ?s). length (pkt_data pkt) = MAX_ETH_PACKET_SIZE"
    using Cons.prems(5) by (auto dest!: subsetD [OF set_update_subset_insert])
  with Cons.IH [of ?s] q Cons.prems show ?case by auto
qed

lemma inv_fill:
  assumes inv: "app_inv base s" and pc: "packet_pc s = Packet_fill" and run: "packet_task_fill base s = ret s'"
  shows "app_inv base s' \<and> ptr_items (free_packet_buffer_queue s') = all_packets base \<and> loaded s' = []"
proof -
  have empty: "ptr_items (free_packet_buffer_queue s) = []" "loaded s = []"
    using owned_fill [OF inv pc] by (simp_all add: owned_def)
  have awake: "xTasksWaitingToReceive (free_packet_buffer_queue s) = []" using inv pc by (auto simp: inv_defs)
  obtain q ps where q: "fill_packets base [0..<MAX_ETH_PACKETS] s = ret (s\<lparr>free_packet_buffer_queue := q, eth_packets := ps\<rparr>)"
    "fifo_ok q" "xTasksWaitingToReceive q = []" "ptr_items q = all_packets base" "length ps = 8"
    "\<forall>pkt \<in> set ps. length (pkt_data pkt) = MAX_ETH_PACKET_SIZE"
    using fill_loop [OF app_invD(5) [OF inv] awake, of "[0..<MAX_ETH_PACKETS]" base] inv empty
    by (auto simp: inv_defs all_packets_def)
  have s': "s' = s\<lparr>free_packet_buffer_queue := q, eth_packets := ps, packet_pc := Packet_read\<rparr>"
    using run q(1) by (simp add: packet_task_fill_def)
  then have places: "loaded s' = []" "owned s' = all_packets base"
    using empty pc q(4) by (auto simp: place_defs publishing_def)
  have "app_inv base s'" using s' q(2,3,5,6) places inv pc empty by (auto simp: inv_defs)
  with places q s' show ?thesis by simp
qed

section \<open>Answering pings\<close>

definition ping_reply :: "u8 list \<Rightarrow> u8 list" where
  "ping_reply frame = map (ping_reply_byte frame) [0..<length frame]"

definition ping_request :: "u8 list \<Rightarrow> bool" where
  "ping_request frame \<longleftrightarrow> enc28_debug_is_ping_request frame (of_nat (length frame)) = 1"

lemma ping_request_frame:
  assumes "unat (used_bytes pkt) \<le> length (pkt_data pkt)"
  shows "ping_request (packet_frame pkt) \<longleftrightarrow> enc28_debug_is_ping_request (pkt_data pkt) (used_bytes pkt) \<noteq> 0"
  using assms by (auto simp: ping_request_def packet_frame_def is_ping_request_cases min_absorb2)

lemma handle_ping_frame:
  assumes ping: "enc28_debug_is_ping_request pkt n \<noteq> 0" and n: "unat n \<le> length pkt" "unat n \<le> length resp"
  obtains r where "enc28_debug_handle_ping pkt n resp n = (0, r)" "length r = length resp"
    "take (unat n) r = ping_reply (take (unat n) pkt)"
proof -
  have one: "enc28_debug_is_ping_request pkt n = 1" and n42: "42 \<le> unat n"
    using ping by (auto simp: is_ping_request_cases split: if_splits)
  from handle_ping_reply [OF one n] obtain r where run: "enc28_debug_handle_ping pkt n resp n = (0, r)"
    and len: "length r = length resp" and r: "\<forall>i. r ! i = (if i < unat n then ping_reply_byte pkt i else resp ! i)"
    by blast
  have "take (unat n) r ! i = ping_reply (take (unat n) pkt) ! i" if i: "i < unat n" for i
    using i n n42 r by (simp add: ping_reply_def) (simp add: ping_reply_byte_def le16_def)
  then have "take (unat n) r = ping_reply (take (unat n) pkt)"
    using n len by (intro nth_equalityI) (simp_all add: ping_reply_def)
  with run len that show ?thesis by blast
qed

lemma ip_task_reply_result:
  assumes inv: "app_inv base s" and i: "i < 8" "packet_ptr base i \<in> set (loaded s)" "packet_at base (packet_ptr base i) = Some i"
    and ping: "enc28_debug_is_ping_request (pkt_data (eth_packets s ! i)) (used_bytes (eth_packets s ! i)) \<noteq> 0"
    and r: "ptr_items (free_packet_buffer_queue s) = r # js"
    and answer: "ip_task_reply base i (s\<lparr>ready_packet_buffer_queue := q\<rparr>) = ret s1"
  obtains j fq resp where "j < 8" "r = packet_ptr base j" "fifo_ok fq" "ptr_items fq = js" "xTasksWaitingToReceive fq = []"
    "length (pkt_data resp) = MAX_ETH_PACKET_SIZE" "unat (used_bytes resp) \<le> MAX_ETH_PACKET_SIZE"
    "packet_frame resp = ping_reply (packet_frame (eth_packets s ! i))"
    "s1 = s\<lparr>ready_packet_buffer_queue := q, free_packet_buffer_queue := fq, eth_packets := (eth_packets s)[j := resp],
        transmit_packet_queue := put_ignored Ip_task r (transmit_packet_queue s)\<rparr>"
proof -
  let ?pkt = "eth_packets s ! i"
  obtain j where j: "j < 8" "r = packet_ptr base j" "packet_at base r = Some j"
    by (rule owned_ptr [OF inv, of r]) (use r in \<open>auto simp: owned_def\<close>)
  have ij: "j \<noteq> i" using free_fresh(1) [OF inv r] i(2) j(2) by blast
  have used: "unat (used_bytes ?pkt) \<le> MAX_ETH_PACKET_SIZE" using app_invD(11) [OF inv i(2)] i(3) by (simp add: fits_def)
  obtain fq where fq: "ptr_get task_prio Ip_task (free_packet_buffer_queue s) = Some (r, [], fq)" "fifo_ok fq"
    "ptr_items fq = js" "xTasksWaitingToReceive fq = []"
    by (rule fifo_get [OF app_invD(5) [OF inv] r])
  obtain out where out: "enc28_debug_handle_ping (pkt_data ?pkt) (used_bytes ?pkt) (pkt_data (eth_packets s ! j)) (used_bytes ?pkt) = (0, out)"
    "length out = MAX_ETH_PACKET_SIZE" "take (unat (used_bytes ?pkt)) out = ping_reply (packet_frame ?pkt)"
    using handle_ping_frame [OF ping] used app_invD(10) [OF inv i(1)] app_invD(10) [OF inv j(1)]
    by (metis packet_frame_def)
  let ?resp = "\<lparr>pkt_data = out, used_bytes = used_bytes ?pkt\<rparr>"
  have "s1 = s\<lparr>ready_packet_buffer_queue := q, free_packet_buffer_queue := fq, eth_packets := (eth_packets s)[j := ?resp],
      transmit_packet_queue := put_ignored Ip_task r (transmit_packet_queue s)\<rparr>"
    using answer ping fq(1) j(3) ij used out(1) by (simp add: ip_task_reply_def Let_def deref_packet_def)
  with that [OF j(1,2) fq(2-4), of ?resp] out used show ?thesis by (simp add: packet_frame_def)
qed

lemma ping_result:
  assumes inv: "app_inv base s" and run: "ip_task_ping base s = ret s'"
    and awake: "xTasksWaitingToReceive (ready_packet_buffer_queue s) = []"
  obtains (wait) q where "ptr_items (ready_packet_buffer_queue s) = []" "s' = s\<lparr>ready_packet_buffer_queue := q\<rparr>"
      "fifo_ok q" "ptr_items q = []" "xTasksWaitingToReceive q = [Ip_task]"
  | (silent) p ps q fq where "ptr_items (ready_packet_buffer_queue s) = p # ps"
      "s' = s\<lparr>ready_packet_buffer_queue := q, free_packet_buffer_queue := fq\<rparr>"
      "fifo_ok q" "ptr_items q = ps" "xTasksWaitingToReceive q = []"
      "fifo_ok fq" "ptr_items fq = ptr_items (free_packet_buffer_queue s) @ [p]" "xTasksWaitingToReceive fq = []"
      "\<not> ping_request (frame_at base s p) \<or> ptr_items (free_packet_buffer_queue s) = []"
  | (reply) p ps q j js fq tq resp where "ptr_items (ready_packet_buffer_queue s) = p # ps"
      "ptr_items (free_packet_buffer_queue s) = packet_ptr base j # js" "j < 8"
      "s' = s\<lparr>ready_packet_buffer_queue := q, eth_packets := (eth_packets s)[j := resp],
              transmit_packet_queue := tq, free_packet_buffer_queue := fq\<rparr>"
      "length (pkt_data resp) = MAX_ETH_PACKET_SIZE" "unat (used_bytes resp) \<le> MAX_ETH_PACKET_SIZE"
      "packet_frame resp = ping_reply (frame_at base s p)"
      "fifo_ok q" "ptr_items q = ps" "xTasksWaitingToReceive q = []"
      "fifo_ok fq" "ptr_items fq = js @ [p]" "xTasksWaitingToReceive fq = []"
      "fifo_ok tq" "ptr_items tq = ptr_items (transmit_packet_queue s) @ [packet_ptr base j]" "xTasksWaitingToReceive tq = []"
      "ping_request (frame_at base s p)"
proof (cases "ptr_items (ready_packet_buffer_queue s)")
  case Nil
  have "ptr_get task_prio Ip_task (ready_packet_buffer_queue s) = None" using Nil by (rule ptr_get_empty)
  then have "s' = s\<lparr>ready_packet_buffer_queue := ptr_wait task_prio Ip_task (ready_packet_buffer_queue s)\<rparr>"
    using run by (simp add: ip_task_ping_def)
  then show ?thesis using wait [OF Nil] fifo_wait [OF app_invD(6) [OF inv] Nil awake, of Ip_task] by blast
next
  case (Cons p ps)
  then have mem: "p \<in> set (owned s)" "p \<in> set (loaded s)" by (simp_all add: place_defs)
  obtain i where i: "i < 8" "p = packet_ptr base i" "packet_at base p = Some i" "p \<noteq> 0"
    by (rule owned_ptr [OF inv mem(1)])
  have pc: "packet_pc s \<noteq> Packet_fill" using owned_fill [OF inv] mem by auto
  obtain q where q: "ptr_get task_prio Ip_task (ready_packet_buffer_queue s) = Some (p, [], q)" "fifo_ok q"
    "ptr_items q = ps" "xTasksWaitingToReceive q = []"
    by (rule fifo_get [OF app_invD(6) [OF inv] Cons])
  let ?pkt = "eth_packets s ! i" and ?s = "s\<lparr>ready_packet_buffer_queue := q\<rparr>"
  have count: "length (ptr_items (free_packet_buffer_queue s)) + length (ptr_items (transmit_packet_queue s)) < 8"
    using owned_places(3) [OF inv pc] Cons by (simp add: place_defs)
  have used: "unat (used_bytes ?pkt) \<le> MAX_ETH_PACKET_SIZE" using app_invD(11) [OF inv mem(2)] i(3) by (simp add: fits_def)
  have req: "ping_request (frame_at base s p) \<longleftrightarrow> enc28_debug_is_ping_request (pkt_data ?pkt) (used_bytes ?pkt) \<noteq> 0"
    using ping_request_frame [of ?pkt] used app_invD(10) [OF inv i(1)] i(3) by (simp add: frame_at_def)
  from run q(1) i obtain s1 where answer: "ip_task_reply base i ?s = ret s1" and
    s': "s' = s1\<lparr>free_packet_buffer_queue := put_ignored Ip_task p (free_packet_buffer_queue s1)\<rparr>"
    by (auto simp: ip_task_ping_def deref_packet_def after_eq_Ret)
  show ?thesis
  proof (cases "enc28_debug_is_ping_request (pkt_data ?pkt) (used_bytes ?pkt) = 0 \<or> ptr_items (free_packet_buffer_queue s) = []")
    case True
    then have "s1 = ?s" using answer by (auto simp: ip_task_reply_def Let_def ptr_get_empty cong: if_cong)
    moreover have "length (ptr_items (free_packet_buffer_queue s)) < 8" using count by simp
    ultimately show ?thesis
      using silent [OF Cons _ q(2-4)] put_ignored_result [OF app_invD(5) [OF inv], of Ip_task p] s' True req by simp
  next
    case False
    then obtain r js where r: "ptr_items (free_packet_buffer_queue s) = r # js"
      and ping: "enc28_debug_is_ping_request (pkt_data ?pkt) (used_bytes ?pkt) \<noteq> 0"
      by (cases "ptr_items (free_packet_buffer_queue s)") auto
    obtain j fq resp where j: "j < 8" "r = packet_ptr base j" and fq: "fifo_ok fq" "ptr_items fq = js" "xTasksWaitingToReceive fq = []"
      and resp: "length (pkt_data resp) = MAX_ETH_PACKET_SIZE" "unat (used_bytes resp) \<le> MAX_ETH_PACKET_SIZE"
        "packet_frame resp = ping_reply (packet_frame ?pkt)"
      and s1: "s1 = ?s\<lparr>free_packet_buffer_queue := fq, eth_packets := (eth_packets s)[j := resp],
        transmit_packet_queue := put_ignored Ip_task r (transmit_packet_queue s)\<rparr>"
      by (rule ip_task_reply_result [OF inv i(1) _ _ ping r answer]) (use mem(2) i in auto)
    have room: "length (ptr_items (transmit_packet_queue s)) < 8" "length (ptr_items fq) < 8"
      using count r fq(2) by simp_all
    note tq = put_ignored_result [OF app_invD(7) [OF inv] room(1), of Ip_task r]
      and fq' = put_ignored_result [OF fq(1) room(2), of Ip_task p]
    show ?thesis
      by (rule reply [of p ps j js "put_ignored Ip_task p fq" "put_ignored Ip_task r (transmit_packet_queue s)" resp q])
        (use Cons r j s' s1 q fq fq' tq resp i req ping in \<open>simp_all add: frame_at_def\<close>)
  qed
qed

lemma inv_ping:
  assumes inv: "app_inv base s" and run: "ip_task_ping base s = ret s'" and pc: "ip_pc s = Ip_wait"
    and awake: "xTasksWaitingToReceive (ready_packet_buffer_queue s) = []"
  shows "app_inv base s'"
  using inv run awake
proof (cases rule: ping_result)
  case (wait q)
  have "owned s' = owned s" "loaded s' = loaded s" using wait by (simp_all add: place_defs)
  with wait inv pc show ?thesis by (simp add: inv_defs)
next
  case (silent p ps q fq)
  have "mset (owned s') = mset (owned s)" "set (loaded s') \<subseteq> set (loaded s)"
    using silent by (auto simp: place_defs publishing_def)
  with silent inv show ?thesis by (auto simp: inv_defs)
next
  case (reply p ps q j js fq tq resp)
  have places: "mset (owned s') = mset (owned s)" "set (loaded s') \<subseteq> insert (packet_ptr base j) (set (loaded s))"
    using reply by (auto simp: place_defs publishing_def)
  have "memory_inv base s'"
    by (rule write_memory_inv [OF inv reply(3) free_fresh(1) [OF inv reply(2)] reply(5,6)])
      (use reply(4) places(2) in simp_all)
  moreover have "queues_inv s'" using inv reply(4,8-16) by (simp add: inv_defs)
  moreover have "owner_inv base s'" using inv reply(4) places(1) by (simp add: inv_defs)
  ultimately show ?thesis by (simp add: app_inv_def)
qed

section \<open>Every step keeps it\<close>

lemma awake_queues:
  assumes "app_inv base s"
  shows "\<not> waiting Packet_task s \<Longrightarrow> xTasksWaitingToReceive (free_packet_buffer_queue s) = []"
    "\<not> waiting Ip_task s \<Longrightarrow> xTasksWaitingToReceive (ready_packet_buffer_queue s) = []"
    "waiting Packet_task s \<longleftrightarrow> xTasksWaitingToReceive (free_packet_buffer_queue s) \<noteq> []"
    "waiting Ip_task s \<longleftrightarrow> xTasksWaitingToReceive (ready_packet_buffer_queue s) \<noteq> []"
  using assms fifo_writers by (auto simp: inv_defs waiting_def)

lemma inv_packet_step:
  assumes inv: "app_inv base s" and awake: "\<not> waiting Packet_task s" and run: "packet_task_step (bus_ctx d) base s = ret s'"
  shows "app_inv base s'"
proof (cases "packet_pc s")
  case Packet_fill
  with inv run inv_fill show ?thesis by (auto simp: packet_task_step_def)
next
  case Packet_read
  with inv run inv_read show ?thesis by (auto simp: packet_task_step_def)
next
  case Packet_store
  with inv run inv_store awake_queues(1) [OF inv awake] show ?thesis by (auto simp: packet_task_step_def)
next
  case (Packet_publish p)
  with inv run inv_publish show ?thesis by (auto simp: packet_task_step_def)
next
  case Packet_transmit
  with inv run inv_transmit show ?thesis by (auto simp: packet_task_step_def)
next
  case Packet_sleep
  with run have s': "s' = s\<lparr>packet_pc := Packet_read\<rparr>" by (simp add: packet_task_step_def)
  have "owned s' = owned s" "loaded s' = loaded s" using Packet_sleep s' by (simp_all add: place_defs publishing_def)
  with Packet_sleep inv s' show ?thesis by (simp add: inv_defs)
qed

text \<open>
  Without lwIP the IP task is always at its one waiting point; with an IP stack that frees every packet before its input
  function returns, a packet is held only while that function runs.
\<close>

definition config_inv :: "bool \<Rightarrow> u32 \<Rightarrow> 'w app \<Rightarrow> bool" where
  "config_inv use_lwip base s \<longleftrightarrow>
     app_inv base s \<and> (\<not> use_lwip \<longrightarrow> ip_pc s = Ip_wait) \<and> (0 < held s \<longrightarrow> ip_pc s = Ip_input)"

lemma packet_step_ip:
  assumes "packet_task_step ctx base s = ret s'"
  shows "ip_pc s' = ip_pc s \<and> held s' = held s \<and> pbuf_ptr s' = pbuf_ptr s"
proof (cases "packet_pc s")
  case Packet_fill
  have "fill_packets base is s = ret s1 \<Longrightarrow> ip_pc s1 = ip_pc s \<and> held s1 = held s \<and> pbuf_ptr s1 = pbuf_ptr s"
    for "is" s1 and s :: "'a app"
    by (induction "is" arbitrary: s) (auto split: option.splits)
  with assms(1) Packet_fill show ?thesis by (auto simp: packet_task_step_def packet_task_fill_def after_eq_Ret)
qed (use assms in \<open>auto simp: packet_task_step_def packet_task_read_def packet_task_store_def packet_task_publish_def
      packet_task_transmit_def deref_packet_def Let_def after_eq_Ret split: option.splits if_splits\<close>)

lemma config_inv_step:
  assumes step: "app_step use_lwip False (bus_ctx d) base s es s'" and inv: "config_inv use_lwip base s"
  shows "config_inv use_lwip base s'"
proof -
  from inv have i: "app_inv base s" and c: "\<not> use_lwip \<longrightarrow> ip_pc s = Ip_wait" and h: "0 < held s \<longrightarrow> ip_pc s = Ip_input"
    by (simp_all add: config_inv_def)
  have places: "owned (s\<lparr>ip_pc := pc\<rparr>) = owned s" "loaded (s\<lparr>ip_pc := pc\<rparr>) = loaded s" for pc
    by (simp_all add: place_defs)
  from step show ?thesis
  proof (cases rule: app_step.cases)
    case packet_task
    with i c h inv_packet_step packet_step_ip [of "bus_ctx d" base s s'] show ?thesis by (auto simp: config_inv_def)
  next
    case ip_ping
    with i c awake_queues(2) [OF i] have "app_inv base s'" by (auto intro: inv_ping)
    moreover have "ip_pc s' = Ip_wait \<and> held s' = held s"
      using ip_ping c by (auto simp: ip_task_ping_def ip_task_reply_def deref_packet_def Let_def after_eq_Ret
          split: option.splits if_splits prod.splits)
    ultimately show ?thesis using ip_ping c h by (simp add: config_inv_def)
  next
    case ip_take
    then have zero: "held s = 0" using h by auto
    have ready: "xTasksWaitingToReceive (ready_packet_buffer_queue s) = []" using ip_take awake_queues(2) [OF i] by simp
    have "app_inv base s'" using inv_take [OF i _ zero ready] ip_take by simp
    moreover have "0 < held s' \<longrightarrow> ip_pc s' = Ip_input"
      using ip_take zero by (auto simp: ip_task_take_def deref_packet_def split: option.splits if_splits)
    ultimately show ?thesis using ip_take by (simp add: config_inv_def)
  next
    case (netif_output frame)
    have "ip_pc s' = ip_pc s \<and> held s' = held s"
      using netif_output by (auto simp: enc28_netif_output_def deref_packet_def split: option.splits if_splits)
    with netif_output h i inv_output show ?thesis by (auto simp: config_inv_def)
  next
    case pbuf_free
    have "ip_pc s' = ip_pc s \<and> held s' \<le> held s"
      using pbuf_free by (auto simp: enc28_pbuf_free_def split: option.splits)
    with pbuf_free h i inv_pbuf_free show ?thesis by (auto simp: config_inv_def)
  next
    case input_returns
    with i h places awake_queues(2) [OF i] show ?thesis by (simp add: config_inv_def inv_defs)
  next
    case loop_again
    with i h places awake_queues(2) [OF i] show ?thesis by (auto simp: config_inv_def inv_defs)
  qed
qed

end
