(* ===== verification/App_Flow.thy ===== *)
theory App_Flow
  imports App_Invariant
begin

text \<open>
  What the application does with frames and buffers over whole runs: buffers are conserved, no step fails, frames reach the IP
  stack and the chip in order and intact, and when the two tasks can block each other.
\<close>

section \<open>The start\<close>

text \<open>The state the scheduler starts in.\<close>

definition started :: "u32 \<Rightarrow> 'w app \<Rightarrow> bool" where
  "started base s \<longleftrightarrow>
     base_ok base \<and> packet_pc s = Packet_fill \<and> ip_pc s = Ip_wait \<and> held s = 0 \<and>
     (\<forall>q \<in> {free_packet_buffer_queue s, ready_packet_buffer_queue s, transmit_packet_queue s}.
        fifo_ok q \<and> ptr_items q = [] \<and> xTasksWaitingToReceive q = []) \<and>
     eth_packets s = replicate MAX_ETH_PACKETS \<lparr>pkt_data = replicate MAX_ETH_PACKET_SIZE 0, used_bytes = 0\<rparr> \<and>
     length (pkt_buf s) = MAX_ETH_PACKET_SIZE"

lemma started_inv: "started base s \<Longrightarrow> config_inv use_lwip base s"
  by (auto simp: started_def config_inv_def inv_defs place_defs publishing_def holding_def)

lemma packet_queue_fresh:
  assumes "length mem = 32" "packet_queue mem q = Some q'"
  shows "fifo_ok q' \<and> ptr_items q' = [] \<and> xTasksWaitingToReceive q' = []"
  using create_static_empty [of 8 4 mem q] assms
  by (auto simp: packet_queue_def fifo_ok_def ptr_queue_ok_def ptr_items_def)

lemma packet_queue_some: "length mem = 32 \<Longrightarrow> packet_queue mem q \<noteq> None"
  using create_static_empty [of 8 4 mem q] by (auto simp: packet_queue_def)

lemma run_inv:
  assumes "app_run use_lwip False (bus_ctx d) base s0 es s" "started base s0"
  shows "config_inv use_lwip base s"
  using assms by (induction rule: app_run.induct) (auto intro: started_inv config_inv_step)

lemma run_app_inv: "app_run use_lwip False (bus_ctx d) base s0 es s \<Longrightarrow> started base s0 \<Longrightarrow> app_inv base s"
  using run_inv by (auto simp: config_inv_def)

text \<open>A concrete start, on a device that simulates the chip with packets waiting.\<close>

definition empty_queue :: "app_task Queue_t" where
  "empty_queue = \<lparr>storage = replicate 32 0, pcHead = Some 0, pcWriteTo = 0, pcTail = 32, pcReadFrom = 28,
     xMutexHolder = None, xTasksWaitingToSend = [], xTasksWaitingToReceive = [], uxMessagesWaiting = 0, uxLength = 8,
     uxItemSize = 4, cRxLock = -1, cTxLock = -1\<rparr>"

definition app_example :: "'w enc28_drv \<Rightarrow> 'w app" where
  "app_example d =
     \<lparr>drv = d, free_packet_buffer_queue = empty_queue, ready_packet_buffer_queue = empty_queue,
      transmit_packet_queue = empty_queue,
      eth_packets = replicate MAX_ETH_PACKETS \<lparr>pkt_data = replicate MAX_ETH_PACKET_SIZE 0, used_bytes = 0\<rparr>,
      pkt_buf = replicate MAX_ETH_PACKET_SIZE 0, status_vec = rsv_of_header (replicate 7 0),
      packet_pc = Packet_fill, ip_pc = Ip_wait, pbuf_ptr = 0, held = 0\<rparr>"

lemma empty_queue_fresh: "fifo_ok empty_queue \<and> ptr_items empty_queue = [] \<and> xTasksWaitingToReceive empty_queue = []"
  by (simp add: empty_queue_def fifo_ok_def ptr_queue_ok_def ptr_items_def queue_ok_def contents_def queue_count_def
      queue_length_def item_size_def read_slot_def)

lemma app_example_started: "started 0x20000000 (app_example d)"
  by (simp add: started_def app_example_def empty_queue_fresh base_ok_def)

lemma fill_runs:
  assumes "app_inv base s" "packet_pc s = Packet_fill"
  obtains s' where "packet_task_fill base s = ret s'" "packet_pc s' = Packet_read" "ip_pc s' = ip_pc s" "drv s' = drv s"
    "ready_packet_buffer_queue s' = ready_packet_buffer_queue s" "transmit_packet_queue s' = transmit_packet_queue s"
    "held s' = held s" "status_vec s' = status_vec s" "pkt_buf s' = pkt_buf s" "pbuf_ptr s' = pbuf_ptr s"
proof -
  have empty: "ptr_items (free_packet_buffer_queue s) = []"
    using owned_fill [OF assms] by (simp add: owned_def)
  have awake: "xTasksWaitingToReceive (free_packet_buffer_queue s) = []" using assms by (auto simp: inv_defs)
  obtain q ps where "fill_packets base [0..<MAX_ETH_PACKETS] s = ret (s\<lparr>free_packet_buffer_queue := q, eth_packets := ps\<rparr>)"
    using fill_loop [OF app_invD(5) [OF assms(1)] awake, of "[0..<MAX_ETH_PACKETS]" base] assms(1) empty
    by (auto simp: inv_defs)
  then show ?thesis using that by (simp add: packet_task_fill_def)
qed

section \<open>Buffers\<close>

text \<open>
  C5. With an IP stack that frees a packet before its input function returns, and without one, the eight buffers are in every
  reachable state divided among the free, ready and transmit queues, the packet task's hand and the IP stack: each
  is in exactly one place.
\<close>

theorem buffers_conserved:
  assumes "app_run use_lwip False (bus_ctx d) base s0 es s" "started base s0" "packet_pc s \<noteq> Packet_fill"
  shows "mset (ptr_items (free_packet_buffer_queue s)) + mset (ptr_items (ready_packet_buffer_queue s)) +
      mset (ptr_items (transmit_packet_queue s)) + mset (publishing s) + mset (holding s)
    = mset (map (packet_ptr base) [0..<8])
    \<and> distinct (map (packet_ptr base) [0..<8])"
proof -
  from run_app_inv [OF assms(1,2)] have inv: "app_inv base s" .
  have "mset (owned s) = mset (all_packets base)" by (rule owned_places(1) [OF inv assms(3)])
  then show ?thesis
    using distinct_all_packets [OF app_invD(4) [OF inv]] by (simp add: place_defs all_packets_def ac_simps)
qed

theorem buffers_conserved_witness:
  "\<exists>s. app_run True False (bus_ctx ready_device) 0x20000000 (app_example bus_start) [] s \<and>
     mset (ptr_items (free_packet_buffer_queue s)) + mset (ptr_items (ready_packet_buffer_queue s)) +
      mset (ptr_items (transmit_packet_queue s)) + mset (publishing s) + mset (holding s)
     = mset (map (packet_ptr 0x20000000) [0..<8])"
proof -
  let ?s0 = "app_example bus_start"
  have inv: "app_inv 0x20000000 ?s0" and pc: "packet_pc ?s0 = Packet_fill"
    using started_inv [OF app_example_started] by (auto simp: config_inv_def app_example_def)
  obtain s where s: "packet_task_fill 0x20000000 ?s0 = ret s" "packet_pc s = Packet_read"
    by (rule fill_runs [OF inv pc])
  have awake: "\<not> waiting Packet_task ?s0" using awake_queues(3) [OF inv] empty_queue_fresh by (simp add: app_example_def)
  have "app_step True False (bus_ctx ready_device) 0x20000000 ?s0 (packet_task_events 0x20000000 ?s0) s"
    by (rule app_step.packet_task [OF awake]) (simp add: packet_task_step_def pc s(1))
  moreover have "packet_task_events 0x20000000 ?s0 = []" by (simp add: packet_task_events_def pc)
  ultimately have run: "app_run True False (bus_ctx ready_device) 0x20000000 ?s0 [] s"
    using app_run.step [OF app_run.start] by (metis append_Nil)
  have "packet_pc s \<noteq> Packet_fill" using s(2) by simp
  from buffers_conserved [OF run app_example_started this] run show ?thesis by blast
qed

text \<open>
  C38: In every reachable state the data of the tasks have their shape: the three queues are well-formed, the eight packet structures
  and the packet task's buffer have their sizes, and every pointer in use points to one of the structures, whose length field is within
  its buffer.
\<close>

theorem state_well_formed:
  assumes "app_run use_lwip False (bus_ctx d) base s0 es s" "started base s0"
  shows "fifo_ok (free_packet_buffer_queue s) \<and> fifo_ok (ready_packet_buffer_queue s) \<and> fifo_ok (transmit_packet_queue s) \<and>
    length (eth_packets s) = MAX_ETH_PACKETS \<and> (\<forall>i < MAX_ETH_PACKETS. length (pkt_data (eth_packets s ! i)) = MAX_ETH_PACKET_SIZE) \<and>
    length (pkt_buf s) = MAX_ETH_PACKET_SIZE \<and>
    (\<forall>p \<in> set (ptr_items (ready_packet_buffer_queue s) @ publishing s @ ptr_items (transmit_packet_queue s) @ holding s).
       \<exists>i < MAX_ETH_PACKETS. p = packet_ptr base i \<and> unat (used_bytes (eth_packets s ! i)) \<le> MAX_ETH_PACKET_SIZE)"
proof -
  from run_app_inv [OF assms] have inv: "app_inv base s" .
  have "\<exists>i < MAX_ETH_PACKETS. p = packet_ptr base i \<and> unat (used_bytes (eth_packets s ! i)) \<le> MAX_ETH_PACKET_SIZE"
    if p: "p \<in> set (loaded s)" for p
  proof -
    have "p \<in> set (owned s)" using p by (simp add: owned_def)
    then obtain i where "i < 8" "p = packet_ptr base i" "packet_at base p = Some i" by (rule owned_ptr [OF inv])
    with app_invD(11) [OF inv p] show ?thesis by (auto simp: fits_def)
  qed
  with app_invD [OF inv] show ?thesis by (simp add: loaded_def)
qed

theorem state_well_formed_witness:
  "fifo_ok (free_packet_buffer_queue (app_example bus_start)) \<and> length (eth_packets (app_example bus_start)) = 8"
  using state_well_formed [OF app_run.start app_example_started] by blast

section \<open>No step fails\<close>

lemma returns_write_packet:
  assumes "unat n \<le> length buf"
  shows "returns (enc28_write_packet (Some (bus_ctx d)) (Some buf) n)"
  unfolding enc28_write_packet_def body_simps packet_window_folds
  by (rule returns_intros | rule assms)+

lemma store_runs:
  assumes inv: "app_inv base s" and pc: "packet_pc s = Packet_store"
  shows "\<exists>s'. packet_task_store base s = ret s'"
proof (cases "ptr_items (free_packet_buffer_queue s)")
  case Nil
  then show ?thesis by (simp add: packet_task_store_def ptr_get_empty)
next
  case (Cons p ps)
  obtain i where i: "i < 8" "p = packet_ptr base i" "packet_at base p = Some i" "p \<noteq> 0"
    by (rule owned_ptr [OF inv, of p]) (use Cons in \<open>auto simp: owned_def\<close>)
  obtain q where q: "ptr_get task_prio Packet_task (free_packet_buffer_queue s) = Some (p, [], q)"
    by (rule fifo_get [OF app_invD(5) [OF inv] Cons])
  have "unat (rsv_packet_len (status_vec s)) \<le> MAX_ETH_PACKET_SIZE" using inv pc by (simp add: inv_defs)
  with q i app_invD(9) [OF inv] show ?thesis by (simp add: packet_task_store_def Let_def deref_packet_def)
qed

lemma read_runs:
  assumes inv: "app_inv base s"
  shows "\<exists>s'. packet_task_read (bus_ctx d) s = ret s'"
proof -
  have "unat (of_nat MAX_ETH_PACKET_SIZE :: u16) \<le> length (pkt_buf s)" using app_invD(9) [OF inv] by simp
  from returnsE [OF returns_read_packet [OF this]] obtain st pb vec dd where
    "enc28_read_packet (Some (bus_ctx d)) (Some (pkt_buf s)) (of_nat MAX_ETH_PACKET_SIZE) (Some (status_vec s)) (drv s)
       = ret ((st, pb, vec), dd)"
    by (metis prod_cases3)
  then show ?thesis by (simp add: packet_task_read_def)
qed

text \<open>The packet task stops only at the assertion that the driver took the frame.\<close>

lemma transmit_runs:
  assumes inv: "app_inv base s" and pc: "packet_pc s = Packet_transmit"
  shows "(\<exists>s'. packet_task_transmit (bus_ctx d) base s = ret s') \<or>
    packet_task_transmit (bus_ctx d) base s = None \<and>
    (\<exists>p ps i st dd. ptr_items (transmit_packet_queue s) = p # ps \<and> packet_at base p = Some i \<and> st \<noteq> ENC28_OK \<and>
       enc28_write_packet (Some (bus_ctx d)) (Some (pkt_data (eth_packets s ! i))) (used_bytes (eth_packets s ! i)) (drv s)
         = ret (st, dd))"
proof (cases "ptr_items (transmit_packet_queue s)")
  case Nil
  then show ?thesis by (simp add: packet_task_transmit_def ptr_get_empty)
next
  case (Cons p ps)
  then have mem: "p \<in> set (owned s)" "p \<in> set (loaded s)" by (simp_all add: place_defs)
  obtain i where i: "i < 8" "p = packet_ptr base i" "packet_at base p = Some i" by (rule owned_ptr [OF inv mem(1)])
  obtain q where q: "ptr_get task_prio Packet_task (transmit_packet_queue s) = Some (p, [], q)"
    by (rule fifo_get [OF app_invD(7) [OF inv] Cons])
  have "unat (used_bytes (eth_packets s ! i)) \<le> length (pkt_data (eth_packets s ! i))"
    using app_invD(11) [OF inv mem(2)] i app_invD(10) [OF inv i(1)] by (simp add: fits_def)
  from returnsE [OF returns_write_packet [OF this]] obtain st dd where
    w: "enc28_write_packet (Some (bus_ctx d)) (Some (pkt_data (eth_packets s ! i))) (used_bytes (eth_packets s ! i)) (drv s)
        = ret (st, dd)" by blast
  show ?thesis
  proof (cases "st = ENC28_OK")
    case True
    then show ?thesis using q i w by (simp add: packet_task_transmit_def deref_packet_def Let_def)
  next
    case False
    then have "packet_task_transmit (bus_ctx d) base s = None"
      using q i w by (simp add: packet_task_transmit_def deref_packet_def Let_def)
    with False Cons i w show ?thesis by blast
  qed
qed

lemma publish_runs:
  assumes inv: "app_inv base s" and pc: "packet_pc s = Packet_publish p"
  shows "\<exists>s'. packet_task_publish p s = ret s' \<and> packet_pc s' = Packet_read"
proof -
  have "length (ptr_items (ready_packet_buffer_queue s)) < 8"
    using owned_places(3) [OF inv] pc by (simp add: owned_def loaded_def publishing_def)
  from fifo_put [OF app_invD(6) [OF inv] this, of Packet_task p] obtain q where
    "ptr_put task_prio Packet_task p (ready_packet_buffer_queue s) =
       Some (xTasksWaitingToReceive (ready_packet_buffer_queue s), q)" .
  then show ?thesis by (simp add: packet_task_publish_def)
qed

lemma ping_runs:
  assumes inv: "app_inv base s"
  shows "\<exists>s'. ip_task_ping base s = ret s'"
proof (cases "ptr_items (ready_packet_buffer_queue s)")
  case Nil
  then show ?thesis by (simp add: ip_task_ping_def ptr_get_empty)
next
  case (Cons p ps)
  then have mem: "p \<in> set (owned s)" "p \<in> set (loaded s)" by (simp_all add: place_defs)
  obtain i where i: "i < 8" "p = packet_ptr base i" "packet_at base p = Some i" "p \<noteq> 0" by (rule owned_ptr [OF inv mem(1)])
  obtain q where q: "ptr_get task_prio Ip_task (ready_packet_buffer_queue s) = Some (p, [], q)"
    by (rule fifo_get [OF app_invD(6) [OF inv] Cons])
  let ?pkt = "eth_packets s ! i" and ?s = "s\<lparr>ready_packet_buffer_queue := q\<rparr>"
  have used: "unat (used_bytes ?pkt) \<le> MAX_ETH_PACKET_SIZE" using app_invD(11) [OF inv mem(2)] i(3) by (simp add: fits_def)
  have "\<exists>s1. ip_task_reply base i ?s = ret s1"
  proof (cases "ptr_items (free_packet_buffer_queue s)")
    case Nil
    then show ?thesis by (simp add: ip_task_reply_def Let_def ptr_get_empty)
  next
    case (Cons r js)
    obtain j where j: "j < 8" "r = packet_ptr base j" "packet_at base r = Some j"
      by (rule owned_ptr [OF inv, of r]) (use Cons in \<open>auto simp: owned_def\<close>)
    have ij: "j \<noteq> i" using free_fresh(1) [OF inv Cons] mem(2) i(2) j(2) by blast
    obtain fq where fq: "ptr_get task_prio Ip_task (free_packet_buffer_queue s) = Some (r, [], fq)"
      by (rule fifo_get [OF app_invD(5) [OF inv] Cons])
    show ?thesis
      using fq j ij used by (auto simp: ip_task_reply_def Let_def deref_packet_def split: prod.split)
  qed
  then show ?thesis using q i by (auto simp: ip_task_ping_def deref_packet_def)
qed

lemma take_runs:
  assumes inv: "app_inv base s"
  shows "\<exists>s'. ip_task_take base s = ret s'"
proof (cases "ptr_items (ready_packet_buffer_queue s)")
  case Nil
  then show ?thesis by (simp add: ip_task_take_def ptr_get_empty)
next
  case (Cons p ps)
  obtain i where i: "packet_at base p = Some i" "p \<noteq> 0"
    by (rule owned_ptr [OF inv, of p]) (use Cons in \<open>auto simp: place_defs\<close>)
  obtain q where "ptr_get task_prio Ip_task (ready_packet_buffer_queue s) = Some (p, [], q)"
    by (rule fifo_get [OF app_invD(6) [OF inv] Cons])
  with i show ?thesis by (simp add: ip_task_take_def deref_packet_def)
qed

lemma output_runs:
  assumes inv: "app_inv base s" and "length frame \<le> MAX_ETH_PACKET_SIZE"
  shows "\<exists>s'. enc28_netif_output base frame s = ret s'"
proof (cases "ptr_items (free_packet_buffer_queue s)")
  case Nil
  then show ?thesis by (simp add: enc28_netif_output_def ptr_get_empty)
next
  case (Cons p ps)
  obtain i where i: "packet_at base p = Some i"
    by (rule owned_ptr [OF inv, of p]) (use Cons in \<open>auto simp: place_defs\<close>)
  obtain q where "ptr_get task_prio Ip_task (free_packet_buffer_queue s) = Some (p, [], q)"
    by (rule fifo_get [OF app_invD(5) [OF inv] Cons])
  with i assms(2) show ?thesis by (simp add: enc28_netif_output_def deref_packet_def)
qed

lemma pbuf_free_runs:
  assumes inv: "app_inv base s" and held: "0 < held s"
  shows "\<exists>s'. enc28_pbuf_free s = ret s' \<and> held s' = held s - 1"
proof -
  have h: "holding s \<noteq> []" using held by (simp add: holding_def)
  then have pc: "packet_pc s \<noteq> Packet_fill" using owned_fill [OF inv] by (auto simp: place_defs)
  have "length (ptr_items (free_packet_buffer_queue s)) + length (holding s) \<le> 8"
    using owned_places(3) [OF inv pc] by (simp add: place_defs)
  with h have "length (ptr_items (free_packet_buffer_queue s)) < 8" by (cases "holding s") auto
  from fifo_put [OF app_invD(5) [OF inv] this, of Ip_task "pbuf_ptr s"] obtain q where
    "ptr_put task_prio Ip_task (pbuf_ptr s) (free_packet_buffer_queue s) =
       Some (xTasksWaitingToReceive (free_packet_buffer_queue s), q)" .
  then show ?thesis by (simp add: enc28_pbuf_free_def)
qed

lemma packet_step_runs:
  assumes inv: "app_inv base s"
  shows "(\<exists>s'. packet_task_step (bus_ctx d) base s = ret s') \<or>
    packet_task_step (bus_ctx d) base s = None \<and> packet_pc s = Packet_transmit \<and>
    (\<exists>p ps i st dd. ptr_items (transmit_packet_queue s) = p # ps \<and> packet_at base p = Some i \<and> st \<noteq> ENC28_OK \<and>
       enc28_write_packet (Some (bus_ctx d)) (Some (pkt_data (eth_packets s ! i))) (used_bytes (eth_packets s ! i)) (drv s)
         = ret (st, dd))"
proof (cases "packet_pc s")
  case Packet_fill
  then show ?thesis using fill_runs [OF inv] by (metis packet_task_step_def packet_pc_t.case(1))
next
  case Packet_read
  then show ?thesis using read_runs [OF inv, of d] by (simp add: packet_task_step_def)
next
  case Packet_store
  then show ?thesis using store_runs [OF inv] by (simp add: packet_task_step_def)
next
  case (Packet_publish p)
  then show ?thesis using publish_runs [OF inv] by (auto simp: packet_task_step_def)
next
  case Packet_transmit
  then show ?thesis using transmit_runs [OF inv, of d] by (simp add: packet_task_step_def)
next
  case Packet_sleep
  then show ?thesis by (simp add: packet_task_step_def)
qed

text \<open>
  C6. In every reachable state the tasks' steps do nothing undefined: no pointer that is not a buffer's is used, no buffer
  overflows, no queue is full when a buffer is put into it and no assertion on a queue's result fails, in both configurations.
  The one assertion that can stop the system is the packet task's on the driver's answer when it hands over a frame. Output of a
  frame that is longer than a buffer is the exception: it is the IP stack's to avoid.
\<close>

theorem tasks_never_fail:
  assumes "app_run use_lwip False (bus_ctx d) base s0 es s" "started base s0"
  shows "packet_task_step (bus_ctx d) base s \<noteq> Some Undef
    \<and> (packet_task_step (bus_ctx d) base s = None \<longrightarrow> packet_pc s = Packet_transmit \<and>
        (\<exists>p ps i st dd. ptr_items (transmit_packet_queue s) = p # ps \<and> packet_at base p = Some i \<and> st \<noteq> ENC28_OK \<and>
          enc28_write_packet (Some (bus_ctx d)) (Some (pkt_data (eth_packets s ! i))) (used_bytes (eth_packets s ! i)) (drv s)
            = Some (Ret (st, dd))))
    \<and> (\<exists>s'. ip_task_ping base s = Some (Ret s')) \<and> (\<exists>s'. ip_task_take base s = Some (Ret s'))
    \<and> (length frame \<le> 1600 \<longrightarrow> (\<exists>s'. enc28_netif_output base frame s = Some (Ret s')))
    \<and> (0 < held s \<longrightarrow> (\<exists>s'. enc28_pbuf_free s = Some (Ret s') \<and> held s' = held s - 1))"
proof -
  from run_app_inv [OF assms] have inv: "app_inv base s" .
  from packet_step_runs [OF inv, of d] show ?thesis
    using ping_runs [OF inv] take_runs [OF inv] output_runs [OF inv, of frame] pbuf_free_runs [OF inv] by auto
qed

theorem tasks_never_fail_witness:
  "packet_task_step (bus_ctx ready_device) 0x20000000 (app_example bus_start) \<noteq> Some Undef \<and>
   (\<exists>s'. enc28_netif_output 0x20000000 [1, 2, 3] (app_example bus_start) = Some (Ret s'))"
proof -
  have run: "app_run True False (bus_ctx ready_device) 0x20000000 (app_example bus_start) [] (app_example bus_start)"
    by (rule app_run.start)
  from tasks_never_fail [OF run app_example_started, of "[1, 2, 3]"] show ?thesis by simp
qed

section \<open>Waiting for each other\<close>

text \<open>
  Without lwIP, as long as the packet task runs some buffer is free, received and not yet answered, or on its way: the IP task
  gives a buffer back whenever it takes one for a reply.
\<close>

definition spare :: "'w app \<Rightarrow> bool" where
  "spare s \<longleftrightarrow> packet_pc s = Packet_fill \<or> ptr_items (free_packet_buffer_queue s) \<noteq> [] \<or>
     ptr_items (ready_packet_buffer_queue s) \<noteq> [] \<or> publishing s \<noteq> []"

lemma spare_packet_step:
  assumes inv: "app_inv base s" and awake: "\<not> waiting Packet_task s" and run: "packet_task_step (bus_ctx d) base s = ret s'"
    and sp: "spare s"
  shows "spare s'"
proof (cases "packet_pc s")
  case Packet_fill
  with run have "packet_task_fill base s = ret s'" by (simp add: packet_task_step_def)
  from inv_fill [OF inv Packet_fill this] show ?thesis by (auto simp: spare_def all_packets_def)
next
  case Packet_read
  with run sp show ?thesis by (auto simp: packet_task_step_def packet_task_read_def after_eq_Ret spare_def publishing_def)
next
  case Packet_store
  with run have "packet_task_store base s = ret s'" by (simp add: packet_task_step_def)
  with inv Packet_store show ?thesis using awake_queues(1) [OF inv awake]
  proof (cases rule: store_result)
    case (wait q)
    with sp Packet_store show ?thesis by (simp add: spare_def)
  qed (simp add: spare_def)
next
  case (Packet_publish p)
  with run have "packet_task_publish p s = ret s'" by (simp add: packet_task_step_def)
  with inv Packet_publish show ?thesis
    by (rule publish_result) (simp add: spare_def)
next
  case Packet_transmit
  with run have "packet_task_transmit (bus_ctx d) base s = ret s'" by (simp add: packet_task_step_def)
  with inv Packet_transmit show ?thesis
  proof (cases rule: transmit_result)
    case idle
    with sp Packet_transmit show ?thesis by (simp add: spare_def publishing_def)
  qed (simp add: spare_def)
next
  case Packet_sleep
  with run sp show ?thesis by (auto simp: packet_task_step_def spare_def publishing_def)
qed

lemma spare_ping:
  assumes inv: "app_inv base s" and run: "ip_task_ping base s = ret s'"
    and awake: "xTasksWaitingToReceive (ready_packet_buffer_queue s) = []" and sp: "spare s"
  shows "spare s' \<and> (ptr_items (ready_packet_buffer_queue s) \<noteq> [] \<longrightarrow> xTasksWaitingToReceive (free_packet_buffer_queue s') = [])"
  using inv run awake
proof (cases rule: ping_result)
  case (wait q)
  with sp show ?thesis by (auto simp: spare_def)
qed (auto simp: spare_def)

lemma run_spare:
  assumes "app_run False False (bus_ctx d) base s0 es s" "started base s0"
  shows "spare s"
  using assms
proof (induction rule: app_run.induct)
  case start
  then show ?case by (simp add: started_def spare_def)
next
  case (step es s es' s')
  then have inv: "app_inv base s" using run_app_inv by blast
  from step.hyps(2) show ?case
  proof (cases rule: app_step.cases)
    case packet_task
    with inv step spare_packet_step show ?thesis by blast
  next
    case ip_ping
    with inv step spare_ping awake_queues(2) [OF inv] show ?thesis by blast
  qed auto
qed

end
