(* ===== verification/App_Runs.thy ===== *)
theory App_Runs
  imports App_Flow
begin

text \<open>
  Concrete runs of the application, on a device that always has a frame ready: the states in which a task waits, the state in
  which both wait for ever, and the state in which a buffer is lost.
\<close>

section \<open>Concrete runs\<close>

text \<open>A device that always has a frame of 60 bytes ready.\<close>

definition stream_device :: bus_device where
  "stream_device = \<lparr>in_answer = (\<lambda>_ n. replicate n 0x48), in_out_answer = (\<lambda>_ _. [0, 0, 0, 60, 0, 0x80, 0])\<rparr>"

lemma stream_read:
  assumes "length buf = 1600"
  shows "\<exists>buf' v d. enc28_read_packet (Some (bus_ctx stream_device)) (Some buf) 1600 (Some v0) s
    = ret ((ENC28_OK, Some buf', Some v), d)"
  using assms
  by (simp add: enc28_read_packet_def read_packet_pending_def read_packet_release_def body_simps packet_window_folds
      run_simps bus_simps device_simps stream_device_def bus_rbm_header [OF refl] bus_rbm_data
      rsv_of_header_def rsv_bits_16_23_of_byte_def rsv_packet_len_def rx_read_ptr_def bytes16_def BIT_def cong: run_congs)

text \<open>
  What decides which steps are possible: the pointers in the queues, where the tasks are, what the IP stack holds, and who
  waits.
\<close>

type_synonym shape = "u32 list \<times> u32 list \<times> u32 list \<times> packet_pc_t \<times> ip_pc_t \<times> nat \<times> u32 \<times> bool \<times> bool"

definition shape :: "'w app \<Rightarrow> shape" where
  "shape s = (ptr_items (free_packet_buffer_queue s), ptr_items (ready_packet_buffer_queue s),
     ptr_items (transmit_packet_queue s), packet_pc s, ip_pc s, held s, pbuf_ptr s, waiting Packet_task s, waiting Ip_task s)"

definition reach :: "bool \<Rightarrow> bool \<Rightarrow> bus_event list app \<Rightarrow> bool" where
  "reach use_lwip keeps s \<longleftrightarrow> app_inv 0x20000000 s \<and>
     (\<exists>es. app_run use_lwip keeps (bus_ctx stream_device) 0x20000000 (app_example bus_start) es s)"

definition reach_shape :: "bool \<Rightarrow> bool \<Rightarrow> shape \<Rightarrow> bool" where
  "reach_shape use_lwip keeps sh \<longleftrightarrow> (\<exists>s. reach use_lwip keeps s \<and> shape s = sh)"

lemma reach_step:
  "reach use_lwip keeps s \<Longrightarrow> app_step use_lwip keeps (bus_ctx stream_device) 0x20000000 s es' s' \<Longrightarrow>
    app_inv 0x20000000 s' \<Longrightarrow> reach use_lwip keeps s'"
  unfolding reach_def using app_run.step by blast

lemma reach_packet_step:
  assumes "reach use_lwip keeps s" "\<not> waiting Packet_task s" "packet_task_step (bus_ctx stream_device) 0x20000000 s = ret s'"
  shows "reach use_lwip keeps s'"
  using assms reach_step [OF assms(1) app_step.packet_task [OF assms(2,3)]] inv_packet_step
  by (auto simp: reach_def)

lemma shapeI:
  assumes "app_inv base s"
    and "ptr_items (free_packet_buffer_queue s) = f" "ptr_items (ready_packet_buffer_queue s) = r"
    and "ptr_items (transmit_packet_queue s) = t" "packet_pc s = pp" "ip_pc s = ip" "held s = h" "pbuf_ptr s = b"
    and "xTasksWaitingToReceive (free_packet_buffer_queue s) \<noteq> [] \<longleftrightarrow> wp"
    and "xTasksWaitingToReceive (ready_packet_buffer_queue s) \<noteq> [] \<longleftrightarrow> wi"
  shows "shape s = (f, r, t, pp, ip, h, b, wp, wi)"
  using assms awake_queues(3,4) [OF assms(1)] by (simp add: shape_def)

lemma shapeD:
  assumes "app_inv base s" "shape s = (f, r, t, pp, ip, h, b, wp, wi)"
  shows "ptr_items (free_packet_buffer_queue s) = f" "ptr_items (ready_packet_buffer_queue s) = r"
    "ptr_items (transmit_packet_queue s) = t" "packet_pc s = pp" "ip_pc s = ip" "held s = h" "pbuf_ptr s = b"
    "waiting Packet_task s \<longleftrightarrow> wp" "waiting Ip_task s \<longleftrightarrow> wi"
    "xTasksWaitingToReceive (free_packet_buffer_queue s) \<noteq> [] \<longleftrightarrow> wp"
    "xTasksWaitingToReceive (ready_packet_buffer_queue s) \<noteq> [] \<longleftrightarrow> wi"
  using assms awake_queues(3,4) [OF assms(1)] by (auto simp: shape_def)

lemma go_fill: "reach_shape L K (all_packets 0x20000000, [], [], Packet_read, Ip_wait, 0, 0, False, False)"
proof -
  let ?b = "0x20000000 :: u32" and ?s = "app_example bus_start"
  have st: "started ?b ?s" by (rule app_example_started)
  then have inv: "app_inv ?b ?s" using started_inv by (auto simp: config_inv_def)
  have "app_run L K (bus_ctx stream_device) ?b ?s [] ?s" by (rule app_run.start)
  then have r: "reach L K ?s" using inv by (auto simp: reach_def)
  have pc: "packet_pc ?s = Packet_fill" using st by (simp add: started_def)
  have awake: "\<not> waiting Packet_task ?s" using awake_queues(3) [OF inv] st by (simp add: started_def)
  obtain s' where s': "packet_task_fill ?b ?s = ret s'" "packet_pc s' = Packet_read" "ip_pc s' = ip_pc ?s"
    "ready_packet_buffer_queue s' = ready_packet_buffer_queue ?s" "transmit_packet_queue s' = transmit_packet_queue ?s"
    "held s' = held ?s" "pbuf_ptr s' = pbuf_ptr ?s" by (rule fill_runs [OF inv pc])
  have R: "reach L K s'" using reach_packet_step [OF r awake] pc s'(1) by (simp add: packet_task_step_def)
  note F = inv_fill [OF inv pc s'(1)]
  have "xTasksWaitingToReceive (free_packet_buffer_queue s') = []"
    using F s'(2) by (auto simp: inv_defs)
  then have "shape s' = (all_packets ?b, [], [], Packet_read, Ip_wait, 0, 0, False, False)"
    using F s' st by (intro shapeI [of ?b]) (simp_all add: started_def app_example_def)
  with R show ?thesis unfolding reach_shape_def by blast
qed

lemma go_read:
  assumes "reach_shape L K (f, r, t, Packet_read, ip, h, b, False, wi)"
  shows "reach_shape L K (f, r, t, Packet_store, ip, h, b, False, wi)"
proof -
  from assms obtain s where R: "reach L K s" and sh: "shape s = (f, r, t, Packet_read, ip, h, b, False, wi)"
    by (auto simp: reach_shape_def)
  then have inv: "app_inv 0x20000000 s" by (simp add: reach_def)
  note D = shapeD [OF inv sh]
  from stream_read [OF app_invD(9) [OF inv]] obtain buf' v d where
    rd: "enc28_read_packet (Some (bus_ctx stream_device)) (Some (pkt_buf s)) 1600 (Some (status_vec s)) (drv s)
      = ret ((ENC28_OK, Some buf', Some v), d)" by metis
  let ?s = "s\<lparr>drv := d, pkt_buf := buf', status_vec := v, packet_pc := Packet_store\<rparr>"
  have step: "packet_task_step (bus_ctx stream_device) 0x20000000 s = ret ?s"
    using rd D(4) by (simp add: packet_task_step_def packet_task_read_def)
  have R': "reach L K ?s" by (rule reach_packet_step [OF R _ step]) (simp add: D(8))
  then have "shape ?s = (f, r, t, Packet_store, ip, h, b, False, wi)"
    using D by (intro shapeI [of "0x20000000"]) (simp_all add: reach_def)
  with R' show ?thesis unfolding reach_shape_def by blast
qed

lemma go_store:
  assumes "reach_shape L K (p # f, r, t, Packet_store, ip, h, b, False, wi)"
  shows "reach_shape L K (f, r @ [p], t, Packet_read, ip, h, b, False, False)"
proof -
  from assms obtain s where R: "reach L K s" and sh: "shape s = (p # f, r, t, Packet_store, ip, h, b, False, wi)"
    by (auto simp: reach_shape_def)
  then have inv: "app_inv 0x20000000 s" by (simp add: reach_def)
  note D = shapeD [OF inv sh]
  obtain s1 where run: "packet_task_store 0x20000000 s = ret s1" using store_runs [OF inv D(4)] by blast
  have awake: "xTasksWaitingToReceive (free_packet_buffer_queue s) = []" using D(10) by simp
  have R1: "reach L K s1"
    by (rule reach_packet_step [OF R]) (use D(4,8) run in \<open>simp_all add: packet_task_step_def\<close>)
  have s1: "packet_pc s1 = Packet_publish p" "ptr_items (free_packet_buffer_queue s1) = f"
    "ready_packet_buffer_queue s1 = ready_packet_buffer_queue s" "transmit_packet_queue s1 = transmit_packet_queue s"
    "ip_pc s1 = ip_pc s" "held s1 = held s" "pbuf_ptr s1 = pbuf_ptr s" "xTasksWaitingToReceive (free_packet_buffer_queue s1) = []"
    using inv D(4) run awake D(1) by (cases rule: store_result; simp)+
  have inv1: "app_inv 0x20000000 s1" using R1 by (simp add: reach_def)
  obtain s2 where run2: "packet_task_publish p s1 = ret s2" using publish_runs [OF inv1 s1(1)] by blast
  have R2: "reach L K s2"
    by (rule reach_packet_step [OF R1])
      (use s1 run2 awake_queues(3) [OF inv1] in \<open>simp_all add: packet_task_step_def\<close>)
  have s2: "packet_pc s2 = Packet_read" "ptr_items (ready_packet_buffer_queue s2) = r @ [p]"
    "free_packet_buffer_queue s2 = free_packet_buffer_queue s1" "transmit_packet_queue s2 = transmit_packet_queue s1"
    "ip_pc s2 = ip_pc s1" "held s2 = held s1" "pbuf_ptr s2 = pbuf_ptr s1" "xTasksWaitingToReceive (ready_packet_buffer_queue s2) = []"
    by (rule publish_result [OF inv1 s1(1) run2]; use s1(3) D(2) in simp)+
  have "shape s2 = (f, r @ [p], t, Packet_read, ip, h, b, False, False)"
    using R2 s1 s2 D by (intro shapeI [of "0x20000000"]) (simp_all add: reach_def)
  with R2 show ?thesis unfolding reach_shape_def by blast
qed

lemma go_store_wait:
  assumes "reach_shape L K ([], r, t, Packet_store, ip, h, b, False, wi)"
  shows "reach_shape L K ([], r, t, Packet_store, ip, h, b, True, wi)"
proof -
  from assms obtain s where R: "reach L K s" and sh: "shape s = ([], r, t, Packet_store, ip, h, b, False, wi)"
    by (auto simp: reach_shape_def)
  then have inv: "app_inv 0x20000000 s" by (simp add: reach_def)
  note D = shapeD [OF inv sh]
  obtain s1 where run: "packet_task_store 0x20000000 s = ret s1" using store_runs [OF inv D(4)] by blast
  have awake: "xTasksWaitingToReceive (free_packet_buffer_queue s) = []" using D(10) by simp
  have R1: "reach L K s1"
    by (rule reach_packet_step [OF R]) (use D(4,8) run in \<open>simp_all add: packet_task_step_def\<close>)
  have s1: "packet_pc s1 = Packet_store" "ptr_items (free_packet_buffer_queue s1) = []"
    "ready_packet_buffer_queue s1 = ready_packet_buffer_queue s" "transmit_packet_queue s1 = transmit_packet_queue s"
    "ip_pc s1 = ip_pc s" "held s1 = held s" "pbuf_ptr s1 = pbuf_ptr s" "xTasksWaitingToReceive (free_packet_buffer_queue s1) \<noteq> []"
    using inv D(4) run awake D(1) by (cases rule: store_result; simp add: D(4))+
  have "shape s1 = ([], r, t, Packet_store, ip, h, b, True, wi)"
    using R1 s1 D by (intro shapeI [of "0x20000000"]) (simp_all add: reach_def)
  with R1 show ?thesis unfolding reach_shape_def by blast
qed

lemma go_store_all:
  "reach_shape L K (f, r, t, Packet_read, ip, h, b, False, False) \<Longrightarrow>
    reach_shape L K ([], r @ f, t, Packet_store, ip, h, b, True, False)"
proof (induction f arbitrary: r)
  case Nil
  then show ?case using go_store_wait [OF go_read] by simp
next
  case (Cons p f)
  from Cons.IH [OF go_store [OF go_read [OF Cons.prems]]] show ?case by simp
qed

text \<open>Steps of the IP task with lwIP.\<close>

lemma go_take:
  assumes "reach_shape True K (f, p # r, t, pp, Ip_wait, 0, b, wp, False)"
  shows "reach_shape True K (f, r, t, pp, Ip_input, 1, p, wp, False)"
proof -
  from assms obtain s where R: "reach True K s" and sh: "shape s = (f, p # r, t, pp, Ip_wait, 0, b, wp, False)"
    by (auto simp: reach_shape_def)
  then have inv: "app_inv 0x20000000 s" by (simp add: reach_def)
  note D = shapeD [OF inv sh]
  obtain s1 where run: "ip_task_take 0x20000000 s = ret s1" using take_runs [OF inv] by blast
  have awake: "xTasksWaitingToReceive (ready_packet_buffer_queue s) = []" using D(11) by simp
  have inv1: "app_inv 0x20000000 s1" by (rule inv_take [OF inv run D(6) awake D(5)])
  have R1: "reach True K s1"
    by (rule reach_step [OF R app_step.ip_take inv1]) (use D run in simp_all)
  have s1: "ptr_items (ready_packet_buffer_queue s1) = r" "xTasksWaitingToReceive (ready_packet_buffer_queue s1) = []"
    "free_packet_buffer_queue s1 = free_packet_buffer_queue s" "transmit_packet_queue s1 = transmit_packet_queue s"
    "packet_pc s1 = packet_pc s" "ip_pc s1 = Ip_input" "held s1 = 1" "pbuf_ptr s1 = p"
    using inv run awake D(2,6) by (cases rule: take_result; simp)+
  have "shape s1 = (f, r, t, pp, Ip_input, 1, p, wp, False)"
    using inv1 s1 D by (intro shapeI [of "0x20000000"]) simp_all
  with R1 show ?thesis unfolding reach_shape_def by blast
qed

lemma go_take_wait:
  assumes "reach_shape True K (f, [], t, pp, Ip_wait, 0, b, wp, False)"
  shows "reach_shape True K (f, [], t, pp, Ip_wait, 0, b, wp, True)"
proof -
  from assms obtain s where R: "reach True K s" and sh: "shape s = (f, [], t, pp, Ip_wait, 0, b, wp, False)"
    by (auto simp: reach_shape_def)
  then have inv: "app_inv 0x20000000 s" by (simp add: reach_def)
  note D = shapeD [OF inv sh]
  obtain s1 where run: "ip_task_take 0x20000000 s = ret s1" using take_runs [OF inv] by blast
  have awake: "xTasksWaitingToReceive (ready_packet_buffer_queue s) = []" using D(11) by simp
  have inv1: "app_inv 0x20000000 s1" by (rule inv_take [OF inv run D(6) awake D(5)])
  have R1: "reach True K s1"
    by (rule reach_step [OF R app_step.ip_take inv1]) (use D run in simp_all)
  have s1: "ptr_items (ready_packet_buffer_queue s1) = []" "xTasksWaitingToReceive (ready_packet_buffer_queue s1) \<noteq> []"
    "free_packet_buffer_queue s1 = free_packet_buffer_queue s" "transmit_packet_queue s1 = transmit_packet_queue s"
    "packet_pc s1 = packet_pc s" "ip_pc s1 = ip_pc s" "held s1 = held s" "pbuf_ptr s1 = pbuf_ptr s"
    using inv run awake D(2) by (cases rule: take_result; simp)+
  have "shape s1 = (f, [], t, pp, Ip_wait, 0, b, wp, True)"
    using inv1 s1 D by (intro shapeI [of "0x20000000"]) simp_all
  with R1 show ?thesis unfolding reach_shape_def by blast
qed

lemma go_output:
  assumes "reach_shape True K (p # f, r, t, pp, ip, h, b, False, False)" and ip: "ip \<noteq> Ip_wait"
  shows "reach_shape True K (f, r, t @ [p], pp, ip, h, b, False, False)"
proof -
  from assms(1) obtain s where R: "reach True K s" and sh: "shape s = (p # f, r, t, pp, ip, h, b, False, False)"
    by (auto simp: reach_shape_def)
  then have inv: "app_inv 0x20000000 s" by (simp add: reach_def)
  note D = shapeD [OF inv sh]
  obtain s1 where run: "enc28_netif_output 0x20000000 [] s = ret s1" using output_runs [OF inv, of "[]"] by auto
  have inv1: "app_inv 0x20000000 s1" by (rule inv_output [OF inv run])
  have R1: "reach True K s1"
    by (rule reach_step [OF R app_step.netif_output inv1]) (use D run ip in simp_all)
  have s1: "ptr_items (free_packet_buffer_queue s1) = f" "xTasksWaitingToReceive (free_packet_buffer_queue s1) = []"
    "ready_packet_buffer_queue s1 = ready_packet_buffer_queue s" "ptr_items (transmit_packet_queue s1) = t @ [p]"
    "packet_pc s1 = packet_pc s" "ip_pc s1 = ip_pc s" "held s1 = held s" "pbuf_ptr s1 = pbuf_ptr s"
    using inv run D(1,3) by (cases rule: output_result; simp)+
  have "shape s1 = (f, r, t @ [p], pp, ip, h, b, False, False)"
    using inv1 s1 D by (intro shapeI [of "0x20000000"]) simp_all
  with R1 show ?thesis unfolding reach_shape_def by blast
qed

lemma go_output_all:
  "reach_shape True K (f, r, t, pp, ip, h, b, False, False) \<Longrightarrow> ip \<noteq> Ip_wait \<Longrightarrow>
    reach_shape True K ([], r, t @ f, pp, ip, h, b, False, False)"
proof (induction f arbitrary: t)
  case (Cons p f)
  from Cons.IH [OF go_output [OF Cons.prems] Cons.prems(2)] show ?case by simp
qed simp

lemma go_pbuf_free:
  assumes "reach_shape True K (f, r, t, pp, Ip_input, 1, b, wp, False)"
  shows "reach_shape True K (f @ [b], r, t, pp, Ip_input, 0, b, False, False)"
proof -
  from assms obtain s where R: "reach True K s" and sh: "shape s = (f, r, t, pp, Ip_input, 1, b, wp, False)"
    by (auto simp: reach_shape_def)
  then have inv: "app_inv 0x20000000 s" by (simp add: reach_def)
  note D = shapeD [OF inv sh]
  have h: "0 < held s" using D(6) by simp
  obtain s1 where run: "enc28_pbuf_free s = ret s1" using pbuf_free_runs [OF inv h] by blast
  have inv1: "app_inv 0x20000000 s1" by (rule inv_pbuf_free [OF inv h run])
  have R1: "reach True K s1"
    by (rule reach_step [OF R app_step.pbuf_free inv1]) (use D run h in simp_all)
  have s1: "ptr_items (free_packet_buffer_queue s1) = f @ [b]" "xTasksWaitingToReceive (free_packet_buffer_queue s1) = []"
    "ready_packet_buffer_queue s1 = ready_packet_buffer_queue s" "transmit_packet_queue s1 = transmit_packet_queue s"
    "packet_pc s1 = packet_pc s" "ip_pc s1 = ip_pc s" "held s1 = 0" "pbuf_ptr s1 = pbuf_ptr s"
    by (rule pbuf_free_result [OF inv h run]; use D in simp)+
  have "shape s1 = (f @ [b], r, t, pp, Ip_input, 0, b, False, False)"
    using inv1 s1 D by (intro shapeI [of "0x20000000"]) simp_all
  with R1 show ?thesis unfolding reach_shape_def by blast
qed

lemma go_pc:
  assumes "reach_shape True K (f, r, t, pp, ip, h, b, wp, False)"
  shows "ip = Ip_input \<Longrightarrow> K \<or> h = 0 \<Longrightarrow> reach_shape True K (f, r, t, pp, Ip_timeouts, h, b, wp, False)"
    "ip = Ip_timeouts \<Longrightarrow> reach_shape True K (f, r, t, pp, Ip_wait, h, b, wp, False)"
proof -
  from assms obtain s where R: "reach True K s" and sh: "shape s = (f, r, t, pp, ip, h, b, wp, False)"
    by (auto simp: reach_shape_def)
  then have inv: "app_inv 0x20000000 s" by (simp add: reach_def)
  note D = shapeD [OF inv sh]
  have inv1: "app_inv 0x20000000 (s\<lparr>ip_pc := pc\<rparr>)" for pc
    using inv D(11) by (simp add: inv_defs place_defs)
  have sh1: "shape (s\<lparr>ip_pc := pc\<rparr>) = (f, r, t, pp, pc, h, b, wp, False)" for pc
    using inv1 D by (intro shapeI [of "0x20000000"]) simp_all
  show "reach_shape True K (f, r, t, pp, Ip_timeouts, h, b, wp, False)" if "ip = Ip_input" "K \<or> h = 0"
  proof -
    have "reach True K (s\<lparr>ip_pc := Ip_timeouts\<rparr>)"
      by (rule reach_step [OF R app_step.input_returns inv1]) (use D that in simp_all)
    with sh1 show ?thesis unfolding reach_shape_def by blast
  qed
  show "reach_shape True K (f, r, t, pp, Ip_wait, h, b, wp, False)" if "ip = Ip_timeouts"
  proof -
    have "reach True K (s\<lparr>ip_pc := Ip_wait\<rparr>)"
      by (rule reach_step [OF R app_step.loop_again inv1]) (use D that in simp_all)
    with sh1 show ?thesis unfolding reach_shape_def by blast
  qed
qed

section \<open>Do the tasks wait for each other?\<close>

text \<open>
  C13. Without lwIP the tasks never wait for each other: when the packet task waits for a buffer, the IP task does not wait,
  has a received packet to take, and its next step gives a buffer back and makes the packet task ready.
\<close>

theorem no_deadlock_without_lwip:
  assumes "app_run False False (bus_ctx d) base s0 es s" "started base s0" "waiting Packet_task s"
  shows "\<not> waiting Ip_task s \<and> ptr_items (ready_packet_buffer_queue s) \<noteq> [] \<and>
    (\<exists>s'. ip_task_ping base s = Some (Ret s') \<and> \<not> waiting Packet_task s')"
proof -
  from run_app_inv [OF assms(1,2)] have inv: "app_inv base s" .
  have free: "ptr_items (free_packet_buffer_queue s) = []" and pc: "packet_pc s = Packet_store"
    using assms(3) awake_queues(3) [OF inv] fifo_waiting_empty [OF app_invD(5) [OF inv]] inv by (auto simp: inv_defs)
  with run_spare [OF assms(1,2)] have ready: "ptr_items (ready_packet_buffer_queue s) \<noteq> []"
    by (simp add: spare_def publishing_def)
  then have awake: "\<not> waiting Ip_task s"
    using awake_queues(4) [OF inv] fifo_waiting_empty [OF app_invD(6) [OF inv]] by blast
  obtain s' where s': "ip_task_ping base s = ret s'" using ping_runs [OF inv] by blast
  have r: "xTasksWaitingToReceive (ready_packet_buffer_queue s) = []" using awake awake_queues(4) [OF inv] by simp
  have "app_step False False (bus_ctx d) base s (ip_ping_events base s s') s'"
    by (rule app_step.ip_ping) (use awake s' in simp_all)
  from config_inv_step [OF this run_inv [OF assms(1,2)]] have "app_inv base s'" by (simp add: config_inv_def)
  moreover have "xTasksWaitingToReceive (free_packet_buffer_queue s') = []"
    using spare_ping [OF inv s' r run_spare [OF assms(1,2)]] ready by blast
  ultimately have "\<not> waiting Packet_task s'" using awake_queues(3) by blast
  with awake ready s' show ?thesis by blast
qed

theorem no_deadlock_without_lwip_witness:
  "\<exists>es s. app_run False False (bus_ctx stream_device) 0x20000000 (app_example bus_start) es s \<and>
     waiting Packet_task s \<and> \<not> waiting Ip_task s"
proof -
  from go_store_all [OF go_fill] have "reach_shape False False
      ([], all_packets 0x20000000, [], Packet_store, Ip_wait, 0, 0, True, False)" by simp
  then obtain es s where run: "app_run False False (bus_ctx stream_device) 0x20000000 (app_example bus_start) es s"
    and w: "waiting Packet_task s" by (auto simp: reach_shape_def reach_def shape_def)
  from no_deadlock_without_lwip [OF run app_example_started w] run w show ?thesis by blast
qed

text \<open>
  C35. With lwIP the two tasks can wait for each other for ever, even when the stack frees every packet before its input function
  returns: when all eight buffers are in the transmit queue while the packet task waits for a free one for a received frame,
  only the packet task could empty the transmit queue, the IP task waits for a frame, and no step of the system is possible any
  more.
\<close>

theorem lwip_deadlock_reachable:
  "\<exists>es s. started 0x20000000 (app_example bus_start) \<and>
     app_run True False (bus_ctx stream_device) 0x20000000 (app_example bus_start) es s \<and>
     length (ptr_items (transmit_packet_queue s)) = 8 \<and> waiting Packet_task s \<and> waiting Ip_task s \<and>
     (\<forall>es' s'. \<not> app_step True False (bus_ctx stream_device) 0x20000000 s es' s')"
proof -
  obtain p ps where all: "all_packets 0x20000000 = p # ps" "length ps = 7"
    by (simp add: all_packets_def upt_rec)
  note fill = go_fill [of True False, unfolded all(1)]
  have "reach_shape True False (ps, [p], [], Packet_read, Ip_wait, 0, 0, False, False)"
    using go_store [OF go_read [OF fill]] by simp
  from go_output_all [OF go_take [OF this]]
  have "reach_shape True False ([], [], ps, Packet_read, Ip_input, 1, p, False, False)" by simp
  from go_pc(1) [OF go_pbuf_free [OF this]]
  have "reach_shape True False ([p], [], ps, Packet_read, Ip_timeouts, 0, p, False, False)" by simp
  from go_output [OF this]
  have "reach_shape True False ([], [], ps @ [p], Packet_read, Ip_timeouts, 0, p, False, False)" by simp
  from go_take_wait [OF go_store_wait [OF go_read [OF go_pc(2) [OF this]]]]
  have "reach_shape True False ([], [], ps @ [p], Packet_store, Ip_wait, 0, p, True, True)" by simp
  then obtain es s where run: "app_run True False (bus_ctx stream_device) 0x20000000 (app_example bus_start) es s"
    and sh: "waiting Packet_task s" "waiting Ip_task s" "ptr_items (transmit_packet_queue s) = ps @ [p]"
    by (auto simp: reach_shape_def reach_def shape_def)
  have "\<not> app_step True False (bus_ctx stream_device) 0x20000000 s es' s'" for es' s'
    using sh by (auto elim: app_step.cases)
  with run sh all(2) app_example_started show ?thesis by (intro exI [of _ es] exI [of _ s]) simp
qed

section \<open>A stack that keeps a packet\<close>




end
