(* ===== verification/App_Frames.thy ===== *)
theory App_Frames
  imports App_Flow "HOL-Library.Sublist"
begin

text \<open>
  The frames of a run: the abstract view of the application is two first-in first-out queues of frames, one from the chip to
  the IP stack and one from the IP stack to the chip. Every step of the tasks is a step of this view, so no frame is lost,
  reordered, duplicated or altered between the queues' ends.
\<close>

section \<open>The abstract view\<close>

definition in_frames :: "u32 \<Rightarrow> 'w app \<Rightarrow> u8 list list" where
  "in_frames base s = map (frame_at base s) (ptr_items (ready_packet_buffer_queue s) @ publishing s)"

definition out_frames :: "u32 \<Rightarrow> 'w app \<Rightarrow> u8 list list" where
  "out_frames base s = map (frame_at base s) (ptr_items (transmit_packet_queue s))"

definition received :: "app_event list \<Rightarrow> u8 list list" where
  "received es = concat (map (\<lambda>e. case e of Received f \<Rightarrow> [f] | _ \<Rightarrow> []) es)"

definition inputs :: "app_event list \<Rightarrow> u8 list list" where
  "inputs es = concat (map (\<lambda>e. case e of Input f \<Rightarrow> [f] | _ \<Rightarrow> []) es)"

definition outputs :: "app_event list \<Rightarrow> u8 list list" where
  "outputs es = concat (map (\<lambda>e. case e of Output f \<Rightarrow> [f] | _ \<Rightarrow> []) es)"

definition transmitted :: "app_event list \<Rightarrow> u8 list list" where
  "transmitted es = concat (map (\<lambda>e. case e of Transmitted f \<Rightarrow> [f] | _ \<Rightarrow> []) es)"

lemmas event_defs = received_def inputs_def outputs_def transmitted_def

lemma event_simps [simp]:
  "received [] = []" "inputs [] = []" "outputs [] = []" "transmitted [] = []"
  "received (es @ es') = received es @ received es'" "inputs (es @ es') = inputs es @ inputs es'"
  "outputs (es @ es') = outputs es @ outputs es'" "transmitted (es @ es') = transmitted es @ transmitted es'"
  "received (Received f # es) = f # received es" "inputs (Received f # es) = inputs es"
  "outputs (Received f # es) = outputs es" "transmitted (Received f # es) = transmitted es"
  "received (Input f # es) = received es" "inputs (Input f # es) = f # inputs es"
  "outputs (Input f # es) = outputs es" "transmitted (Input f # es) = transmitted es"
  "received (Output f # es) = received es" "inputs (Output f # es) = inputs es"
  "outputs (Output f # es) = f # outputs es" "transmitted (Output f # es) = transmitted es"
  "received (Dropped f # es) = received es" "inputs (Dropped f # es) = inputs es"
  "outputs (Dropped f # es) = outputs es" "transmitted (Dropped f # es) = transmitted es"
  "received (Transmitted f # es) = received es" "inputs (Transmitted f # es) = inputs es"
  "outputs (Transmitted f # es) = outputs es" "transmitted (Transmitted f # es) = f # transmitted es"
  by (simp_all add: event_defs)

text \<open>The step of the view, and the frame the IP stack holds.\<close>

definition frames_step :: "u32 \<Rightarrow> 'w app \<Rightarrow> app_event list \<Rightarrow> 'w app \<Rightarrow> bool" where
  "frames_step base s es s' \<longleftrightarrow>
     in_frames base s @ received es = inputs es @ in_frames base s' \<and>
     out_frames base s @ outputs es = transmitted es @ out_frames base s' \<and>
     (0 < held s' \<longrightarrow> (if inputs es = [] then 0 < held s \<and> frame_at base s' (pbuf_ptr s') = frame_at base s (pbuf_ptr s)
        else frame_at base s' (pbuf_ptr s') = last (inputs es)))"

lemma frames_same:
  assumes "eth_packets s' = eth_packets s"
  shows "frame_at base s' = frame_at base s"
  using assms by (simp add: frame_at_def fun_eq_iff split: option.split)

lemmas frame_defs = frames_step_def in_frames_def out_frames_def

section \<open>Every step is a step of the view\<close>

lemma loaded_members:
  "p \<in> set (ptr_items (ready_packet_buffer_queue s)) \<Longrightarrow> p \<in> set (loaded s)"
  "p \<in> set (publishing s) \<Longrightarrow> p \<in> set (loaded s)"
  "p \<in> set (ptr_items (transmit_packet_queue s)) \<Longrightarrow> p \<in> set (loaded s)"
  "0 < held s \<Longrightarrow> pbuf_ptr s \<in> set (loaded s)"
  by (simp_all add: loaded_def holding_def)

lemma frames_kept:
  assumes "\<And>p. p \<in> set (loaded s) \<Longrightarrow> F p = G p"
  shows "map F (ptr_items (ready_packet_buffer_queue s)) = map G (ptr_items (ready_packet_buffer_queue s))"
    "map F (publishing s) = map G (publishing s)"
    "map F (ptr_items (transmit_packet_queue s)) = map G (ptr_items (transmit_packet_queue s))"
    "0 < held s \<Longrightarrow> F (pbuf_ptr s) = G (pbuf_ptr s)"
  by (auto intro: assms loaded_members)

lemma frames_written:
  assumes inv: "app_inv base s" and "i < 8" "ptr_items (free_packet_buffer_queue s) = packet_ptr base i # ps"
    and "length (pkt_data pkt) = MAX_ETH_PACKET_SIZE" "unat (used_bytes pkt) \<le> MAX_ETH_PACKET_SIZE"
    and "eth_packets s' = (eth_packets s)[i := pkt]"
  shows "p \<in> set (loaded s) \<Longrightarrow> frame_at base s' p = frame_at base s p"
    "frame_at base s' (packet_ptr base i) = packet_frame pkt"
proof -
  let ?t = "s\<lparr>eth_packets := (eth_packets s)[i := pkt]\<rparr>"
  have eq: "frame_at base s' = frame_at base ?t" using assms(6) by (intro frames_same) simp
  have "set (loaded ?t) \<subseteq> insert (packet_ptr base i) (set (loaded s))" by (auto simp: place_defs)
  note W = write_buffer(3,4) [OF inv assms(2) free_fresh(1) [OF inv assms(3)] assms(4,5) _ this]
  show "p \<in> set (loaded s) \<Longrightarrow> frame_at base s' p = frame_at base s p" unfolding eq by (rule W(1)) simp_all
  show "frame_at base s' (packet_ptr base i) = packet_frame pkt" unfolding eq by (rule W(2)) simp
qed

lemma frames_store:
  assumes inv: "app_inv base s" and pc: "packet_pc s = Packet_store" and run: "packet_task_store base s = ret s'"
    and awake: "xTasksWaitingToReceive (free_packet_buffer_queue s) = []"
  shows "frames_step base s (packet_task_events base s) s'"
  using inv pc run awake
proof (cases rule: store_result)
  case (wait q)
  then have "frame_at base s' = frame_at base s" by (intro frames_same) simp
  with wait pc show ?thesis by (simp add: frame_defs packet_task_events_def)
next
  case (store i ps q)
  let ?n = "unat (rsv_packet_len (status_vec s))"
  let ?pkt = "\<lparr>pkt_data = take ?n (pkt_buf s) @ drop ?n (pkt_data (eth_packets s ! i)), used_bytes = rsv_packet_len (status_vec s)\<rparr>"
  have n: "?n \<le> MAX_ETH_PACKET_SIZE" using inv pc by (simp add: inv_defs)
  have len: "length (pkt_data ?pkt) = MAX_ETH_PACKET_SIZE"
    using n app_invD(9) [OF inv] app_invD(10) [OF inv store(2)] by simp
  have s': "eth_packets s' = (eth_packets s)[i := ?pkt]" using store(3) by simp
  note W = frames_written [OF inv store(2,1) len _ s']
  have "frame_at base s' (packet_ptr base i) = take ?n (pkt_buf s)"
    using W(2) n app_invD(9) [OF inv] by (simp add: packet_frame_def)
  moreover have kept: "frame_at base s' p = frame_at base s p" if "p \<in> set (loaded s)" for p
    by (rule W(1)) (use n that in simp_all)
  moreover have "ready_packet_buffer_queue s' = ready_packet_buffer_queue s" "publishing s' = [packet_ptr base i]"
    "transmit_packet_queue s' = transmit_packet_queue s" "held s' = held s" "pbuf_ptr s' = pbuf_ptr s" "publishing s = []"
    using pc by (simp_all add: store(3)) (simp add: publishing_def)
  ultimately show ?thesis
    using pc store(1) frames_kept(4) [of s "frame_at base s'" "frame_at base s", OF kept]
    by (simp add: frame_defs packet_task_events_def frames_kept(1-3) [OF kept] del: map_eq_conv)
qed

lemma frames_packet_step:
  assumes inv: "app_inv base s" and awake: "\<not> waiting Packet_task s" and run: "packet_task_step (bus_ctx d) base s = ret s'"
  shows "frames_step base s (packet_task_events base s) s'"
proof (cases "packet_pc s")
  case Packet_fill
  with run have fill: "packet_task_fill base s = ret s'" by (simp add: packet_task_step_def)
  have "loaded s = []" "loaded s' = []"
    using owned_fill [OF inv Packet_fill] inv_fill [OF inv Packet_fill fill] by (simp_all add: owned_def)
  then show ?thesis
    using Packet_fill by (simp add: frame_defs packet_task_events_def loaded_def holding_def)
next
  case Packet_read
  with run have "eth_packets s' = eth_packets s \<and> ready_packet_buffer_queue s' = ready_packet_buffer_queue s \<and>
      transmit_packet_queue s' = transmit_packet_queue s \<and> held s' = held s \<and> pbuf_ptr s' = pbuf_ptr s \<and> publishing s' = []"
    by (auto simp: packet_task_step_def packet_task_read_def after_eq_Ret publishing_def)
  with Packet_read frames_same [of s' s] show ?thesis by (simp add: frame_defs packet_task_events_def publishing_def)
next
  case Packet_store
  with run have "packet_task_store base s = ret s'" by (simp add: packet_task_step_def)
  from frames_store [OF inv Packet_store this awake_queues(1) [OF inv awake]] show ?thesis .
next
  case (Packet_publish p)
  with run have "packet_task_publish p s = ret s'" by (simp add: packet_task_step_def)
  with inv Packet_publish show ?thesis
  proof (rule publish_result)
    fix q assume q: "s' = s\<lparr>ready_packet_buffer_queue := q, packet_pc := Packet_read\<rparr>"
      "ptr_items q = ptr_items (ready_packet_buffer_queue s) @ [p]"
    have "frame_at base s' = frame_at base s" using q(1) by (intro frames_same) simp
    with q Packet_publish show ?thesis by (simp add: frame_defs packet_task_events_def publishing_def)
  qed
next
  case Packet_transmit
  with run have "packet_task_transmit (bus_ctx d) base s = ret s'" by (simp add: packet_task_step_def)
  with inv Packet_transmit show ?thesis
  proof (cases rule: transmit_result)
    case idle
    then have "frame_at base s' = frame_at base s" by (intro frames_same) simp
    with idle Packet_transmit show ?thesis by (simp add: frame_defs packet_task_events_def publishing_def)
  next
    case (sent i ps dd q fq)
    then have "frame_at base s' = frame_at base s" by (intro frames_same) simp
    with sent Packet_transmit show ?thesis by (simp add: frame_defs packet_task_events_def publishing_def)
  qed
next
  case Packet_sleep
  with run have "s' = s\<lparr>packet_pc := Packet_read\<rparr>" by (simp add: packet_task_step_def)
  moreover from this have "frame_at base s' = frame_at base s" by (intro frames_same) simp
  ultimately show ?thesis using Packet_sleep by (simp add: frame_defs packet_task_events_def publishing_def)
qed

definition ping_answers :: "u8 list list \<Rightarrow> u8 list list" where
  "ping_answers frames = map ping_reply (filter ping_request frames)"

lemma ping_answers_simps [simp]:
  "ping_answers [] = []" "ping_answers (fs @ gs) = ping_answers fs @ ping_answers gs"
  "ping_answers (f # fs) = (if ping_request f then ping_reply f # ping_answers fs else ping_answers fs)"
  by (simp_all add: ping_answers_def)

lemma ping_events:
  assumes inv: "app_inv base s" and run: "ip_task_ping base s = ret s'"
    and awake: "xTasksWaitingToReceive (ready_packet_buffer_queue s) = []"
  shows "ip_ping_events base s s' = (case ptr_items (ready_packet_buffer_queue s) of [] \<Rightarrow> []
    | p # _ \<Rightarrow> let f = frame_at base s p in
        Input f # (if ping_request f \<and> ptr_items (free_packet_buffer_queue s) \<noteq> [] then [Output (ping_reply f)] else []))"
  using inv run awake
proof (cases rule: ping_result)
  case (reply p ps q j js fq tq resp)
  have "eth_packets s' = (eth_packets s)[j := resp]" using reply(4) by simp
  note W = frames_written [OF inv reply(3,2,5,6) this]
  have "transmit_packet_queue s' = tq" by (simp add: reply(4))
  then show ?thesis
    by (simp add: ip_ping_events_def Let_def reply(1,2,7,15,17) W(2) del: map_eq_conv)
qed (auto simp: ip_ping_events_def Let_def)

lemma frames_ip_ping:
  assumes inv: "app_inv base s" and run: "ip_task_ping base s = ret s'" and h: "held s = 0"
    and awake: "xTasksWaitingToReceive (ready_packet_buffer_queue s) = []"
  shows "frames_step base s (ip_ping_events base s s') s'"
  using inv run awake
proof (cases rule: ping_result)
  case (wait q)
  then have "frame_at base s' = frame_at base s" by (intro frames_same) simp
  with wait h show ?thesis by (simp add: frame_defs ip_ping_events_def)
next
  case (silent p ps q fq)
  then have "frame_at base s' = frame_at base s" by (intro frames_same) simp
  with silent h show ?thesis by (simp add: frame_defs ip_ping_events_def)
next
  case (reply p ps q j js fq tq resp)
  have s': "eth_packets s' = (eth_packets s)[j := resp]" using reply(4) by simp
  note W = frames_written [OF inv reply(3,2,5,6) s']
  note K = frames_kept [of s "frame_at base s'" "frame_at base s", OF W(1)]
  have "map (frame_at base s') ps = map (frame_at base s) ps" using K(1) reply(1) by simp
  moreover have "ready_packet_buffer_queue s' = q" "publishing s' = publishing s" "transmit_packet_queue s' = tq"
    "held s' = 0" using h by (simp_all add: reply(4))
  ultimately show ?thesis
    using reply(1) by (simp add: frame_defs ip_ping_events_def reply(7,9,15) K(2,3) W(2) del: map_eq_conv)
qed

lemma ping_outputs_step:
  assumes "app_inv base s" "ip_task_ping base s = ret s'" "xTasksWaitingToReceive (ready_packet_buffer_queue s) = []"
  shows "subseq (outputs (ip_ping_events base s s')) (ping_answers (inputs (ip_ping_events base s s')))"
  unfolding ping_events [OF assms] by (simp add: Let_def split: list.split)

lemma frames_take:
  assumes inv: "app_inv base s" and run: "ip_task_take base s = ret s'" and h: "held s = 0"
    and awake: "xTasksWaitingToReceive (ready_packet_buffer_queue s) = []"
  shows "frames_step base s (case ptr_items (ready_packet_buffer_queue s) of [] \<Rightarrow> [] | p # _ \<Rightarrow> [Input (frame_at base s p)]) s'"
  using inv run awake
proof (cases rule: take_result)
  case (wait q)
  then have "frame_at base s' = frame_at base s" by (intro frames_same) simp
  with wait h show ?thesis by (simp add: frame_defs)
next
  case (take p ps q)
  then have "frame_at base s' = frame_at base s" by (intro frames_same) simp
  with take show ?thesis by (simp add: frame_defs)
qed

lemma frames_output:
  assumes inv: "app_inv base s" and run: "enc28_netif_output base frame s = ret s'"
  shows "frames_step base s (if ptr_items (free_packet_buffer_queue s) = [] then [Dropped frame] else [Output frame]) s'"
  using inv run
proof (cases rule: output_result)
  case drop
  then show ?thesis by (simp add: frame_defs)
next
  case (sent i ps q tq)
  let ?pkt = "\<lparr>pkt_data = frame @ drop (length frame) (pkt_data (eth_packets s ! i)), used_bytes = of_nat (length frame)\<rparr>"
  have n: "unat (of_nat (length frame) :: u16) = length frame"
    using sent(3) by (simp add: unsigned_of_nat take_bit_nat_eq_self)
  have len: "length (pkt_data ?pkt) = MAX_ETH_PACKET_SIZE" using sent(3) app_invD(10) [OF inv sent(2)] by simp
  have fit: "unat (used_bytes ?pkt) \<le> MAX_ETH_PACKET_SIZE" using sent(3) n by simp
  have s': "eth_packets s' = (eth_packets s)[i := ?pkt]" using sent(4) by simp
  note W = frames_written [OF inv sent(2,1) len fit s']
  have "frame_at base s' (packet_ptr base i) = frame" using W(2) n by (simp add: packet_frame_def)
  moreover have "ready_packet_buffer_queue s' = ready_packet_buffer_queue s" "publishing s' = publishing s"
    "transmit_packet_queue s' = tq" "held s' = held s" "pbuf_ptr s' = pbuf_ptr s" by (simp_all add: sent(4))
  ultimately show ?thesis
    using sent(1) frames_kept(4) [of s "frame_at base s'" "frame_at base s", OF W(1)]
    by (simp add: frame_defs sent(9) frames_kept(1-3) [OF W(1)] del: map_eq_conv)
qed

lemma frames_pbuf_free:
  assumes inv: "app_inv base s" and h: "0 < held s" and run: "enc28_pbuf_free s = ret s'"
  shows "frames_step base s [] s'"
  using inv h run
proof (rule pbuf_free_result)
  fix q assume q: "s' = s\<lparr>free_packet_buffer_queue := q, held := held s - 1\<rparr>"
  then have "frame_at base s' = frame_at base s" by (intro frames_same) simp
  with q h show ?thesis by (simp add: frame_defs)
qed

lemma frames_app_step:
  assumes step: "app_step use_lwip False (bus_ctx d) base s es s'" and inv: "config_inv use_lwip base s"
  shows "frames_step base s es s' \<and> (\<not> use_lwip \<longrightarrow> subseq (outputs es) (ping_answers (inputs es)))"
proof -
  from inv have i: "app_inv base s" and c: "\<not> use_lwip \<longrightarrow> ip_pc s = Ip_wait" and h: "0 < held s \<longrightarrow> ip_pc s = Ip_input"
    by (simp_all add: config_inv_def)
  have pc: "frames_step base s [] (s\<lparr>ip_pc := pc\<rparr>)" for pc
    using frames_same [of "s\<lparr>ip_pc := pc\<rparr>" s base] by (simp add: frame_defs)
  from step show ?thesis
  proof (cases rule: app_step.cases)
    case packet_task
    have "outputs (packet_task_events base s) = []"
      by (simp add: packet_task_events_def split: packet_pc_t.split list.split)
    with frames_packet_step [OF i] packet_task show ?thesis by simp
  next
    case ip_ping
    with frames_ip_ping [OF i] ping_outputs_step [OF i] awake_queues(2) [OF i] c h show ?thesis by auto
  next
    case ip_take
    with frames_take [OF i] awake_queues(2) [OF i] h show ?thesis by auto
  next
    case (netif_output frame)
    with frames_output [OF i] show ?thesis by simp
  next
    case pbuf_free
    with frames_pbuf_free [OF i] show ?thesis by simp
  next
    case input_returns
    with pc show ?thesis by simp
  next
    case loop_again
    with pc show ?thesis by simp
  qed
qed

text \<open>Only the packet task touches the driver and its frame.\<close>

definition same_packet_side :: "'w app \<Rightarrow> 'w app \<Rightarrow> bool" where
  "same_packet_side s s' \<longleftrightarrow> drv s' = drv s \<and> packet_pc s' = packet_pc s \<and> status_vec s' = status_vec s \<and> pkt_buf s' = pkt_buf s"

lemma ip_reply_side: "ip_task_reply base i s = ret s' \<Longrightarrow> same_packet_side s s'"
  by (auto simp: ip_task_reply_def deref_packet_def same_packet_side_def Let_def split: if_splits option.splits prod.splits)

lemma ip_side:
  "ip_task_ping base s = ret s' \<Longrightarrow> same_packet_side s s'"
  "ip_task_take base s = ret s' \<Longrightarrow> same_packet_side s s'"
  "enc28_netif_output base frame s = ret s' \<Longrightarrow> same_packet_side s s'"
  "enc28_pbuf_free s = ret s' \<Longrightarrow> same_packet_side s s'"
proof -
  show "same_packet_side s s'" if "ip_task_ping base s = ret s'"
    using that by (auto simp: ip_task_ping_def deref_packet_def after_eq_Ret same_packet_side_def
        split: if_splits option.splits dest!: ip_reply_side)
qed (auto simp: ip_task_take_def enc28_netif_output_def enc28_pbuf_free_def deref_packet_def same_packet_side_def Let_def
    split: if_splits option.splits)

section \<open>Whole runs\<close>

lemma frames_run:
  assumes "app_run use_lwip False (bus_ctx d) base s0 es s" "started base s0"
  shows "received es = inputs es @ in_frames base s \<and> outputs es = transmitted es @ out_frames base s \<and>
    (0 < held s \<longrightarrow> inputs es \<noteq> [] \<and> frame_at base s (pbuf_ptr s) = last (inputs es)) \<and>
    (\<not> use_lwip \<longrightarrow> subseq (outputs es) (ping_answers (inputs es)))"
  using assms
proof (induction rule: app_run.induct)
  case start
  then show ?case by (simp add: started_def in_frames_def out_frames_def publishing_def)
next
  case (step es s es' s')
  have inv: "config_inv use_lwip base s" by (rule run_inv [OF step.hyps(1) step.prems])
  note F = frames_app_step [OF step.hyps(2) inv] and IH = step.IH [OF step.prems]
  have "received (es @ es') = inputs (es @ es') @ in_frames base s'"
    "outputs (es @ es') = transmitted (es @ es') @ out_frames base s'"
    using F IH by (simp_all add: frames_step_def)
  moreover have "0 < held s' \<longrightarrow> inputs (es @ es') \<noteq> [] \<and> frame_at base s' (pbuf_ptr s') = last (inputs (es @ es'))"
    using F IH by (cases "inputs es' = []") (simp_all add: frames_step_def)
  moreover have "subseq (outputs es @ outputs es') (ping_answers (inputs es) @ ping_answers (inputs es'))" if "\<not> use_lwip"
    by (rule list_emb_append_mono) (use F IH that in blast)+
  then have "\<not> use_lwip \<longrightarrow> subseq (outputs (es @ es')) (ping_answers (inputs (es @ es')))"
    by simp
  ultimately show ?case by blast
qed

text \<open>
  C3. Over every run of the system, the frames handed to the IP stack are the first of those the packet task stored, in their
  order and byte for byte, the rest being the frames waiting in the ready queue; and the frames the driver took for transmission are
  the first of those the IP stack output, the rest waiting in the transmit queue. While the IP stack holds a packet, the packet's
  buffer keeps the frame that was handed over last.
\<close>

theorem frames_delivered_in_order:
  assumes "app_run use_lwip False (bus_ctx d) base s0 es s" "started base s0"
  shows "received es = inputs es @ map (frame_at base s) (ptr_items (ready_packet_buffer_queue s) @ publishing s)
    \<and> outputs es = transmitted es @ map (frame_at base s) (ptr_items (transmit_packet_queue s))
    \<and> (0 < held s \<longrightarrow> inputs es \<noteq> [] \<and> frame_at base s (pbuf_ptr s) = last (inputs es))"
  using frames_run [OF assms] by (simp add: in_frames_def out_frames_def)

text \<open>
  Without lwIP everything the IP task puts out is the reply to a ping request it was handed, in the order of the requests: the
  request with the addresses swapped, the ICMP type 0 and the checksum field raised by 8. No frame is answered twice.
\<close>

theorem ping_outputs_are_replies:
  assumes "app_run False False (bus_ctx d) base s0 es s" "started base s0"
  shows "subseq (outputs es) (ping_answers (inputs es))"
  using frames_run [OF assms] by blast

text \<open>
  C16. Without lwIP, in every reachable state in which the IP task runs and a received frame is ready, the task takes the oldest one
  and answers it exactly when it is a ping request and a buffer is free.
\<close>

theorem ping_request_answered:
  assumes "app_run False False (bus_ctx d) base s0 es s" "started base s0" "\<not> waiting Ip_task s"
    and "ptr_items (ready_packet_buffer_queue s) = p # ps"
  shows "\<exists>s'. ip_task_ping base s = Some (Ret s') \<and> ptr_items (ready_packet_buffer_queue s') = ps \<and>
    (let f = frame_at base s p in ip_ping_events base s s' =
       Input f # (if ping_request f \<and> ptr_items (free_packet_buffer_queue s) \<noteq> [] then [Output (ping_reply f)] else []))"
proof -
  from run_app_inv [OF assms(1,2)] have inv: "app_inv base s" .
  have awake: "xTasksWaitingToReceive (ready_packet_buffer_queue s) = []" using assms(3) awake_queues(4) [OF inv] by simp
  obtain s' where run: "ip_task_ping base s = ret s'" using ping_runs [OF inv] by blast
  have "ptr_items (ready_packet_buffer_queue s') = ps" using inv run awake assms(4) by (cases rule: ping_result) simp_all
  with run ping_events [OF inv run awake] assms(4) show ?thesis by simp
qed

section \<open>A run with a ping\<close>

text \<open>A device that has one frame ready, a ping request, until its data have been read.\<close>

definition ping_device :: bus_device where
  "ping_device =
     \<lparr>in_answer = (\<lambda>tr n. if n = 1 then [if OUT [0x3A] \<in> set tr then 0 else 0x48] else take n (ping_example 7)),
      in_out_answer = (\<lambda>_ _. [0, 0, 0, 42, 0, 0x80, 0])\<rparr>"

lemma ping_device_read:
  assumes "length buf = 1600"
  shows "\<exists>v d. enc28_read_packet (Some (bus_ctx ping_device)) (Some buf) 1600 (Some v0) bus_start
    = ret ((ENC28_OK, Some (ping_example 7 @ drop 42 buf), Some v), d) \<and> rsv_packet_len v = 42 \<and> OUT [0x3A] \<in> set (world d)"
  using assms
  by (simp add: enc28_read_packet_def read_packet_pending_def read_packet_release_def body_simps packet_window_folds
      run_simps bus_simps device_simps ping_device_def ping_example_def bus_rbm_header [OF refl] bus_rbm_data
      rsv_of_header_def rsv_bits_16_23_of_byte_def rsv_packet_len_def rx_read_ptr_def bytes16_def BIT_def
      ev_rcr_def ev_wcr_def ev_rbm_def spi_command_byte_def cong: run_congs)

lemma ping_device_done:
  assumes "OUT [0x3A] \<in> set (world s)"
  shows "\<exists>d. enc28_read_packet (Some (bus_ctx ping_device)) (Some buf) n vec s = ret ((ENC28_NO_DATA, Some buf, vec), d) \<and>
      OUT [0x3A] \<in> set (world d)"
    and "unat m \<le> length buf \<Longrightarrow> \<not> m < 14 \<Longrightarrow>
      \<exists>d. enc28_write_packet (Some (bus_ctx ping_device)) (Some buf) m s = ret (ENC28_OK, d)"
  using assms
  by (simp_all add: enc28_read_packet_def enc28_write_packet_def body_simps packet_window_folds
      run_simps bus_simps device_simps ping_device_def BIT_def cong: run_congs)

lemma run_packet_step:
  assumes "\<exists>es. app_run False False (bus_ctx d) base s0 es s" and st: "started base s0"
    and awake: "xTasksWaitingToReceive (free_packet_buffer_queue s) = []"
    and step: "packet_task_step (bus_ctx d) base s = ret s'"
  shows "(\<exists>es. app_run False False (bus_ctx d) base s0 es s') \<and> app_inv base s'"
proof -
  from assms(1) obtain es where run: "app_run False False (bus_ctx d) base s0 es s" by blast
  from run_app_inv [OF run st] have "\<not> waiting Packet_task s" using awake awake_queues(3) by blast
  then have r: "app_run False False (bus_ctx d) base s0 (es @ packet_task_events base s) s'"
    using app_run.step [OF run app_step.packet_task [OF _ step]] by blast
  from r run_app_inv [OF r st] show ?thesis by blast
qed

lemma store_and_publish:
  assumes run: "\<exists>es. app_run False False (bus_ctx d) base s0 es s" and st: "started base s0" and inv: "app_inv base s"
    and pc: "packet_pc s = Packet_store" and free: "ptr_items (free_packet_buffer_queue s) = p # ps"
    and awake: "xTasksWaitingToReceive (free_packet_buffer_queue s) = []"
  shows "\<exists>s'. (\<exists>es. app_run False False (bus_ctx d) base s0 es s') \<and> app_inv base s' \<and> packet_pc s' = Packet_read \<and>
     drv s' = drv s \<and> ptr_items (free_packet_buffer_queue s') = ps \<and> xTasksWaitingToReceive (free_packet_buffer_queue s') = [] \<and>
     ptr_items (ready_packet_buffer_queue s') = ptr_items (ready_packet_buffer_queue s) @ [p] \<and>
     xTasksWaitingToReceive (ready_packet_buffer_queue s') = [] \<and> transmit_packet_queue s' = transmit_packet_queue s \<and>
     frame_at base s' p = take (unat (rsv_packet_len (status_vec s))) (pkt_buf s)"
proof -
  let ?n = "unat (rsv_packet_len (status_vec s))"
  have n: "?n \<le> length (pkt_buf s)" using inv pc by (simp add: inv_defs)
  obtain s1 where run1: "packet_task_store base s = ret s1" using store_runs [OF inv pc] by blast
  obtain i where s1: "packet_pc s1 = Packet_publish p" "i < 8" "p = packet_ptr base i" "ptr_items (free_packet_buffer_queue s1) = ps"
    "xTasksWaitingToReceive (free_packet_buffer_queue s1) = []" "drv s1 = drv s"
    "ready_packet_buffer_queue s1 = ready_packet_buffer_queue s" "transmit_packet_queue s1 = transmit_packet_queue s"
    "eth_packets s1 = (eth_packets s)[i := \<lparr>pkt_data = take ?n (pkt_buf s) @ drop ?n (pkt_data (eth_packets s ! i)),
       used_bytes = rsv_packet_len (status_vec s)\<rparr>]"
    using inv pc run1 awake by (cases rule: store_result) (use free in \<open>simp_all\<close>)
  have "packet_task_step (bus_ctx d) base s = ret s1" using run1 pc by (simp add: packet_task_step_def)
  from run_packet_step [OF run st awake this] have R1: "(\<exists>es. app_run False False (bus_ctx d) base s0 es s1) \<and> app_inv base s1" .
  then have i1: "app_inv base s1" ..
  obtain s2 where run2: "packet_task_publish p s1 = ret s2" using publish_runs [OF i1 s1(1)] by blast
  have s2: "eth_packets s2 = eth_packets s1" "free_packet_buffer_queue s2 = free_packet_buffer_queue s1"
    "ptr_items (ready_packet_buffer_queue s2) = ptr_items (ready_packet_buffer_queue s1) @ [p]"
    "xTasksWaitingToReceive (ready_packet_buffer_queue s2) = []"
    "packet_pc s2 = Packet_read" "drv s2 = drv s1" "transmit_packet_queue s2 = transmit_packet_queue s1"
    by (rule publish_result [OF i1 s1(1) run2]; simp)+
  have "packet_task_step (bus_ctx d) base s1 = ret s2" using run2 s1(1) by (simp add: packet_task_step_def)
  from run_packet_step [OF conjunct1 [OF R1] st s1(5) this]
  have R2: "(\<exists>es. app_run False False (bus_ctx d) base s0 es s2) \<and> app_inv base s2" .
  moreover have "frame_at base s2 p = take ?n (pkt_buf s)"
    using s1(2,3,9) s2(1) inv n by (simp add: frame_at_def packet_frame_def inv_defs)
  ultimately show ?thesis using s1 s2 by (intro exI [of _ s2]) simp
qed

lemma one_frame_run:
  assumes read: "enc28_read_packet (Some (bus_ctx d)) (Some (replicate 1600 0)) 1600 (Some (rsv_of_header (replicate 7 0))) bus_start
      = ret ((ENC28_OK, Some buf, Some v), dd)"
  shows "\<exists>es s p. app_run False False (bus_ctx d) 0x20000000 (app_example bus_start) es s \<and>
     \<not> waiting Ip_task s \<and> ptr_items (ready_packet_buffer_queue s) = [p] \<and>
     frame_at 0x20000000 s p = take (unat (rsv_packet_len v)) buf \<and> ptr_items (free_packet_buffer_queue s) \<noteq> [] \<and>
     xTasksWaitingToReceive (free_packet_buffer_queue s) = [] \<and> ptr_items (transmit_packet_queue s) = [] \<and>
     packet_pc s = Packet_read \<and> drv s = dd"
proof -
  let ?b = "0x20000000 :: u32" and ?d = "bus_ctx d" and ?s = "app_example bus_start"
  let ?run = "app_run False False ?d ?b ?s"
  have st: "started ?b ?s" by (rule app_example_started)
  then have inv: "app_inv ?b ?s" using started_inv by (auto simp: config_inv_def)
  have pc: "packet_pc ?s = Packet_fill" using st by (simp add: started_def)
  obtain s1 where s1: "packet_task_fill ?b ?s = ret s1" "packet_pc s1 = Packet_read" "pkt_buf s1 = pkt_buf ?s"
    "ready_packet_buffer_queue s1 = ready_packet_buffer_queue ?s" "drv s1 = drv ?s"
    "transmit_packet_queue s1 = transmit_packet_queue ?s" "status_vec s1 = status_vec ?s"
    by (rule fill_runs [OF inv pc])
  have "packet_task_step ?d ?b ?s = ret s1" using s1(1) pc by (simp add: packet_task_step_def)
  then have R1: "(\<exists>es. ?run es s1) \<and> app_inv ?b s1"
    using st by (intro run_packet_step [OF _ st]) (auto simp: started_def intro: app_run.start)
  then have i1: "app_inv ?b s1" ..
  have f1: "ptr_items (free_packet_buffer_queue s1) = all_packets ?b" using inv_fill [OF inv pc s1(1)] by simp
  have a1: "xTasksWaitingToReceive (free_packet_buffer_queue s1) = []" using i1 s1(2) by (auto simp: inv_defs)
  let ?s2 = "s1\<lparr>drv := dd, pkt_buf := buf, status_vec := v, packet_pc := Packet_store\<rparr>"
  have "drv s1 = bus_start" "pkt_buf s1 = replicate 1600 0" "status_vec s1 = rsv_of_header (replicate 7 0)"
    using s1 by (simp_all add: app_example_def del: replicate.simps)
  then have "packet_task_step ?d ?b s1 = ret ?s2" using read s1(2) by (simp add: packet_task_step_def packet_task_read_def)
  from run_packet_step [OF conjunct1 [OF R1] st a1 this] have R2: "(\<exists>es. ?run es ?s2) \<and> app_inv ?b ?s2" .
  obtain p q ps where all: "all_packets ?b = p # q # ps" by (simp add: all_packets_def upt_rec)
  obtain s3 where s3: "\<exists>es. ?run es s3" "app_inv ?b s3" "packet_pc s3 = Packet_read" "drv s3 = dd"
    "ptr_items (free_packet_buffer_queue s3) = q # ps" "xTasksWaitingToReceive (free_packet_buffer_queue s3) = []"
    "ptr_items (ready_packet_buffer_queue s3) = [p]" "xTasksWaitingToReceive (ready_packet_buffer_queue s3) = []"
    "transmit_packet_queue s3 = transmit_packet_queue ?s" "frame_at ?b s3 p = take (unat (rsv_packet_len v)) buf"
    using store_and_publish [OF conjunct1 [OF R2] st conjunct2 [OF R2]] f1 a1 all s1(4,6) st by (auto simp: started_def)
  have "\<not> waiting Ip_task s3" using s3(2,8) awake_queues(4) by blast
  moreover have "ptr_items (transmit_packet_queue s3) = []" using s3(9) st by (simp add: started_def)
  ultimately show ?thesis using s3 by force
qed

lemma ping_run:
  "\<exists>es s p. app_run False False (bus_ctx ping_device) 0x20000000 (app_example bus_start) es s \<and>
     \<not> waiting Ip_task s \<and> ptr_items (ready_packet_buffer_queue s) = [p] \<and> frame_at 0x20000000 s p = ping_example 7 \<and>
     ptr_items (free_packet_buffer_queue s) \<noteq> [] \<and> xTasksWaitingToReceive (free_packet_buffer_queue s) = [] \<and>
     ptr_items (transmit_packet_queue s) = [] \<and> packet_pc s = Packet_read \<and> OUT [0x3A] \<in> set (world (drv s))"
proof -
  obtain v dd where r: "enc28_read_packet (Some (bus_ctx ping_device)) (Some (replicate 1600 0)) 1600
      (Some (rsv_of_header (replicate 7 0))) bus_start = ret ((ENC28_OK, Some (ping_example 7 @ drop 42 (replicate 1600 0)), Some v), dd)"
    and v: "rsv_packet_len v = 42" "OUT [0x3A] \<in> set (world dd)"
    using ping_device_read [of "replicate 1600 0"] by (metis length_replicate)
  have "take (unat (rsv_packet_len v)) (ping_example 7 @ xs) = ping_example 7" for xs
    by (simp add: v(1)) (simp add: ping_example_def)
  then show ?thesis using one_frame_run [OF r] v(2) by metis
qed

lemma ping_request_example: "ping_request (ping_example 7)"
proof -
  have "length (ping_example 7) = 42" by (simp add: ping_example_def)
  then show ?thesis using ping_example_request [of 7] by (simp add: ping_request_def)
qed

lemma ping_run_answered:
  "\<exists>es s. app_run False False (bus_ctx ping_device) 0x20000000 (app_example bus_start) es s \<and>
     ping_reply (ping_example 7) \<in> set (outputs es)"
proof -
  let ?b = "0x20000000 :: u32"
  obtain es s p where run: "app_run False False (bus_ctx ping_device) ?b (app_example bus_start) es s"
    and s: "\<not> waiting Ip_task s" "ptr_items (ready_packet_buffer_queue s) = [p]" "frame_at ?b s p = ping_example 7"
      "ptr_items (free_packet_buffer_queue s) \<noteq> []"
    using ping_run by blast
  from run_app_inv [OF run app_example_started] have inv: "app_inv ?b s" .
  obtain s' where ping: "ip_task_ping ?b s = ret s'" using ping_runs [OF inv] by blast
  have "xTasksWaitingToReceive (ready_packet_buffer_queue s) = []" using s(1) awake_queues(4) [OF inv] by simp
  from ping_events [OF inv ping this] have "ping_reply (ping_example 7) \<in> set (outputs (ip_ping_events ?b s s'))"
    using s ping_request_example by (simp add: Let_def)
  moreover have "app_run False False (bus_ctx ping_device) ?b (app_example bus_start) (es @ ip_ping_events ?b s s') s'"
    by (rule app_run.step [OF run app_step.ip_ping [OF _ s(1) ping]]) simp
  ultimately show ?thesis by (metis event_simps(7) set_append UnCI)
qed

theorem frames_delivered_in_order_witness:
  "\<exists>es s p. app_run False False (bus_ctx ping_device) 0x20000000 (app_example bus_start) es s \<and>
     ptr_items (ready_packet_buffer_queue s) = [p] \<and>
     received es = inputs es @ ping_example 7 # map (frame_at 0x20000000 s) (publishing s)"
proof -
  obtain es s p where run: "app_run False False (bus_ctx ping_device) 0x20000000 (app_example bus_start) es s"
    and s: "ptr_items (ready_packet_buffer_queue s) = [p]" "frame_at 0x20000000 s p = ping_example 7"
    using ping_run by blast
  from frames_delivered_in_order [OF run app_example_started] run s show ?thesis by auto
qed

theorem ping_outputs_are_replies_witness:
  "\<exists>es s. app_run False False (bus_ctx ping_device) 0x20000000 (app_example bus_start) es s \<and>
     ping_reply (ping_example 7) \<in> set (outputs es) \<and> subseq (outputs es) (ping_answers (inputs es))"
proof -
  obtain es s where run: "app_run False False (bus_ctx ping_device) 0x20000000 (app_example bus_start) es s"
    and out: "ping_reply (ping_example 7) \<in> set (outputs es)"
    using ping_run_answered by blast
  from ping_outputs_are_replies [OF run app_example_started] run out show ?thesis by blast
qed

theorem ping_request_answered_witness:
  "\<exists>s s' :: bus_event list app. ip_task_ping 0x20000000 s = Some (Ret s') \<and>
     ip_ping_events 0x20000000 s s' = [Input (ping_example 7), Output (ping_reply (ping_example 7))]"
proof -
  obtain es s p where run: "app_run False False (bus_ctx ping_device) 0x20000000 (app_example bus_start) es s"
    and s: "\<not> waiting Ip_task s" "ptr_items (ready_packet_buffer_queue s) = [p]" "frame_at 0x20000000 s p = ping_example 7"
      "ptr_items (free_packet_buffer_queue s) \<noteq> []"
    using ping_run by blast
  from ping_request_answered [OF run app_example_started s(1,2)] s(3,4) ping_request_example show ?thesis
    by (auto simp: Let_def)
qed

end
