(* ===== verification/App_Turns.thy ===== *)
theory App_Turns
  imports App_Runs App_Frames
begin

text \<open>
  How long a frame waits. Towards the application: without lwIP, each turn of the IP task hands over one frame, whatever the packet
  task does in between, and the task can take its turn as long as a frame is ready. Towards the chip: each time the packet task
  comes to its transmission one frame goes out, but it does not come there while the chip has a frame to read.
\<close>

section \<open>Turns\<close>

text \<open>
  A stretch of a run without lwIP, with the number of the IP task's turns and of the packet task's visits to its transmission.
\<close>

inductive turns ::
  "'w ENC28_SPI_Context \<Rightarrow> u32 \<Rightarrow> 'w app \<Rightarrow> nat \<Rightarrow> nat \<Rightarrow> app_event list \<Rightarrow> 'w app \<Rightarrow> bool"
  for ctx :: "'w ENC28_SPI_Context" and base :: u32 and s0 :: "'w app"
where
  none: "turns ctx base s0 0 0 [] s0"
| packet_turn: "turns ctx base s0 i t es s \<Longrightarrow> \<not> waiting Packet_task s \<Longrightarrow> packet_task_step ctx base s = ret s' \<Longrightarrow>
    turns ctx base s0 i (if packet_pc s = Packet_transmit then Suc t else t) (es @ packet_task_events base s) s'"
| ip_turn: "turns ctx base s0 i t es s \<Longrightarrow> \<not> waiting Ip_task s \<Longrightarrow> ip_task_ping base s = ret s' \<Longrightarrow>
    turns ctx base s0 (Suc i) t (es @ ip_ping_events base s s') s'"

lemma turns_run:
  assumes "turns ctx base s i t es s'" "app_run False keeps ctx base s0 es0 s"
  shows "app_run False keeps ctx base s0 (es0 @ es) s'"
  using assms
  by (induction rule: turns.induct)
    (auto intro: app_run.step app_step.packet_task app_step.ip_ping simp flip: append_assoc)

text \<open>What each turn does to the number of frames in the queues.\<close>

lemma ip_turn_count:
  assumes "app_inv base s" "ip_task_ping base s = ret s'" "\<not> waiting Ip_task s"
  shows "length (ptr_items (ready_packet_buffer_queue s')) = length (ptr_items (ready_packet_buffer_queue s)) - 1"
    and "length (inputs (ip_ping_events base s s')) = min 1 (length (ptr_items (ready_packet_buffer_queue s)))"
    and "length (ptr_items (transmit_packet_queue s)) \<le> length (ptr_items (transmit_packet_queue s'))"
    and "transmitted (ip_ping_events base s s') = []"
proof -
  have awake: "xTasksWaitingToReceive (ready_packet_buffer_queue s) = []" using assms(3) awake_queues(4) [OF assms(1)] by simp
  note R = ping_result [OF assms(1,2) awake] and E = ping_events [OF assms(1,2) awake]
  show "length (ptr_items (ready_packet_buffer_queue s')) = length (ptr_items (ready_packet_buffer_queue s)) - 1"
    by (rule R) simp_all
  show "length (ptr_items (transmit_packet_queue s)) \<le> length (ptr_items (transmit_packet_queue s'))"
    by (rule R) simp_all
  show "length (inputs (ip_ping_events base s s')) = min 1 (length (ptr_items (ready_packet_buffer_queue s)))"
    "transmitted (ip_ping_events base s s') = []"
    by (simp_all add: E Let_def split: list.split)
qed

lemma packet_turn_count:
  assumes inv: "app_inv base s" and run: "packet_task_step (bus_ctx d) base s = ret s'" and awake: "\<not> waiting Packet_task s"
  shows "length (ptr_items (ready_packet_buffer_queue s)) \<le> length (ptr_items (ready_packet_buffer_queue s')) \<and>
    inputs (packet_task_events base s) = [] \<and>
    length (ptr_items (transmit_packet_queue s)) =
      length (ptr_items (transmit_packet_queue s')) + length (transmitted (packet_task_events base s)) \<and>
    (packet_pc s = Packet_transmit \<and> ptr_items (transmit_packet_queue s) \<noteq> [] \<longrightarrow>
      length (transmitted (packet_task_events base s)) = 1)"
proof (cases "packet_pc s")
  case Packet_fill
  then have "packet_task_fill base s = ret s'" using run by (simp add: packet_task_step_def)
  from fill_runs [OF inv Packet_fill] this obtain "ready_packet_buffer_queue s' = ready_packet_buffer_queue s"
    "transmit_packet_queue s' = transmit_packet_queue s" by (metis option.inject outcome.inject)
  with Packet_fill show ?thesis by (simp add: packet_task_events_def)
next
  case Packet_read
  with run show ?thesis
    by (auto simp: packet_task_step_def packet_task_read_def packet_task_events_def after_eq_Ret)
next
  case Packet_store
  with run have "packet_task_store base s = ret s'" by (simp add: packet_task_step_def)
  with inv Packet_store show ?thesis
    by (rule store_result) (use awake_queues(1) [OF inv awake] Packet_store in \<open>simp_all add: packet_task_events_def\<close>)
next
  case (Packet_publish p)
  with run have "packet_task_publish p s = ret s'" by (simp add: packet_task_step_def)
  with inv Packet_publish show ?thesis
    by (rule publish_result) (use Packet_publish in \<open>simp add: packet_task_events_def\<close>)
next
  case Packet_transmit
  with run have "packet_task_transmit (bus_ctx d) base s = ret s'" by (simp add: packet_task_step_def)
  with inv Packet_transmit show ?thesis
    by (rule transmit_result) (use Packet_transmit in \<open>simp_all add: packet_task_events_def\<close>)
next
  case Packet_sleep
  with run show ?thesis by (auto simp: packet_task_step_def packet_task_events_def)
qed

text \<open>As many frames leave a queue as there were turns, unless all that waited at the start have left it.\<close>

lemma turns_serve:
  assumes "turns (bus_ctx d) base s i t es s'" "app_run False False (bus_ctx d) base s0 es0 s" "started base s0"
  shows "length (ptr_items (ready_packet_buffer_queue s))
      \<le> length (ptr_items (ready_packet_buffer_queue s')) + length (inputs es) \<and>
    min i (length (ptr_items (ready_packet_buffer_queue s))) \<le> length (inputs es) \<and>
    length (ptr_items (transmit_packet_queue s))
      \<le> length (ptr_items (transmit_packet_queue s')) + length (transmitted es) \<and>
    min t (length (ptr_items (transmit_packet_queue s))) \<le> length (transmitted es)"
  using assms
proof (induction rule: turns.induct)
  case none
  then show ?case by simp
next
  case (packet_turn i t es s1 s2)
  have inv: "app_inv base s1" by (rule run_app_inv [OF turns_run [OF packet_turn.hyps(1) packet_turn.prems(1)] packet_turn.prems(2)])
  note C = packet_turn_count [OF inv packet_turn.hyps(3,2)] and IH = packet_turn.IH [OF packet_turn.prems]
  show ?case using C IH by (cases "ptr_items (transmit_packet_queue s1) = []") auto
next
  case (ip_turn i t es s1 s2)
  have inv: "app_inv base s1" by (rule run_app_inv [OF turns_run [OF ip_turn.hyps(1) ip_turn.prems(1)] ip_turn.prems(2)])
  note C = ip_turn_count [OF inv ip_turn.hyps(3,2)] and IH = ip_turn.IH [OF ip_turn.prems]
  show ?case using C IH by (cases "ptr_items (ready_packet_buffer_queue s1) = []") auto
qed

lemma turns_frames:
  assumes "turns (bus_ctx d) base s i t es s'" "app_run False False (bus_ctx d) base s0 es0 s" "started base s0"
  shows "in_frames base s @ received es = inputs es @ in_frames base s' \<and>
    out_frames base s @ outputs es = transmitted es @ out_frames base s'"
proof -
  note run = turns_run [OF assms(1,2)]
  from frames_run [OF assms(2,3)] frames_run [OF run assms(3)] show ?thesis by simp
qed


lemma prefix_of_queue:
  assumes "xs @ ys = zs @ ws" "min k (length xs) \<le> length zs"
  shows "prefix (take k xs) zs"
proof -
  have "take (min k (length xs)) (zs @ ws) = take k xs"
    unfolding assms(1) [symmetric] by (simp add: min_def)
  with assms(2) have "take (min k (length xs)) zs = take k xs" by simp
  then show ?thesis by (metis take_is_prefix)
qed

text \<open>
  C14. Without lwIP, from any reachable state on: after \<open>i\<close> turns of the IP task, with any steps of the packet task between
  them, at least the first \<open>i\<close> frames of the ready queue have been handed over, in their order and unaltered; after \<open>t\<close> visits
  of the packet task to its transmission, the first \<open>t\<close> frames of the transmit queue have gone out. And as long as a frame is ready
  the IP task is not blocked and its next turn succeeds.
\<close>

theorem frames_served_by_turns:
  assumes "app_run False False (bus_ctx d) base s0 es0 s" "started base s0" "turns (bus_ctx d) base s i t es s'"
  shows "prefix (take i (map (frame_at base s) (ptr_items (ready_packet_buffer_queue s)))) (inputs es) \<and>
    prefix (take t (map (frame_at base s) (ptr_items (transmit_packet_queue s)))) (transmitted es) \<and>
    (ptr_items (ready_packet_buffer_queue s') \<noteq> [] \<longrightarrow>
       \<not> waiting Ip_task s' \<and> (\<exists>s''. ip_task_ping base s' = Some (Ret s'')))"
proof -
  note count = turns_serve [OF assms(3,1,2)] and frames = turns_frames [OF assms(3,1,2)]
  have inv: "app_inv base s'" by (rule run_app_inv [OF turns_run [OF assms(3,1)] assms(2)])
  have "prefix (take i (map (frame_at base s) (ptr_items (ready_packet_buffer_queue s)))) (inputs es)"
    by (rule prefix_of_queue [of _ "map (frame_at base s) (publishing s) @ received es" _ "in_frames base s'"])
      (use count frames in \<open>simp_all add: in_frames_def\<close>)
  moreover have "prefix (take t (map (frame_at base s) (ptr_items (transmit_packet_queue s)))) (transmitted es)"
    by (rule prefix_of_queue [of _ "outputs es" _ "out_frames base s'"])
      (use count frames in \<open>simp_all add: out_frames_def\<close>)
  moreover have "\<not> waiting Ip_task s'" if "ptr_items (ready_packet_buffer_queue s') \<noteq> []"
    using that awake_queues(4) [OF inv] fifo_waiting_empty [OF app_invD(6) [OF inv]] by blast
  ultimately show ?thesis using ping_runs [OF inv] by blast
qed

theorem frames_served_by_turns_witness:
  "\<exists>es0 s es s'. app_run False False (bus_ctx stream_device) 0x20000000 (app_example bus_start) es0 s \<and>
     turns (bus_ctx stream_device) 0x20000000 s 1 0 es s' \<and> inputs es \<noteq> []"
proof -
  obtain p ps where all: "all_packets 0x20000000 = p # ps" by (simp add: all_packets_def upt_rec)
  from go_store [OF go_read [OF go_fill [of False False, unfolded all]]]
  have "reach_shape False False (ps, [p], [], Packet_read, Ip_wait, 0, 0, False, False)" by simp
  then obtain es0 s where run: "app_run False False (bus_ctx stream_device) 0x20000000 (app_example bus_start) es0 s"
    and sh: "ptr_items (ready_packet_buffer_queue s) \<noteq> []" "\<not> waiting Ip_task s"
    by (auto simp: reach_shape_def reach_def shape_def)
  have "app_inv 0x20000000 s" using run_app_inv [OF run app_example_started] .
  then obtain s' where "ip_task_ping 0x20000000 s = ret s'" using ping_runs by blast
  from turns.ip_turn [OF turns.none sh(2) this] obtain es where t: "turns (bus_ctx stream_device) 0x20000000 s 1 0 es s'"
    by auto
  from frames_served_by_turns [OF run app_example_started t] sh(1) have "inputs es \<noteq> []"
    by (cases "ptr_items (ready_packet_buffer_queue s)") auto
  with run t show ?thesis by blast
qed

section \<open>A chip that is never idle\<close>

text \<open>Every read of the packet task finds a frame.\<close>

definition always_busy :: "bus_device \<Rightarrow> bool" where
  "always_busy d \<longleftrightarrow> (\<forall>buf vec s. length buf = MAX_ETH_PACKET_SIZE \<longrightarrow>
     (\<exists>buf' vec' s'. enc28_read_packet (Some (bus_ctx d)) (Some buf) (of_nat MAX_ETH_PACKET_SIZE) (Some vec) s
        = Some (Ret ((ENC28_OK, Some buf', Some vec'), s'))))"

lemma busy_packet_step:
  assumes inv: "app_inv base s" and busy: "always_busy d" and pc: "packet_pc s \<noteq> Packet_transmit"
    and awake: "\<not> waiting Packet_task s" and run: "packet_task_step (bus_ctx d) base s = ret s'"
  shows "packet_pc s' \<noteq> Packet_transmit \<and> transmitted (packet_task_events base s) = []"
proof (cases "packet_pc s")
  case Packet_fill
  then have "packet_task_fill base s = ret s'" using run by (simp add: packet_task_step_def)
  from fill_runs [OF inv Packet_fill] this have "packet_pc s' = Packet_read" by (metis option.inject outcome.inject)
  with Packet_fill show ?thesis by (simp add: packet_task_events_def)
next
  case Packet_read
  from busy app_invD(9) [OF inv] obtain b v dd where
    "enc28_read_packet (Some (bus_ctx d)) (Some (pkt_buf s)) (of_nat MAX_ETH_PACKET_SIZE) (Some (status_vec s)) (drv s)
      = ret ((ENC28_OK, Some b, Some v), dd)" unfolding always_busy_def by metis
  with run Packet_read show ?thesis
    by (auto simp: packet_task_step_def packet_task_read_def packet_task_events_def)
next
  case Packet_store
  with run have "packet_task_store base s = ret s'" by (simp add: packet_task_step_def)
  with inv Packet_store show ?thesis
    by (rule store_result)
      (use awake_queues(1) [OF inv awake] Packet_store in \<open>simp_all add: packet_task_events_def split: list.split\<close>)
next
  case (Packet_publish p)
  with run have "packet_task_publish p s = ret s'" by (simp add: packet_task_step_def)
  with inv Packet_publish show ?thesis
    by (rule publish_result) (use Packet_publish in \<open>simp add: packet_task_events_def\<close>)
next
  case Packet_sleep
  with run show ?thesis by (auto simp: packet_task_step_def packet_task_events_def)
qed (use pc in simp)

lemma busy_receives:
  assumes "app_run use_lwip False (bus_ctx d) base s0 es s" "started base s0" "always_busy d"
  shows "packet_pc s \<noteq> Packet_transmit \<and> transmitted es = []"
  using assms
proof (induction rule: app_run.induct)
  case start
  then show ?case by (simp add: started_def)
next
  case (step es s es' s')
  have inv: "app_inv base s" by (rule run_app_inv [OF step.hyps(1) step.prems(1)])
  note IH = step.IH [OF step.prems]
  from step.hyps(2) show ?case
  proof (cases rule: app_step.cases)
    case packet_task
    with busy_packet_step [OF inv step.prems(2)] IH show ?thesis by simp
  next
    case ip_ping
    with ip_side(1) [OF ip_ping(4)] ip_turn_count(4) [OF inv] IH show ?thesis by (simp add: same_packet_side_def)
  next
    case ip_take
    with ip_side(2) [OF ip_take(5)] IH show ?thesis by (simp add: same_packet_side_def split: list.split)
  next
    case (netif_output frame)
    with ip_side(3) [OF netif_output(5)] IH show ?thesis by (simp add: same_packet_side_def)
  next
    case pbuf_free
    with ip_side(4) [OF pbuf_free(6)] IH show ?thesis by (simp add: same_packet_side_def)
  qed (use IH in simp_all)
qed

text \<open>
  C31. While every read finds a frame, the packet task never comes to its transmission: whatever the IP task does, with lwIP or
  without, nothing is transmitted, and every frame the IP stack has put out still waits in the transmit queue.
\<close>

theorem busy_reception_starves_transmission:
  assumes "app_run use_lwip False (bus_ctx d) base s0 es s" "started base s0" "always_busy d"
  shows "transmitted es = [] \<and> map (frame_at base s) (ptr_items (transmit_packet_queue s)) = outputs es"
  using busy_receives [OF assms] frames_run [OF assms(1,2)] by (simp add: out_frames_def)

lemma stream_busy: "always_busy stream_device"
  using stream_read unfolding always_busy_def by simp

theorem busy_reception_starves_transmission_witness:
  "\<exists>es s. app_run True False (bus_ctx stream_device) 0x20000000 (app_example bus_start) es s \<and>
     length (outputs es) = 7 \<and> transmitted es = []"
proof -
  obtain p ps where all: "all_packets 0x20000000 = p # ps" "length ps = 7"
    by (simp add: all_packets_def upt_rec)
  from go_store [OF go_read [OF go_fill [of True False, unfolded all(1)]]]
  have "reach_shape True False (ps, [p], [], Packet_read, Ip_wait, 0, 0, False, False)" by simp
  from go_output_all [OF go_take [OF this]]
  have "reach_shape True False ([], [], ps, Packet_read, Ip_input, 1, p, False, False)" by simp
  then obtain es s where run: "app_run True False (bus_ctx stream_device) 0x20000000 (app_example bus_start) es s"
    and sh: "ptr_items (transmit_packet_queue s) = ps" by (auto simp: reach_shape_def reach_def shape_def)
  from busy_reception_starves_transmission [OF run app_example_started stream_busy] sh all(2)
  have "length (outputs es) = 7 \<and> transmitted es = []" by (metis length_map)
  with run show ?thesis by blast
qed

end
