(* ===== verification/App_Start.thy ===== *)
theory App_Start
  imports App_Flow Enc28_Effects
begin

text \<open>
  The entry point of the application: the state of the chip and of the tasks when the scheduler starts, and when the
  entry point gets there.
\<close>

section \<open>The chip when the application starts\<close>

definition chip_config :: "ENC28_MAC_Address \<Rightarrow> enc28_chip \<Rightarrow> bool" where
  "chip_config mac c \<longleftrightarrow>
     ERXST c = ENC28_CONF_RX_ADDRESS_START \<and> ERXND c = ENC28_CONF_RX_ADDRESS_END \<and>
     ERXRDPT c = ENC28_CONF_RX_ADDRESS_END \<and>
     get_reg c 1 ENC28_CR_ERXFCON = ENC28_CONF_PACKET_FILTER_MASK \<and>
     bytes16 (get_reg c 2 ENC28_CR_MAMXFLH) (get_reg c 2 ENC28_CR_MAMXFLL) = ENC28_CONF_MAX_FRAME_LEN \<and>
     get_reg c 2 ENC28_CR_MABBIPG = ENC28_CONF_MABBIPG_BITS \<and>
     get_reg c 3 ENC28_CR_MAC_ADD1 = addr0 mac \<and> get_reg c 3 ENC28_CR_MAC_ADD2 = addr1 mac \<and>
     get_reg c 3 ENC28_CR_MAC_ADD3 = addr2 mac \<and> get_reg c 3 ENC28_CR_MAC_ADD4 = addr3 mac \<and>
     get_reg c 3 ENC28_CR_MAC_ADD5 = addr4 mac \<and> get_reg c 3 ENC28_CR_MAC_ADD6 = addr5 mac"

definition receiving :: "enc28_chip \<Rightarrow> bool" where
  "receiving c \<longleftrightarrow>
     chip_bank c = 0 \<and> ERDPT c = ENC28_CONF_RX_ADDRESS_START \<and> autoinc c \<and>
     bit (get_reg c 0 ENC28_CR_ECON1) ENC28_ECON1_RXEN \<and>
     bit (get_reg c 0 ENC28_CR_EIE) ENC28_EIE_INTIE \<and> bit (get_reg c 0 ENC28_CR_EIE) ENC28_EIE_PKTIE"

lemma init_done_config: "init_done mac c \<Longrightarrow> chip_config mac c"
  by (simp add: init_done_def chip_config_def)

lemma call_nss_high: "call_nss (bus_ctx d) 1 s = ret ((), push_events [NSS 1] s)"
  by (simp add: bus_unfold)

lemma triple_nss_high [wp_rules]: "triple c0 tr0 (Q ()) (call_nss (bus_ctx d) 1) Q"
proof (rule triple_window, intro exI conjI)
  fix s :: "bus_event list enc28_drv"
  show "call_nss (bus_ctx d) 1 s = ret ((), push_events [NSS 1] s)" by (rule call_nss_high)
  show "spi_parse None [NSS 1] = Some []" by simp
qed simp

lemma triple_assert:
  assumes "triple c0 tr0 P m (\<lambda>st c b. st = ENC28_OK \<longrightarrow> R c b)" and "triple c0 tr0 R k Q"
  shows "triple c0 tr0 P (ASSERT_STATUS m k) Q"
  unfolding ASSERT_STATUS_def
proof (rule triple_bind)
  show "triple c0 tr0 P m (\<lambda>st c b. st = ENC28_OK \<longrightarrow> R c b)" by (rule assms(1))
  show "triple c0 tr0 (\<lambda>c b. st = ENC28_OK \<longrightarrow> R c b) (if st \<noteq> ENC28_OK then \<lambda>_. None else k) Q" for st
    using assms(2) by (cases "st = ENC28_OK") (simp_all add: triple_def)
qed

lemma triple_hw_rev:
  "triple c0 tr0 (\<lambda>c b. chip_config mac c) (bindM (enc28_do_read_hw_rev (Some (bus_ctx d)) (Some hw)) (\<lambda>(st, _). returnM st))
     (\<lambda>st c b. st = ENC28_OK \<longrightarrow> chip_config mac c)"
  by (simp add: enc28_do_read_hw_rev_def enc28_do_read_phy_register_def priv_enc28_is_phy_reg_def Let_def,
      rule triple_pre, (rule any_rules | (simp; fail))+, simp add: chip_config_def chip_simps)

lemma triple_begin_config:
  "triple c0 tr0 (\<lambda>c b. chip_config mac c) (enc28_begin_packet_transfer (Some (bus_ctx d)))
     (\<lambda>st c b. st = ENC28_OK \<longrightarrow> b = 0 \<and> chip_config mac c \<and> receiving c)"
  unfolding enc28_begin_packet_transfer_def
  by (rule triple_pre, (rule any_rules | (simp; fail))+,
      auto simp: chip_config_def receiving_def chip_simps chip_bits simp del: bit_numeral_word_iff)

lemma triple_from_any:
  "(\<And>c1. triple c0 tr0 (\<lambda>c b. c = c1) m Q) \<Longrightarrow> triple c0 tr0 (\<lambda>_ _. True) m Q"
  unfolding triple_def by blast

lemma triple_init_config:
  "triple c0 tr0 (\<lambda>_ _. True) (enc28_do_init mac (Some (bus_ctx d))) (\<lambda>st c b. st = ENC28_OK \<longrightarrow> chip_config mac c)"
  by (rule triple_from_any, rule triple_post [OF triple_init]) (simp add: init_done_config)

lemma triple_app_chip_start:
  "triple c0 tr0 (\<lambda>_ _. True) (app_chip_start (bus_ctx d)) (\<lambda>_ c b. b = 0 \<and> chip_config app_mac c \<and> receiving c)"
  unfolding app_chip_start_def
proof (rule triple_bind [OF _ triple_nss_high], rule triple_assert)
  show "triple c0 tr0 (\<lambda>c b. True) (enc28_do_soft_reset (Some (bus_ctx d))) (\<lambda>st c b. st = ENC28_OK \<longrightarrow> True)"
    by (rule triple_pre [OF triple_reset]) simp
  show "triple c0 tr0 (\<lambda>c b. True)
     (ASSERT_STATUS (enc28_do_init app_mac (Some (bus_ctx d)))
       (ASSERT_STATUS (bindM (enc28_do_read_hw_rev (Some (bus_ctx d)) (Some \<lparr>phid1 = 0, phid2 = 0, ethrev = 0\<rparr>)) (\<lambda>(st, _). returnM st))
         (ASSERT_STATUS (enc28_begin_packet_transfer (Some (bus_ctx d))) (returnM ()))))
     (\<lambda>_ c b. b = 0 \<and> chip_config app_mac c \<and> receiving c)"
    by (rule triple_assert [OF triple_init_config], rule triple_assert [OF triple_hw_rev],
        rule triple_assert [OF triple_begin_config]) (simp add: triple_def returnM_def, blast)
qed

section \<open>The application at the start of the scheduler\<close>

text \<open>
  C27: Once the entry point gets to the start of the scheduler, both tasks were created, the three queues are empty
  and the tasks are at their beginning; the chip has the addresses, the filter, the frame limit and the MAC address of the
  configuration, reception and its interrupt are on, and the driver's bank variable agrees with the chip's bank 0. The address in
  the chip's filter is the one the network interface gives to the IP stack. Nothing is asked of the state of the driver and the chip
  before.
\<close>

theorem app_starts_receiving:
  assumes "enc28_test_app (bus_ctx d) sts (m1, m2, m3) (q1, q2, q3) stack vec s = ret a"
    and "length m1 = 32" "length m2 = 32" "length m3 = 32" "length stack = MAX_ETH_PACKET_SIZE" "base_ok base"
  shows "sts = (True, True) \<and> started base a \<and>
    (\<exists>ts. recorded s (drv a) ts \<and> priv_enc28_curr_bank (drv a) = 0 \<and>
      chip_config app_mac (chip_run c0 ts) \<and> receiving (chip_run c0 ts) \<and>
      map (get_reg (chip_run c0 ts) 3) [ENC28_CR_MAC_ADD1, ENC28_CR_MAC_ADD2, ENC28_CR_MAC_ADD3, ENC28_CR_MAC_ADD4,
        ENC28_CR_MAC_ADD5, ENC28_CR_MAC_ADD6] = hwaddr (snd (enc28_ip_init_callback net_ifc)))"
proof -
  from assms(1) obtain d' where run: "app_chip_start (bus_ctx d) s = ret ((), d')" and sts: "sts = (True, True)"
    and a: "started base a \<and> drv a = d'"
    using packet_queue_fresh [OF assms(2)] packet_queue_fresh [OF assms(3)] packet_queue_fresh [OF assms(4)] assms(5,6)
    by (cases sts) (auto simp: enc28_test_app_def started_def after_def split: option.splits outcome.splits if_splits)
  from tripleD [OF triple_app_chip_start refl TrueI run, of c0] show ?thesis using sts a
    by (auto simp: chip_config_def app_mac_def enc28_ip_init_callback_def)
qed

lemma app_chip_start_runs:
  "\<exists>s'. app_chip_start (bus_ctx ready_device) \<lparr>priv_enc28_curr_bank = 3, world = []\<rparr> = ret ((), s')"
  by (simp add: app_chip_start_def call_nss_high ASSERT_STATUS_def app_mac_def run_simps bus_simps device_simps ready_device_def Let_def
      enc28_do_init_def priv_enc28_do_buffer_register_init_def priv_enc28_do_receive_filter_init_def
      priv_enc28_do_poll_estat_clk_def poll_clkrdy_loop.simps priv_enc28_do_mac_init_def
      priv_enc28_do_phy_init_def enc28_do_read_phy_register_def priv_enc28_is_phy_reg_def
      phy_poll_busy.simps enc28_do_read_hw_rev_def enc28_begin_packet_transfer_def cong: run_congs)

theorem app_starts_receiving_witness:
  "\<exists>a ts. enc28_test_app (bus_ctx ready_device) (True, True) (replicate 32 0, replicate 32 0, replicate 32 0)
       (empty_queue, empty_queue, empty_queue) (replicate 1600 0) (rsv_of_header (replicate 7 0))
       \<lparr>priv_enc28_curr_bank = 3, world = []\<rparr> = ret a \<and>
     started 0x20000000 a \<and> recorded \<lparr>priv_enc28_curr_bank = 3, world = []\<rparr> (drv a) ts \<and>
     chip_config app_mac (chip_run chip_example ts) \<and> receiving (chip_run chip_example ts)"
proof -
  let ?mem = "replicate 32 0 :: u8 list" and ?s = "\<lparr>priv_enc28_curr_bank = 3, world = []\<rparr> :: bus_event list enc28_drv"
  let ?stack = "replicate 1600 0 :: u8 list" and ?vec = "rsv_of_header (replicate 7 0)"
  have "length ?mem = 32" by simp
  from packet_queue_some [OF this, of empty_queue] obtain q where "packet_queue ?mem empty_queue = Some q" by blast
  moreover obtain s' where "app_chip_start (bus_ctx ready_device) ?s = ret ((), s')" using app_chip_start_runs by blast
  ultimately obtain a where run: "enc28_test_app (bus_ctx ready_device) (True, True) (?mem, ?mem, ?mem)
      (empty_queue, empty_queue, empty_queue) ?stack ?vec ?s = ret a"
    by (simp add: enc28_test_app_def after_def del: replicate.simps)
  have "started 0x20000000 a \<and> (\<exists>ts. recorded ?s (drv a) ts \<and>
      chip_config app_mac (chip_run chip_example ts) \<and> receiving (chip_run chip_example ts))"
    using app_starts_receiving [OF run, of "0x20000000" chip_example] by (auto simp: base_ok_def simp del: replicate.simps)
  with run show ?thesis by blast
qed

section \<open>The size of sent frames\<close>

text \<open>
  The frames the IP stack may send by the interface's MTU, with their header, fit everywhere: the output function never
  writes outside a packet buffer and, when a buffer is free, queues exactly the frame; with the checksum the chip appends the frame is
  within the limit the chip is configured with; and in the chip's memory the frame and the status vector behind it end
  before the receive buffer.
\<close>

theorem sent_frames_fit_buffers:
  assumes "app_run True False (bus_ctx d) base s0 es s" "started base s0"
    and "length frame \<le> 14 + unat (mtu (snd (enc28_ip_init_callback net_ifc)))"
  shows "(\<exists>s'. enc28_netif_output base frame s = Some (Ret s') \<and>
      (\<forall>i. packet_at base (last (ptr_items (transmit_packet_queue s'))) = Some i \<longrightarrow>
         ptr_items (free_packet_buffer_queue s) \<noteq> [] \<longrightarrow> packet_frame (eth_packets s' ! i) = frame)) \<and>
    length frame + 4 \<le> unat ENC28_CONF_MAX_FRAME_LEN \<and>
    unat (tx_end_address (of_nat (length frame))) + 7 < unat ENC28_CONF_RX_ADDRESS_START"
proof
  have len: "length frame \<le> MAX_ETH_PACKET_SIZE" using assms(3) by (simp add: enc28_ip_init_callback_def)
  from run_app_inv [OF assms(1,2)] have inv: "app_inv base s" .
  from output_runs [OF inv len] obtain s' where run: "enc28_netif_output base frame s = ret s'" by blast
  have "packet_frame (eth_packets s' ! i) = frame"
    if "packet_at base (last (ptr_items (transmit_packet_queue s'))) = Some i" "ptr_items (free_packet_buffer_queue s) \<noteq> []" for i
    using inv run
  proof (cases rule: output_result)
    case drop
    then show ?thesis using that by simp
  next
    case (sent j ps q tq)
    have "unat (of_nat (length frame) :: u16) = length frame"
      using len by (simp add: unsigned_of_nat take_bit_nat_eq_self)
    moreover have "i = j" using that(1) sent inv by (simp add: inv_defs)
    ultimately show ?thesis using sent(2,4) inv by (simp add: packet_frame_def inv_defs)
  qed
  with run show "\<exists>s'. enc28_netif_output base frame s = Some (Ret s') \<and>
      (\<forall>i. packet_at base (last (ptr_items (transmit_packet_queue s'))) = Some i \<longrightarrow>
         ptr_items (free_packet_buffer_queue s) \<noteq> [] \<longrightarrow> packet_frame (eth_packets s' ! i) = frame)" by blast
  have "length frame \<le> 1532" using assms(3) by (simp add: enc28_ip_init_callback_def)
  then show "length frame + 4 \<le> unat ENC28_CONF_MAX_FRAME_LEN \<and>
      unat (tx_end_address (of_nat (length frame))) + 7 < unat ENC28_CONF_RX_ADDRESS_START"
    by (simp add: tx_end_address_def unat_word_ariths unat_of_nat)
qed

theorem sent_frames_fit_buffers_witness:
  "\<exists>s'. enc28_netif_output 0x20000000 (replicate 1532 0) (app_example bus_start) = Some (Ret s') \<and>
     unat (tx_end_address (of_nat (length (replicate 1532 0 :: u8 list)))) + 7 < unat ENC28_CONF_RX_ADDRESS_START"
proof -
  have "length (replicate 1532 0 :: u8 list) \<le> 14 + unat (mtu (snd (enc28_ip_init_callback (netifs lwip_fresh 0))))"
    by (simp add: enc28_ip_init_callback_def)
  from sent_frames_fit_buffers [OF app_run.start app_example_started this] show ?thesis by blast
qed

end
