(* ===== verification/App_Chip.thy ===== *)
theory App_Chip
  imports App_Frames App_Start Enc28_Receive
begin

text \<open>
  The application together with the chip: the frames in the chip's receive buffer come to the IP stack, and what the IP stack
  sends gets into the chip's transmit buffer, over the driver and both tasks, with transmissions between the receptions.
\<close>

section \<open>The receive side of the chip\<close>

text \<open>The pointers of the receive buffer are as configured, and the same packets lie in it.\<close>

definition rx_configured :: "enc28_chip \<Rightarrow> bool" where
  "rx_configured c \<longleftrightarrow> ERXST c = ENC28_CONF_RX_ADDRESS_START \<and> ERXND c = ENC28_CONF_RX_ADDRESS_END"

definition rx_region :: "u16 \<Rightarrow> bool" where
  "rx_region a \<longleftrightarrow> ENC28_CONF_RX_ADDRESS_START \<le> a \<and> a \<le> ENC28_CONF_RX_ADDRESS_END"

definition same_rx :: "enc28_chip \<Rightarrow> enc28_chip \<Rightarrow> bool" where
  "same_rx c c' \<longleftrightarrow> rx_configured c \<and> rx_configured c' \<and> (autoinc c \<longleftrightarrow> autoinc c') \<and> ERDPT c = ERDPT c' \<and>
     (\<forall>a. rx_region a \<longrightarrow> chip_mem c a = chip_mem c' a)"

lemma rx_next_region: "rx_configured c \<Longrightarrow> rx_region a \<Longrightarrow> rx_region (rx_next c a)"
proof -
  assume c: "rx_configured c" and a: "rx_region a"
  show ?thesis
  proof (cases "a = ENC28_CONF_RX_ADDRESS_END")
    case True
    with c show ?thesis by (simp add: rx_next_def rx_configured_def rx_region_def)
  next
    case False
    from False have "unat a \<noteq> unat (ENC28_CONF_RX_ADDRESS_END)" by (metis unsigned_word_eqI)
    with a have r: "2000 \<le> unat a" "unat a < 7935" by (auto simp: rx_region_def word_le_nat_alt)
    then have "unat (a + 1) = unat a + 1" by (simp add: unat_word_ariths)
    then have "unat ((a + 1) AND 0x1FFF) = unat a + 1" using r by (simp add: unat_and_0x1FFF)
    with False c r show ?thesis by (simp add: rx_next_def rx_configured_def rx_region_def word_le_nat_alt)
  qed
qed

lemma same_rx_packet:
  assumes same: "same_rx c c'" and at: "rx_region (ERDPT c)"
  shows "rx_addr c i = rx_addr c' i" "rx_header c = rx_header c'" "rx_len c = rx_len c'" "rx_ok c = rx_ok c'"
    "rx_frame c = rx_frame c'" "rx_next_packet c = rx_next_packet c'"
proof -
  have conf: "rx_configured c" and nx: "rx_next c = rx_next c'" and rd: "ERDPT c = ERDPT c'" "autoinc c \<longleftrightarrow> autoinc c'"
    and mem: "rx_region a \<Longrightarrow> chip_mem c a = chip_mem c' a" for a
    using same by (auto simp: same_rx_def rx_next_def rx_configured_def fun_eq_iff)
  show a: "rx_addr c i = rx_addr c' i" for i using nx rd by (simp add: rx_addr_def)
  have "rx_region ((rx_next c ^^ i) (ERDPT c))" for i
    by (induction i) (simp_all add: at rx_next_region [OF conf])
  then have "rx_region (rx_addr c i)" for i using at by (simp add: rx_addr_def)
  then have m: "chip_mem c (rx_addr c' i) = chip_mem c' (rx_addr c' i)" for i using mem a by metis
  show h: "rx_header c = rx_header c'" by (simp add: rx_header_def a m)
  show "rx_len c = rx_len c'" "rx_ok c = rx_ok c'" "rx_frame c = rx_frame c'" "rx_next_packet c = rx_next_packet c'"
    by (simp_all add: rx_len_def rx_ok_def rx_frame_def rx_next_packet_def h a m)
qed

lemma same_rx_queue: "same_rx c c' \<Longrightarrow> rx_queue keeps n c fs = rx_queue keeps n c' fs"
proof (induction fs arbitrary: c c')
  case (Cons f fs)
  show ?case
  proof (cases "rx_region (ERDPT c)")
    case True
    note P = same_rx_packet [OF Cons.prems True]
    have "same_rx (set_ptr ENC28_CR_ERDPTL ENC28_CR_ERDPTH a c) (set_ptr ENC28_CR_ERDPTL ENC28_CR_ERDPTH a c')" for a
      using Cons.prems by (simp add: same_rx_def rx_configured_def chip_simps)
    from Cons.IH [OF this] P Cons.prems show ?thesis by (simp add: same_rx_def)
  next
    case False
    with Cons.prems show ?thesis by (auto simp: same_rx_def rx_region_def)
  qed
qed simp

text \<open>Reading a packet and writing one keep the packets behind.\<close>

lemma written_same_rx:
  assumes prog: "tx_programmed buf n c c'" and n: "unat n \<le> length buf" "unat n \<le> 1969" and conf: "rx_configured c"
  shows "same_rx c c'"
proof -
  have "chip_mem c' a = chip_mem c a" if "rx_region a" for a
    using tx_programmed_frame(2) [OF prog n] that by (simp add: rx_region_def)
  with prog conf show ?thesis by (auto simp: same_rx_def tx_programmed_def rx_configured_def)
qed

section \<open>The chip's packets in a run\<close>

text \<open>The frame the packet task has read and not yet stored.\<close>

definition pending :: "'w app \<Rightarrow> u8 list list" where
  "pending s = (case packet_pc s of
     Packet_store \<Rightarrow> [take (unat (rsv_packet_len (status_vec s))) (pkt_buf s)] | _ \<Rightarrow> [])"

text \<open>
  The frames \<open>fs\<close> of the chip: the tasks have got the first of them, the rest lies in the chip, unless they have got all.
\<close>

definition rx_link ::
  "(u8 \<Rightarrow> u8 \<Rightarrow> bool) \<Rightarrow> (u16 \<Rightarrow> bool) \<Rightarrow> bus_device \<Rightarrow> u8 list list \<Rightarrow> u8 list list \<Rightarrow> bus_event list enc28_drv \<Rightarrow> bool" where
  "rx_link vol keeps d fs got s \<longleftrightarrow> prefix fs got \<or>
     (\<exists>c rest. fs = got @ rest \<and> served_chip d c (world s) vol keeps \<and> priv_enc28_curr_bank s = chip_bank c \<and>
        autoinc c \<and> bit (get_reg c 0 ENC28_CR_EIR) ENC28_EIR_PKTIF \<and> rx_configured c \<and>
        rx_queue keeps (of_nat MAX_ETH_PACKET_SIZE) c rest)"

definition steady :: "(u8 \<Rightarrow> u8 \<Rightarrow> bool) \<Rightarrow> bool" where
  "steady vol \<longleftrightarrow> \<not> vol 0 ENC28_CR_EIR \<and> \<not> vol 0 ENC28_CR_ERDPTL \<and> \<not> vol 0 ENC28_CR_ERDPTH"

lemma rx_link_more: "prefix fs got \<Longrightarrow> rx_link vol keeps d fs (got @ gs) s"
  by (auto simp: rx_link_def intro: prefix_order.trans)

lemma rx_link_read:
  assumes link: "rx_link vol keeps d fs got (drv s)" and vol: "steady vol" and inv: "app_inv base s"
    and run: "packet_task_read (bus_ctx d) s = ret s'"
  shows "rx_link vol keeps d fs (got @ pending s') (drv s')"
proof (cases "prefix fs got")
  case False
  with link obtain c rest where fs: "fs = got @ rest" and serve: "served_chip d c (world (drv s)) vol keeps"
    and bank: "priv_enc28_curr_bank (drv s) = chip_bank c" and ai: "autoinc c" and ready: "bit (get_reg c 0 ENC28_CR_EIR) ENC28_EIR_PKTIF"
    and conf: "rx_configured c" and q: "rx_queue keeps (of_nat MAX_ETH_PACKET_SIZE) c rest"
    by (auto simp: rx_link_def)
  from False fs obtain f rest' where rest: "rest = f # rest'" by (cases rest) auto
  have room: "unat (of_nat MAX_ETH_PACKET_SIZE :: u16) \<le> length (pkt_buf s)" using app_invD(9) [OF inv] by simp
  have pr: "packet_ready vol keeps c" using ai ready vol q rest by (simp add: packet_ready_def steady_def)
  obtain st pb vec' dd ts where r: "enc28_read_packet (Some (bus_ctx d)) (Some (pkt_buf s)) (of_nat MAX_ETH_PACKET_SIZE)
      (Some (status_vec s)) (drv s) = Some (Ret ((st, pb, vec'), dd))"
    and rec: "recorded (drv s) dd ts" and b: "priv_enc28_curr_bank dd = 0"
    and vec': "map_option rsv_packet_len vec' = map_option (\<lambda>_. rx_len c) (Some (status_vec s))"
    and post: "if \<not> rx_ok c then st = ENC28_PACKET_RCV_ERR \<and> pb = Some (pkt_buf s) \<and> rx_skipped_header c (chip_run c ts)
         else if rx_len c > of_nat MAX_ETH_PACKET_SIZE then st = ENC28_BUFFER_TOO_SMALL \<and> pb = Some (pkt_buf s) \<and> rx_skipped_header c (chip_run c ts)
         else st = ENC28_OK \<and> pb = Some (rx_frame c @ drop (unat (rx_len c)) (pkt_buf s)) \<and> rx_released c (chip_run c ts)"
    by (rule read_packet_result [OF serve bank pr room, of "Some (status_vec s)"])
  have f: "rx_ok c" "\<not> rx_len c > of_nat MAX_ETH_PACKET_SIZE" "rx_frame c = f" using q rest by auto
  with post have ok: "st = ENC28_OK" "pb = Some (f @ drop (unat (rx_len c)) (pkt_buf s))" and rel: "rx_released c (chip_run c ts)"
    by simp_all
  from vec' obtain v where v: "vec' = Some v" "rsv_packet_len v = rx_len c" by auto
  have s': "s' = s\<lparr>drv := dd, pkt_buf := f @ drop (unat (rx_len c)) (pkt_buf s), status_vec := v, packet_pc := Packet_store\<rparr>"
    using run r ok v by (simp add: packet_task_read_def)
  have "length f = unat (rx_len c)" using f(3) by (auto simp: rx_frame_def)
  then have "pending s' = [f]" using v(2) by (simp add: pending_def s')
  moreover have "rx_queue keeps (of_nat MAX_ETH_PACKET_SIZE) (chip_run c ts) rest'"
    using q rest rx_queue_released [OF rel ai] by simp
  moreover have "autoinc (chip_run c ts)" "bit (get_reg (chip_run c ts) 0 ENC28_CR_EIR) ENC28_EIR_PKTIF"
    "rx_configured (chip_run c ts)" "chip_bank (chip_run c ts) = 0"
    using rel ready conf by (simp_all add: rx_released_def rx_configured_def)
  ultimately show ?thesis
    using served_chip_recorded [OF serve rec] fs rest b s' unfolding rx_link_def
    by (intro disjI2 exI [of _ "chip_run c ts"] exI [of _ rest']) simp
qed (simp add: rx_link_more)

lemma rx_link_write:
  assumes link: "rx_link vol keeps d fs got s" and n: "unat n \<le> length buf" "unat n \<le> 1969"
    and run: "enc28_write_packet (Some (bus_ctx d)) (Some buf) n s = ret (ENC28_OK, s')"
  shows "rx_link vol keeps d fs got s'"
proof (cases "prefix fs got")
  case False
  with link obtain c rest where fs: "fs = got @ rest" and serve: "served_chip d c (world s) vol keeps"
    and c: "autoinc c" "bit (get_reg c 0 ENC28_CR_EIR) ENC28_EIR_PKTIF" "rx_configured c"
    and q: "rx_queue keeps (of_nat MAX_ETH_PACKET_SIZE) c rest"
    by (auto simp: rx_link_def)
  from tripleD [OF triple_write_packet refl refl run, of c] obtain ts where rec: "recorded s s' ts"
    and b: "priv_enc28_curr_bank s' = 0" and prog: "tx_programmed buf n c (chip_run c ts)" by auto
  have "same_rx c (chip_run c ts)" by (rule written_same_rx [OF prog n c(3)])
  with q have "rx_queue keeps (of_nat MAX_ETH_PACKET_SIZE) (chip_run c ts) rest" using same_rx_queue by blast
  moreover have "autoinc (chip_run c ts)" "bit (get_reg (chip_run c ts) 0 ENC28_CR_EIR) ENC28_EIR_PKTIF"
    "rx_configured (chip_run c ts)" "chip_bank (chip_run c ts) = 0"
    using prog c by (simp_all add: tx_programmed_def rx_configured_def)
  ultimately show ?thesis
    using served_chip_recorded [OF serve rec] fs b unfolding rx_link_def by auto
qed (simp add: rx_link_def)

lemma pending_same: "same_packet_side s s' \<Longrightarrow> pending s' = pending s \<and> drv s' = drv s"
  by (auto simp: same_packet_side_def pending_def split: packet_pc_t.split)

lemma pending_ip_pc [simp]: "pending (s\<lparr>ip_pc := pc\<rparr>) = pending s"
  by (simp add: pending_def cong: packet_pc_t.case_cong)

lemma fill_side: "fill_packets base is s = ret s' \<Longrightarrow> same_packet_side s s'"
  by (induction "is" arbitrary: s) (auto simp: same_packet_side_def split: option.splits)

lemma rx_link_packet_step:
  assumes link: "rx_link vol keeps d fs (got @ pending s) (drv s)" and vol: "steady vol" and inv: "app_inv base s"
    and awake: "\<not> waiting Packet_task s" and run: "packet_task_step (bus_ctx d) base s = ret s'"
  shows "rx_link vol keeps d fs (got @ received (packet_task_events base s) @ pending s') (drv s')"
proof (cases "packet_pc s")
  case Packet_fill
  with run have "packet_task_fill base s = ret s'" by (simp add: packet_task_step_def)
  then have "drv s' = drv s" "pending s' = []"
    by (auto simp: packet_task_fill_def after_eq_Ret pending_def same_packet_side_def dest!: fill_side)
  with link Packet_fill show ?thesis by (simp add: packet_task_events_def pending_def)
next
  case Packet_read
  with run have "packet_task_read (bus_ctx d) s = ret s'" by (simp add: packet_task_step_def)
  from rx_link_read [OF _ vol inv this] link Packet_read show ?thesis by (simp add: packet_task_events_def pending_def)
next
  case Packet_store
  with run have "packet_task_store base s = ret s'" by (simp add: packet_task_step_def)
  with inv Packet_store show ?thesis
    by (cases rule: store_result)
      (use awake_queues(1) [OF inv awake] link Packet_store in \<open>simp_all add: packet_task_events_def pending_def\<close>)
next
  case (Packet_publish p)
  with run have "packet_task_publish p s = ret s'" by (simp add: packet_task_step_def)
  with inv Packet_publish show ?thesis
    by (rule publish_result) (use link Packet_publish in \<open>simp add: packet_task_events_def pending_def\<close>)
next
  case Packet_transmit
  with run have "packet_task_transmit (bus_ctx d) base s = ret s'" by (simp add: packet_task_step_def)
  with inv Packet_transmit show ?thesis
  proof (cases rule: transmit_result)
    case idle
    with link Packet_transmit show ?thesis by (simp add: packet_task_events_def pending_def)
  next
    case (sent i ps dd q fq)
    let ?pkt = "eth_packets s ! i"
    have "packet_ptr base i \<in> set (loaded s)" using sent(1) by (simp add: loaded_def)
    then have "unat (used_bytes ?pkt) \<le> 1600" using app_invD(11) [OF inv] sent(2) app_invD(4) [OF inv] by (auto simp: fits_def)
    with rx_link_write [OF link _ _ sent(3)] app_invD(10) [OF inv sent(2)] Packet_transmit sent(1,4)
    show ?thesis by (simp add: packet_task_events_def pending_def)
  qed
next
  case Packet_sleep
  with run have "s' = s\<lparr>packet_pc := Packet_read\<rparr>" by (simp add: packet_task_step_def)
  with link Packet_sleep show ?thesis by (simp add: packet_task_events_def pending_def)
qed

lemma rx_link_step:
  assumes link: "rx_link vol keeps d fs (got @ pending s) (drv s)" and vol: "steady vol" and inv: "app_inv base s"
    and step: "app_step use_lwip keep (bus_ctx d) base s es s'"
  shows "rx_link vol keeps d fs (got @ received es @ pending s') (drv s')"
  using step
proof (cases rule: app_step.cases)
  case packet_task
  with rx_link_packet_step [OF link vol inv] show ?thesis by simp
next
  case ip_ping
  then have "pending s' = pending s \<and> drv s' = drv s" using pending_same ip_side(1) by blast
  moreover have "received (ip_ping_events base s s') = []" by (simp add: ip_ping_events_def split: list.split)
  ultimately show ?thesis using link ip_ping(1) by simp
next
  case ip_take
  then have "pending s' = pending s \<and> drv s' = drv s" using pending_same ip_side(2) by blast
  moreover have "received (case ptr_items (ready_packet_buffer_queue s) of [] \<Rightarrow> [] | p # _ \<Rightarrow> [Input (frame_at base s p)]) = []"
    by (simp split: list.split)
  ultimately show ?thesis using link ip_take(1) by simp
next
  case (netif_output frame)
  then have "pending s' = pending s \<and> drv s' = drv s" using pending_same ip_side(3) by blast
  then show ?thesis using link netif_output(1) by simp
next
  case pbuf_free
  then have "pending s' = pending s \<and> drv s' = drv s" using pending_same ip_side(4) by blast
  then show ?thesis using link pbuf_free(1) by simp
qed (use link in simp_all)

text \<open>
  C1: From the chip to the IP stack: when the application runs on a chip whose receive buffer holds a queue of well-received
  frames, the frames the IP stack is handed are these frames, in their order and byte for byte, as far as either goes,
  with and without lwIP, whatever the tasks' interleaving. While the chip reports frames the packet task reads and does not transmit.
\<close>

theorem chip_frames_reach_ip_stack:
  assumes "app_run use_lwip False (bus_ctx d) base s0 es s" "started base s0"
    and "served_chip d c (world (drv s0)) vol keeps" "priv_enc28_curr_bank (drv s0) = chip_bank c"
    and "autoinc c" "bit (get_reg c 0 ENC28_CR_EIR) ENC28_EIR_PKTIF" "rx_configured c" "steady vol"
    and "rx_queue keeps (of_nat MAX_ETH_PACKET_SIZE) c fs"
  shows "(prefix (inputs es) fs \<or> prefix fs (inputs es)) \<and> (prefix (received es) fs \<or> prefix fs (received es))"
proof -
  have "rx_link vol keeps d fs (received es @ pending s) (drv s)"
    using assms(1)
  proof (induction rule: app_run.induct)
    case start
    have "pending s0 = []" using assms(2) by (simp add: started_def pending_def)
    with assms(3-9) show ?case unfolding rx_link_def by auto
  next
    case (step es s es' s')
    have "app_inv base s" by (rule run_app_inv [OF step.hyps(1) assms(2)])
    from rx_link_step [OF step.IH assms(8) this step.hyps(2)] show ?case by simp
  qed
  then have r: "prefix (received es) fs \<or> prefix fs (received es)"
    unfolding rx_link_def by (metis append.assoc prefixI prefix_append prefix_same_cases)
  obtain fs' where "received es = inputs es @ fs'" using frames_run [OF assms(1,2)] by blast
  with r have "prefix (inputs es) fs \<or> prefix fs (inputs es)" by (metis prefixI prefix_order.trans prefix_same_cases)
  with r show ?thesis by blast
qed

lemma rx_example_queue_1600: "rx_queue (\<lambda>_. True) 1600 rx_example [[0xAA, 0xBB], [0xCC, 0xDD]]"
proof -
  have n: "rx_next_packet rx_example = 0x7D8"
    by (simp add: rx_next_packet_def rx_example_packets rx_read_ptr_def bytes16_def)
  show ?thesis
    by (simp add: rx_ok_def rx_len_def rx_example_packets n rx_example_regs rx_example_next bytes16_def)
qed

lemma rx_example_run:
  "\<exists>es s. app_run False False (bus_ctx (chip_device rx_example)) 0x20000000 (app_example bus_start) es s \<and>
     [0xAA, 0xBB] \<in> set (inputs es)"
proof -
  let ?b = "0x20000000 :: u32" and ?d = "chip_device rx_example" and ?buf = "replicate 1600 0 :: u8 list"
  have "packet_ready (\<lambda>_ _. False) (\<lambda>_. True) rx_example" by (simp add: packet_ready_def rx_example_regs)
  moreover have "unat (1600 :: u16) \<le> length ?buf" by simp
  moreover have "priv_enc28_curr_bank bus_start = chip_bank rx_example" by (simp add: rx_example_regs)
  ultimately obtain st pb vec' dd ts where
    r: "enc28_read_packet (Some (bus_ctx ?d)) (Some ?buf) 1600 (Some (rsv_of_header (replicate 7 0))) bus_start = Some (Ret ((st, pb, vec'), dd))"
    and vec': "map_option rsv_packet_len vec' = map_option (\<lambda>_. rx_len rx_example) (Some (rsv_of_header (replicate 7 0)))"
    and post: "if \<not> rx_ok rx_example then st = ENC28_PACKET_RCV_ERR \<and> pb = Some ?buf \<and> rx_skipped_header rx_example (chip_run rx_example ts)
         else if rx_len rx_example > 1600 then st = ENC28_BUFFER_TOO_SMALL \<and> pb = Some ?buf \<and> rx_skipped_header rx_example (chip_run rx_example ts)
         else st = ENC28_OK \<and> pb = Some (rx_frame rx_example @ drop (unat (rx_len rx_example)) ?buf) \<and> rx_released rx_example (chip_run rx_example ts)"
    by (elim read_packet_result [OF rx_example_served, rotated 1])
  have ok: "rx_ok rx_example" "rx_len rx_example = 2" by (simp_all add: rx_ok_def rx_len_def rx_example_packets bytes16_def)
  with post have st: "st = ENC28_OK" "pb = Some ([0xAA, 0xBB] @ drop 2 ?buf)" by (simp_all add: rx_example_packets del: replicate.simps)
  from vec' ok obtain v where v: "vec' = Some v" "rsv_packet_len v = 2" by auto
  from one_frame_run [OF r [unfolded st v(1)]] obtain es s p where
    run: "app_run False False (bus_ctx ?d) ?b (app_example bus_start) es s" and
    s: "\<not> waiting Ip_task s" "ptr_items (ready_packet_buffer_queue s) = [p]" "frame_at ?b s p = [0xAA, 0xBB]"
    by (auto simp: v(2) simp del: replicate.simps)
  from run_app_inv [OF run app_example_started] have inv: "app_inv ?b s" .
  obtain s' where ping: "ip_task_ping ?b s = ret s'" using ping_runs [OF inv] by blast
  have "xTasksWaitingToReceive (ready_packet_buffer_queue s) = []" using s(1) awake_queues(4) [OF inv] by simp
  from ping_events [OF inv ping this] have "[0xAA, 0xBB] \<in> set (inputs (ip_ping_events ?b s s'))"
    using s by (simp add: Let_def)
  moreover have "app_run False False (bus_ctx ?d) ?b (app_example bus_start) (es @ ip_ping_events ?b s s') s'"
    by (rule app_run.step [OF run app_step.ip_ping [OF _ s(1) ping]]) simp
  ultimately show ?thesis by (metis event_simps(6) set_append UnCI)
qed

theorem chip_frames_reach_ip_stack_witness:
  "\<exists>es s. app_run False False (bus_ctx (chip_device rx_example)) 0x20000000 (app_example bus_start) es s \<and>
     [0xAA, 0xBB] \<in> set (inputs es) \<and>
     (prefix (inputs es) [[0xAA, 0xBB], [0xCC, 0xDD]] \<or> prefix [[0xAA, 0xBB], [0xCC, 0xDD]] (inputs es))"
proof -
  obtain es s where run: "app_run False False (bus_ctx (chip_device rx_example)) 0x20000000 (app_example bus_start) es s"
    and i: "[0xAA, 0xBB] \<in> set (inputs es)" using rx_example_run by blast
  have d: "drv (app_example bus_start) = bus_start" by (simp add: app_example_def)
  have q: "rx_queue (\<lambda>_. True) (of_nat MAX_ETH_PACKET_SIZE) rx_example [[0xAA, 0xBB], [0xCC, 0xDD]]"
    using rx_example_queue_1600 by simp
  have "rx_configured rx_example" "steady (\<lambda>_ _. False)" "priv_enc28_curr_bank bus_start = chip_bank rx_example"
    by (simp_all add: rx_configured_def steady_def rx_example_regs)
  from chip_frames_reach_ip_stack [OF run app_example_started, unfolded d, OF rx_example_served this(3) rx_example_regs(1,5) this(1,2) q]
  show ?thesis using run i by blast
qed

section \<open>From the IP stack to the chip\<close>

text \<open>
  C7: In every reachable state in which the packet task gets to the oldest frame of the transmit queue and the driver takes it, the
  chip is left with that frame behind a zero control byte in its transmit buffer (and one stale byte), the transmission started, and
  its receive buffer as it was.
\<close>

theorem ip_frames_reach_chip:
  assumes "app_run use_lwip False (bus_ctx d) base s0 es s" "started base s0"
    and "packet_pc s = Packet_transmit" "ptr_items (transmit_packet_queue s) = p # ps"
    and "packet_task_step (bus_ctx d) base s = Some (Ret s')"
  shows "packet_task_events base s = [Transmitted (frame_at base s p)] \<and> ptr_items (transmit_packet_queue s') = ps \<and>
    (\<exists>ts stale. recorded (drv s) (drv s') ts \<and> priv_enc28_curr_bank (drv s') = 0 \<and>
      (let c = chip_run c0 ts in
         tx_frame c = 0 # frame_at base s p @ [stale] \<and> bit (get_reg c 0 ENC28_CR_ECON1) ENC28_ECON1_TXRTS \<and>
         (\<forall>a. ENC28_CONF_RX_ADDRESS_START \<le> a \<longrightarrow> chip_mem c a = chip_mem c0 a)))"
proof -
  from run_app_inv [OF assms(1,2)] have inv: "app_inv base s" .
  have "packet_task_transmit (bus_ctx d) base s = ret s'" using assms(3,5) by (simp add: packet_task_step_def)
  with inv assms(3) show ?thesis
  proof (cases rule: transmit_result)
    case idle
    with assms(4) show ?thesis by simp
  next
    case (sent i qs dd q fq)
    let ?pkt = "eth_packets s ! i"
    have "packet_ptr base i \<in> set (loaded s)" using sent(1) by (simp add: loaded_def)
    then have n: "unat (used_bytes ?pkt) \<le> 1600" using app_invD(11) [OF inv] sent(2) app_invD(4) [OF inv] by (auto simp: fits_def)
    then have fit: "unat (used_bytes ?pkt) \<le> length (pkt_data ?pkt)" using app_invD(10) [OF inv sent(2)] by simp
    have p: "p = packet_ptr base i" "ps = qs" using assms(4) sent(1) by simp_all
    have f: "frame_at base s p = take (unat (used_bytes ?pkt)) (pkt_data ?pkt)"
      using sent(2) app_invD(4) [OF inv] by (simp add: p frame_at_def packet_frame_def)
    from tripleD [OF triple_write_packet refl refl sent(3), of c0] obtain ts where rec: "recorded (drv s) dd ts"
      and b: "priv_enc28_curr_bank dd = 0" and prog: "tx_programmed (pkt_data ?pkt) (used_bytes ?pkt) c0 (chip_run c0 ts)" by auto
    have n': "unat (used_bytes ?pkt) \<le> 1969" using n by simp
    have rts: "bit (get_reg (chip_run c0 ts) 0 ENC28_CR_ECON1) ENC28_ECON1_TXRTS" using prog unfolding tx_programmed_def by blast
    have drv: "drv s' = dd" and tq: "transmit_packet_queue s' = q" by (simp_all add: sent(4))
    have "packet_task_events base s = [Transmitted (frame_at base s p)]"
      using assms(3,4) by (simp add: packet_task_events_def)
    with tx_programmed_frame [OF prog fit n'] rec b rts sent(6) show ?thesis
      unfolding Let_def drv tq f p(2) by blast
  qed
qed

lemma ping_run_transmit:
  "\<exists>es s r s'. app_run False False (bus_ctx ping_device) 0x20000000 (app_example bus_start) es s \<and>
     packet_pc s = Packet_transmit \<and> ptr_items (transmit_packet_queue s) = [r] \<and>
     frame_at 0x20000000 s r = ping_reply (ping_example 7) \<and> packet_task_step (bus_ctx ping_device) 0x20000000 s = ret s'"
proof -
  let ?b = "0x20000000 :: u32" and ?d = "bus_ctx ping_device" and ?run = "app_run False False (bus_ctx ping_device) 0x20000000 (app_example bus_start)"
  obtain es s p where run: "?run es s" and s: "\<not> waiting Ip_task s" "ptr_items (ready_packet_buffer_queue s) = [p]"
      "frame_at ?b s p = ping_example 7" "ptr_items (free_packet_buffer_queue s) \<noteq> []"
    "ptr_items (transmit_packet_queue s) = []" "packet_pc s = Packet_read" "OUT [0x3A] \<in> set (world (drv s))"
    using ping_run by blast
  from run_app_inv [OF run app_example_started] have inv: "app_inv ?b s" .
  obtain s1 where ping: "ip_task_ping ?b s = ret s1" using ping_runs [OF inv] by blast
  have awake: "xTasksWaitingToReceive (ready_packet_buffer_queue s) = []" using s(1) awake_queues(4) [OF inv] by simp
  have run1: "?run (es @ ip_ping_events ?b s s1) s1" by (rule app_run.step [OF run app_step.ip_ping [OF _ s(1) ping]]) simp
  from run_app_inv [OF run1 app_example_started] have inv1: "app_inv ?b s1" .
  have side: "drv s1 = drv s" "packet_pc s1 = Packet_read" using ip_side(1) [OF ping] s(6) by (simp_all add: same_packet_side_def)
  obtain j where j: "j < 8" "ptr_items (transmit_packet_queue s1) = [packet_ptr ?b j]"
    "packet_frame (eth_packets s1 ! j) = ping_reply (ping_example 7)" "xTasksWaitingToReceive (free_packet_buffer_queue s1) = []"
    using inv ping awake
  proof (cases rule: ping_result)
    case (reply p' ps q j js fq tq resp)
    have "length (eth_packets s) = 8" using app_invD(8) [OF inv] .
    with reply s(2,3,5) show ?thesis by (intro that [of j]) simp_all
  qed (use s ping_request_example in auto)
  obtain dd where rd: "enc28_read_packet (Some ?d) (Some (pkt_buf s1)) 1600 (Some (status_vec s1)) (drv s1)
      = ret ((ENC28_NO_DATA, Some (pkt_buf s1), Some (status_vec s1)), dd)" and data: "OUT [0x3A] \<in> set (world dd)"
    using ping_device_done(1) s(7) side(1) by metis
  let ?s2 = "s1\<lparr>drv := dd, packet_pc := Packet_transmit\<rparr>"
  have "packet_task_step ?d ?b s1 = ret ?s2" using rd side(2) by (simp add: packet_task_step_def packet_task_read_def)
  moreover have "\<exists>es. ?run es s1" using run1 by blast
  ultimately obtain es2 where run2: "?run es2 ?s2" and inv2: "app_inv ?b ?s2"
    using run_packet_step [OF _ app_example_started j(4)] by blast
  let ?pkt = "eth_packets s1 ! j"
  have "packet_ptr ?b j \<in> set (loaded s1)" using j(2) by (simp add: loaded_def)
  then have used: "unat (used_bytes ?pkt) \<le> 1600" using app_invD(11) [OF inv1] j(1) app_invD(4) [OF inv1] by (auto simp: fits_def)
  have len: "length (pkt_data ?pkt) = 1600" by (rule app_invD(10) [OF inv1 j(1)])
  have "length (packet_frame ?pkt) = 42" using j(3) by (simp add: ping_reply_def) (simp add: ping_example_def)
  then have "unat (used_bytes ?pkt) = 42" using used len by (simp add: packet_frame_def)
  then obtain d2 where "enc28_write_packet (Some ?d) (Some (pkt_data ?pkt)) (used_bytes ?pkt) dd = ret (ENC28_OK, d2)"
    using ping_device_done(2) [OF data, of "used_bytes ?pkt" "pkt_data ?pkt"] len by (auto simp: word_less_nat_alt)
  then obtain s3 where "packet_task_step ?d ?b ?s2 = ret s3"
    using transmit_runs [OF inv2, of ping_device] j app_invD(4) [OF inv1] by (fastforce simp: packet_task_step_def)
  moreover have "frame_at ?b ?s2 (packet_ptr ?b j) = ping_reply (ping_example 7)"
    using j(1,3) app_invD(4) [OF inv1] by (simp add: frame_at_def)
  ultimately show ?thesis using run2 j(2) by (intro exI [of _ es2] exI [of _ ?s2] exI [of _ "packet_ptr ?b j"] exI [of _ s3]) simp
qed

theorem ip_frames_reach_chip_witness:
  "\<exists>es s (s' :: bus_event list app) ts stale. app_run False False (bus_ctx ping_device) 0x20000000 (app_example bus_start) es s \<and>
     recorded (drv s) (drv s') ts \<and> tx_frame (chip_run chip_example ts) = 0 # ping_reply (ping_example 7) @ [stale]"
proof -
  obtain es s r s' where run: "app_run False False (bus_ctx ping_device) 0x20000000 (app_example bus_start) es s"
    and s: "packet_pc s = Packet_transmit" "ptr_items (transmit_packet_queue s) = [r]"
      "packet_task_step (bus_ctx ping_device) 0x20000000 s = ret s'" "frame_at 0x20000000 s r = ping_reply (ping_example 7)"
    using ping_run_transmit by blast
  from ip_frames_reach_chip [OF run app_example_started s(1-3), of chip_example] obtain ts stale
    where rec: "recorded (drv s) (drv s') ts" and "tx_frame (chip_run chip_example ts) = 0 # frame_at 0x20000000 s r @ [stale]"
    unfolding Let_def by blast
  with s(4) have "tx_frame (chip_run chip_example ts) = 0 # ping_reply (ping_example 7) @ [stale]" by simp
  with run rec show ?thesis by blast
qed

end
