(* ===== verification/Rtos_Heap.thy ===== *)
theory Rtos_Heap
  imports Rtos_Config
begin

text \<open>
  The kernel's memory allocator, \<^verbatim>\<open>heap_4.c\<close>: blocks with a header of eight bytes in one array, the free ones linked in the
  order of their addresses. The state is what the functions read and write: the headers by their address, the marker of the
  end and the counters. Where the array \<open>ucHeap\<close> and the list head \<open>xStart\<close> lie is decided by the linker: two parameters.

  Headers are stored by address. That is exact because every header the code touches lies at a multiple of eight, where two
  different headers do not overlap. The suspension of the scheduler around the functions makes them atomic.
\<close>

section \<open>The state\<close>

record BlockLink_t =
  pxNextFreeBlock :: u32
  xBlockSize :: u32

record heap_places =
  ucHeap :: u32
  xStart :: u32

record heap4 =
  block :: "u32 \<Rightarrow> BlockLink_t"
  pxEnd :: u32
  xFreeBytesRemaining :: u32
  xMinimumEverFreeBytesRemaining :: u32
  xNumberOfSuccessfulAllocations :: u32
  xNumberOfSuccessfulFrees :: u32

section \<open>Constants and macros\<close>

definition portBYTE_ALIGNMENT :: u32 where "portBYTE_ALIGNMENT = 8"
definition portBYTE_ALIGNMENT_MASK :: u32 where "portBYTE_ALIGNMENT_MASK = 0x0007"
definition sizeof_BlockLink_t :: u32 where "sizeof_BlockLink_t = 8"

definition xHeapStructSize :: u32 where
  "xHeapStructSize = (sizeof_BlockLink_t + (portBYTE_ALIGNMENT - 1)) AND NOT portBYTE_ALIGNMENT_MASK"

definition heapMINIMUM_BLOCK_SIZE :: u32 where
  "heapMINIMUM_BLOCK_SIZE = push_bit 1 xHeapStructSize"

definition heapBLOCK_ALLOCATED_BITMASK :: u32 where
  "heapBLOCK_ALLOCATED_BITMASK = push_bit (4 * 8 - 1) 1"

definition heapADD_WILL_OVERFLOW :: "u32 \<Rightarrow> u32 \<Rightarrow> bool" where
  "heapADD_WILL_OVERFLOW a b \<longleftrightarrow> a > NOT 0 - b"

definition heapSUBTRACT_WILL_UNDERFLOW :: "u32 \<Rightarrow> u32 \<Rightarrow> bool" where
  "heapSUBTRACT_WILL_UNDERFLOW a b \<longleftrightarrow> a < b"

definition heapBLOCK_SIZE_IS_VALID :: "u32 \<Rightarrow> bool" where
  "heapBLOCK_SIZE_IS_VALID n \<longleftrightarrow> n AND heapBLOCK_ALLOCATED_BITMASK = 0"

definition heapBLOCK_IS_ALLOCATED :: "BlockLink_t \<Rightarrow> bool" where
  "heapBLOCK_IS_ALLOCATED b \<longleftrightarrow> xBlockSize b AND heapBLOCK_ALLOCATED_BITMASK \<noteq> 0"

definition heapALLOCATE_BLOCK :: "BlockLink_t \<Rightarrow> BlockLink_t" where
  "heapALLOCATE_BLOCK b = b\<lparr>xBlockSize := xBlockSize b OR heapBLOCK_ALLOCATED_BITMASK\<rparr>"

definition heapFREE_BLOCK :: "BlockLink_t \<Rightarrow> BlockLink_t" where
  "heapFREE_BLOCK b = b\<lparr>xBlockSize := xBlockSize b AND NOT heapBLOCK_ALLOCATED_BITMASK\<rparr>"

text \<open>The check of a pointer; where it fails the assertion loops for ever, so the functions below answer \<open>None\<close>.\<close>

definition heapVALIDATE_BLOCK_POINTER :: "heap_places \<Rightarrow> u32 \<Rightarrow> bool" where
  "heapVALIDATE_BLOCK_POINTER L p \<longleftrightarrow> ucHeap L \<le> p \<and> p \<le> ucHeap L + (configTOTAL_HEAP_SIZE - 1)"

definition set_next :: "u32 \<Rightarrow> u32 \<Rightarrow> heap4 \<Rightarrow> heap4" where
  "set_next p v s = s\<lparr>block := (block s)(p := (block s p)\<lparr>pxNextFreeBlock := v\<rparr>)\<rparr>"

definition set_size :: "u32 \<Rightarrow> u32 \<Rightarrow> heap4 \<Rightarrow> heap4" where
  "set_size p v s = s\<lparr>block := (block s)(p := (block s p)\<lparr>xBlockSize := v\<rparr>)\<rparr>"

abbreviation next_of :: "heap4 \<Rightarrow> u32 \<Rightarrow> u32" where "next_of s p \<equiv> pxNextFreeBlock (block s p)"
abbreviation size_of :: "heap4 \<Rightarrow> u32 \<Rightarrow> u32" where "size_of s p \<equiv> xBlockSize (block s p)"

section \<open>Initialisation\<close>

definition prvHeapInit :: "heap_places \<Rightarrow> heap4 \<Rightarrow> heap4" where
  "prvHeapInit L s =
     (let uxStartAddress = ucHeap L;
          (uxStartAddress, xTotalHeapSize) =
            (if uxStartAddress AND portBYTE_ALIGNMENT_MASK \<noteq> 0
             then let a = (uxStartAddress + (portBYTE_ALIGNMENT - 1)) AND NOT portBYTE_ALIGNMENT_MASK
                  in (a, configTOTAL_HEAP_SIZE - (a - ucHeap L))
             else (uxStartAddress, configTOTAL_HEAP_SIZE));
          s = set_size (xStart L) 0 (set_next (xStart L) uxStartAddress s);
          uxEndAddress = (uxStartAddress + xTotalHeapSize - xHeapStructSize) AND NOT portBYTE_ALIGNMENT_MASK;
          s = s\<lparr>pxEnd := uxEndAddress\<rparr>;
          s = set_next (pxEnd s) 0 (set_size (pxEnd s) 0 s);
          s = set_next uxStartAddress (pxEnd s) (set_size uxStartAddress (uxEndAddress - uxStartAddress) s)
      in s\<lparr>xMinimumEverFreeBytesRemaining := size_of s uxStartAddress,
           xFreeBytesRemaining := size_of s uxStartAddress\<rparr>)"

section \<open>Allocation\<close>

text \<open>The size of the block for a request: with the header, rounded up; 0 where that overflows.\<close>

definition wanted_size :: "u32 \<Rightarrow> u32" where
  "wanted_size n =
     (if n > 0 then
        if \<not> heapADD_WILL_OVERFLOW n xHeapStructSize then
          let n = n + xHeapStructSize in
          if n AND portBYTE_ALIGNMENT_MASK \<noteq> 0 then
            let m = portBYTE_ALIGNMENT - (n AND portBYTE_ALIGNMENT_MASK) in
            if \<not> heapADD_WILL_OVERFLOW n m then n + m else 0
          else n
        else 0
      else n)"

text \<open>The search for the first free block that is large enough, with the block before it in the list.\<close>

partial_function (option) malloc_search :: "heap_places \<Rightarrow> u32 \<Rightarrow> heap4 \<Rightarrow> u32 \<Rightarrow> u32 \<Rightarrow> (u32 \<times> u32) option" where
  "malloc_search L n s pxPreviousBlock pxBlock =
     (if size_of s pxBlock < n \<and> next_of s pxBlock \<noteq> 0
      then if heapVALIDATE_BLOCK_POINTER L (next_of s pxBlock)
           then malloc_search L n s pxBlock (next_of s pxBlock)
           else None
      else Some (pxPreviousBlock, pxBlock))"

text \<open>A block that was found is taken out of the list, and what it has too much of is put back as a new free block.\<close>

definition malloc_take :: "heap_places \<Rightarrow> u32 \<Rightarrow> u32 \<Rightarrow> u32 \<Rightarrow> heap4 \<Rightarrow> (u32 \<times> heap4) option" where
  "malloc_take L n pxPreviousBlock pxBlock s =
     (let pvReturn = next_of s pxPreviousBlock + xHeapStructSize in
      if \<not> heapVALIDATE_BLOCK_POINTER L pvReturn then None
      else
        let s = set_next pxPreviousBlock (next_of s pxBlock) s in
        if heapSUBTRACT_WILL_UNDERFLOW (size_of s pxBlock) n then None
        else
          let pxNewBlockLink = pxBlock + n in
          if size_of s pxBlock - n > heapMINIMUM_BLOCK_SIZE \<and> pxNewBlockLink AND portBYTE_ALIGNMENT_MASK \<noteq> 0 then None
          else
            let s = (if size_of s pxBlock - n > heapMINIMUM_BLOCK_SIZE
                     then let s = set_size pxNewBlockLink (size_of s pxBlock - n) s;
                              s = set_size pxBlock n s;
                              s = set_next pxNewBlockLink (next_of s pxPreviousBlock) s
                          in set_next pxPreviousBlock pxNewBlockLink s
                     else s);
                s = s\<lparr>xFreeBytesRemaining := xFreeBytesRemaining s - size_of s pxBlock\<rparr>;
                s = (if xFreeBytesRemaining s < xMinimumEverFreeBytesRemaining s
                     then s\<lparr>xMinimumEverFreeBytesRemaining := xFreeBytesRemaining s\<rparr> else s);
                s = s\<lparr>block := (block s)(pxBlock := heapALLOCATE_BLOCK (block s pxBlock))\<rparr>;
                s = set_next pxBlock 0 s
            in Some (pvReturn, s\<lparr>xNumberOfSuccessfulAllocations := xNumberOfSuccessfulAllocations s + 1\<rparr>))"

definition pvPortMalloc :: "heap_places \<Rightarrow> u32 \<Rightarrow> heap4 \<Rightarrow> (u32 \<times> heap4) option" where
  "pvPortMalloc L xWantedSize s =
     (let n = wanted_size xWantedSize;
          s = (if pxEnd s = 0 then prvHeapInit L s else s);
          r = (if heapBLOCK_SIZE_IS_VALID n \<and> n > 0 \<and> n \<le> xFreeBytesRemaining s then
                 if \<not> heapVALIDATE_BLOCK_POINTER L (next_of s (xStart L)) then None
                 else case malloc_search L n s (xStart L) (next_of s (xStart L)) of
                   None \<Rightarrow> None
                 | Some (pxPreviousBlock, pxBlock) \<Rightarrow>
                     if pxBlock \<noteq> pxEnd s then malloc_take L n pxPreviousBlock pxBlock s else Some (0, s)
               else Some (0, s))
      in case r of
           None \<Rightarrow> None
         | Some (pvReturn, s) \<Rightarrow> if pvReturn AND portBYTE_ALIGNMENT_MASK \<noteq> 0 then None else Some (pvReturn, s))"

section \<open>Release\<close>

partial_function (option) insert_search :: "u32 \<Rightarrow> heap4 \<Rightarrow> u32 \<Rightarrow> u32 option" where
  "insert_search pxBlockToInsert s pxIterator =
     (if next_of s pxIterator < pxBlockToInsert then insert_search pxBlockToInsert s (next_of s pxIterator)
      else Some pxIterator)"

text \<open>The block is merged with the free block before it and the one behind it where they touch.\<close>

definition insert_at :: "u32 \<Rightarrow> u32 \<Rightarrow> heap4 \<Rightarrow> heap4" where
  "insert_at pxIterator pxBlockToInsert s =
     (let (pxBlockToInsert, s) =
            (if pxIterator + size_of s pxIterator = pxBlockToInsert
             then (pxIterator, set_size pxIterator (size_of s pxIterator + size_of s pxBlockToInsert) s)
             else (pxBlockToInsert, s));
          s = (if pxBlockToInsert + size_of s pxBlockToInsert = next_of s pxIterator then
                 if next_of s pxIterator \<noteq> pxEnd s
                 then let s = set_size pxBlockToInsert (size_of s pxBlockToInsert + size_of s (next_of s pxIterator)) s
                      in set_next pxBlockToInsert (next_of s (next_of s pxIterator)) s
                 else set_next pxBlockToInsert (pxEnd s) s
               else set_next pxBlockToInsert (next_of s pxIterator) s)
      in if pxIterator \<noteq> pxBlockToInsert then set_next pxIterator pxBlockToInsert s else s)"

definition prvInsertBlockIntoFreeList :: "heap_places \<Rightarrow> u32 \<Rightarrow> heap4 \<Rightarrow> heap4 option" where
  "prvInsertBlockIntoFreeList L pxBlockToInsert s =
     (case insert_search pxBlockToInsert s (xStart L) of
        None \<Rightarrow> None
      | Some pxIterator \<Rightarrow>
          if pxIterator \<noteq> xStart L \<and> \<not> heapVALIDATE_BLOCK_POINTER L pxIterator then None
          else Some (insert_at pxIterator pxBlockToInsert s))"

definition vPortFree :: "heap_places \<Rightarrow> u32 \<Rightarrow> heap4 \<Rightarrow> heap4 option" where
  "vPortFree L pv s =
     (if pv \<noteq> 0 then
        let pxLink = pv - xHeapStructSize in
        if \<not> heapVALIDATE_BLOCK_POINTER L pxLink then None
        else if \<not> heapBLOCK_IS_ALLOCATED (block s pxLink) then None
        else if next_of s pxLink \<noteq> 0 then None
        else
          let s = s\<lparr>block := (block s)(pxLink := heapFREE_BLOCK (block s pxLink))\<rparr>;
              s = s\<lparr>xFreeBytesRemaining := xFreeBytesRemaining s + size_of s pxLink\<rparr>
          in case prvInsertBlockIntoFreeList L pxLink s of
               None \<Rightarrow> None
             | Some s \<Rightarrow> Some (s\<lparr>xNumberOfSuccessfulFrees := xNumberOfSuccessfulFrees s + 1\<rparr>)
      else Some s)"

section \<open>Statistics\<close>

definition xPortGetFreeHeapSize :: "heap4 \<Rightarrow> u32" where
  "xPortGetFreeHeapSize s = xFreeBytesRemaining s"

definition xPortGetMinimumEverFreeHeapSize :: "heap4 \<Rightarrow> u32" where
  "xPortGetMinimumEverFreeHeapSize s = xMinimumEverFreeBytesRemaining s"

record HeapStats_t =
  xAvailableHeapSpaceInBytes :: u32
  xSizeOfLargestFreeBlockInBytes :: u32
  xSizeOfSmallestFreeBlockInBytes :: u32
  xNumberOfFreeBlocks :: u32
  stats_xMinimumEverFreeBytesRemaining :: u32
  stats_xNumberOfSuccessfulAllocations :: u32
  stats_xNumberOfSuccessfulFrees :: u32

partial_function (option) stats_loop :: "heap4 \<Rightarrow> u32 \<Rightarrow> u32 \<Rightarrow> u32 \<Rightarrow> u32 \<Rightarrow> (u32 \<times> u32 \<times> u32) option" where
  "stats_loop s pxBlock xBlocks xMaxSize xMinSize =
     (if pxBlock \<noteq> pxEnd s
      then stats_loop s (next_of s pxBlock) (xBlocks + 1)
             (if size_of s pxBlock > xMaxSize then size_of s pxBlock else xMaxSize)
             (if size_of s pxBlock < xMinSize then size_of s pxBlock else xMinSize)
      else Some (xBlocks, xMaxSize, xMinSize))"

definition vPortGetHeapStats :: "heap_places \<Rightarrow> heap4 \<Rightarrow> HeapStats_t option" where
  "vPortGetHeapStats L s =
     (case (if next_of s (xStart L) \<noteq> 0 then stats_loop s (next_of s (xStart L)) 0 0 (NOT 0) else Some (0, 0, NOT 0)) of
        None \<Rightarrow> None
      | Some (xBlocks, xMaxSize, xMinSize) \<Rightarrow>
          Some \<lparr>xAvailableHeapSpaceInBytes = xFreeBytesRemaining s, xSizeOfLargestFreeBlockInBytes = xMaxSize,
                xSizeOfSmallestFreeBlockInBytes = xMinSize, xNumberOfFreeBlocks = xBlocks,
                stats_xMinimumEverFreeBytesRemaining = xMinimumEverFreeBytesRemaining s,
                stats_xNumberOfSuccessfulAllocations = xNumberOfSuccessfulAllocations s,
                stats_xNumberOfSuccessfulFrees = xNumberOfSuccessfulFrees s\<rparr>)"

definition vPortHeapResetState :: "heap4 \<Rightarrow> heap4" where
  "vPortHeapResetState s = s\<lparr>pxEnd := 0, xFreeBytesRemaining := 0, xMinimumEverFreeBytesRemaining := 0,
     xNumberOfSuccessfulAllocations := 0, xNumberOfSuccessfulFrees := 0\<rparr>"

end
