(* ===== verification/Rtos_Blocks.thy ===== *)
theory Rtos_Blocks
  imports Rtos_Heap
begin

text \<open>
  What the allocator promises: the heap is a row of blocks, each free or in use. An allocation takes the first free block that
  is large enough and splits off what is left over; a release frees a block and merges free neighbours. The laws of
  this view, over addresses and sizes as natural numbers.
\<close>

section \<open>Rows of blocks\<close>

text \<open>A block is its size and whether it is free; its address is that of the row plus the sizes before it.\<close>

type_synonym blocks = "(nat \<times> bool) list"

definition total :: "blocks \<Rightarrow> nat" where
  "total bs = sum_list (map fst bs)"

definition free_bytes :: "blocks \<Rightarrow> nat" where
  "free_bytes bs = sum_list (map fst (filter snd bs))"

text \<open>The blocks in use, with their addresses.\<close>

fun in_use :: "nat \<Rightarrow> blocks \<Rightarrow> (nat \<times> nat) list" where
  "in_use a [] = []"
| "in_use a ((k, f) # bs) = (if f then in_use (a + k) bs else (a, k) # in_use (a + k) bs)"

text \<open>No two free blocks are neighbours.\<close>

fun separated :: "blocks \<Rightarrow> bool" where
  "separated ((k, f) # (j, g) # bs) \<longleftrightarrow> \<not> (f \<and> g) \<and> separated ((j, g) # bs)"
| "separated bs \<longleftrightarrow> True"

section \<open>Operations\<close>

definition split_block :: "nat \<Rightarrow> nat \<Rightarrow> blocks" where
  "split_block n k = (if k - n > 16 then [(n, False), (k - n, True)] else [(k, False)])"

fun take_first :: "nat \<Rightarrow> nat \<Rightarrow> blocks \<Rightarrow> (nat \<times> blocks) option" where
  "take_first n a [] = None"
| "take_first n a ((k, f) # bs) =
     (if f \<and> n \<le> k then Some (a, split_block n k @ bs)
      else map_option (\<lambda>(p, bs). (p, (k, f) # bs)) (take_first n (a + k) bs))"

fun mark_free :: "nat \<Rightarrow> nat \<Rightarrow> blocks \<Rightarrow> blocks" where
  "mark_free p a [] = []"
| "mark_free p a ((k, f) # bs) = (k, f \<or> a = p) # mark_free p (a + k) bs"

fun join :: "nat \<times> bool \<Rightarrow> blocks \<Rightarrow> blocks" where
  "join (k, f) [] = [(k, f)]"
| "join (k, f) ((j, g) # bs) = (if f \<and> g then (k + j, True) # bs else (k, f) # (j, g) # bs)"

definition merge :: "blocks \<Rightarrow> blocks" where
  "merge bs = foldr join bs []"

definition release :: "nat \<Rightarrow> nat \<Rightarrow> blocks \<Rightarrow> blocks" where
  "release p a bs = merge (mark_free p a bs)"

section \<open>Sizes and addresses\<close>

lemma total_simps [simp]:
  "total [] = 0" "total ((k, f) # bs) = k + total bs" "total (xs @ ys) = total xs + total ys"
  by (simp_all add: total_def)

lemma free_bytes_simps [simp]:
  "free_bytes [] = 0" "free_bytes ((k, f) # bs) = (if f then k else 0) + free_bytes bs"
  "free_bytes (xs @ ys) = free_bytes xs + free_bytes ys"
  by (simp_all add: free_bytes_def)

lemma free_bytes_le: "free_bytes bs \<le> total bs"
  by (induction bs) auto

lemma block_le_total: "(k, f) \<in> set bs \<Longrightarrow> k \<le> total bs"
  by (induction bs) auto

lemma free_bytes_member: "(k, True) \<in> set bs \<Longrightarrow> k \<le> free_bytes bs"
  by (induction bs) auto

lemma in_use_append [simp]: "in_use a (xs @ ys) = in_use a xs @ in_use (a + total xs) ys"
  by (induction a xs rule: in_use.induct) (simp_all add: add.assoc)

lemma in_use_mid: "(a + total pre, k) \<in> set (in_use a (pre @ (k, False) # post))"
  by simp

lemma in_use_split:
  assumes "(p, k) \<in> set (in_use a bs)"
  obtains pre post where "bs = pre @ (k, False) # post" "p = a + total pre"
  using assms
proof (induction a bs arbitrary: thesis rule: in_use.induct)
  case (2 a j f bs)
  show ?case
  proof (cases "p = a \<and> k = j \<and> \<not> f")
    case True
    with "2.prems"(1) [of "[]" bs] show ?thesis by simp
  next
    case False
    with "2.prems"(2) have "(p, k) \<in> set (in_use (a + j) bs)" by (auto split: if_splits)
    then obtain pre post where "bs = pre @ (k, False) # post" "p = a + j + total pre" using "2.IH" by (cases f) blast+
    with "2.prems"(1) [of "(j, f) # pre" post] show ?thesis by simp
  qed
qed simp

lemma in_use_range: "(p, k) \<in> set (in_use a bs) \<Longrightarrow> a \<le> p \<and> p + k \<le> a + total bs"
  by (erule in_use_split) simp

text \<open>The addresses of blocks in use are different, and their ranges disjoint.\<close>

lemma in_use_disjoint:
  assumes "(p, k) \<in> set (in_use a bs)" "(q, j) \<in> set (in_use a bs)" "\<forall>b \<in> set bs. 0 < fst b"
  shows "(p = q \<and> k = j) \<or> p + k \<le> q \<or> q + j \<le> p"
  using assms
proof (induction a bs rule: in_use.induct)
  case (2 a i f bs)
  then show ?case using in_use_range [of p k "a + i" bs] in_use_range [of q j "a + i" bs]
    by (auto split: if_splits)
qed simp

section \<open>Allocation\<close>

lemma total_split_block [simp]: "n \<le> k \<Longrightarrow> total (split_block n k) = k"
  by (simp add: split_block_def)

text \<open>An allocation, as a splitting of the row at the block it takes.\<close>

lemma take_first_mid:
  "\<forall>(j, f) \<in> set pre. f \<longrightarrow> j < n \<Longrightarrow> n \<le> k \<Longrightarrow>
    take_first n a (pre @ (k, True) # post) = Some (a + total pre, pre @ split_block n k @ post)"
  by (induction pre arbitrary: a) (auto simp: add.assoc)

lemma take_first_Some:
  assumes "take_first n a bs = Some (p, bs')"
  obtains pre k post where "bs = pre @ (k, True) # post" "n \<le> k" "\<forall>(j, f) \<in> set pre. f \<longrightarrow> j < n"
    "p = a + total pre" "bs' = pre @ split_block n k @ post"
  using assms
proof (induction n a bs arbitrary: p bs' thesis rule: take_first.induct)
  case (2 n a k f bs)
  show ?case
  proof (cases "f \<and> n \<le> k")
    case True
    with "2.prems" show ?thesis by (intro "2.prems"(1) [of "[]" k bs]) auto
  next
    case False
    with "2.prems"(2) obtain r where r: "take_first n (a + k) bs = Some (p, r)" "bs' = (k, f) # r" by auto
    from "2.IH" [OF False _ r(1)] obtain pre j post where "bs = pre @ (j, True) # post" "n \<le> j"
      "\<forall>(j, f) \<in> set pre. f \<longrightarrow> j < n" "p = a + k + total pre" "r = pre @ split_block n j @ post" by blast
    with False r(2) show ?thesis by (intro "2.prems"(1) [of "(k, f) # pre" j post]) auto
  qed
qed simp

lemma take_first_None: "take_first n a bs = None \<longleftrightarrow> (\<forall>(k, f) \<in> set bs. f \<longrightarrow> k < n)"
  by (induction n a bs rule: take_first.induct) auto

lemma take_first_bytes:
  assumes "take_first n a bs = Some (p, bs')"
  shows "total bs' = total bs"
    and "\<exists>k. (p, k) \<in> set (in_use a bs') \<and> n \<le> k \<and> k \<le> n + 16 \<and> free_bytes bs' + k = free_bytes bs"
proof -
  from assms obtain pre k post where bs: "bs = pre @ (k, True) # post" "n \<le> k" "p = a + total pre"
    "bs' = pre @ split_block n k @ post" by (rule take_first_Some)
  then show "total bs' = total bs" by simp
  show "\<exists>k. (p, k) \<in> set (in_use a bs') \<and> n \<le> k \<and> k \<le> n + 16 \<and> free_bytes bs' + k = free_bytes bs"
    using bs by (cases "k - n > 16") (auto simp: split_block_def)
qed

text \<open>Nothing else changes hands.\<close>

lemma take_first_in_use:
  assumes "take_first n a bs = Some (p, bs')"
  shows "\<exists>k. set (in_use a bs') = insert (p, k) (set (in_use a bs)) \<and> n \<le> k"
proof -
  from assms obtain pre k post where bs: "bs = pre @ (k, True) # post" "n \<le> k" "p = a + total pre"
    "bs' = pre @ split_block n k @ post" by (rule take_first_Some)
  then show ?thesis by (cases "k - n > 16") (auto simp: split_block_def add.assoc)
qed

section \<open>Release\<close>

lemma total_mark_free [simp]: "total (mark_free p a bs) = total bs"
  by (induction p a bs rule: mark_free.induct) simp_all

lemma mark_free_before [simp]: "p < a \<Longrightarrow> mark_free p a bs = bs"
  by (induction p a bs rule: mark_free.induct) auto

lemma mark_free_at:
  "\<forall>b \<in> set pre. 0 < fst b \<Longrightarrow> 0 < k \<Longrightarrow>
    mark_free (a + total pre) a (pre @ (k, f) # post) = pre @ (k, True) # post"
proof (induction pre arbitrary: a)
  case (Cons b pre)
  then show ?case by (cases b) (auto simp: add.assoc [symmetric])
qed simp

lemma separated_Cons: "separated (b # bs) \<longleftrightarrow> separated bs \<and> (bs \<noteq> [] \<longrightarrow> \<not> (snd b \<and> snd (hd bs)))"
  by (cases b; cases bs) auto

lemma join_simps:
  "total (join b bs) = fst b + total bs" "free_bytes (join b bs) = free_bytes (b # bs)"
  "in_use a (join b bs) = in_use a (b # bs)" "separated bs \<Longrightarrow> separated (join b bs)"
  by (induction b bs rule: join.induct) (auto simp: add.assoc separated_Cons)

lemma merge_simps [simp]: "merge [] = []" "merge (b # bs) = join b (merge bs)"
  by (simp_all add: merge_def)

lemma merge_bytes [simp]: "total (merge bs) = total bs" "free_bytes (merge bs) = free_bytes bs"
  by (induction bs) (auto simp: join_simps)

lemma in_use_merge [simp]: "in_use a (merge bs) = in_use a bs"
  by (induction bs arbitrary: a) (auto simp: join_simps)

lemma separated_merge [simp]: "separated (merge bs)"
  by (induction bs) (simp_all add: join_simps)

lemma merge_separated [simp]: "separated bs \<Longrightarrow> merge bs = bs"
proof (induction bs)
  case (Cons b bs)
  then show ?case by (cases b; cases bs) auto
qed simp

lemma separated_append:
  "separated (xs @ ys) \<longleftrightarrow> separated xs \<and> separated ys \<and> (xs \<noteq> [] \<and> ys \<noteq> [] \<longrightarrow> \<not> (snd (last xs) \<and> snd (hd ys)))"
  by (induction xs) (auto simp: separated_Cons hd_append)

text \<open>A release undoes the allocation it frees.\<close>

lemma release_take_first:
  assumes "take_first n a bs = Some (p, bs')" and "separated bs" "\<forall>b \<in> set bs. 0 < fst b" "0 < n"
  shows "release p a bs' = bs"
proof -
  from assms(1) obtain pre k post where bs: "bs = pre @ (k, True) # post" "n \<le> k" "p = a + total pre"
    "bs' = pre @ split_block n k @ post" by (rule take_first_Some)
  have pre: "\<forall>b \<in> set pre. 0 < fst b" and k: "0 < k" using assms(3) bs(1) by auto
  have sep: "separated (pre @ (k, True) # post)" using assms(2) bs(1) by simp
  then have post: "separated ((k, True) # post)" "separated post" by (auto simp: separated_append separated_Cons)
  show ?thesis
  proof (cases "k - n > 16")
    case True
    have "separated ((k - n, True) # post)" using post by (cases post) auto
    then have "merge ((n, True) # (k - n, True) # post) = (k, True) # post"
      using bs(2) merge_separated [of "(k - n, True) # post"] by (simp del: merge_separated)
    then have "merge (pre @ (n, True) # (k - n, True) # post) = merge (pre @ (k, True) # post)"
      using merge_separated [OF post(1)] by (simp add: merge_def del: merge_separated)
    then show ?thesis
      using True bs sep mark_free_at [OF pre assms(4), of a False "(k - n, True) # post"]
      by (simp add: release_def split_block_def)
  next
    case False
    then show ?thesis
      using bs sep mark_free_at [OF pre k, of a False post] by (simp add: release_def split_block_def)
  qed
qed

text \<open>The merges of a release, case by case: only the freed block and its neighbours change.\<close>

lemma foldr_join:
  "separated xs \<Longrightarrow> xs = [] \<or> \<not> snd (last xs) \<Longrightarrow> foldr join xs ys = xs @ ys"
proof (induction xs)
  case (Cons b xs)
  then have "foldr join xs ys = xs @ ys" by (cases xs) (auto simp: separated_Cons)
  with Cons.prems show ?case by (cases b; cases xs; cases ys) auto
qed simp

lemma merge_mid:
  assumes "separated pre" "separated post"
  shows "merge (pre @ (n, True) # post) =
    (if pre \<noteq> [] \<and> snd (last pre) then butlast pre @ join (fst (last pre) + n, True) post
     else pre @ join (n, True) post)"
proof (cases "pre \<noteq> [] \<and> snd (last pre)")
  case True
  then obtain xs j where pre: "pre = xs @ [(j, True)]" by (cases pre rule: rev_cases) auto
  have "separated xs" "xs = [] \<or> \<not> snd (last xs)" using assms(1) unfolding pre by (auto simp: separated_append)
  then have "foldr join xs ys = xs @ ys" for ys by (rule foldr_join)
  moreover have "join (j, True) (join (n, True) post) = join (j + n, True) post"
    using assms(2) by (cases post) auto
  ultimately show ?thesis using assms(2) by (simp add: pre merge_def [of "xs @ _"]) (simp add: merge_def [symmetric])
next
  case False
  have "merge (pre @ (n, True) # post) = foldr join pre (join (n, True) (merge post))" by (simp add: merge_def)
  with False foldr_join [OF assms(1)] assms(2) show ?thesis by auto
qed

section \<open>Well-formed rows\<close>

text \<open>Sizes are multiples of eight that hold a header and something more.\<close>

definition blocks_ok :: "blocks \<Rightarrow> bool" where
  "blocks_ok bs \<longleftrightarrow> separated bs \<and> (\<forall>(k, f) \<in> set bs. 8 dvd k \<and> 16 \<le> k)"

lemma blocks_okD:
  "blocks_ok bs \<Longrightarrow> separated bs" "blocks_ok bs \<Longrightarrow> (k, f) \<in> set bs \<Longrightarrow> 8 dvd k \<and> 16 \<le> k"
  by (auto simp: blocks_ok_def)

lemma blocks_ok_pos: "blocks_ok bs \<Longrightarrow> \<forall>b \<in> set bs. 0 < fst b"
  by (auto simp: blocks_ok_def)

lemma blocks_ok_total: "blocks_ok bs \<Longrightarrow> 8 dvd total bs"
  unfolding total_def by (induction bs) (auto simp: blocks_ok_def separated_Cons)

lemma blocks_ok_append: "blocks_ok (xs @ ys) \<Longrightarrow> blocks_ok xs \<and> blocks_ok ys"
  by (auto simp: blocks_ok_def separated_append)

lemma blocks_ok_take_first:
  assumes "take_first n a bs = Some (p, bs')" "blocks_ok bs" "8 dvd n" "16 \<le> n"
  shows "blocks_ok bs'"
proof -
  from assms(1) obtain pre k post where bs: "bs = pre @ (k, True) # post" "n \<le> k"
    "bs' = pre @ split_block n k @ post" by (rule take_first_Some)
  then show ?thesis using assms(2-4)
    by (auto simp: blocks_ok_def split_block_def separated_append separated_Cons dvd_diff_nat)
qed

lemma join_sizes: "\<forall>(k, f) \<in> set (b # bs). 8 dvd k \<and> 16 \<le> k \<Longrightarrow> \<forall>(k, f) \<in> set (join b bs). 8 dvd k \<and> (16::nat) \<le> k"
  by (induction b bs rule: join.induct) auto

lemma merge_sizes: "\<forall>(k, f) \<in> set bs. 8 dvd k \<and> 16 \<le> k \<Longrightarrow> \<forall>(k, f) \<in> set (merge bs). 8 dvd k \<and> (16::nat) \<le> k"
proof (induction bs)
  case (Cons b bs)
  then have "\<forall>(k, f) \<in> set (b # merge bs). 8 dvd k \<and> 16 \<le> k" by simp
  then show ?case unfolding merge_simps by (rule join_sizes)
qed simp

lemma mark_free_member: "(k, f) \<in> set (mark_free p a bs) \<Longrightarrow> \<exists>g. (k, g) \<in> set bs"
  by (induction p a bs rule: mark_free.induct) auto

lemma blocks_ok_release:
  assumes "blocks_ok bs"
  shows "blocks_ok (release p a bs)"
proof -
  have "\<forall>(k, f) \<in> set (mark_free p a bs). 8 dvd k \<and> 16 \<le> k"
    using blocks_okD(2) [OF assms] mark_free_member by blast
  from merge_sizes [OF this] show ?thesis by (simp add: blocks_ok_def release_def)
qed

text \<open>A release takes the block from the blocks in use and changes nothing else.\<close>

lemma release_bytes:
  assumes "(p, k) \<in> set (in_use a bs)" "blocks_ok bs"
  shows "total (release p a bs) = total bs"
    and "free_bytes (release p a bs) = free_bytes bs + k"
    and "set (in_use a (release p a bs)) = set (in_use a bs) - {(p, k)}"
proof -
  from assms(1) obtain pre post where bs: "bs = pre @ (k, False) # post" "p = a + total pre" by (rule in_use_split)
  have pos: "\<forall>b \<in> set pre. 0 < fst b" "0 < k" using blocks_ok_pos [OF assms(2)] bs(1) by auto
  note mark = mark_free_at [OF pos, of a False post]
  show "total (release p a bs) = total bs" by (simp add: release_def)
  show "free_bytes (release p a bs) = free_bytes bs + k" using bs mark by (simp add: release_def)
  have "(p, k) \<notin> set (in_use a pre)" using in_use_range [of p k a pre] pos(2) bs(2) by auto
  moreover have "(p, k) \<notin> set (in_use (p + k) post)" using in_use_range [of p k "p + k" post] pos(2) by auto
  ultimately show "set (in_use a (release p a bs)) = set (in_use a bs) - {(p, k)}"
    using bs mark by (auto simp: release_def add.assoc)
qed

end
