(* ===== verification/Rtos_Alloc.thy ===== *)
theory Rtos_Alloc
  imports Rtos_Blocks
begin

text \<open>
  The allocator implements the row of blocks: the relation between the headers in memory and a row, and that every function of
  \<^verbatim>\<open>heap_4.c\<close> does to the headers what its specification does to the row.
\<close>

section \<open>Addresses as natural numbers\<close>

lemma of_nat_u32_eq: "a < 2 ^ 32 \<Longrightarrow> b < 2 ^ 32 \<Longrightarrow> (of_nat a :: u32) = of_nat b \<longleftrightarrow> a = b"
  by (simp add: of_nat_inverse word_of_nat_eq_iff take_bit_nat_eq_self)

lemma of_nat_u32_less: "a < 2 ^ 32 \<Longrightarrow> b < 2 ^ 32 \<Longrightarrow> (of_nat a :: u32) < of_nat b \<longleftrightarrow> a < b"
  by (simp add: word_of_nat_less_iff take_bit_nat_eq_self)

lemma of_nat_u32_le: "a < 2 ^ 32 \<Longrightarrow> b < 2 ^ 32 \<Longrightarrow> (of_nat a :: u32) \<le> of_nat b \<longleftrightarrow> a \<le> b"
  by (simp add: word_of_nat_less_eq_iff take_bit_nat_eq_self)

lemma of_nat_u32_minus: "b \<le> a \<Longrightarrow> (of_nat a :: u32) - of_nat b = of_nat (a - b)"
  by simp

lemmas u32_nat = of_nat_u32_eq of_nat_u32_less of_nat_u32_le

lemma u32_alignment:
  "(w :: u32) AND portBYTE_ALIGNMENT_MASK = 0 \<longleftrightarrow> 8 dvd unat w"
  "unat ((w :: u32) AND NOT portBYTE_ALIGNMENT_MASK) = unat w div 8 * 8"
  "unat ((w :: u32) AND portBYTE_ALIGNMENT_MASK) = unat w mod 8"
proof -
  have mask: "portBYTE_ALIGNMENT_MASK = mask 3" by (simp add: portBYTE_ALIGNMENT_MASK_def mask_eq_exp_minus_1)
  have m: "unat (w AND mask 3) = unat w mod 8"
    unfolding take_bit_eq_mask [symmetric] unsigned_take_bit_eq by (simp add: take_bit_eq_mod)
  then show "unat (w AND portBYTE_ALIGNMENT_MASK) = unat w mod 8" unfolding mask .
  show "w AND portBYTE_ALIGNMENT_MASK = 0 \<longleftrightarrow> 8 dvd unat w"
    unfolding mask unat_eq_zero [symmetric] m by (simp add: mod_eq_0_iff_dvd)
  have "(w AND NOT (mask 3)) + (w AND mask 3) = (w AND NOT (mask 3)) OR (w AND mask 3)"
    by (rule disjunctive_add) (auto simp: bit_simps)
  also have "\<dots> = w" by (rule bit_eqI) (auto simp: bit_simps)
  finally have "w AND NOT (mask 3) = w - (w AND mask 3)" by (simp add: eq_diff_eq)
  moreover have "w AND mask 3 \<le> w" by (simp add: word_le_nat_alt m)
  ultimately show "unat (w AND NOT portBYTE_ALIGNMENT_MASK) = unat w div 8 * 8"
    unfolding mask by (simp add: unat_sub m minus_mod_eq_div_mult)
qed

section \<open>The free list of a row\<close>

text \<open>
  The first free block of a row, or what follows the row; and the last one, or what precedes it. The headers of a row whose
  free list goes on to \<open>nx\<close>.
\<close>

fun first_free :: "nat \<Rightarrow> blocks \<Rightarrow> nat \<Rightarrow> nat" where
  "first_free a [] nx = nx"
| "first_free a ((k, f) # bs) nx = (if f then a else first_free (a + k) bs nx)"

fun last_free :: "nat \<Rightarrow> nat \<Rightarrow> blocks \<Rightarrow> nat" where
  "last_free x a [] = x"
| "last_free x a ((k, f) # bs) = last_free (if f then a else x) (a + k) bs"

fun headers :: "(u32 \<Rightarrow> BlockLink_t) \<Rightarrow> nat \<Rightarrow> blocks \<Rightarrow> nat \<Rightarrow> bool" where
  "headers m a [] nx \<longleftrightarrow> True"
| "headers m a ((k, f) # bs) nx \<longleftrightarrow>
     m (of_nat a) = (if f then \<lparr>pxNextFreeBlock = of_nat (first_free (a + k) bs nx), xBlockSize = of_nat k\<rparr>
                     else \<lparr>pxNextFreeBlock = 0, xBlockSize = of_nat k OR heapBLOCK_ALLOCATED_BITMASK\<rparr>) \<and>
     headers m (a + k) bs nx"

lemma first_free_append: "first_free a (xs @ ys) nx = first_free a xs (first_free (a + total xs) ys nx)"
  by (induction a xs nx rule: first_free.induct) (simp_all add: add.assoc)

lemma headers_append:
  "headers m a (xs @ ys) nx \<longleftrightarrow> headers m a xs (first_free (a + total xs) ys nx) \<and> headers m (a + total xs) ys nx"
  by (induction m a xs nx rule: headers.induct) (auto simp: first_free_append add.assoc)

lemma headers_cong:
  "\<forall>x. a \<le> x \<and> x < a + total bs \<longrightarrow> m' (of_nat x) = m (of_nat x) \<Longrightarrow> \<forall>b \<in> set bs. 0 < fst b \<Longrightarrow>
    headers m' a bs nx = headers m a bs nx"
  by (induction m a bs nx rule: headers.induct) auto

text \<open>Where the ends of the free list are.\<close>

lemma first_free_range:
  "\<forall>b \<in> set bs. 0 < fst b \<Longrightarrow> first_free a bs nx = nx \<or> a \<le> first_free a bs nx \<and> first_free a bs nx < a + total bs"
  by (induction a bs nx rule: first_free.induct) auto

lemma last_free_range:
  "\<forall>b \<in> set bs. 0 < fst b \<Longrightarrow> last_free x a bs = x \<or> a \<le> last_free x a bs \<and> last_free x a bs < a + total bs"
proof (induction x a bs rule: last_free.induct)
  case (2 x a k f bs)
  then show ?case by (cases f) auto
qed simp

text \<open>Only the last free block, or what precedes the row, changes when the free list behind the row changes.\<close>

definition link :: "nat \<Rightarrow> nat \<Rightarrow> (u32 \<Rightarrow> BlockLink_t) \<Rightarrow> u32 \<Rightarrow> BlockLink_t" where
  "link p nx m = m(of_nat p := (m (of_nat p))\<lparr>pxNextFreeBlock := of_nat nx\<rparr>)"

lemma link_size [simp]: "xBlockSize (link p nx m q) = xBlockSize (m q)"
  by (simp add: link_def)

lemma link_other: "q \<noteq> of_nat p \<Longrightarrow> link p nx m q = m q"
  by (simp add: link_def)

lemma header_eq: "b = \<lparr>pxNextFreeBlock = n, xBlockSize = k\<rparr> \<longleftrightarrow> pxNextFreeBlock b = n \<and> xBlockSize b = k"
  for b :: BlockLink_t
  by (cases b) simp

lemma relink:
  assumes "headers m a bs nx" "pxNextFreeBlock (m (of_nat x)) = of_nat (first_free a bs nx)"
    and "\<forall>b \<in> set bs. 0 < fst b" "a + total bs < 2 ^ 32" "x < 2 ^ 32" "x < a \<or> a + total bs \<le> x"
  shows "headers (link (last_free x a bs) nx' m) a bs nx' \<and>
    pxNextFreeBlock (link (last_free x a bs) nx' m (of_nat x)) = of_nat (first_free a bs nx') \<and>
    pxNextFreeBlock (m (of_nat (last_free x a bs))) = of_nat nx"
  using assms
proof (induction bs arbitrary: a x)
  case Nil
  then show ?case by (simp add: link_def)
next
  case (Cons b bs)
  obtain k f where b: "b = (k, f)" by (cases b)
  let ?p = "last_free (if f then a else x) (a + k) bs"
  have k: "0 < k" using Cons.prems(3) b by simp
  have IH: "headers (link ?p nx' m) (a + k) bs nx' \<and>
    pxNextFreeBlock (link ?p nx' m (of_nat (if f then a else x))) = of_nat (first_free (a + k) bs nx') \<and>
    pxNextFreeBlock (m (of_nat ?p)) = of_nat nx"
    by (rule Cons.IH) (use Cons.prems b k in auto)
  have p: "?p = (if f then a else x) \<or> a + k \<le> ?p \<and> ?p < a + k + total bs"
    using last_free_range [of bs "if f then a else x" "a + k"] Cons.prems(3) by simp
  have ne: "of_nat ?p \<noteq> (of_nat a :: u32)" if "\<not> f"
    using p that Cons.prems(4-6) b k by (subst of_nat_u32_eq) auto
  have ne': "of_nat ?p \<noteq> (of_nat x :: u32)" if f
    using p that Cons.prems(4-6) b k by (subst of_nat_u32_eq) auto
  show ?case
  proof (cases f)
    case True
    with IH b ne' show ?thesis using Cons.prems(1,2) by (simp add: header_eq link_other)
  next
    case False
    with IH b ne show ?thesis using Cons.prems(1) by (simp add: link_other)
  qed
qed


section \<open>The relation\<close>

text \<open>The aligned part of the array, without the marker of the end; the array is in memory and does not contain the list head.\<close>

definition heap_start :: "heap_places \<Rightarrow> nat" where
  "heap_start L = (unat (ucHeap L) + 7) div 8 * 8"

definition heap_end :: "heap_places \<Rightarrow> nat" where
  "heap_end L = (unat (ucHeap L) + 76800 - 8) div 8 * 8"

definition places_ok :: "heap_places \<Rightarrow> bool" where
  "places_ok L \<longleftrightarrow> 0 < unat (ucHeap L) \<and> unat (ucHeap L) + 76800 < 2 ^ 32 \<and>
     (unat (xStart L) + 8 \<le> unat (ucHeap L) \<or> unat (ucHeap L) + 76800 \<le> unat (xStart L))"

definition heap_is :: "heap_places \<Rightarrow> heap4 \<Rightarrow> blocks \<Rightarrow> bool" where
  "heap_is L s bs \<longleftrightarrow>
     places_ok L \<and> blocks_ok bs \<and> heap_start L + total bs = heap_end L \<and>
     pxEnd s = of_nat (heap_end L) \<and> block s (of_nat (heap_end L)) = \<lparr>pxNextFreeBlock = 0, xBlockSize = 0\<rparr> \<and>
     block s (xStart L) = \<lparr>pxNextFreeBlock = of_nat (first_free (heap_start L) bs (heap_end L)), xBlockSize = 0\<rparr> \<and>
     headers (block s) (heap_start L) bs (heap_end L) \<and>
     xFreeBytesRemaining s = of_nat (free_bytes bs) \<and>
     unat (xMinimumEverFreeBytesRemaining s) \<le> free_bytes bs"

lemma heap_range:
  assumes "places_ok L"
  shows "unat (ucHeap L) \<le> heap_start L" "heap_start L \<le> heap_end L" "heap_end L + 8 \<le> unat (ucHeap L) + 76800"
    "heap_end L + 8 < 2 ^ 32" "0 < heap_start L" "8 dvd heap_start L" "8 dvd heap_end L"
    "76800 - 22 \<le> heap_end L - heap_start L" "heap_end L - heap_start L < 76800"
    "unat (xStart L) < heap_start L \<or> heap_end L + 8 \<le> unat (xStart L)"
proof -
  let ?u = "unat (ucHeap L)"
  have u: "0 < ?u" "?u + 76800 < 2 ^ 32" "unat (xStart L) + 8 \<le> ?u \<or> ?u + 76800 \<le> unat (xStart L)"
    using assms by (auto simp: places_ok_def)
  have "heap_start L + (?u + 7) mod 8 = ?u + 7" unfolding heap_start_def by (rule div_mult_mod_eq)
  then obtain r where r: "heap_start L + r = ?u + 7" "r < 8" by (metis mod_less_divisor zero_less_numeral)
  have "heap_end L + (?u + 76800 - 8) mod 8 = ?u + 76800 - 8" unfolding heap_end_def by (rule div_mult_mod_eq)
  then obtain r' where r': "heap_end L + r' = ?u + 76800 - 8" "r' < 8" by (metis mod_less_divisor zero_less_numeral)
  show "?u \<le> heap_start L" "heap_start L \<le> heap_end L" "heap_end L + 8 \<le> ?u + 76800"
    "heap_end L + 8 < 2 ^ 32" "0 < heap_start L" "76800 - 22 \<le> heap_end L - heap_start L" "heap_end L - heap_start L < 76800"
    using u(1,2) r r' by simp_all
  show "unat (xStart L) < heap_start L \<or> heap_end L + 8 \<le> unat (xStart L)" using u(3) r r' by auto
  show "8 dvd heap_start L" "8 dvd heap_end L" by (simp_all add: heap_start_def heap_end_def)
qed

lemma heap_isD:
  assumes "heap_is L s bs"
  shows "places_ok L" "blocks_ok bs" "heap_start L + total bs = heap_end L" "pxEnd s = of_nat (heap_end L)"
    "block s (of_nat (heap_end L)) = \<lparr>pxNextFreeBlock = 0, xBlockSize = 0\<rparr>"
    "block s (xStart L) = \<lparr>pxNextFreeBlock = of_nat (first_free (heap_start L) bs (heap_end L)), xBlockSize = 0\<rparr>"
    "headers (block s) (heap_start L) bs (heap_end L)"
    "xFreeBytesRemaining s = of_nat (free_bytes bs)" "unat (xMinimumEverFreeBytesRemaining s) \<le> free_bytes bs"
  using assms by (simp_all add: heap_is_def)

lemma validate_pointer:
  assumes "places_ok L" "unat (ucHeap L) \<le> a" "a < unat (ucHeap L) + 76800"
  shows "heapVALIDATE_BLOCK_POINTER L (of_nat a)"
proof -
  have "unat (ucHeap L) + 76799 < 2 ^ 32" using assms(1) by (simp add: places_ok_def)
  then have "unat (ucHeap L + 76799) = unat (ucHeap L) + 76799" by (simp add: unat_word_ariths)
  moreover have "a < 2 ^ 32" using assms by (simp add: places_ok_def)
  ultimately show ?thesis
    using assms(2,3) by (simp add: heapVALIDATE_BLOCK_POINTER_def configTOTAL_HEAP_SIZE_def word_le_nat_alt unat_of_nat_u32)
qed

section \<open>The searches\<close>

lemma malloc_search_step:
  "size_of s b < n \<Longrightarrow> next_of s b \<noteq> 0 \<Longrightarrow> heapVALIDATE_BLOCK_POINTER L (next_of s b) \<Longrightarrow>
    malloc_search L n s p b = malloc_search L n s b (next_of s b)"
  using malloc_search.simps [of L n s p b] by simp

lemma malloc_search_stop: "\<not> (size_of s b < n \<and> next_of s b \<noteq> 0) \<Longrightarrow> malloc_search L n s p b = Some (p, b)"
  by (subst malloc_search.simps) auto

lemma malloc_search_pass:
  assumes "headers (block s) a pre nx" "\<forall>(k, f) \<in> set pre. f \<longrightarrow> of_nat k < n" "\<forall>b \<in> set pre. 0 < fst b"
    and "places_ok L" "unat (ucHeap L) \<le> a" "a + total pre \<le> nx" "nx < unat (ucHeap L) + 76800"
  shows "malloc_search L n s (of_nat x) (of_nat (first_free a pre nx)) =
    malloc_search L n s (of_nat (last_free x a pre)) (of_nat nx)"
  using assms
proof (induction x a pre rule: last_free.induct)
  case (1 x a)
  then show ?case by simp
next
  case (2 x a k f bs)
  show ?case
  proof (cases f)
    case False
    with 2 show ?thesis by simp
  next
    case True
    let ?nx = "first_free (a + k) bs nx"
    have hd: "block s (of_nat a) = \<lparr>pxNextFreeBlock = of_nat ?nx, xBlockSize = of_nat k\<rparr>" using "2.prems"(1) True by simp
    have r: "?nx = nx \<or> a + k \<le> ?nx \<and> ?nx < a + k + total bs" using first_free_range [of bs] "2.prems"(3) by simp
    then have b: "unat (ucHeap L) \<le> ?nx" "?nx < unat (ucHeap L) + 76800" using "2.prems"(5-7) by auto
    have "0 < k" using "2.prems"(3) by simp
    then have "0 < ?nx" "?nx < 2 ^ 32" using r b "2.prems"(4,6) by (auto simp: places_ok_def)
    then have "(of_nat ?nx :: u32) \<noteq> 0" using of_nat_u32_eq [of ?nx 0] by simp
    moreover have "(of_nat k :: u32) < n" using "2.prems"(2) True by simp
    moreover have "heapVALIDATE_BLOCK_POINTER L (of_nat ?nx)" by (rule validate_pointer [OF "2.prems"(4) b])
    ultimately have "malloc_search L n s (of_nat x) (of_nat a) = malloc_search L n s (of_nat a) (of_nat ?nx)"
      using hd malloc_search_step [of s "of_nat a" n L "of_nat x"] by simp
    also have "\<dots> = malloc_search L n s (of_nat (last_free a (a + k) bs)) (of_nat nx)"
      using "2.IH" "2.prems" True by simp
    finally show ?thesis using True by simp
  qed
qed

lemma insert_search_pass:
  assumes "headers (block s) a pre nx" "\<forall>b \<in> set pre. 0 < fst b" "a + total pre < 2 ^ 32"
    and "next_of s (of_nat x) = of_nat (first_free a pre nx)"
  shows "insert_search (of_nat (a + total pre)) s (of_nat x) =
    insert_search (of_nat (a + total pre)) s (of_nat (last_free x a pre))"
  using assms
proof (induction x a pre rule: last_free.induct)
  case (1 x a)
  then show ?case by simp
next
  case (2 x a k f bs)
  show ?case
  proof (cases f)
    case False
    with 2 show ?thesis by (simp add: add.assoc [symmetric])
  next
    case True
    have "(of_nat a :: u32) < of_nat (a + (k + total bs))"
      using "2.prems"(2,3) by (subst of_nat_u32_less) auto
    then have "insert_search (of_nat (a + (k + total bs))) s (of_nat x) = insert_search (of_nat (a + (k + total bs))) s (of_nat a)"
      using "2.prems"(4) True insert_search.simps [of "of_nat (a + (k + total bs))" s "of_nat x"] by (simp del: of_nat_add)
    with 2 True show ?thesis by (simp add: add.assoc [symmetric] del: of_nat_add)
  qed
qed

section \<open>Changing a part of the row\<close>

text \<open>Where the free list is entered for a part of the row.\<close>

definition entry :: "heap_places \<Rightarrow> blocks \<Rightarrow> nat" where
  "entry L pre = last_free (unat (xStart L)) (heap_start L) pre"

lemma entry_range:
  assumes "places_ok L" "\<forall>b \<in> set pre. 0 < fst b" "heap_start L + total pre \<le> heap_end L"
  shows "entry L pre < heap_start L + total pre \<or> heap_end L + 8 \<le> entry L pre" "entry L pre < 2 ^ 32"
proof -
  have x: "unat (xStart L) < 2 ^ 32" using unsigned_less [of "xStart L"] by simp
  have r: "entry L pre = unat (xStart L) \<or> heap_start L \<le> entry L pre \<and> entry L pre < heap_start L + total pre"
    unfolding entry_def using last_free_range [OF assms(2)] by blast
  then show "entry L pre < heap_start L + total pre \<or> heap_end L + 8 \<le> entry L pre"
    using heap_range(10) [OF assms(1)] by auto
  show "entry L pre < 2 ^ 32" using r x assms(3) heap_range(4) [OF assms(1)] by linarith
qed

lemma entry_link:
  assumes "heap_is L s (pre @ rest)"
  defines "b \<equiv> heap_start L + total pre"
  shows "headers (link (entry L pre) nx (block s)) (heap_start L) pre nx"
    "link (entry L pre) nx (block s) (xStart L) = \<lparr>pxNextFreeBlock = of_nat (first_free (heap_start L) pre nx), xBlockSize = 0\<rparr>"
    "next_of s (of_nat (entry L pre)) = of_nat (first_free b rest (heap_end L))"
proof -
  note D = heap_isD [OF assms(1)]
  have x: "of_nat (unat (xStart L)) = xStart L" "unat (xStart L) < 2 ^ 32" using unsigned_less [of "xStart L"] by simp_all
  have pos: "\<forall>b \<in> set pre. 0 < fst b" using blocks_ok_pos [OF D(2)] by auto
  have le: "heap_start L + total pre \<le> heap_end L" using D(3) by simp
  have R: "headers (link (entry L pre) nx (block s)) (heap_start L) pre nx \<and>
    pxNextFreeBlock (link (entry L pre) nx (block s) (of_nat (unat (xStart L)))) = of_nat (first_free (heap_start L) pre nx) \<and>
    pxNextFreeBlock (block s (of_nat (entry L pre))) = of_nat (first_free b rest (heap_end L))"
    unfolding entry_def
    by (rule relink)
      (use D(6,7) pos le x heap_range(4,10) [OF D(1)] in \<open>auto simp: headers_append first_free_append b_def\<close>)
  then show "headers (link (entry L pre) nx (block s)) (heap_start L) pre nx"
    "link (entry L pre) nx (block s) (xStart L) = \<lparr>pxNextFreeBlock = of_nat (first_free (heap_start L) pre nx), xBlockSize = 0\<rparr>"
    "next_of s (of_nat (entry L pre)) = of_nat (first_free b rest (heap_end L))"
    using D(6) x(1) by (simp_all add: header_eq)
qed

lemma heap_is_replace:
  assumes old: "heap_is L s (pre @ mid @ post)" and ok: "blocks_ok (pre @ mid' @ post)" and total: "total mid' = total mid"
    and b: "b = heap_start L + total pre"
    and out: "\<And>q. q < b \<or> b + total mid \<le> q \<Longrightarrow> q < 2 ^ 32 \<Longrightarrow>
      block s' (of_nat q) = link (entry L pre) (first_free b (mid' @ post) (heap_end L)) (block s) (of_nat q)"
    and new: "headers (block s') b mid' (first_free (b + total mid) post (heap_end L))"
    and rest: "pxEnd s' = pxEnd s" "xFreeBytesRemaining s' = of_nat (free_bytes (pre @ mid' @ post))"
      "unat (xMinimumEverFreeBytesRemaining s') \<le> free_bytes (pre @ mid' @ post)"
  shows "heap_is L s' (pre @ mid' @ post)"
proof -
  note D = heap_isD [OF old] and R = heap_range [OF heap_isD(1) [OF old]]
  let ?E = "heap_end L" and ?p = "entry L pre"
  let ?nx = "first_free b (mid' @ post) ?E"
  have pos: "\<forall>b \<in> set pre. 0 < fst b" "\<forall>b \<in> set post. 0 < fst b" using blocks_ok_pos [OF D(2)] by auto
  have E: "b + total mid + total post = ?E" using D(3) b by simp
  have p: "?p < b \<or> ?E + 8 \<le> ?p" "?p < 2 ^ 32" using entry_range [OF D(1) pos(1)] E b by auto
  note link = entry_link(1,2) [OF old, of ?nx]
  have x: "of_nat (unat (xStart L)) = xStart L" "unat (xStart L) < 2 ^ 32" using unsigned_less [of "xStart L"] by simp_all
  have "headers (block s') (heap_start L) pre ?nx = headers (link ?p ?nx (block s)) (heap_start L) pre ?nx"
    by (rule headers_cong [OF _ pos(1)]) (use out b E R(4) in auto)
  then have pre: "headers (block s') (heap_start L) pre ?nx" using link(1) by simp
  have same: "block s' (of_nat q) = block s (of_nat q)" if "b + total mid \<le> q" "q \<le> ?E" for q
  proof -
    have "q \<noteq> ?p" "q < 2 ^ 32" using that p(1) R(4) by auto
    then have "(of_nat q :: u32) \<noteq> of_nat ?p" using of_nat_u32_eq p(2) by blast
    then show ?thesis using out [of q] that(1) \<open>q < 2 ^ 32\<close> by (simp add: link_other)
  qed
  have "headers (block s') (b + total mid) post ?E = headers (block s) (b + total mid) post ?E"
    by (rule headers_cong [OF _ pos(2)]) (use same E in auto)
  then have post: "headers (block s') (b + total mid) post ?E" using D(7) b by (simp add: headers_append add.assoc)
  have "block s' (xStart L) = link ?p ?nx (block s) (xStart L)"
    using out [of "unat (xStart L)"] x R(10) b E by auto
  with link(2) have "block s' (xStart L) =
      \<lparr>pxNextFreeBlock = of_nat (first_free (heap_start L) (pre @ mid' @ post) ?E), xBlockSize = 0\<rparr>"
    by (simp add: first_free_append b)
  moreover have "headers (block s') (heap_start L) (pre @ mid' @ post) ?E"
    using pre post new total by (simp add: headers_append b first_free_append)
  moreover have "block s' (of_nat ?E) = \<lparr>pxNextFreeBlock = 0, xBlockSize = 0\<rparr>" using same [of ?E] E D(5) by simp
  ultimately show ?thesis using D(1,3,4) ok total rest by (simp add: heap_is_def)
qed

section \<open>Allocation\<close>

lemma heap_bytes:
  assumes "heap_is L s bs"
  shows "total bs < 76800" "free_bytes bs < 76800" "(k, f) \<in> set bs \<Longrightarrow> k < 76800"
proof -
  show t: "total bs < 76800" using heap_isD(3) [OF assms] heap_range(9) [OF heap_isD(1) [OF assms]] by simp
  show "free_bytes bs < 76800" using t free_bytes_le [of bs] by simp
  show "(k, f) \<in> set bs \<Longrightarrow> k < 76800" using t block_le_total [of k f bs] by simp
qed

lemma heap_constants:
  "xHeapStructSize = 8" "heapMINIMUM_BLOCK_SIZE = 16" "heapBLOCK_ALLOCATED_BITMASK = 2 ^ 31"
proof -
  show s: "xHeapStructSize = 8"
    by (simp add: xHeapStructSize_def sizeof_BlockLink_t_def portBYTE_ALIGNMENT_def portBYTE_ALIGNMENT_MASK_def)
  show "heapMINIMUM_BLOCK_SIZE = 16" "heapBLOCK_ALLOCATED_BITMASK = 2 ^ 31"
    by (simp_all add: heapMINIMUM_BLOCK_SIZE_def s heapBLOCK_ALLOCATED_BITMASK_def push_bit_eq_mult)
qed

lemma malloc_take_heap:
  assumes heap: "heap_is L s (pre @ (k, True) # post)" and n: "n \<le> k" "8 dvd n" "16 \<le> n"
  defines "b \<equiv> heap_start L + total pre"
  obtains s' where "malloc_take L (of_nat n) (of_nat (entry L pre)) (of_nat b) s = Some (of_nat (b + 8), s')"
    "heap_is L s' (pre @ split_block n k @ post)"
    "xNumberOfSuccessfulAllocations s' = xNumberOfSuccessfulAllocations s + 1"
    "xNumberOfSuccessfulFrees s' = xNumberOfSuccessfulFrees s"
proof -
  note D = heap_isD [OF heap] and R = heap_range [OF heap_isD(1) [OF heap]]
  let ?E = "heap_end L" and ?P = "entry L pre" and ?A = "heapBLOCK_ALLOCATED_BITMASK"
  let ?C = "first_free (b + k) post ?E" and ?m = "block s"
  have pos: "\<forall>b \<in> set pre. 0 < fst b" using blocks_ok_pos [OF D(2)] by auto
  have k: "k < 76800" "16 \<le> k" "8 dvd k" using heap_bytes(3) [OF heap, of k True] blocks_okD(2) [OF D(2), of k True] n by auto
  have E: "b + k + total post = ?E" using D(3) by (simp add: b_def)
  have p: "?P < b \<or> ?E + 8 \<le> ?P" "?P < 2 ^ 32" using entry_range [OF D(1) pos] E b_def by auto
  have hb: "?m (of_nat b) = \<lparr>pxNextFreeBlock = of_nat ?C, xBlockSize = of_nat k\<rparr>"
    using D(7) by (simp add: headers_append b_def)
  have hp: "next_of s (of_nat ?P) = of_nat b" using entry_link(3) [OF heap] by (simp add: b_def)
  have ne: "(of_nat ?P :: u32) \<noteq> of_nat b" "(of_nat b :: u32) \<noteq> of_nat (b + n)" "(of_nat ?P :: u32) \<noteq> of_nat (b + n)"
    using p E R(4) n by (subst of_nat_u32_eq; auto)+
  have valid: "heapVALIDATE_BLOCK_POINTER L (of_nat (b + 8))"
    by (rule validate_pointer [OF D(1)]) (use E R(1,3) k b_def in auto)
  have le: "(of_nat n :: u32) \<le> of_nat k" and gt: "(16 :: u32) < of_nat k - of_nat n \<longleftrightarrow> 16 < k - n"
    using n k of_nat_u32_le [of n k] of_nat_u32_less [of 16 "k - n"] by (simp_all add: of_nat_u32_minus del: of_nat_diff)
  have "unat (of_nat (b + n) :: u32) = b + n" by (rule unat_of_nat_u32) (use E R(4) n in simp)
  moreover have "8 dvd b" using blocks_ok_total [of pre] blocks_ok_append [OF D(2)] R(6) by (simp add: b_def)
  ultimately have align: "(of_nat b + of_nat n :: u32) AND portBYTE_ALIGNMENT_MASK = 0"
    using u32_alignment(1) [of "of_nat (b + n)"] n(2) by simp
  let ?nx = "if 16 < k - n then b + n else ?C" and ?j = "if 16 < k - n then n else k"
  let ?blk = "(link ?P ?nx ?m)
      (of_nat (b + n) := (if 16 < k - n then \<lparr>pxNextFreeBlock = of_nat ?C, xBlockSize = of_nat (k - n)\<rparr> else link ?P ?nx ?m (of_nat (b + n))),
       of_nat b := \<lparr>pxNextFreeBlock = 0, xBlockSize = of_nat ?j OR ?A\<rparr>)"
  let ?f = "xFreeBytesRemaining s - of_nat ?j"
  let ?s' = "s\<lparr>block := ?blk, xFreeBytesRemaining := ?f,
      xMinimumEverFreeBytesRemaining := min ?f (xMinimumEverFreeBytesRemaining s),
      xNumberOfSuccessfulAllocations := xNumberOfSuccessfulAllocations s + 1\<rparr>"
  have run: "malloc_take L (of_nat n) (of_nat ?P) (of_nat b) s = Some (of_nat (b + 8), ?s')"
    using valid le gt align hb hp ne
    by (cases "16 < k - n")
      (auto simp: malloc_take_def Let_def set_next_def set_size_def heap_constants heapSUBTRACT_WILL_UNDERFLOW_def
        heapALLOCATE_BLOCK_def link_def min_def fun_eq_iff)
  have taken: "free_bytes (pre @ split_block n k @ post) + ?j = free_bytes (pre @ (k, True) # post)"
    using n by (simp add: split_block_def)
  then have f: "?f = of_nat (free_bytes (pre @ split_block n k @ post))"
    using D(8) by (metis add_diff_cancel_right' of_nat_add)
  have first: "first_free b (split_block n k @ post) ?E = ?nx" using n by (simp add: split_block_def)
  have "heap_is L ?s' (pre @ split_block n k @ post)"
  proof (rule heap_is_replace [of L s pre "[(k, True)]" post "split_block n k" b])
    show "heap_is L s (pre @ [(k, True)] @ post)" using heap by simp
    show "blocks_ok (pre @ split_block n k @ post)"
      using D(2) n k by (auto simp: blocks_ok_def split_block_def separated_append separated_Cons dvd_diff_nat)
    show "total (split_block n k) = total [(k, True)]" using n by simp
    show "b = heap_start L + total pre" by (simp add: b_def)
    fix q assume q: "q < b \<or> b + total [(k, True)] \<le> q" "q < 2 ^ 32"
    then have "q \<noteq> b" "16 < k - n \<longrightarrow> q \<noteq> b + n" using n k by auto
    then have "(of_nat q :: u32) \<noteq> of_nat b" "16 < k - n \<longrightarrow> (of_nat q :: u32) \<noteq> of_nat (b + n)"
      using q(2) E R(4) n of_nat_u32_eq [of q b] of_nat_u32_eq [of q "b + n"] by auto
    then show "block ?s' (of_nat q) = link ?P (first_free b (split_block n k @ post) ?E) ?m (of_nat q)"
      unfolding first by (auto simp del: of_nat_add)
  next
    show "headers (block ?s') b (split_block n k) (first_free (b + total [(k, True)]) post ?E)"
      using ne n by (cases "16 < k - n") (auto simp: split_block_def simp del: of_nat_add)
  next
    have "unat ?f = free_bytes (pre @ split_block n k @ post)"
      unfolding f using taken heap_bytes(2) [OF heap] by (intro unat_of_nat_u32) simp
    then show "unat (xMinimumEverFreeBytesRemaining ?s') \<le> free_bytes (pre @ split_block n k @ post)"
      by (simp add: min_def word_le_nat_alt)
  qed (use f in simp_all)
  from that [OF run this] show ?thesis by simp
qed

text \<open>The size of the block for a request, and where it is too large for any block.\<close>

definition block_size :: "nat \<Rightarrow> nat" where
  "block_size n = (n + 15) div 8 * 8"

lemma wanted_size_0 [simp]: "wanted_size 0 = 0"
  by (simp add: wanted_size_def)

lemma block_size_cases:
  "block_size n = (if (n + 8) mod 8 = 0 then n + 8 else n + 8 + (8 - (n + 8) mod 8))"
proof -
  obtain q r where n: "n = 8 * q + r" "r < 8" by (metis mult_div_mod_eq mod_less_divisor zero_less_numeral)
  then have "(n + 15) div 8 = (if r = 0 then q + 1 else q + 2)" by auto
  then show ?thesis using n by (simp add: block_size_def)
qed

lemma add_overflow: "heapADD_WILL_OVERFLOW a b \<longleftrightarrow> 2 ^ 32 \<le> unat a + unat b"
proof -
  have "unat (- 1 :: u32) = 2 ^ 32 - 1" by (simp add: unsigned_minus_1_eq_mask mask_eq_exp_minus_1)
  then have "unat (NOT 0 - b) = 2 ^ 32 - 1 - unat b" by (subst unat_sub) simp_all
  moreover have "unat b < 2 ^ 32" using unsigned_less [of b] by simp
  ultimately show ?thesis by (auto simp: heapADD_WILL_OVERFLOW_def word_less_nat_alt)
qed

lemma wanted_size_nat:
  assumes "0 < w"
  shows "unat (wanted_size w) = (if block_size (unat w) < 2 ^ 32 then block_size (unat w) else 0)"
proof (cases "unat w + 8 < 2 ^ 32")
  case False
  then show ?thesis using assms
    by (auto simp: wanted_size_def add_overflow heap_constants block_size_cases)
next
  case True
  let ?r = "(unat w + 8) mod 8"
  have n: "unat (w + 8) = unat w + 8" using True by (simp add: unat_word_ariths)
  have r: "unat ((w + 8) AND portBYTE_ALIGNMENT_MASK) = ?r" by (simp add: u32_alignment(3) n)
  then have zero: "(w + 8) AND portBYTE_ALIGNMENT_MASK = 0 \<longleftrightarrow> ?r = 0" by (simp add: unat_eq_zero [symmetric])
  have "?r < 8" by simp
  then have m: "unat (portBYTE_ALIGNMENT - ((w + 8) AND portBYTE_ALIGNMENT_MASK)) = 8 - ?r"
    by (subst unat_sub) (simp_all add: r portBYTE_ALIGNMENT_def word_le_nat_alt)
  show ?thesis
  proof (cases "?r = 0")
    case True
    then show ?thesis using assms \<open>unat w + 8 < 2 ^ 32\<close> zero n
      by (simp add: wanted_size_def add_overflow heap_constants block_size_cases)
  next
    case False
    have "unat (w + 8 + (portBYTE_ALIGNMENT - ((w + 8) AND portBYTE_ALIGNMENT_MASK))) = unat w + 8 + (8 - ?r)"
      if "unat w + 8 + (8 - ?r) < 2 ^ 32"
      using that unfolding unat_word_ariths(1) [of "w + 8"] n m by simp
    then show ?thesis using assms \<open>unat w + 8 < 2 ^ 32\<close> zero n m False
      by (auto simp: wanted_size_def add_overflow heap_constants block_size_cases Let_def)
  qed
qed

lemma block_size_ok: "8 dvd block_size n" "0 < n \<Longrightarrow> 16 \<le> block_size n" "n + 8 \<le> block_size n" "block_size n \<le> n + 15"
proof -
  show "8 dvd block_size n" by (simp add: block_size_def)
  have "(n + 8) mod 8 < 8" by simp
  then show "n + 8 \<le> block_size n" "block_size n \<le> n + 15" unfolding block_size_cases by auto
  with \<open>8 dvd block_size n\<close> show "16 \<le> block_size n" if "0 < n"
    using that by (auto elim!: dvdE)
qed

text \<open>The bit that marks a block in use.\<close>

lemma mark_bit: "bit heapBLOCK_ALLOCATED_BITMASK i \<longleftrightarrow> i = 31"
  unfolding heap_constants(3) bit_exp_iff by auto

lemma no_mark_bit:
  assumes "unat (n :: u32) < 2 ^ 31"
  shows "\<not> bit n 31"
proof -
  have "\<not> bit (unat n) 31" using assms by (simp add: bit_iff_odd)
  then show ?thesis by (simp add: bit_unsigned_iff)
qed

lemma mark_bit_simps:
  assumes "unat (n :: u32) < 2 ^ 31"
  shows "n AND heapBLOCK_ALLOCATED_BITMASK = 0"
    "(n OR heapBLOCK_ALLOCATED_BITMASK) AND heapBLOCK_ALLOCATED_BITMASK \<noteq> 0"
    "(n OR heapBLOCK_ALLOCATED_BITMASK) AND NOT heapBLOCK_ALLOCATED_BITMASK = n"
proof -
  note no = no_mark_bit [OF assms]
  show "n AND heapBLOCK_ALLOCATED_BITMASK = 0"
    by (rule bit_eqI) (use no in \<open>auto simp: bit_and_iff mark_bit\<close>)
  show "(n OR heapBLOCK_ALLOCATED_BITMASK) AND NOT heapBLOCK_ALLOCATED_BITMASK = n"
    by (rule bit_eqI) (use no in \<open>auto simp: bit_and_iff bit_or_iff bit_not_iff mark_bit\<close>)
  have "bit ((n OR heapBLOCK_ALLOCATED_BITMASK) AND heapBLOCK_ALLOCATED_BITMASK) 31"
    by (simp add: bit_and_iff bit_or_iff mark_bit)
  then show "(n OR heapBLOCK_ALLOCATED_BITMASK) AND heapBLOCK_ALLOCATED_BITMASK \<noteq> 0" by force
qed

text \<open>What an allocation does to the row: a request of 0 bytes or of more than any free block fails and changes nothing.\<close>

definition malloc_row :: "nat \<Rightarrow> nat \<Rightarrow> blocks \<Rightarrow> (nat \<times> blocks) option" where
  "malloc_row w a bs = (if w = 0 then None else take_first (block_size w) a bs)"

lemma end_not_null: "heap_is L s bs \<Longrightarrow> pxEnd s \<noteq> 0"
  using heap_isD(1,4) [of L s bs] heap_range(1-5) [of L] of_nat_u32_eq [of "heap_end L" 0] by auto

lemma entry_Nil: "of_nat (unat (xStart L)) = xStart L"
  by simp

lemma malloc_search_row:
  assumes heap: "heap_is L s (pre @ rest)" and small: "\<forall>(k, f) \<in> set pre. f \<longrightarrow> of_nat k < n"
  shows "malloc_search L n s (xStart L) (next_of s (xStart L)) =
    malloc_search L n s (of_nat (entry L pre)) (of_nat (first_free (heap_start L + total pre) rest (heap_end L)))"
proof -
  note D = heap_isD [OF heap] and R = heap_range [OF heap_isD(1) [OF heap]]
  have pos: "\<forall>b \<in> set pre. 0 < fst b" "\<forall>b \<in> set rest. 0 < fst b" using blocks_ok_pos [OF D(2)] by auto
  let ?nx = "first_free (heap_start L + total pre) rest (heap_end L)"
  have nx: "heap_start L + total pre \<le> ?nx" "?nx < unat (ucHeap L) + 76800"
    using first_free_range [OF pos(2), of "heap_start L + total pre" "heap_end L"] D(3) R(3) by auto
  have "headers (block s) (heap_start L) pre ?nx" using D(7) by (simp add: headers_append)
  from malloc_search_pass [OF this small pos(1) D(1) R(1) nx, of "unat (xStart L)"] show ?thesis
    using D(6) by (simp add: first_free_append entry_def)
qed

lemma pvPortMalloc_heap:
  assumes heap: "heap_is L s bs"
  shows "case malloc_row (unat w) (heap_start L) bs of
      None \<Rightarrow> pvPortMalloc L w s = Some (0, s)
    | Some (a, bs') \<Rightarrow> (\<exists>s'. pvPortMalloc L w s = Some (of_nat (a + 8), s') \<and> heap_is L s' bs' \<and>
        xNumberOfSuccessfulAllocations s' = xNumberOfSuccessfulAllocations s + 1 \<and>
        xNumberOfSuccessfulFrees s' = xNumberOfSuccessfulFrees s)"
proof -
  note D = heap_isD [OF heap] and R = heap_range [OF heap_isD(1) [OF heap]]
  let ?n = "wanted_size w" and ?N = "block_size (unat w)"
  have pos: "\<forall>b \<in> set bs. 0 < fst b" by (rule blocks_ok_pos [OF D(2)])
  have first: "heapVALIDATE_BLOCK_POINTER L (next_of s (xStart L))"
    using D(6) first_free_range [OF pos, of "heap_start L" "heap_end L"] R(1-3) D(3)
    by (auto intro!: validate_pointer [OF D(1)])
  have small: "k < 2 ^ 32" if "(k, f) \<in> set bs" for k f using heap_bytes(3) [OF heap that] by simp
  show ?thesis
  proof (cases "malloc_row (unat w) (heap_start L) bs")
    case None
    have "pvPortMalloc L w s = Some (0, s)"
    proof (cases "heapBLOCK_SIZE_IS_VALID ?n \<and> ?n > 0 \<and> ?n \<le> xFreeBytesRemaining s")
      case True
      then have w: "0 < w" by (auto simp: word_gt_0)
      with True have n: "unat ?n = ?N" using wanted_size_nat [OF w] by (auto simp: word_gt_0 unat_eq_zero [symmetric] split: if_splits)
      have none: "\<forall>(k, f) \<in> set bs. f \<longrightarrow> k < ?N"
        using None w by (simp add: malloc_row_def take_first_None word_gt_0 unat_eq_zero split: if_splits)
      have "\<forall>(k, f) \<in> set bs. f \<longrightarrow> of_nat k < ?n"
        using none small by (auto simp: word_less_nat_alt n unat_of_nat_u32)
      from malloc_search_row [of L s bs "[]", simplified, OF heap this]
      have "malloc_search L ?n s (xStart L) (next_of s (xStart L)) = Some (of_nat (entry L bs), pxEnd s)"
        using D(3-5) by (simp add: malloc_search_stop)
      with True first end_not_null [OF heap] show ?thesis by (simp add: pvPortMalloc_def Let_def)
    next
      case False
      with end_not_null [OF heap] show ?thesis by (auto simp: pvPortMalloc_def Let_def)
    qed
    with None show ?thesis by simp
  next
    case (Some r)
    obtain a bs' where r: "r = (a, bs')" by (cases r)
    have w: "0 < w" and tf: "take_first ?N (heap_start L) bs = Some (a, bs')"
      using Some r by (auto simp: malloc_row_def word_gt_0 split: if_splits)
    from tf obtain pre k post where bs: "bs = pre @ (k, True) # post" "?N \<le> k" "\<forall>(j, f) \<in> set pre. f \<longrightarrow> j < ?N"
      "a = heap_start L + total pre" "bs' = pre @ split_block ?N k @ post" by (rule take_first_Some)
    have k: "k < 76800" using heap_bytes(3) [OF heap, of k True] bs(1) by simp
    have n: "unat ?n = ?N" using wanted_size_nat [OF w] bs(2) k by simp
    then have nn: "?n = of_nat ?N" by (simp flip: n)
    have valid: "heapBLOCK_SIZE_IS_VALID ?n" using mark_bit_simps(1) [of ?n] n bs(2) k by (simp add: heapBLOCK_SIZE_IS_VALID_def)
    have "k \<le> free_bytes bs" using free_bytes_member [of k bs] bs(1) by simp
    then have le: "?n \<le> xFreeBytesRemaining s"
      using bs(2) heap_bytes(2) [OF heap] by (simp add: D(8) word_le_nat_alt n unat_of_nat_u32)
    have N: "8 dvd ?N" "16 \<le> ?N" using block_size_ok w by (simp_all add: word_gt_0 unat_gt_0)
    then have "?n > 0" by (simp add: word_gt_0 unat_gt_0 [symmetric] n)
    note cond = valid this le
    have "of_nat j < ?n" if "(j, True) \<in> set pre" for j
    proof -
      have "j < 2 ^ 32" using small [of j True] that bs(1) by simp
      moreover have "j < ?N" using bs(3) that by auto
      ultimately show ?thesis by (simp add: word_less_nat_alt n unat_of_nat_u32)
    qed
    then have "\<forall>(j, f) \<in> set pre. f \<longrightarrow> of_nat j < ?n" by auto
    note row = malloc_search_row [OF heap [unfolded bs(1)] this]
    have "size_of s (of_nat a) = of_nat k" using D(7) bs(1,4) by (simp add: headers_append)
    moreover have "\<not> (of_nat k :: u32) < of_nat ?N" using of_nat_u32_less [of k ?N] bs(2) k by simp
    ultimately have "malloc_search L ?n s (of_nat (entry L pre)) (of_nat a) = Some (of_nat (entry L pre), of_nat a)"
      by (intro malloc_search_stop) (simp add: nn)
    then have search: "malloc_search L ?n s (xStart L) (next_of s (xStart L)) = Some (of_nat (entry L pre), of_nat a)"
      using row bs(4) by simp
    have "a < heap_end L" using bs(1,4) D(3) N bs(2) by simp
    then have "of_nat a \<noteq> pxEnd s" using D(4) R(4) of_nat_u32_eq [of a "heap_end L"] by simp
    obtain s' where take: "malloc_take L (of_nat ?N) (of_nat (entry L pre)) (of_nat a) s = Some (of_nat (a + 8), s')"
      "heap_is L s' bs'" "xNumberOfSuccessfulAllocations s' = xNumberOfSuccessfulAllocations s + 1"
      "xNumberOfSuccessfulFrees s' = xNumberOfSuccessfulFrees s"
      using malloc_take_heap [OF heap [unfolded bs(1)] bs(2) N] bs(4,5) by metis
    have "blocks_ok pre" using blocks_ok_append [of pre "(k, True) # post"] D(2) bs(1) by simp
    from blocks_ok_total [OF this] have "8 dvd a + 8" using bs(4) R(6) by (simp add: dvd_add)
    then have "of_nat (a + 8) AND portBYTE_ALIGNMENT_MASK = 0"
      using \<open>a < heap_end L\<close> R(4) by (simp add: u32_alignment(1) unat_of_nat_u32 del: of_nat_add)
    then have "pvPortMalloc L w s = Some (of_nat (a + 8), s')"
      using cond first search take(1) \<open>of_nat a \<noteq> pxEnd s\<close> end_not_null [OF heap]
      by (simp add: pvPortMalloc_def Let_def nn del: of_nat_add)
    with take Some r show ?thesis by simp
  qed
qed

section \<open>Release\<close>

text \<open>What the insertion makes of the header of a block, whose address with its size is \<open>q\<close> and \<open>z\<close>, before the free block \<open>nx\<close>.\<close>

definition grown :: "heap4 \<Rightarrow> u32 \<Rightarrow> u32 \<Rightarrow> u32 \<Rightarrow> BlockLink_t" where
  "grown s nx q z =
     (if q + z = nx \<and> nx \<noteq> pxEnd s then \<lparr>pxNextFreeBlock = next_of s nx, xBlockSize = z + size_of s nx\<rparr>
      else \<lparr>pxNextFreeBlock = nx, xBlockSize = z\<rparr>)"

lemma insert_at_apart:
  assumes "P \<noteq> b" "P + size_of s P \<noteq> b" "next_of s P \<noteq> b" "next_of s P \<noteq> P"
  shows "insert_at P b s = s\<lparr>block := (block s)(b := grown s (next_of s P) b (size_of s b),
    P := (block s P)\<lparr>pxNextFreeBlock := b\<rparr>)\<rparr>"
  using assms by (auto simp: insert_at_def Let_def set_next_def set_size_def grown_def fun_eq_iff)

lemma insert_at_touching:
  assumes "P \<noteq> b" "P + size_of s P = b" "next_of s P \<noteq> P"
  shows "insert_at P b s = s\<lparr>block := (block s)(P := grown s (next_of s P) P (size_of s P + size_of s b))\<rparr>"
  using assms by (auto simp: insert_at_def Let_def set_next_def set_size_def grown_def fun_eq_iff)

text \<open>The last free block of a row, and whether it touches what follows.\<close>

lemma last_free_split:
  assumes "pre \<noteq> [] \<and> snd (last pre)"
  obtains us j where "pre = us @ [(j, True)]" "last_free x a pre = a + total us"
proof -
  from assms obtain us j where pre: "pre = us @ [(j, True)]" by (cases pre rule: rev_cases) auto
  have "last_free x a (us @ [(j, True)]) = a + total us"
    by (induction x a us rule: last_free.induct) (simp_all add: add.assoc)
  with pre that show ?thesis by simp
qed

lemma last_free_apart:
  assumes "pre = [] \<or> \<not> snd (last pre)" "\<forall>b \<in> set pre. 0 < fst b" "headers m a pre nx"
  shows "last_free x a pre = x \<or>
    (\<exists>j. xBlockSize (m (of_nat (last_free x a pre))) = of_nat j \<and> last_free x a pre + j < a + total pre)"
  using assms
proof (induction x a pre rule: last_free.induct)
  case (1 x a)
  then show ?case by simp
next
  case (2 x a k f bs)
  show ?case
  proof (cases "bs = []")
    case True
    with 2 show ?thesis by simp
  next
    case False
    then have IH: "last_free (if f then a else x) (a + k) bs = (if f then a else x) \<or>
      (\<exists>j. xBlockSize (m (of_nat (last_free (if f then a else x) (a + k) bs))) = of_nat j \<and>
        last_free (if f then a else x) (a + k) bs + j < a + k + total bs)" using 2 by simp
    have "0 < total bs" using False "2.prems"(2) by (cases bs) auto
    with IH "2.prems"(3) show ?thesis by (cases f) (auto simp: add.assoc)
  qed
qed

text \<open>The free block behind a released one is taken in with it.\<close>

lemma grown_row:
  assumes heap: "heap_is L s (pre @ mid @ post)" and q: "q + z = heap_start L + total (pre @ mid)"
    and same: "\<And>x. heap_start L + total (pre @ mid) \<le> x \<Longrightarrow> x < heap_end L \<Longrightarrow> block s' (of_nat x) = block s (of_nat x)"
    and "end": "pxEnd s' = pxEnd s" and nx: "nx = of_nat (first_free (q + z) post (heap_end L))"
  obtains i post' where "post = (if i = 0 then [] else [(i, True)]) @ post'" "join (k, True) post = (k + i, True) # post'"
    "grown s' nx (of_nat q) (of_nat z) =
       \<lparr>pxNextFreeBlock = of_nat (first_free (q + z + i) post' (heap_end L)), xBlockSize = of_nat (z + i)\<rparr>"
proof (cases "post \<noteq> [] \<and> snd (hd post)")
  case True
  then obtain i post' where post: "post = (i, True) # post'" by (cases post) auto
  note D = heap_isD [OF heap] and R = heap_range [OF heap_isD(1) [OF heap]]
  have i: "0 < i" using blocks_ok_pos [OF D(2)] post by simp
  have E: "q + z + i + total post' = heap_end L" using D(3) q post by simp
  have hd: "block s (of_nat (q + z)) = \<lparr>pxNextFreeBlock = of_nat (first_free (q + z + i) post' (heap_end L)), xBlockSize = of_nat i\<rparr>"
    using D(7) q post by (simp add: headers_append add.assoc)
  have "block s' (of_nat (q + z)) = block s (of_nat (q + z))" using same [of "q + z"] q E i by simp
  moreover have "(of_nat (q + z) :: u32) \<noteq> of_nat (heap_end L)" using of_nat_u32_eq [of "q + z" "heap_end L"] E i R(4) by (simp del: of_nat_add)
  ultimately have "grown s' nx (of_nat q) (of_nat z) =
       \<lparr>pxNextFreeBlock = of_nat (first_free (q + z + i) post' (heap_end L)), xBlockSize = of_nat (z + i)\<rparr>"
    using nx post hd D(4) "end" by (simp add: grown_def)
  then show ?thesis using that [of i post'] post i by simp
next
  case False
  note D = heap_isD [OF heap] and R = heap_range [OF heap_isD(1) [OF heap]]
  let ?f = "first_free (q + z) post (heap_end L)"
  have join: "join (k, True) post = (k + 0, True) # post" using False by (cases post) auto
  have "nx = pxEnd s' \<or> of_nat q + of_nat z \<noteq> nx"
  proof (cases post)
    case Nil
    then show ?thesis using nx D(4) "end" by simp
  next
    case (Cons b bs)
    obtain i where b: "b = (i, False)" using False Cons by (cases b) auto
    have pos: "\<forall>b \<in> set bs. 0 < fst b" "0 < i" using blocks_ok_pos [OF D(2)] Cons b by auto
    have E: "q + z + i + total bs = heap_end L" using D(3) q Cons b by simp
    have "?f = first_free (q + z + i) bs (heap_end L)" using Cons b by simp
    then have "q + z < ?f" "?f \<le> heap_end L" using first_free_range [OF pos(1), of "q + z + i" "heap_end L"] E pos(2) by auto
    then have "(of_nat (q + z) :: u32) \<noteq> of_nat ?f" using of_nat_u32_eq [of "q + z" ?f] R(4) by (simp del: of_nat_add)
    then show ?thesis using nx by simp
  qed
  then have "grown s' nx (of_nat q) (of_nat z) = \<lparr>pxNextFreeBlock = nx, xBlockSize = of_nat z\<rparr>"
    by (auto simp: grown_def)
  then show ?thesis using that [of 0 post] join nx by simp
qed

text \<open>
  The state in which the release inserts the block at \<open>b\<close>: its mark is gone and its bytes are counted as free already.
\<close>

definition unmarked :: "nat \<Rightarrow> nat \<Rightarrow> heap4 \<Rightarrow> heap4" where
  "unmarked b k s = s\<lparr>block := (block s)(of_nat b := \<lparr>pxNextFreeBlock = 0, xBlockSize = of_nat k\<rparr>),
     xFreeBytesRemaining := xFreeBytesRemaining s + of_nat k\<rparr>"

lemma insert_search_row:
  assumes heap: "heap_is L s (pre @ (k, False) # post)"
  defines "b \<equiv> heap_start L + total pre"
  shows "insert_search (of_nat b) (unmarked b k s) (xStart L) = Some (of_nat (entry L pre))"
    and "next_of (unmarked b k s) (of_nat (entry L pre)) = of_nat (first_free (b + k) post (heap_end L))"
    and "size_of (unmarked b k s) (of_nat (entry L pre)) = size_of s (of_nat (entry L pre))"
    and "b + k \<le> first_free (b + k) post (heap_end L)" "first_free (b + k) post (heap_end L) \<le> heap_end L"
    and "(of_nat (entry L pre) :: u32) \<noteq> of_nat b"
    and "entry L pre < b \<or> heap_end L + 8 \<le> entry L pre" "entry L pre < 2 ^ 32"
proof -
  note D = heap_isD [OF heap] and R = heap_range [OF heap_isD(1) [OF heap]]
  let ?nx = "first_free (b + k) post (heap_end L)" and ?s = "unmarked b k s" and ?P = "entry L pre"
  have pos: "\<forall>b \<in> set pre. 0 < fst b" "\<forall>b \<in> set post. 0 < fst b" "0 < k" using blocks_ok_pos [OF D(2)] by auto
  have E: "b + k + total post = heap_end L" using D(3) by (simp add: b_def)
  show nx: "b + k \<le> ?nx" "?nx \<le> heap_end L" using first_free_range [OF pos(2), of "b + k" "heap_end L"] E by auto
  show p: "?P < b \<or> heap_end L + 8 \<le> ?P" "?P < 2 ^ 32" using entry_range [OF D(1) pos(1)] E b_def by auto
  have b: "b < 2 ^ 32" using E R(4) by simp
  show ne: "(of_nat ?P :: u32) \<noteq> of_nat b" using of_nat_u32_eq [OF p(2) b] p(1) E by auto
  show nxt: "next_of ?s (of_nat ?P) = of_nat ?nx"
    using entry_link(3) [OF heap] ne by (simp add: unmarked_def b_def)
  show "size_of ?s (of_nat ?P) = size_of s (of_nat ?P)" using ne by (simp add: unmarked_def)
  have same: "block ?s (of_nat x) = block s (of_nat x)" if "x < b \<or> heap_end L + 8 \<le> x" "x < 2 ^ 32" for x
  proof -
    have "(of_nat x :: u32) \<noteq> of_nat b" using of_nat_u32_eq [OF that(2) b] that(1) E by auto
    then show ?thesis by (simp add: unmarked_def)
  qed
  have "headers (block ?s) (heap_start L) pre ?nx = headers (block s) (heap_start L) pre ?nx"
    by (rule headers_cong [OF _ pos(1)]) (use same b b_def in auto)
  then have h: "headers (block ?s) (heap_start L) pre ?nx" using D(7) by (simp add: headers_append b_def)
  have "block ?s (xStart L) = block s (xStart L)"
    using same [of "unat (xStart L)"] R(10) unsigned_less [of "xStart L"] b_def by auto
  then have x: "next_of ?s (of_nat (unat (xStart L))) = of_nat (first_free (heap_start L) pre ?nx)"
    using D(6) by (simp add: first_free_append b_def)
  have "insert_search (of_nat b) ?s (xStart L) = insert_search (of_nat b) ?s (of_nat ?P)"
    using insert_search_pass [OF h pos(1) _ x] b by (simp add: b_def entry_def)
  moreover have "\<not> (of_nat ?nx :: u32) < of_nat b" using of_nat_u32_less [of ?nx b] nx b R(4) by simp
  ultimately show "insert_search (of_nat b) ?s (xStart L) = Some (of_nat ?P)"
    using nxt by (simp add: insert_search.simps [of _ _ "of_nat ?P"])
qed

text \<open>The row after a release, for the two cases of the block before.\<close>

lemma release_row:
  assumes "blocks_ok (pre @ (k, False) # post)"
  shows "release (a + total pre) a (pre @ (k, False) # post) =
    (if pre \<noteq> [] \<and> snd (last pre) then butlast pre @ join (fst (last pre) + k, True) post else pre @ join (k, True) post)"
proof -
  have pos: "\<forall>b \<in> set pre. 0 < fst b" "0 < k" using blocks_ok_pos [OF assms] by auto
  have "separated pre" "separated post"
    using blocks_okD(1) [OF assms] by (auto simp: separated_append separated_Cons)
  then show ?thesis unfolding release_def mark_free_at [OF pos] by (rule merge_mid)
qed

lemma insert_result:
  assumes heap: "heap_is L s (us @ mid @ post)" and ok: "blocks_ok (us @ join (total mid, True) post)"
    and bytes: "free_bytes mid + k = total mid" and b: "b = heap_start L + total us"
    and counts: "pxEnd s' = pxEnd s" "xFreeBytesRemaining s' = xFreeBytesRemaining s + of_nat k"
      "xMinimumEverFreeBytesRemaining s' = xMinimumEverFreeBytesRemaining s"
    and same: "\<And>x. b + total mid \<le> x \<Longrightarrow> x < heap_end L \<Longrightarrow> block s' (of_nat x) = block s (of_nat x)"
    and new: "blk (of_nat b) = grown s' (of_nat (first_free (b + total mid) post (heap_end L))) (of_nat b) (of_nat (total mid))"
    and out: "\<And>q. q < b \<or> b + total mid \<le> q \<Longrightarrow> q < 2 ^ 32 \<Longrightarrow> blk (of_nat q) = link (entry L us) b (block s) (of_nat q)"
  shows "heap_is L (s'\<lparr>block := blk\<rparr>) (us @ join (total mid, True) post)"
proof -
  note D = heap_isD [OF heap]
  let ?E = "heap_end L" and ?z = "total mid"
  obtain i post' where post: "post = (if i = 0 then [] else [(i, True)]) @ post'" "join (?z, True) post = (?z + i, True) # post'"
    and grown: "grown s' (of_nat (first_free (b + ?z) post ?E)) (of_nat b) (of_nat ?z) =
       \<lparr>pxNextFreeBlock = of_nat (first_free (b + ?z + i) post' ?E), xBlockSize = of_nat (?z + i)\<rparr>"
    by (rule grown_row [OF heap, of b ?z s' "of_nat (first_free (b + ?z) post ?E)" ?z])
      (use b counts(1) same in \<open>simp_all add: add.assoc\<close>)
  let ?mid = "mid @ (if i = 0 then [] else [(i, True)])"
  have total: "total ?mid = ?z + i" by simp
  have "heap_is L (s'\<lparr>block := blk\<rparr>) (us @ [(?z + i, True)] @ post')"
  proof (rule heap_is_replace [of L s us ?mid post' "[(?z + i, True)]" b])
    show "heap_is L s (us @ ?mid @ post')" using heap post(1) by simp
    show "blocks_ok (us @ [(?z + i, True)] @ post')" using ok post(2) by simp
    show "block (s'\<lparr>block := blk\<rparr>) (of_nat q) = link (entry L us) (first_free b ([(?z + i, True)] @ post') ?E) (block s) (of_nat q)"
      if "q < b \<or> b + total ?mid \<le> q" "q < 2 ^ 32" for q
      using out [of q] that total by auto
    show "headers (block (s'\<lparr>block := blk\<rparr>)) b [(?z + i, True)] (first_free (b + total ?mid) post' ?E)"
      using new grown total by (simp add: add.assoc)
    have F: "free_bytes (us @ [(?z + i, True)] @ post') = free_bytes (us @ mid @ post) + k"
      using bytes arg_cong [OF post(1), of free_bytes] by (simp split: if_splits)
    show "xFreeBytesRemaining (s'\<lparr>block := blk\<rparr>) = of_nat (free_bytes (us @ [(?z + i, True)] @ post'))"
      unfolding F using counts(2) D(8) by simp
    show "unat (xMinimumEverFreeBytesRemaining (s'\<lparr>block := blk\<rparr>)) \<le> free_bytes (us @ [(?z + i, True)] @ post')"
      unfolding F using counts(3) D(9) by simp
  qed (use b total counts(1) in simp_all)
  then show ?thesis using post(2) by simp
qed

lemma insert_heap_apart:
  assumes heap: "heap_is L s (pre @ (k, False) # post)" and apart: "pre = [] \<or> \<not> snd (last pre)"
  defines "b \<equiv> heap_start L + total pre"
  shows "heap_is L (insert_at (of_nat (entry L pre)) (of_nat b) (unmarked b k s)) (pre @ join (k, True) post)"
proof -
  note D = heap_isD [OF heap] and R = heap_range [OF heap_isD(1) [OF heap]]
  let ?s = "unmarked b k s" and ?P = "entry L pre" and ?E = "heap_end L"
  let ?nx = "first_free (b + k) post ?E"
  note S = insert_search_row [OF heap, folded b_def]
  have pos: "\<forall>b \<in> set pre. 0 < fst b" "0 < k" using blocks_ok_pos [OF D(2)] by auto
  have E: "b + k + total post = ?E" using D(3) by (simp add: b_def)
  have ok: "blocks_ok (pre @ join (k, True) post)"
    using blocks_ok_release [OF D(2), of b "heap_start L"] apart by (auto simp: b_def release_row [OF D(2)])
  have h: "headers (block s) (heap_start L) pre (first_free b ((k, False) # post) ?E)"
    using D(7) by (simp add: headers_append b_def)
  have apart': "(of_nat ?P :: u32) + size_of s (of_nat ?P) \<noteq> of_nat b"
  proof -
    consider "?P = unat (xStart L)" | j where "size_of s (of_nat ?P) = of_nat j" "?P + j < b"
      using last_free_apart [OF apart pos(1) h, of "unat (xStart L)"] by (auto simp: entry_def b_def)
    then show ?thesis
    proof cases
      case 1
      then show ?thesis using S(6) D(6) by simp
    next
      case 2
      then show ?thesis using of_nat_u32_eq [of "?P + j" b] E R(4) by simp
    qed
  qed
  have "(of_nat ?nx :: u32) \<noteq> of_nat b" "(of_nat ?nx :: u32) \<noteq> of_nat ?P"
    using of_nat_u32_eq [of ?nx b] of_nat_u32_eq [of ?nx ?P] S(4,5,7,8) R(4) pos(2) by auto
  with apart' have ins: "insert_at (of_nat ?P) (of_nat b) ?s = ?s\<lparr>block := (block ?s)
      (of_nat b := grown ?s (of_nat ?nx) (of_nat b) (of_nat k), of_nat ?P := (block ?s (of_nat ?P))\<lparr>pxNextFreeBlock := of_nat b\<rparr>)\<rparr>"
    using S(2,3,6) by (subst insert_at_apart) (simp_all add: unmarked_def)
  have ne: "(of_nat x :: u32) \<noteq> of_nat b" if "x \<noteq> b" "x < 2 ^ 32" for x
    using of_nat_u32_eq [of x b] that E R(4) by simp
  have "heap_is L (?s\<lparr>block := (block ?s)
      (of_nat b := grown ?s (of_nat ?nx) (of_nat b) (of_nat k), of_nat ?P := (block ?s (of_nat ?P))\<lparr>pxNextFreeBlock := of_nat b\<rparr>)\<rparr>)
    (pre @ join (total [(k, False)], True) post)"
    by (rule insert_result [where mid = "[(k, False)]" and k = k and b = b])
      (use heap ok S(6) ne pos(2) R(4) in \<open>auto simp: b_def unmarked_def link_def\<close>)
  then show ?thesis unfolding ins by simp
qed

lemma insert_heap_touching:
  assumes heap: "heap_is L s (us @ (j, True) # (k, False) # post)"
  defines "b \<equiv> heap_start L + total us"
  shows "heap_is L (insert_at (of_nat b) (of_nat (b + j)) (unmarked (b + j) k s)) (us @ join (j + k, True) post)"
proof -
  have heap': "heap_is L s ((us @ [(j, True)]) @ (k, False) # post)" using heap by simp
  note D = heap_isD [OF heap'] and R = heap_range [OF heap_isD(1) [OF heap']]
  let ?s = "unmarked (b + j) k s" and ?P = "entry L us" and ?E = "heap_end L"
  let ?nx = "first_free (b + j + k) post ?E"
  have P: "entry L (us @ [(j, True)]) = b"
    using last_free_split [of "us @ [(j, True)]" "unat (xStart L)" "heap_start L"] by (auto simp: entry_def b_def)
  have a: "heap_start L + total (us @ [(j, True)]) = b + j" by (simp add: b_def)
  note S = insert_search_row [OF heap', unfolded P a]
  have pos: "0 < j" "0 < k" using blocks_ok_pos [OF D(2)] by auto
  have E: "b + j + k + total post = ?E" using D(3) by (simp add: b_def)
  have ok: "blocks_ok (us @ join (j + k, True) post)"
    using blocks_ok_release [OF D(2), of "heap_start L + total (us @ [(j, True)])" "heap_start L"]
    unfolding release_row [OF D(2)] by simp
  have size: "size_of s (of_nat b) = of_nat j" using D(7) by (simp add: headers_append b_def)
  have "(of_nat ?nx :: u32) \<noteq> of_nat b"
    using of_nat_u32_eq [of ?nx b] S(4,5) R(4) pos by auto
  then have ins: "insert_at (of_nat b) (of_nat (b + j)) ?s = ?s\<lparr>block := (block ?s)
      (of_nat b := grown ?s (of_nat ?nx) (of_nat b) (of_nat (j + k)))\<rparr>"
    using S(2,3,6) size by (subst insert_at_touching) (simp_all add: unmarked_def)
  have ne: "(of_nat x :: u32) \<noteq> of_nat y" if "x \<noteq> y" "x < 2 ^ 32" "y \<le> b + j" for x y
    using of_nat_u32_eq [of x y] that E R(4) by simp
  have old: "link ?P b (block s) = block s"
    using entry_link(3) [OF heap] by (simp add: link_def b_def fun_eq_iff header_eq)
  have same: "block ?s (of_nat x) = block s (of_nat x)" if "x \<noteq> b + j" "x < 2 ^ 32" for x
    using ne [of x "b + j"] that by (simp add: unmarked_def del: of_nat_add)
  have "heap_is L (?s\<lparr>block := (block ?s)(of_nat b := grown ?s (of_nat ?nx) (of_nat b) (of_nat (j + k)))\<rparr>)
    (us @ join (total [(j, True), (k, False)], True) post)"
  proof (rule insert_result [where mid = "[(j, True), (k, False)]" and k = k and b = b])
    show "heap_is L s (us @ [(j, True), (k, False)] @ post)" using heap by simp
    show "blocks_ok (us @ join (total [(j, True), (k, False)], True) post)" using ok by simp
    show "block ?s (of_nat x) = block s (of_nat x)"
      if "b + total [(j, True), (k, False)] \<le> x" "x < heap_end L" for x
      using same [of x] that pos R(4) by simp
    show "((block ?s)(of_nat b := grown ?s (of_nat ?nx) (of_nat b) (of_nat (j + k)))) (of_nat q) = link ?P b (block s) (of_nat q)"
      if "q < b \<or> b + total [(j, True), (k, False)] \<le> q" "q < 2 ^ 32" for q
      using same [of q] ne [of q b] that pos unfolding old by auto
  qed (simp_all add: b_def unmarked_def add.assoc)
  then show ?thesis unfolding ins by simp
qed

lemma vPortFree_heap:
  assumes heap: "heap_is L s bs" and p: "(p, k) \<in> set (in_use (heap_start L) bs)"
  obtains s' where "vPortFree L (of_nat (p + 8)) s = Some s'" "heap_is L s' (release p (heap_start L) bs)"
    "xNumberOfSuccessfulAllocations s' = xNumberOfSuccessfulAllocations s"
    "xNumberOfSuccessfulFrees s' = xNumberOfSuccessfulFrees s + 1"
    "\<not> heapBLOCK_IS_ALLOCATED (block s' (of_nat p))"
proof -
  from p obtain pre post where bs: "bs = pre @ (k, False) # post" and pa: "p = heap_start L + total pre" by (rule in_use_split)
  note D = heap_isD [OF heap] and R = heap_range [OF heap_isD(1) [OF heap]]
  note heap' = heap [unfolded bs]
  have k: "k < 76800" "16 \<le> k" using heap_bytes(3) [OF heap, of k False] blocks_okD(2) [OF D(2), of k False] bs by auto
  have E: "p + k + total post = heap_end L" using D(3) bs pa by simp
  have hd: "block s (of_nat p) = \<lparr>pxNextFreeBlock = 0, xBlockSize = of_nat k OR heapBLOCK_ALLOCATED_BITMASK\<rparr>"
    using D(7) bs pa by (simp add: headers_append)
  have "unat (of_nat k :: u32) < 2 ^ 31" using k unat_of_nat_u32 [of k] by simp
  note mark = mark_bit_simps [OF this]
  have not_null: "(of_nat (p + 8) :: u32) \<noteq> 0" using of_nat_u32_eq [of "p + 8" 0] E R(4) k by (simp del: of_nat_add)
  have valid: "heapVALIDATE_BLOCK_POINTER L (of_nat p)" by (rule validate_pointer [OF D(1)]) (use pa E R k in auto)
  note S = insert_search_row [OF heap', folded pa]
  have valid': "heapVALIDATE_BLOCK_POINTER L (of_nat (entry L pre))" if "of_nat (entry L pre) \<noteq> xStart L"
  proof -
    have "entry L pre \<noteq> unat (xStart L)" using that by auto
    moreover have "\<forall>b \<in> set pre. 0 < fst b" using blocks_ok_pos [OF D(2)] bs by auto
    ultimately have "heap_start L \<le> entry L pre \<and> entry L pre < p"
      using last_free_range [of pre "unat (xStart L)" "heap_start L"] pa by (auto simp: entry_def)
    then show ?thesis using R(1,3) E by (intro validate_pointer [OF D(1)]) auto
  qed
  let ?s = "insert_at (of_nat (entry L pre)) (of_nat p) (unmarked p k s)"
  have "prvInsertBlockIntoFreeList L (of_nat p) (unmarked p k s) = Some ?s"
    using S(1) valid' by (auto simp: prvInsertBlockIntoFreeList_def)
  moreover have "heapFREE_BLOCK (block s (of_nat p)) = \<lparr>pxNextFreeBlock = 0, xBlockSize = of_nat k\<rparr>"
    using hd mark(3) by (simp add: heapFREE_BLOCK_def)
  ultimately have run: "vPortFree L (of_nat (p + 8)) s = Some (?s\<lparr>xNumberOfSuccessfulFrees := xNumberOfSuccessfulFrees ?s + 1\<rparr>)"
    using not_null valid hd mark(2) by (simp add: vPortFree_def heap_constants(1) heapBLOCK_IS_ALLOCATED_def Let_def unmarked_def)
  have counts: "xNumberOfSuccessfulAllocations ?s = xNumberOfSuccessfulAllocations s"
    "xNumberOfSuccessfulFrees ?s = xNumberOfSuccessfulFrees s"
    by (simp_all add: insert_at_def Let_def set_next_def set_size_def unmarked_def)
  have "heap_is L ?s (release p (heap_start L) bs) \<and> \<not> heapBLOCK_IS_ALLOCATED (block ?s (of_nat p))"
  proof (cases "pre \<noteq> [] \<and> snd (last pre)")
    case True
    then obtain us j where us: "pre = us @ [(j, True)]" "entry L pre = heap_start L + total us"
      unfolding entry_def by (rule last_free_split)
    then have row: "heap_is L ?s (release p (heap_start L) bs)"
      using insert_heap_touching [of L s us j k post] heap' pa
      unfolding bs pa release_row [OF D(2) [unfolded bs]] by (simp add: add.assoc)
    have "block ?s (of_nat p) = \<lparr>pxNextFreeBlock = 0, xBlockSize = of_nat k\<rparr>"
    proof -
      have "size_of s (of_nat (entry L pre)) = of_nat j" using D(7) bs us by (simp add: headers_append)
      then have "of_nat (entry L pre) + size_of (unmarked p k s) (of_nat (entry L pre)) = of_nat p"
        using S(3) us pa by simp
      moreover have "next_of (unmarked p k s) (of_nat (entry L pre)) \<noteq> of_nat (entry L pre)"
        using S(2,4,5,7,8) k R(4) of_nat_u32_eq [of "first_free (p + k) post (heap_end L)" "entry L pre"] by auto
      ultimately show ?thesis
        using S(6) by (subst insert_at_touching) (simp_all add: unmarked_def)
    qed
    with row mark(1) show ?thesis by (simp add: heapBLOCK_IS_ALLOCATED_def)
  next
    case False
    with insert_heap_apart [OF heap'] have row: "heap_is L ?s (pre @ join (k, True) post)" by (auto simp: pa)
    obtain j rest where join: "join (k, True) post = (j, True) # rest"
      by (cases "post \<noteq> [] \<and> snd (hd post)"; cases post) auto
    have "size_of ?s (of_nat p) = of_nat j" using heap_isD(7) [OF row] join by (simp add: headers_append pa)
    moreover have "unat (of_nat j :: u32) < 2 ^ 31"
      using heap_bytes(3) [OF row, of j True] join unat_of_nat_u32 [of j] by simp
    ultimately show ?thesis
      using row False mark_bit_simps(1) [of "of_nat j"] unfolding bs pa release_row [OF D(2) [unfolded bs]]
      by (auto simp: heapBLOCK_IS_ALLOCATED_def)
  qed
  then have row: "heap_is L ?s (release p (heap_start L) bs)" "\<not> heapBLOCK_IS_ALLOCATED (block ?s (of_nat p))" by auto
  then have "heap_is L (?s\<lparr>xNumberOfSuccessfulFrees := xNumberOfSuccessfulFrees ?s + 1\<rparr>) (release p (heap_start L) bs)"
    by (simp add: heap_is_def)
  from that [OF run this] counts row show ?thesis by simp
qed

section \<open>Initialisation\<close>

lemma prvHeapInit_heap:
  assumes "places_ok L"
  shows "heap_is L (prvHeapInit L s) [(heap_end L - heap_start L, True)]" "pxEnd (prvHeapInit L s) \<noteq> 0"
    "xNumberOfSuccessfulAllocations (prvHeapInit L s) = xNumberOfSuccessfulAllocations s"
    "xNumberOfSuccessfulFrees (prvHeapInit L s) = xNumberOfSuccessfulFrees s"
proof -
  note R = heap_range [OF assms]
  let ?u = "ucHeap L" and ?S = "heap_start L" and ?E = "heap_end L"
  have u: "unat ?u + 76800 < 2 ^ 32" using assms by (simp add: places_ok_def)
  let ?a = "if ?u AND portBYTE_ALIGNMENT_MASK \<noteq> 0 then (?u + (portBYTE_ALIGNMENT - 1)) AND NOT portBYTE_ALIGNMENT_MASK else ?u"
  have "unat (?u + 7) = unat ?u + 7" using u by (simp add: unat_word_ariths)
  then have "unat ?a = ?S"
    using u32_alignment(1) [of ?u] u32_alignment(2) [of "?u + 7"]
    by (auto simp: heap_start_def portBYTE_ALIGNMENT_def elim!: dvdE)
  then have a: "?a = of_nat ?S" by (simp flip: \<open>unat ?a = ?S\<close>)
  have "unat (?u + 76800 - 8) = unat ?u + 76800 - 8" using u by (simp add: unat_word_ariths unat_sub_if')
  then have "unat ((?u + 76800 - 8) AND NOT portBYTE_ALIGNMENT_MASK) = ?E"
    by (simp add: u32_alignment(2) heap_end_def)
  then have e: "(?u + 76800 - 8) AND NOT portBYTE_ALIGNMENT_MASK = of_nat ?E"
    by (simp flip: \<open>unat ((?u + 76800 - 8) AND NOT portBYTE_ALIGNMENT_MASK) = ?E\<close>)
  have x: "of_nat (unat (xStart L)) = xStart L" "unat (xStart L) < 2 ^ 32" using unsigned_less [of "xStart L"] by simp_all
  have ne: "xStart L \<noteq> of_nat ?S" "xStart L \<noteq> of_nat ?E" "(of_nat ?S :: u32) \<noteq> of_nat ?E"
    using of_nat_u32_eq [OF x(2), of ?S] of_nat_u32_eq [OF x(2), of ?E] of_nat_u32_eq [of ?S ?E] x(1) R by auto
  let ?n = "?E - ?S"
  have n: "(of_nat ?E :: u32) - of_nat ?S = of_nat ?n" using R(2) by simp
  have init: "prvHeapInit L s = s\<lparr>block := (block s)(xStart L := \<lparr>pxNextFreeBlock = of_nat ?S, xBlockSize = 0\<rparr>,
      of_nat ?E := \<lparr>pxNextFreeBlock = 0, xBlockSize = 0\<rparr>,
      of_nat ?S := \<lparr>pxNextFreeBlock = of_nat ?E, xBlockSize = of_nat ?n\<rparr>),
      pxEnd := of_nat ?E, xMinimumEverFreeBytesRemaining := of_nat ?n, xFreeBytesRemaining := of_nat ?n\<rparr>"
    using a e n ne
    by (cases "?u AND portBYTE_ALIGNMENT_MASK \<noteq> 0")
      (simp_all add: prvHeapInit_def Let_def set_next_def set_size_def heap_constants(1) configTOTAL_HEAP_SIZE_def
        portBYTE_ALIGNMENT_def algebra_simps fun_eq_iff del: of_nat_diff)
  have "8 dvd ?n" "16 \<le> ?n" using R by (auto intro: dvd_diff_nat)
  then have ok: "blocks_ok [(?n, True)]" by (simp add: blocks_ok_def)
  have "unat (of_nat ?n :: u32) = ?n" using R by (intro unat_of_nat_u32) simp
  then show "heap_is L (prvHeapInit L s) [(?n, True)]" "pxEnd (prvHeapInit L s) \<noteq> 0"
    "xNumberOfSuccessfulAllocations (prvHeapInit L s) = xNumberOfSuccessfulAllocations s"
    "xNumberOfSuccessfulFrees (prvHeapInit L s) = xNumberOfSuccessfulFrees s"
    using assms ok ne R(2,4,5) of_nat_u32_eq [of ?E 0] unfolding init by (simp_all add: heap_is_def del: of_nat_diff)
qed

text \<open>The first call of the allocator initialises the heap and then works as any other.\<close>

lemma pvPortMalloc_first:
  assumes "places_ok L" "pxEnd s = 0"
  shows "pvPortMalloc L w s = pvPortMalloc L w (prvHeapInit L s)"
  using prvHeapInit_heap(2) [OF assms(1)] assms(2) by (simp add: pvPortMalloc_def)

end
