(* ===== verification/Rtos_Memory.thy ===== *)
theory Rtos_Memory
  imports Rtos_Alloc
begin

text \<open>
  What the allocator guarantees to its callers, as an interface, and its client in the kernel, the memory of a new task.
\<close>

section \<open>The memory of a task\<close>

text \<open>
  The allocations of \<^verbatim>\<open>xTaskCreate\<close>, for a stack that grows down: first the stack, then the control block, whose size the compiler
  decides; the stack goes back when there is no room for the block. The answer are the addresses of both. What is written into them is
  inside the two pieces.
\<close>

definition prvCreateTask ::
  "(u32 \<Rightarrow> 's \<Rightarrow> (u32 \<times> 's) option) \<Rightarrow> (u32 \<Rightarrow> 's \<Rightarrow> 's option) \<Rightarrow> u32 \<Rightarrow> u32 \<Rightarrow> 's \<Rightarrow> ((u32 \<times> u32) option \<times> 's) option" where
  "prvCreateTask malloc free sizeof_TCB_t uxStackDepth s =
     (case malloc (uxStackDepth * 4) s of
        None \<Rightarrow> None
      | Some (pxStack, s) \<Rightarrow>
          if pxStack \<noteq> 0 then
            case malloc sizeof_TCB_t s of
              None \<Rightarrow> None
            | Some (pxNewTCB, s) \<Rightarrow>
                if pxNewTCB \<noteq> 0 then Some (Some (pxNewTCB, pxStack), s)
                else map_option (\<lambda>s. (None, s)) (free pxStack s)
          else Some (None, s))"

definition xTaskCreate :: "heap_places \<Rightarrow> u32 \<Rightarrow> u32 \<Rightarrow> heap4 \<Rightarrow> (bool \<times> heap4) option" where
  "xTaskCreate L sizeof_TCB_t uxStackDepth s =
     map_option (\<lambda>(pxNewTCB, s). (pxNewTCB \<noteq> None, s)) (prvCreateTask (pvPortMalloc L) (vPortFree L) sizeof_TCB_t uxStackDepth s)"

section \<open>The interface of an allocator\<close>

text \<open>
  \<open>rep\<close> relates a state to a ghost view of it, \<open>live\<close> are the pieces of memory in use in that view: their addresses and sizes.
\<close>

locale allocator =
  fixes rep :: "'s \<Rightarrow> 'v \<Rightarrow> bool" and live :: "'v \<Rightarrow> (nat \<times> nat) set"
    and malloc :: "u32 \<Rightarrow> 's \<Rightarrow> (u32 \<times> 's) option" and free :: "u32 \<Rightarrow> 's \<Rightarrow> 's option"
  assumes malloc_law: "rep s v \<Longrightarrow>
      (malloc w s = Some (0, s)) \<or>
      (\<exists>p k s' v'. malloc w s = Some (of_nat p, s') \<and> rep s' v' \<and> unat w \<le> k \<and> 0 < w \<and> 0 < p \<and> p + k < 2 ^ 32 \<and>
        live v' = insert (p, k) (live v) \<and> (\<forall>(q, j) \<in> live v. p + k \<le> q \<or> q + j \<le> p) \<and>
        (\<exists>s''. free (of_nat p) s' = Some s'' \<and> rep s'' v))"
    and free_law: "rep s v \<Longrightarrow> (p, k) \<in> live v \<Longrightarrow>
      \<exists>s' v'. free (of_nat p) s = Some s' \<and> rep s' v' \<and> live v' = live v - {(p, k)}"
begin

lemma malloc_returns: "rep s v \<Longrightarrow> malloc w s \<noteq> None"
  using malloc_law [of s v w] by auto

lemma of_nat_not_null: "0 < p \<Longrightarrow> p + k < 2 ^ 32 \<Longrightarrow> (of_nat p :: u32) \<noteq> 0"
  using of_nat_u32_eq [of p 0] by simp

text \<open>A creation that fails gives everything back; one that succeeds has two new disjoint pieces of the sizes asked for.\<close>

lemma create_task:
  assumes rep: "rep s v"
  shows "\<exists>r s' v'. prvCreateTask malloc free t d s = Some (r, s') \<and> rep s' v' \<and>
    (case r of
       None \<Rightarrow> v' = v
     | Some (tcb, stack) \<Rightarrow> \<exists>p k q j. tcb = of_nat p \<and> stack = of_nat q \<and> unat t \<le> k \<and> unat (d * 4) \<le> j \<and>
         (p + k \<le> q \<or> q + j \<le> p) \<and> live v' = insert (p, k) (insert (q, j) (live v)))"
proof -
  consider (none) "malloc (d * 4) s = Some (0, s)"
    | (some) q j s1 v1 s2 where "malloc (d * 4) s = Some (of_nat q, s1)" "rep s1 v1" "unat (d * 4) \<le> j" "0 < q" "q + j < 2 ^ 32"
        "live v1 = insert (q, j) (live v)" "free (of_nat q) s1 = Some s2" "rep s2 v"
    using malloc_law [OF rep, of "d * 4"] by blast
  then show ?thesis
  proof cases
    case none
    then show ?thesis using rep by (auto simp: prvCreateTask_def)
  next
    case some
    note nn = of_nat_not_null [OF some(4,5)]
    consider (full) "malloc t s1 = Some (0, s1)"
      | (room) p k s3 v3 where "malloc t s1 = Some (of_nat p, s3)" "rep s3 v3" "unat t \<le> k" "0 < p" "p + k < 2 ^ 32"
          "live v3 = insert (p, k) (live v1)" "\<forall>(q, j) \<in> live v1. p + k \<le> q \<or> q + j \<le> p"
      using malloc_law [OF some(2), of t] by blast
    then show ?thesis
    proof cases
      case full
      then show ?thesis using some nn by (auto simp: prvCreateTask_def)
    next
      case room
      have "prvCreateTask malloc free t d s = Some (Some (of_nat p, of_nat q), s3)"
        using some(1) nn room(1) of_nat_not_null [OF room(4,5)] by (simp add: prvCreateTask_def)
      moreover have "p + k \<le> q \<or> q + j \<le> p" using room(7) some(6) by auto
      ultimately show ?thesis using room(2,3,6) some(3,6) by fastforce
    qed
  qed
qed

end

section \<open>The heap provides it\<close>

text \<open>The pieces a caller sees: without the header.\<close>

definition pieces :: "heap_places \<Rightarrow> blocks \<Rightarrow> (nat \<times> nat) set" where
  "pieces L bs = (\<lambda>(p, k). (p + 8, k - 8)) ` set (in_use (heap_start L) bs)"

lemma pieces_iff:
  assumes "blocks_ok bs"
  shows "(p, k) \<in> pieces L bs \<longleftrightarrow> 8 \<le> p \<and> (p - 8, k + 8) \<in> set (in_use (heap_start L) bs)"
proof
  assume "(p, k) \<in> pieces L bs"
  then obtain q j where q: "(q, j) \<in> set (in_use (heap_start L) bs)" "p = q + 8" "k = j - 8" by (auto simp: pieces_def)
  from q(1) have "(j, False) \<in> set bs" by (auto elim: in_use_split)
  with assms have "16 \<le> j" by (auto simp: blocks_ok_def)
  with q show "8 \<le> p \<and> (p - 8, k + 8) \<in> set (in_use (heap_start L) bs)" by simp
qed (force simp: pieces_def)

lemma pieces_disjoint:
  assumes "blocks_ok bs" "(p, k) \<in> pieces L bs" "(q, j) \<in> pieces L bs"
  shows "(p = q \<and> k = j) \<or> p + k + 8 \<le> q \<or> q + j + 8 \<le> p"
proof -
  have "8 \<le> p" "(p - 8, k + 8) \<in> set (in_use (heap_start L) bs)" "8 \<le> q" "(q - 8, j + 8) \<in> set (in_use (heap_start L) bs)"
    using assms(2,3) unfolding pieces_iff [OF assms(1)] by blast+
  with in_use_disjoint [OF this(2,4) blocks_ok_pos [OF assms(1)]] show ?thesis by linarith
qed

lemma pieces_release:
  assumes "blocks_ok bs" "(p, k) \<in> set (in_use (heap_start L) bs)"
  shows "pieces L (release p (heap_start L) bs) = pieces L bs - {(p + 8, k - 8)}"
proof -
  have big: "8 \<le> j" if "(q, j) \<in> set (in_use (heap_start L) bs)" for q j
    using that blocks_okD(2) [OF assms(1), of j False] by (auto elim!: in_use_split)
  have inj: "inj_on (\<lambda>(p, k). (p + 8, k - 8 :: nat)) (set (in_use (heap_start L) bs))"
  proof (rule inj_onI, clarify)
    fix p k q j :: nat
    assume m: "(p, k) \<in> set (in_use (heap_start L) bs)" "(q, j) \<in> set (in_use (heap_start L) bs)"
      and eq: "p + 8 = q + 8" "k - 8 = j - 8"
    show "p = q \<and> k = j" using eq big [OF m(1)] big [OF m(2)] by simp
  qed
  show ?thesis
    unfolding pieces_def release_bytes(3) [OF assms(2,1)]
    using inj_on_image_set_diff [OF inj, of "set (in_use (heap_start L) bs)" "{(p, k)}"] assms(2) by simp
qed

lemma pieces_take_first:
  assumes "take_first n (heap_start L) bs = Some (p, bs')"
  obtains k where "pieces L bs' = insert (p + 8, k - 8) (pieces L bs)" "n \<le> k" "(p, k) \<in> set (in_use (heap_start L) bs')"
  using take_first_in_use [OF assms] by (auto simp: pieces_def)

lemma heap_malloc_law:
  assumes heap: "heap_is L s bs"
  shows "pvPortMalloc L w s = Some (0, s) \<or>
    (\<exists>p k s' bs'. pvPortMalloc L w s = Some (of_nat p, s') \<and> heap_is L s' bs' \<and> unat w \<le> k \<and> 0 < w \<and> 0 < p \<and>
      p + k < 2 ^ 32 \<and> pieces L bs' = insert (p, k) (pieces L bs) \<and>
      (\<forall>(q, j) \<in> pieces L bs. p + k \<le> q \<or> q + j \<le> p) \<and> (\<exists>s''. vPortFree L (of_nat p) s' = Some s'' \<and> heap_is L s'' bs))"
proof (cases "malloc_row (unat w) (heap_start L) bs")
  case None
  then show ?thesis using pvPortMalloc_heap [OF heap, of w] by simp
next
  case (Some r)
  then obtain a bs' where r: "r = (a, bs')" by (cases r)
  with Some have w: "0 < w" and tf: "take_first (block_size (unat w)) (heap_start L) bs = Some (a, bs')"
    by (auto simp: malloc_row_def word_gt_0 split: if_splits)
  obtain s' where s': "pvPortMalloc L w s = Some (of_nat (a + 8), s')" "heap_is L s' bs'"
    using pvPortMalloc_heap [OF heap, of w] Some r by auto
  note D = heap_isD [OF heap] and D' = heap_isD [OF s'(2)]
  obtain k where k: "pieces L bs' = insert (a + 8, k - 8) (pieces L bs)" "block_size (unat w) \<le> k"
    "(a, k) \<in> set (in_use (heap_start L) bs')" by (rule pieces_take_first [OF tf])
  have N: "unat w + 8 \<le> block_size (unat w)" "0 < block_size (unat w)" using block_size_ok(3) [of "unat w"] by auto
  have range: "a + k \<le> heap_end L" using in_use_range [OF k(3)] D'(3) by simp
  have fresh: "\<forall>(q, j) \<in> pieces L bs. a + 8 + (k - 8) \<le> q \<or> q + j \<le> a + 8"
  proof (clarify, rule ccontr)
    fix q j assume q: "(q, j) \<in> pieces L bs" and "\<not> q + j \<le> a + 8" "\<not> a + 8 + (k - 8) \<le> q"
    moreover have "(q, j) \<in> pieces L bs'" "(a + 8, k - 8) \<in> pieces L bs'" using q k(1) by auto
    ultimately have "q = a + 8" "j = k - 8" using pieces_disjoint [OF D'(2)] by fastforce+
    with q have "(a, k) \<in> set (in_use (heap_start L) bs)" using pieces_iff [OF D(2)] k(2) N by simp
    moreover have "release a (heap_start L) bs' = bs"
      by (rule release_take_first [OF tf blocks_okD(1) [OF D(2)] blocks_ok_pos [OF D(2)] N(2)])
    ultimately show False using release_bytes(3) [OF k(3) D'(2)] by auto
  qed
  obtain s'' where "vPortFree L (of_nat (a + 8)) s' = Some s''" "heap_is L s'' (release a (heap_start L) bs')"
    by (rule vPortFree_heap [OF s'(2) k(3)])
  moreover have "release a (heap_start L) bs' = bs"
    by (rule release_take_first [OF tf blocks_okD(1) [OF D(2)] blocks_ok_pos [OF D(2)] N(2)])
  ultimately have undo: "vPortFree L (of_nat (a + 8)) s' = Some s''" "heap_is L s'' bs" by simp_all
  have "a + 8 + (k - 8) < 2 ^ 32" using range heap_range(4) [OF D(1)] k(2) N by linarith
  moreover have "unat w \<le> k - 8" using k(2) N by linarith
  ultimately show ?thesis
    using s' w k(1) fresh undo by (intro disjI2 exI [of _ "a + 8"] exI [of _ "k - 8"] exI [of _ s'] exI [of _ bs']) auto
qed

lemma heap_free_law:
  assumes heap: "heap_is L s bs" and p: "(p, k) \<in> pieces L bs"
  shows "\<exists>s' bs'. vPortFree L (of_nat p) s = Some s' \<and> heap_is L s' bs' \<and> pieces L bs' = pieces L bs - {(p, k)}"
proof -
  note D = heap_isD [OF heap]
  have q: "8 \<le> p" "(p - 8, k + 8) \<in> set (in_use (heap_start L) bs)" using p pieces_iff [OF D(2)] by blast+
  obtain s' where "vPortFree L (of_nat (p - 8 + 8)) s = Some s'" "heap_is L s' (release (p - 8) (heap_start L) bs)"
    by (rule vPortFree_heap [OF heap q(2)])
  with pieces_release [OF D(2) q(2)] q(1) show ?thesis by (intro exI) auto
qed

interpretation heap: allocator "heap_is L" "pieces L" "pvPortMalloc L" "vPortFree L" for L
proof
  fix s v w assume "heap_is L s v"
  from heap_malloc_law [OF this] show "pvPortMalloc L w s = Some (0, s) \<or>
      (\<exists>p k s' v'. pvPortMalloc L w s = Some (of_nat p, s') \<and> heap_is L s' v' \<and> unat w \<le> k \<and> 0 < w \<and> 0 < p \<and> p + k < 2 ^ 32 \<and>
        pieces L v' = insert (p, k) (pieces L v) \<and> (\<forall>(q, j) \<in> pieces L v. p + k \<le> q \<or> q + j \<le> p) \<and>
        (\<exists>s''. vPortFree L (of_nat p) s' = Some s'' \<and> heap_is L s'' v))" .
next
  fix s v p k assume "heap_is L s v" "(p, k) \<in> pieces L v"
  from heap_free_law [OF this] show "\<exists>s' v'. vPortFree L (of_nat p) s = Some s' \<and> heap_is L s' v' \<and> pieces L v' = pieces L v - {(p, k)}" .
qed

section \<open>Writes of the owners\<close>

lemma headers_cong_at:
  assumes "\<And>pre b post. bs = pre @ b # post \<Longrightarrow> m' (of_nat (a + total pre)) = m (of_nat (a + total pre))"
  shows "headers m' a bs nx = headers m a bs nx"
  using assms
proof (induction m a bs nx rule: headers.induct)
  case (2 m a k f bs nx)
  have "m' (of_nat a) = m (of_nat a)" using "2.prems" [of "[]"] by simp
  moreover have "headers m' (a + k) bs nx = headers m (a + k) bs nx"
  proof (rule "2.IH")
    fix pre b post assume "bs = pre @ b # post"
    with "2.prems" [of "(k, f) # pre"] show "m' (of_nat (a + k + total pre)) = m (of_nat (a + k + total pre))"
      by (simp add: add.assoc)
  qed
  ultimately show ?case by simp
qed simp

text \<open>A header of eight bytes at \<open>q\<close> shares a byte with the piece at \<open>p\<close>.\<close>

definition overlaps :: "nat \<Rightarrow> nat \<Rightarrow> nat \<Rightarrow> bool" where
  "overlaps q p k \<longleftrightarrow> p < q + 8 \<and> q < p + k"

text \<open>Whatever the owners write into their pieces, the heap stays as it is.\<close>

lemma heap_is_write:
  assumes heap: "heap_is L s bs" and w: "\<And>q. m q \<noteq> block s q \<Longrightarrow> \<exists>(p, k) \<in> pieces L bs. overlaps (unat q) p k"
  shows "heap_is L (s\<lparr>block := m\<rparr>) bs"
proof -
  note D = heap_isD [OF heap] and R = heap_range [OF heap_isD(1) [OF heap]]
  have piece: "heap_start L + 8 \<le> p \<and> p + k \<le> heap_end L" if "(p, k) \<in> pieces L bs" for p k
    using that in_use_range [of "p - 8" "k + 8" "heap_start L" bs] D(3) unfolding pieces_iff [OF D(2)] by auto
  have out: "m (of_nat q) = block s (of_nat q)"
    if "q < 2 ^ 32" "\<And>p k. (p, k) \<in> pieces L bs \<Longrightarrow> q + 8 \<le> p \<or> p + k \<le> q" for q
    using w [of "of_nat q"] that unat_of_nat_u32 [OF that(1)] by (fastforce simp: overlaps_def)
  have x: "of_nat (unat (xStart L)) = xStart L" "unat (xStart L) < 2 ^ 32" using unsigned_less [of "xStart L"] by simp_all
  have places: "unat (xStart L) + 8 \<le> unat (ucHeap L) \<or> unat (ucHeap L) + 76800 \<le> unat (xStart L)"
    using D(1) by (simp add: places_ok_def)
  have "m (xStart L) = block s (xStart L)"
    using out [OF x(2)] piece places R(1,3) x(1) by fastforce
  moreover have "m (of_nat (heap_end L)) = block s (of_nat (heap_end L))" using out [of "heap_end L"] piece R(4) by fastforce
  moreover have "headers m (heap_start L) bs (heap_end L) = headers (block s) (heap_start L) bs (heap_end L)"
  proof (rule headers_cong_at)
    fix pre b post assume bs: "bs = pre @ b # post"
    let ?a = "heap_start L + total pre"
    have b: "0 < fst b" using blocks_ok_pos [OF D(2)] bs by simp
    then have "?a < heap_end L" using D(3) bs by (cases b) simp
    then show "m (of_nat ?a) = block s (of_nat ?a)"
    proof (intro out)
      fix p k assume "(p, k) \<in> pieces L bs"
      then have p: "8 \<le> p" "(p - 8, k + 8) \<in> set (in_use (heap_start L) bs)" unfolding pieces_iff [OF D(2)] by auto
      from p(2) consider "(p - 8, k + 8) \<in> set (in_use (heap_start L) pre)" | "p - 8 = ?a"
        | "(p - 8, k + 8) \<in> set (in_use (?a + fst b) post)"
        using bs by (cases b) (auto split: if_splits)
      then show "?a + 8 \<le> p \<or> p + k \<le> ?a"
        using in_use_range [of "p - 8" "k + 8" "heap_start L" pre] in_use_range [of "p - 8" "k + 8" "?a + fst b" post] p(1) b
        by cases auto
    qed (use R(4) in simp)
  qed
  ultimately show ?thesis using D by (simp add: heap_is_def)
qed

end
