(* ===== verification/Rtos_Memory_Runs.thy ===== *)
theory Rtos_Memory_Runs
  imports Rtos_Memory
begin

text \<open>
  The heap in use: any sequence of allocations, releases of what was allocated, and writes of the owners into their memory,
  from the start of the system on; and the creation of the application's two tasks.
\<close>

section \<open>Runs\<close>

text \<open>The memory in use is the set of the addresses that were given out and not given back, with the sizes asked for.\<close>

inductive heap_run :: "heap_places \<Rightarrow> (u32 \<times> u32) set \<Rightarrow> heap4 \<Rightarrow> bool" for L :: heap_places where
  boot: "pxEnd s = 0 \<Longrightarrow> heap_run L {} s"
| alloc: "heap_run L us s \<Longrightarrow> pvPortMalloc L w s = Some (p, s') \<Longrightarrow> heap_run L (if p = 0 then us else insert (p, w) us) s'"
| release: "heap_run L us s \<Longrightarrow> (p, w) \<in> us \<Longrightarrow> vPortFree L p s = Some s' \<Longrightarrow> heap_run L (us - {(p, w)}) s'"
| owners_write: "heap_run L us s \<Longrightarrow>
    (\<And>q. m q \<noteq> block s q \<Longrightarrow> \<exists>(p, w) \<in> us. overlaps (unat q) (unat p) (unat w)) \<Longrightarrow> heap_run L us (s\<lparr>block := m\<rparr>)"

definition memory_inv :: "heap_places \<Rightarrow> (u32 \<times> u32) set \<Rightarrow> heap4 \<Rightarrow> bool" where
  "memory_inv L us s \<longleftrightarrow> (pxEnd s = 0 \<and> us = {}) \<or>
     (\<exists>bs. heap_is L s bs \<and> inj_on fst us \<and> (\<lambda>(p, w). unat p) ` us = fst ` pieces L bs \<and>
        (\<forall>(p, w) \<in> us. 0 < w \<and> (\<exists>k. (unat p, k) \<in> pieces L bs \<and> unat w \<le> k)))"

lemma memory_inv_alloc:
  assumes heap: "heap_is L s bs" and inj: "inj_on fst us" and eq: "(\<lambda>(p, w). unat p) ` us = fst ` pieces L bs"
    and big: "\<forall>(p, w) \<in> us. 0 < w \<and> (\<exists>k. (unat p, k) \<in> pieces L bs \<and> unat w \<le> k)"
    and run: "pvPortMalloc L w s = Some (p, s')"
  shows "memory_inv L (if p = 0 then us else insert (p, w) us) s'"
  using heap_malloc_law [OF heap, of w]
proof (elim disjE exE conjE)
  assume "pvPortMalloc L w s = Some (0, s)"
  with run have "p = 0" "s' = s" by simp_all
  with heap inj eq big show ?thesis by (auto simp: memory_inv_def)
next
  fix a k t bs' assume m: "pvPortMalloc L w s = Some (of_nat a, t)" "heap_is L t bs'" "unat w \<le> k" "0 < w" "0 < a" "a + k < 2 ^ 32"
    "pieces L bs' = insert (a, k) (pieces L bs)" "\<forall>(q, j) \<in> pieces L bs. a + k \<le> q \<or> q + j \<le> a"
  from run m(1) have p: "p = of_nat a" and s': "s' = t" by simp_all
  have a: "unat (of_nat a :: u32) = a" by (rule unat_of_nat_u32) (use m(6) in simp)
  have "0 < k" using m(3,4) by (simp add: word_less_nat_alt)
  have "p \<noteq> 0" unfolding p by (rule heap.of_nat_not_null [OF m(5,6)])
  moreover have "p \<notin> fst ` us"
  proof
    assume "p \<in> fst ` us"
    then obtain v where "(p, v) \<in> us" by auto
    with big obtain j where j: "(a, j) \<in> pieces L bs" "unat v \<le> j" "0 < v" unfolding p by (auto simp: a)
    then have "0 < j" by (simp add: word_less_nat_alt)
    then show False using m(8) j(1) \<open>0 < k\<close> by auto
  qed
  ultimately show ?thesis
    unfolding memory_inv_def s'
    using inj eq big m(2-4,7) a p by (intro disjI2 exI [of _ bs']) (auto simp: inj_on_insert)
qed

lemma memory_inv_run:
  assumes "heap_run L us s" "places_ok L"
  shows "memory_inv L us s"
  using assms
proof (induction rule: heap_run.induct)
  case (boot s)
  then show ?case by (simp add: memory_inv_def)
next
  case (alloc us s w p s')
  from alloc.IH [OF alloc.prems] consider "pxEnd s = 0" "us = {}"
    | bs where "heap_is L s bs" "inj_on fst us" "(\<lambda>(p, w). unat p) ` us = fst ` pieces L bs"
      "\<forall>(p, w) \<in> us. 0 < w \<and> (\<exists>k. (unat p, k) \<in> pieces L bs \<and> unat w \<le> k)"
    unfolding memory_inv_def by blast
  then show ?case
  proof cases
    case 1
    from prvHeapInit_heap(1) [OF alloc.prems, of s] show ?thesis
      by (rule memory_inv_alloc)
        (use 1 alloc.hyps(2) pvPortMalloc_first [OF alloc.prems 1(1)] in \<open>auto simp: pieces_def\<close>)
  next
    case 2
    then show ?thesis using alloc.hyps(2) by (rule memory_inv_alloc)
  qed
next
  case (release us s p w s')
  from release.IH [OF release.prems] release.hyps(2) obtain bs where bs: "heap_is L s bs" "inj_on fst us"
    "(\<lambda>(p, w). unat p) ` us = fst ` pieces L bs" "\<forall>(p, w) \<in> us. 0 < w \<and> (\<exists>k. (unat p, k) \<in> pieces L bs \<and> unat w \<le> k)"
    unfolding memory_inv_def by blast
  note D = heap_isD [OF bs(1)]
  from bs(4) release.hyps(2) obtain k where k: "(unat p, k) \<in> pieces L bs" by blast
  from heap_free_law [OF bs(1) k] release.hyps(3) obtain bs' where
    bs': "heap_is L s' bs'" "pieces L bs' = pieces L bs - {(unat p, k)}" by auto
  have unique: "j = k" if "(unat p, j) \<in> pieces L bs" for j
    using pieces_disjoint [OF D(2) that k] by auto
  have others: "q \<noteq> p" if "(q, v) \<in> us - {(p, w)}" for q v
    using bs(2) that release.hyps(2) by (fastforce simp: inj_on_def)
  have "(\<lambda>(p, w). unat p) ` (us - {(p, w)}) = fst ` pieces L bs'"
  proof -
    have "inj_on (\<lambda>(p, w). unat p) us"
    proof (rule inj_onI, clarify)
      fix q v r x assume m: "(q, v) \<in> us" "(r, x) \<in> us" and "unat q = unat r"
      then have "q = r" by (simp add: word_unat_eq_iff)
      with inj_onD [OF bs(2) _ m] show "q = r \<and> v = x" by simp
    qed
    from inj_on_image_set_diff [OF this, of us "{(p, w)}"]
    have "(\<lambda>(p, w). unat p) ` (us - {(p, w)}) = (\<lambda>(p, w). unat p) ` us - {unat p}"
      using release.hyps(2) by simp
    also have "\<dots> = fst ` pieces L bs - {unat p}" using bs(3) by simp
    also have "\<dots> = fst ` pieces L bs'"
    proof (rule set_eqI, rule iffI)
      fix y assume "y \<in> fst ` pieces L bs - {unat p}"
      then obtain z where "z \<in> pieces L bs" "y = fst z" "y \<noteq> unat p" by blast
      then obtain j where "(y, j) \<in> pieces L bs" "y \<noteq> unat p" by (cases z) simp
      then show "y \<in> fst ` pieces L bs'" unfolding bs'(2) by (intro image_eqI [of _ _ "(y, j)"]) simp_all
    next
      fix y assume "y \<in> fst ` pieces L bs'"
      then obtain z where "z \<in> pieces L bs - {(unat p, k)}" "y = fst z" unfolding bs'(2) by blast
      moreover obtain j where "z = (fst z, j)" by (cases z) simp
      ultimately have j: "(y, j) \<in> pieces L bs" "(y, j) \<noteq> (unat p, k)" by (metis DiffD1, metis DiffD2 singletonI)
      then have "y \<noteq> unat p" using unique by blast
      with j(1) show "y \<in> fst ` pieces L bs - {unat p}" by (intro DiffI image_eqI [of _ _ "(y, j)"]) simp_all
    qed
    finally show ?thesis .
  qed
  moreover have "0 < v \<and> (\<exists>j. (unat q, j) \<in> pieces L bs' \<and> unat v \<le> j)" if q: "(q, v) \<in> us - {(p, w)}" for q v
  proof -
    from q obtain j where j: "0 < v" "(unat q, j) \<in> pieces L bs" "unat v \<le> j" using bs(4) by blast
    have "unat q \<noteq> unat p" using others [OF q] by (simp add: word_unat_eq_iff)
    with j show ?thesis unfolding bs'(2) by auto
  qed
  then have "\<forall>(q, v) \<in> us - {(p, w)}. 0 < v \<and> (\<exists>j. (unat q, j) \<in> pieces L bs' \<and> unat v \<le> j)" by blast
  moreover have "inj_on fst (us - {(p, w)})" by (rule inj_on_subset [OF bs(2)]) blast
  ultimately show ?case using bs'(1) unfolding memory_inv_def by blast
next
  case (owners_write us s m)
  from owners_write.IH [OF owners_write.prems] consider "pxEnd s = 0" "us = {}"
    | bs where "heap_is L s bs" "inj_on fst us" "(\<lambda>(p, w). unat p) ` us = fst ` pieces L bs"
      "\<forall>(p, w) \<in> us. 0 < w \<and> (\<exists>k. (unat p, k) \<in> pieces L bs \<and> unat w \<le> k)"
    unfolding memory_inv_def by blast
  then show ?case
  proof cases
    case 1
    then show ?thesis by (simp add: memory_inv_def)
  next
    case 2
    have "heap_is L (s\<lparr>block := m\<rparr>) bs"
    proof (rule heap_is_write [OF 2(1)])
      fix q assume "m q \<noteq> block s q"
      from owners_write.hyps(2) [OF this] obtain p w where pw: "(p, w) \<in> us" "overlaps (unat q) (unat p) (unat w)" by blast
      with 2(4) obtain k where "(unat p, k) \<in> pieces L bs" "unat w \<le> k" by blast
      with pw(2) show "\<exists>(p, k) \<in> pieces L bs. overlaps (unat q) p k"
        by (intro bexI [of _ "(unat p, k)"]) (simp_all add: overlaps_def)
    qed
    with 2(2-4) show ?thesis by (auto simp: memory_inv_def)
  qed
qed

section \<open>Safety of the heap\<close>

lemma live_pieces:
  assumes "memory_inv L us s" "us \<noteq> {}"
  obtains bs where "heap_is L s bs" "inj_on fst us" "\<And>p w. (p, w) \<in> us \<Longrightarrow> 0 < w \<and> (\<exists>k. (unat p, k) \<in> pieces L bs \<and> unat w \<le> k)"
  using assms unfolding memory_inv_def by blast

lemma piece_in_heap:
  assumes "heap_is L s bs" "(p, k) \<in> pieces L bs"
  shows "8 dvd p" "unat (ucHeap L) + 8 \<le> p" "p + k + 8 \<le> unat (ucHeap L) + 76800"
proof -
  note D = heap_isD [OF assms(1)] and R = heap_range [OF heap_isD(1) [OF assms(1)]]
  have p: "8 \<le> p" "(p - 8, k + 8) \<in> set (in_use (heap_start L) bs)" using assms(2) unfolding pieces_iff [OF D(2)] by auto
  then show "unat (ucHeap L) + 8 \<le> p" "p + k + 8 \<le> unat (ucHeap L) + 76800"
    using in_use_range [OF p(2)] D(3) R(1,3) by auto
  from p(2) obtain pre post where bs: "bs = pre @ (k + 8, False) # post" "p - 8 = heap_start L + total pre" by (rule in_use_split)
  then have "blocks_ok pre" using blocks_ok_append D(2) by blast
  with blocks_ok_total R(6) bs(2) have "8 dvd p - 8" by (simp add: dvd_add)
  with p(1) show "8 dvd p" using dvd_add [of 8 "p - 8" 8] by simp
qed

text \<open>
  C21. Whatever the sequence of allocations, releases and writes of the owners into their own memory, while some of it is in use: the memory given out is
  aligned, lies in the heap and no two pieces overlap, no allocation and no release of memory in use fails an assertion or loops, and
  a failed allocation changes nothing.
\<close>

theorem heap_memory_safe:
  assumes "heap_run L us s" "places_ok L" "(p, w) \<in> us"
  shows "unat p mod 8 = 0 \<and> unat (ucHeap L) \<le> unat p \<and> unat p + unat w \<le> unat (ucHeap L) + unat configTOTAL_HEAP_SIZE \<and>
    (\<forall>(q, v) \<in> us. (q, v) = (p, w) \<or> unat p + unat w \<le> unat q \<or> unat q + unat v \<le> unat p) \<and>
    vPortFree L p s \<noteq> None \<and> (\<exists>r t. pvPortMalloc L n s = Some (r, t) \<and> (r = 0 \<longrightarrow> t = s))"
proof -
  from assms(3) obtain bs where heap: "heap_is L s bs" and inj: "inj_on fst us"
    and big: "\<And>p w. (p, w) \<in> us \<Longrightarrow> 0 < w \<and> (\<exists>k. (unat p, k) \<in> pieces L bs \<and> unat w \<le> k)"
    using live_pieces [OF memory_inv_run [OF assms(1,2)]] by blast
  from big [OF assms(3)] obtain k where k: "(unat p, k) \<in> pieces L bs" "unat w \<le> k" by blast
  have "unat p + unat w \<le> unat q \<or> unat q + unat v \<le> unat p" if "(q, v) \<in> us" "(q, v) \<noteq> (p, w)" for q v
  proof -
    from big [OF that(1)] obtain j where j: "(unat q, j) \<in> pieces L bs" "unat v \<le> j" by blast
    have "q \<noteq> p" using inj_onD [OF inj _ that(1) assms(3)] that(2) by auto
    then have "unat q \<noteq> unat p" by (simp add: word_unat_eq_iff)
    with pieces_disjoint [OF heap_isD(2) [OF heap] j(1) k(1)] j(2) k(2) show ?thesis by linarith
  qed
  moreover have "vPortFree L p s \<noteq> None" using heap_free_law [OF heap k(1)] by auto
  moreover have "\<exists>r t. pvPortMalloc L n s = Some (r, t) \<and> (r = 0 \<longrightarrow> t = s)"
    using heap_malloc_law [OF heap, of n]
  proof (elim disjE exE conjE)
    fix a j t bs' assume "pvPortMalloc L n s = Some (of_nat a, t)" "0 < a" "a + j < 2 ^ 32"
    with heap.of_nat_not_null [of a j] show ?thesis by blast
  qed simp
  ultimately show ?thesis
    using piece_in_heap [OF heap k(1)] k(2) by (auto simp: configTOTAL_HEAP_SIZE_def dvd_eq_mod_eq_0)
qed

text \<open>
  C39. The heap does not lose memory and does not stay fragmented: when everything that was allocated has been given back, in whatever
  order, the heap is one free block again, the counter of free bytes says so, and the largest request it can ever serve is served.
\<close>

theorem heap_fully_recovered:
  assumes "heap_run L {} s" "places_ok L" "pxEnd s \<noteq> 0"
  shows "heap_is L s [(heap_end L - heap_start L, True)] \<and>
    unat (xPortGetFreeHeapSize s) = heap_end L - heap_start L \<and>
    (\<exists>p t. pvPortMalloc L (of_nat (heap_end L - heap_start L - 8)) s = Some (p, t) \<and> p \<noteq> 0)"
proof -
  from memory_inv_run [OF assms(1,2)] assms(3) obtain bs where heap: "heap_is L s bs" and none: "pieces L bs = {}"
    unfolding memory_inv_def by auto
  note D = heap_isD [OF heap] and R = heap_range [OF assms(2)]
  let ?n = "heap_end L - heap_start L"
  have free: "\<forall>b \<in> set bs. snd b"
  proof (rule ccontr)
    assume "\<not> (\<forall>b \<in> set bs. snd b)"
    then obtain k where "(k, False) \<in> set bs" by auto
    then obtain pre post where "bs = pre @ (k, False) # post" by (meson split_list)
    then have "(heap_start L + total pre, k) \<in> set (in_use (heap_start L) bs)" by simp
    with none show False by (auto simp: pieces_def)
  qed
  obtain k where bs: "bs = [(k, True)]"
  proof (cases bs)
    case Nil
    with D(3) R(8) show ?thesis by simp
  next
    case (Cons b r)
    moreover have "r = []" using blocks_okD(1) [OF D(2)] free Cons by (cases r) (auto simp: separated_Cons)
    ultimately show ?thesis using free that by (cases b) auto
  qed
  then have k: "k = ?n" "8 dvd k" "16 \<le> k" using D(2,3) by (auto simp: blocks_ok_def)
  have row: "heap_is L s [(?n, True)]" using heap bs k(1) by simp
  have w: "unat (of_nat (?n - 8) :: u32) = ?n - 8" using R(9) by (intro unat_of_nat_u32) simp
  have "block_size (?n - 8) = ?n" using k by (auto simp: block_size_def elim!: dvdE)
  then have "malloc_row (unat (of_nat (?n - 8) :: u32)) (heap_start L) [(?n, True)] = Some (heap_start L, split_block ?n ?n @ [])"
    unfolding w malloc_row_def using k by simp
  with pvPortMalloc_heap [OF row, of "of_nat (?n - 8)"] obtain t where
    t: "pvPortMalloc L (of_nat (?n - 8)) s = Some (of_nat (heap_start L + 8), t)" by auto
  have "(of_nat (heap_start L + 8) :: u32) \<noteq> 0"
    by (rule heap.of_nat_not_null [of _ 0]) (use R in simp_all)
  with t have "\<exists>p t. pvPortMalloc L (of_nat (?n - 8)) s = Some (p, t) \<and> p \<noteq> 0" by blast
  moreover have "unat (xPortGetFreeHeapSize s) = ?n"
    using heap_isD(8) [OF row] R(9) by (simp add: xPortGetFreeHeapSize_def unat_of_nat_u32 del: of_nat_diff)
  ultimately show ?thesis using row by blast
qed

section \<open>The allocator and its specification\<close>

text \<open>
  C22. The allocator implements the row of blocks: an allocation takes the first free block that is large enough, splits it
  where more than a minimal block is left over, and fails exactly when no free block is large enough or the request is 0; a
  release frees the block and merges it with its free neighbours, so that never two free blocks lie side by side.
\<close>

theorem heap_refines_first_fit:
  assumes "heap_is L s bs"
  shows "(case malloc_row (unat w) (heap_start L) bs of
      None \<Rightarrow> pvPortMalloc L w s = Some (0, s)
    | Some (a, bs') \<Rightarrow> \<exists>s'. pvPortMalloc L w s = Some (of_nat (a + 8), s') \<and> heap_is L s' bs') \<and>
    (\<forall>(a, k) \<in> set (in_use (heap_start L) bs).
       \<exists>s'. vPortFree L (of_nat (a + 8)) s = Some s' \<and> heap_is L s' (release a (heap_start L) bs))"
proof
  show "case malloc_row (unat w) (heap_start L) bs of
      None \<Rightarrow> pvPortMalloc L w s = Some (0, s)
    | Some (a, bs') \<Rightarrow> \<exists>s'. pvPortMalloc L w s = Some (of_nat (a + 8), s') \<and> heap_is L s' bs'"
    using pvPortMalloc_heap [OF assms, of w] by (auto split: option.splits)
  show "\<forall>(a, k) \<in> set (in_use (heap_start L) bs).
      \<exists>s'. vPortFree L (of_nat (a + 8)) s = Some s' \<and> heap_is L s' (release a (heap_start L) bs)"
  proof clarify
    fix a k assume "(a, k) \<in> set (in_use (heap_start L) bs)"
    then show "\<exists>s'. vPortFree L (of_nat (a + 8)) s = Some s' \<and> heap_is L s' (release a (heap_start L) bs)"
      by (rule vPortFree_heap [OF assms]) blast
  qed
qed

text \<open>A place for the heap, not aligned, with the list head behind it, and memory before the first allocation.\<close>

definition example_places :: heap_places where
  "example_places = \<lparr>ucHeap = 0x20000004, xStart = 0x20013000\<rparr>"

definition boot_heap :: heap4 where
  "boot_heap = \<lparr>block = (\<lambda>_. \<lparr>pxNextFreeBlock = 0, xBlockSize = 0\<rparr>), pxEnd = 0, xFreeBytesRemaining = 0,
     xMinimumEverFreeBytesRemaining = 0, xNumberOfSuccessfulAllocations = 0, xNumberOfSuccessfulFrees = 0\<rparr>"

lemma example_places_ok: "places_ok example_places"
  by (simp add: places_ok_def example_places_def)

lemma example_bounds: "heap_start example_places = 0x20000008" "heap_end example_places = 0x20012BF8"
  by (simp_all add: heap_start_def heap_end_def example_places_def)

lemma example_heap: "heap_is example_places (prvHeapInit example_places boot_heap) [(0x12BF0, True)]"
  using prvHeapInit_heap(1) [OF example_places_ok, of boot_heap] by (simp add: example_bounds)

theorem heap_refines_first_fit_witness:
  "\<exists>s'. pvPortMalloc example_places 100 (prvHeapInit example_places boot_heap) = Some (0x20000010, s') \<and>
    heap_is example_places s' [(112, False), (0x12BF0 - 112, True)]"
  using heap_refines_first_fit [OF example_heap, of 100]
  by (simp add: malloc_row_def block_size_def split_block_def example_bounds)

lemma example_run: "heap_run example_places {} boot_heap"
  by (rule heap_run.boot) (simp add: boot_heap_def)

lemma example_alloc:
  obtains t where "pvPortMalloc example_places 100 boot_heap = Some (0x20000010, t)"
    "heap_run example_places {(0x20000010, 100)} t" "heap_is example_places t [(112, False), (0x12BF0 - 112, True)]"
proof -
  have "pvPortMalloc example_places 100 boot_heap = pvPortMalloc example_places 100 (prvHeapInit example_places boot_heap)"
    by (rule pvPortMalloc_first [OF example_places_ok]) (simp add: boot_heap_def)
  with pvPortMalloc_heap [OF example_heap, of 100] obtain t where
    t: "pvPortMalloc example_places 100 boot_heap = Some (0x20000010, t)"
    "heap_is example_places t [(112, False), (0x12BF0 - 112, True)]"
    by (auto simp: malloc_row_def block_size_def split_block_def example_bounds)
  with that heap_run.alloc [OF example_run t(1)] show ?thesis by simp
qed

theorem heap_memory_safe_witness:
  "\<exists>t. heap_run example_places {(0x20000010, 100)} t \<and> vPortFree example_places 0x20000010 t \<noteq> None"
proof -
  obtain t where t: "heap_run example_places {(0x20000010, 100)} t" by (rule example_alloc)
  from heap_memory_safe [OF t example_places_ok, of "0x20000010" 100] t show ?thesis by auto
qed

theorem heap_fully_recovered_witness:
  "\<exists>s. heap_run example_places {} s \<and> pxEnd s \<noteq> 0 \<and> unat (xPortGetFreeHeapSize s) = 0x12BF0"
proof -
  obtain t where t: "heap_run example_places {(0x20000010, 100)} t" "heap_is example_places t [(112, False), (0x12BF0 - 112, True)]"
    by (rule example_alloc)
  have m: "(0x20000008, 112) \<in> set (in_use (heap_start example_places) [(112, False), (0x12BF0 - 112, True)])"
    by (simp add: example_bounds)
  obtain s where s: "vPortFree example_places (of_nat (0x20000008 + 8)) t = Some s"
    "heap_is example_places s (release 0x20000008 (heap_start example_places) [(112, False), (0x12BF0 - 112, True)])"
    by (rule vPortFree_heap [OF t(2) m])
  then have run: "heap_run example_places {} s"
    using heap_run.release [OF t(1), of "0x20000010" 100 s] by simp
  have "pxEnd s \<noteq> 0" by (rule end_not_null [OF s(2)])
  with heap_fully_recovered [OF run example_places_ok] run show ?thesis by (auto simp: example_bounds)
qed

text \<open>
  Releasing what was just allocated restores the heap: the same blocks at the same places, so that every later request is answered
  as if the allocation had never been.
\<close>

theorem malloc_free_restores:
  assumes "heap_is L s bs" "pvPortMalloc L w s = Some (p, s')" "p \<noteq> 0"
  shows "\<exists>s''. vPortFree L p s' = Some s'' \<and> heap_is L s'' bs"
  using heap_malloc_law [OF assms(1), of w] assms(2,3) by auto

theorem malloc_free_restores_witness:
  "\<exists>t u. pvPortMalloc example_places 100 (prvHeapInit example_places boot_heap) = Some (0x20000010, t) \<and>
    vPortFree example_places 0x20000010 t = Some u \<and> heap_is example_places u [(0x12BF0, True)]"
proof -
  from pvPortMalloc_heap [OF example_heap, of 100] obtain t where
    t: "pvPortMalloc example_places 100 (prvHeapInit example_places boot_heap) = Some (0x20000010, t)"
    by (auto simp: malloc_row_def block_size_def split_block_def example_bounds)
  with malloc_free_restores [OF example_heap t] show ?thesis by auto
qed

text \<open>
  C40. Releasing a piece of memory a second time is caught: when nothing was allocated or released in between, the assertion on the mark in
  the header stops the system, also when the block has been merged with its neighbours.
\<close>

theorem double_free_stops:
  assumes "heap_is L s bs" "(a, k) \<in> set (in_use (heap_start L) bs)" "vPortFree L (of_nat (a + 8)) s = Some s'"
  shows "vPortFree L (of_nat (a + 8)) s' = None"
proof -
  from vPortFree_heap [OF assms(1,2)] assms(3) have free: "\<not> heapBLOCK_IS_ALLOCATED (block s' (of_nat a))"
    by (metis option.inject)
  note D = heap_isD [OF assms(1)] and R = heap_range [OF heap_isD(1) [OF assms(1)]]
  from assms(2) have "0 < k" by (metis blocks_ok_pos [OF D(2)] fst_conv in_set_conv_decomp in_use_split)
  then have "a < heap_end L" using in_use_range [OF assms(2)] D(3) by simp
  then have "(of_nat (a + 8) :: u32) \<noteq> 0" using heap.of_nat_not_null [of "a + 8" 0] R(4) by simp
  with free show ?thesis by (simp add: vPortFree_def heap_constants(1) Let_def)
qed

theorem double_free_stops_witness:
  "\<exists>t u. heap_is example_places t [(112, False), (0x12BF0 - 112, True)] \<and>
    vPortFree example_places 0x20000010 t = Some u \<and> vPortFree example_places 0x20000010 u = None"
proof -
  obtain t where t: "heap_is example_places t [(112, False), (0x12BF0 - 112, True)]" by (rule example_alloc)
  have m: "(0x20000008, 112) \<in> set (in_use (heap_start example_places) [(112, False), (0x12BF0 - 112, True)])"
    by (simp add: example_bounds)
  obtain u where u: "vPortFree example_places (of_nat (0x20000008 + 8)) t = Some u" by (rule vPortFree_heap [OF t m])
  from double_free_stops [OF t m u] t u show ?thesis by auto
qed

end
