(* ===== verification/App_Memory.thy ===== *)
theory App_Memory
  imports App_Start Rtos_Memory_Runs
begin

text \<open>
  The memory of the application: the two tasks of the entry point are created from the heap, and what a creation that fails leaves.
\<close>

section \<open>The tasks of the entry point\<close>

definition PACKET_HANDLER_STACK_DEPTH_WORDS :: u32 where "PACKET_HANDLER_STACK_DEPTH_WORDS = 600"
definition IP_STACK_TASK_DEPTH_WORDS :: u32 where "IP_STACK_TASK_DEPTH_WORDS = 1000"

text \<open>Both creations with the assertions between them, which stop the system (\<open>None\<close>).\<close>

definition create_tasks :: "heap_places \<Rightarrow> u32 \<Rightarrow> heap4 \<Rightarrow> ((bool \<times> bool) \<times> heap4) option" where
  "create_tasks L sizeof_TCB_t s =
     (case xTaskCreate L sizeof_TCB_t PACKET_HANDLER_STACK_DEPTH_WORDS s of
        None \<Rightarrow> None
      | Some (task_status, s) \<Rightarrow>
          if \<not> task_status then None
          else case xTaskCreate L sizeof_TCB_t IP_STACK_TASK_DEPTH_WORDS s of
            None \<Rightarrow> None
          | Some (task_status', s) \<Rightarrow> if \<not> task_status' then None else Some ((task_status, task_status'), s))"

section \<open>Allocating from the end of the heap\<close>

text \<open>While nothing was released, one free block is left, at the end.\<close>

definition fresh_heap :: "heap_places \<Rightarrow> heap4 \<Rightarrow> nat \<Rightarrow> bool" where
  "fresh_heap L s n \<longleftrightarrow> (\<exists>us. heap_is L s (us @ [(n, True)]) \<and> (\<forall>(k, f) \<in> set us. \<not> f))"

lemma fresh_malloc:
  assumes "fresh_heap L s n" "0 < w" "unat w + 32 \<le> n"
  obtains p s' where "pvPortMalloc L w s = Some (p, s')" "p \<noteq> 0" "fresh_heap L s' (n - block_size (unat w))"
proof -
  let ?k = "block_size (unat w)"
  from assms(1) obtain us where us: "heap_is L s (us @ [(n, True)])" "\<forall>(k, f) \<in> set us. \<not> f" unfolding fresh_heap_def by blast
  have k: "?k \<le> n" "n - ?k > 16" using block_size_ok(4) [of "unat w"] assms(3) by simp_all
  let ?bs = "us @ [(?k, False), (n - ?k, True)]"
  have "take_first ?k (heap_start L) (us @ (n, True) # []) = Some (heap_start L + total us, us @ split_block ?k n @ [])"
    by (rule take_first_mid) (use us(2) k(1) in auto)
  with k assms(2) have "malloc_row (unat w) (heap_start L) (us @ [(n, True)]) = Some (heap_start L + total us, ?bs)"
    by (simp add: malloc_row_def split_block_def word_gt_0 unat_eq_zero)
  with pvPortMalloc_heap [OF us(1), of w] obtain s' where
    s': "pvPortMalloc L w s = Some (of_nat (heap_start L + total us + 8), s')" "heap_is L s' ?bs" by auto
  have end_: "heap_start L + total us + 8 < 2 ^ 32"
    using heap_isD(3) [OF us(1)] heap_range(4) [OF heap_isD(1) [OF us(1)]] assms(3) by simp
  have "(of_nat (heap_start L + total us + 8) :: u32) \<noteq> 0" by (rule heap.of_nat_not_null [of _ 0]) (use end_ in simp_all)
  moreover have "fresh_heap L s' (n - ?k)"
    unfolding fresh_heap_def by (rule exI [of _ "us @ [(?k, False)]"]) (use s'(2) us(2) in auto)
  ultimately show ?thesis using that s'(1) by blast
qed

lemma fresh_free_bytes: "fresh_heap L s n \<Longrightarrow> unat (xPortGetFreeHeapSize s) = n"
proof -
  assume "fresh_heap L s n"
  then obtain us where us: "heap_is L s (us @ [(n, True)])" "\<forall>(k, f) \<in> set us. \<not> f" unfolding fresh_heap_def by blast
  note D = heap_isD [OF us(1)]
  have "free_bytes us = 0" using us(2) by (auto simp: free_bytes_def)
  moreover have "n < 2 ^ 32" using D(3) heap_range(4) [OF D(1)] by simp
  ultimately show ?thesis using D(8) by (simp add: xPortGetFreeHeapSize_def unat_of_nat_u32)
qed

lemma fresh_task:
  assumes "fresh_heap L s n" "0 < t" "0 < d" "unat d < 2 ^ 30" "unat t + 4 * unat d + 64 \<le> n"
  obtains s' m where "xTaskCreate L t d s = Some (True, s')" "fresh_heap L s' m" "n \<le> m + unat t + 4 * unat d + 30"
proof -
  have d4: "unat (d * 4) = 4 * unat d" using assms(4) by (simp add: unat_word_ariths)
  then have pos: "0 < d * 4" using assms(3) by (simp add: word_less_nat_alt)
  obtain p s1 where s1: "pvPortMalloc L (d * 4) s = Some (p, s1)" "p \<noteq> 0" "fresh_heap L s1 (n - block_size (unat (d * 4)))"
    by (rule fresh_malloc [OF assms(1) pos]) (use assms(5) d4 in simp_all)
  note k1 = block_size_ok(3,4) [of "unat (d * 4)"] and k2 = block_size_ok(4) [of "unat t"]
  obtain q s2 where s2: "pvPortMalloc L t s1 = Some (q, s2)" "q \<noteq> 0"
    "fresh_heap L s2 (n - block_size (unat (d * 4)) - block_size (unat t))"
    by (rule fresh_malloc [OF s1(3) assms(2)]) (use assms(5) d4 k1 in simp_all)
  show ?thesis
    by (rule that [OF _ s2(3)]) (use s1 s2 assms(5) d4 k1 k2 in \<open>simp_all add: xTaskCreate_def prvCreateTask_def\<close>)
qed

text \<open>The first allocation makes the heap.\<close>

lemma boot_task:
  assumes "places_ok L" "pxEnd s = 0"
  shows "xTaskCreate L t d s = xTaskCreate L t d (prvHeapInit L s)"
  by (simp add: xTaskCreate_def prvCreateTask_def pvPortMalloc_first [OF assms])

lemma boot_fresh:
  assumes "places_ok L"
  shows "fresh_heap L (prvHeapInit L s) (heap_end L - heap_start L)"
  unfolding fresh_heap_def by (rule exI [of _ "[]"]) (use prvHeapInit_heap(1) [OF assms] in simp)

section \<open>The entry point\<close>

text \<open>
  C26. The heap of 75 KiB is enough for the entry point: at the start of the system, with a task control block of at most 1000 bytes, both
  tasks are created, wherever the linker puts the heap, and more than 68000 bytes are left. So once the chip has been configured, the entry
  point gets to the start of the scheduler: no assertion stops it.
\<close>

theorem entry_point_reaches_scheduler:
  assumes "places_ok L" "pxEnd s = 0" "0 < t" "t \<le> 1000"
    and "app_chip_start ctx d = ret ((), d')" "length m1 = 32" "length m2 = 32" "length m3 = 32"
  shows "\<exists>sts s' a. create_tasks L t s = Some (sts, s') \<and> 68000 < xPortGetFreeHeapSize s' \<and>
    enc28_test_app ctx sts (m1, m2, m3) (q1, q2, q3) stack vec d = ret a"
proof -
  have t: "unat t \<le> 1000" using assms(4) by (simp add: word_le_nat_alt)
  have size: "76778 \<le> heap_end L - heap_start L" using heap_range(8) [OF assms(1)] by simp
  obtain s1 n1 where s1: "xTaskCreate L t PACKET_HANDLER_STACK_DEPTH_WORDS (prvHeapInit L s) = Some (True, s1)"
    "fresh_heap L s1 n1" "heap_end L - heap_start L \<le> n1 + unat t + 2400 + 30"
    by (rule fresh_task [OF boot_fresh [OF assms(1)] assms(3), of PACKET_HANDLER_STACK_DEPTH_WORDS])
      (use size t in \<open>simp_all add: PACKET_HANDLER_STACK_DEPTH_WORDS_def\<close>)
  obtain s2 n2 where s2: "xTaskCreate L t IP_STACK_TASK_DEPTH_WORDS s1 = Some (True, s2)"
    "fresh_heap L s2 n2" "n1 \<le> n2 + unat t + 4000 + 30"
    by (rule fresh_task [OF s1(2) assms(3), of IP_STACK_TASK_DEPTH_WORDS])
      (use size t s1(3) in \<open>simp_all add: IP_STACK_TASK_DEPTH_WORDS_def\<close>)
  have "create_tasks L t s = Some ((True, True), s2)"
    using s1(1) s2(1) by (simp add: create_tasks_def boot_task [OF assms(1,2)])
  moreover have "68000 < xPortGetFreeHeapSize s2"
    using fresh_free_bytes [OF s2(2)] size t s1(3) s2(3) by (simp add: word_less_nat_alt)
  moreover have "\<exists>a. enc28_test_app ctx (True, True) (m1, m2, m3) (q1, q2, q3) stack vec d = ret a"
    using packet_queue_some [OF assms(6), of q1] packet_queue_some [OF assms(7), of q2] packet_queue_some [OF assms(8), of q3] assms(5)
    by (auto simp: enc28_test_app_def after_def)
  ultimately show ?thesis by blast
qed

theorem entry_point_reaches_scheduler_witness:
  "\<exists>sts s' a. create_tasks example_places 100 boot_heap = Some (sts, s') \<and>
    enc28_test_app (bus_ctx ready_device) sts (replicate 32 0, replicate 32 0, replicate 32 0) (empty_queue, empty_queue, empty_queue)
      (replicate 1600 0) (rsv_of_header (replicate 7 0)) \<lparr>priv_enc28_curr_bank = 3, world = []\<rparr> = ret a"
proof -
  obtain d' where d': "app_chip_start (bus_ctx ready_device) \<lparr>priv_enc28_curr_bank = 3, world = []\<rparr> = ret ((), d')"
    using app_chip_start_runs by blast
  have "pxEnd boot_heap = 0" by (simp add: boot_heap_def)
  from entry_point_reaches_scheduler [OF example_places_ok this _ _ d', of 100 "replicate 32 0" "replicate 32 0" "replicate 32 0"]
  show ?thesis by fastforce
qed

section \<open>A creation that fails\<close>

text \<open>
  A task that cannot be created costs nothing: when the memory for the stack or for the control block is not there, the creation
  answers so and the heap is as it was, block by block, with no memory lost.
\<close>

theorem failed_task_creation_restores:
  assumes "heap_is L s bs" "xTaskCreate L t d s = Some (ok, s')" "\<not> ok"
  shows "heap_is L s' bs \<and> xPortGetFreeHeapSize s' = xPortGetFreeHeapSize s"
proof -
  from heap.create_task [OF assms(1), of t d] assms(2,3) have "heap_is L s' bs" by (auto simp: xTaskCreate_def split: option.splits)
  then show ?thesis using heap_isD(8) [OF assms(1)] heap_isD(8) [of L s' bs] by (simp add: xPortGetFreeHeapSize_def)
qed

theorem failed_task_creation_restores_witness:
  "\<exists>s'. xTaskCreate example_places 70000 2000 (prvHeapInit example_places boot_heap) = Some (False, s') \<and>
    heap_is example_places s' [(0x12BF0, True)]"
proof -
  let ?s = "prvHeapInit example_places boot_heap"
  from pvPortMalloc_heap [OF example_heap, of 8000] obtain s1 where
    s1: "pvPortMalloc example_places 8000 ?s = Some (0x20000010, s1)" "heap_is example_places s1 [(8008, False), (68776, True)]"
    by (auto simp: malloc_row_def block_size_def split_block_def example_bounds)
  from pvPortMalloc_heap [OF s1(2), of 70000] have "pvPortMalloc example_places 70000 s1 = Some (0, s1)"
    by (simp add: malloc_row_def block_size_def example_bounds)
  moreover obtain s2 where "vPortFree example_places 0x20000010 s1 = Some s2"
    using heap_malloc_law [OF example_heap, of 8000] s1(1) by auto
  ultimately have run: "xTaskCreate example_places 70000 2000 ?s = Some (False, s2)" using s1(1) by (simp add: xTaskCreate_def prvCreateTask_def)
  from failed_task_creation_restores [OF example_heap run] run show ?thesis by auto
qed

end
