(* ===== verification/Spec2Isabelle.thy ===== *)
theory Spec2Isabelle
  imports Enc28_Readback Enc28_Robust App_Ping Rtos_Fifo Rtos_Notify Lwip_Netif App_Runs App_Turns App_Chip App_Memory Rtos_Kernel
begin

text \<open>
  A verification development for the ENC28J60 Ethernet driver (\<^verbatim>\<open>src/enc28j60\<close>) and the network application built on it
  for an STM32 (\<^verbatim>\<open>src/stm32_app\<close>), with the parts of FreeRTOS and lwIP the application's behaviour rests on.

  \<^bold>\<open>The program.\<close> The driver talks to the Ethernet chip over SPI through four callbacks of a context: chip select, output, input and
  full-duplex transfer, and a wait. The application resets and configures the chip, creates two tasks and three queues of
  pointers, and starts the scheduler. The packet task reads frames from the chip into one of eight packet buffers and hands
  the buffer to the IP task through the ready queue; the IP task gives the packet to lwIP, or without lwIP answers pings itself. Frames to
  send go through the transmit queue back to the packet task, used buffers through the free queue. The chip's interrupt wakes the
  packet task.

  \<^bold>\<open>Execution model.\<close> A driver function is a state function into \<open>'a outcome option\<close>: \<open>Some (Ret (x, s))\<close> returns, \<open>Some Undef\<close> is
  undefined behaviour in C (a null pointer used, a buffer overrun), and \<open>None\<close> is a call that does not return: an endless poll or a failed
  assertion. Errors are the code's status values. Integers are words of their C width; C's promotions are written out where they
  matter. The polling loops and the blocking queue operations are \<open>partial_function (option)\<close>, so that
  theorems about returning are about \<open>Some\<close>; no loop is cut off by fuel. A pointer parameter the code checks for null is
  an option. The callbacks are parameters; \<open>bus_ctx d\<close> are callbacks that record the SPI traffic and
  let an arbitrary device \<open>d\<close> answer as a function of the traffic so far, so that theorems over every \<open>d\<close> hold for every hardware.

  \<^bold>\<open>The driver\<close> (\<^verbatim>\<open>enc28j60.c\<close>, \<^verbatim>\<open>enc28j60.h\<close>).
  \<^item> \<open>Enc28_Prelude\<close>: bytes and words, the state functions and their combinators (\<open>bindM\<close>, \<open>exit_if_err\<close> for \<^verbatim>\<open>EXIT_IF_ERR\<close>).
  \<^item> \<open>Enc28_Types\<close>: every register, bit, opcode and configuration constant, status codes, structures.
  \<^item> \<open>Enc28_Spi\<close>, \<open>Enc28_Phy\<close>, \<open>Enc28_Init\<close>, \<open>Enc28_Packet\<close>: the functions of the driver in the order of the file, under their names.
    \<open>Enc28_Api\<close>: a data type of calls to the public functions and their sequences.
  \<^item> \<open>Enc28_Wire\<close>, \<open>Enc28_Steps\<close>, \<open>Enc28_Bank\<close>: what the driver puts on the bus. The locale \<open>driver_steps\<close> carries a relation between
    recordings from the register operations to all call sequences; its interpretations give that only whole, well-formed instructions are sent,
    and that the driver's bank variable agrees with the chip's bank. A soft reset breaks that agreement. The chip's register map (\<open>register_map\<close>: which
    addresses of a bank are Ethernet, MAC or MII registers, and so where a read sends a dummy byte) is stated apart from the driver's functions.
  \<^item> \<open>Enc28_Chip\<close>, \<open>Enc28_Effects\<close>: a model of the chip (registers, buffer memory, reset), a Hoare logic over recordings, and what
    initialisation, starting and stopping reception and writing a packet leave in the chip. What a bit field instruction makes of a MAC or MII register is a
    parameter of the chip.
  \<^item> \<open>Enc28_Serve\<close>, \<open>Enc28_Receive\<close>: the chip as the device that answers (locale \<open>served_chip\<close>); a packet read delivers and
    releases the oldest frame, repeated reads refine a queue of frames, a read stays in the caller's buffer on any device.
  \<^item> \<open>Enc28_Robust\<close>, \<open>Enc28_Readback\<close>: rejected parameters, polling loops, reading back the MAC address, the check of a sent packet.

  \<^bold>\<open>The kernel\<close> (\<^verbatim>\<open>queue.c\<close>, \<^verbatim>\<open>tasks.c\<close>, \<^verbatim>\<open>list.c\<close>, \<^verbatim>\<open>heap_4.c\<close> of FreeRTOS and its configuration).
  \<^item> \<open>Rtos_Queue\<close>, \<open>Rtos_Fifo\<close>: the queue operations on the queue's bytes and positions, with event lists by priority and the locks of the
    interrupt versions; they implement bounded first-in first-out queues of items (locale \<open>bounded_fifo\<close>, interpreted on queues of pointers).
    A receiver that waits is not forgotten, wherever in its decision to wait an interrupt sends.
  \<^item> \<open>Rtos_Notify\<close>: the notification the interrupt gives to the packet task, over the scheduler's lists; no interrupt is lost at any point of the call
    that takes them, nor while the task sleeps (\<open>while_asleep\<close>).

  \<^item> \<open>Rtos_Config\<close>: the options of \<^verbatim>\<open>FreeRTOSConfig.h\<close>.
  \<^item> \<open>Rtos_Heap\<close>: the allocator of \<^verbatim>\<open>heap_4.c\<close> on block headers stored by address. \<open>Rtos_Blocks\<close>: a row of blocks and first fit on it.
    \<open>Rtos_Alloc\<close>: \<open>heap_is\<close> relates the headers to a row, and allocating, releasing and initialising follow the row.
    \<open>Rtos_Memory\<close>: the interface of an allocator (locale \<open>allocator\<close>, interpreted on the heap) and its client \<^verbatim>\<open>xTaskCreate\<close>.
    \<open>Rtos_Memory_Runs\<close>: any sequence of allocations, releases and writes of the owners keeps the heap whole.

  \<^item> \<open>Rtos_List\<close>: the lists of \<^verbatim>\<open>list.c\<close> in a store by address; \<open>lists_are\<close> says which items the rings hold and in which order.
    \<open>Rtos_Sched\<close>: the scheduler's state (records \<open>kernel\<close> and \<open>kernel_places\<close>) and operations. \<open>Rtos_Sched_Inv\<close>, \<open>Rtos_Sched_Steps\<close>: the invariant
    of the lists and of the bit map of priorities, and single moves of a task. \<open>Rtos_Sched_Runs\<close>, \<open>Rtos_Sched_Wake\<close>, \<open>Rtos_Sched_Tick\<close>: where
    each task is after a switch, a wait, a wake, a tick, a resumption. \<open>Rtos_Sched_Boot\<close>: the creation of tasks. \<open>Rtos_Kernel\<close>: any sequence of
    these from the start on (the inductive relation \<open>kernel_reaches\<close>) or given as a list (\<open>kernel_run\<close>), with the properties of the scheduler.

  \<^bold>\<open>The network interface\<close> (\<open>Lwip_Netif\<close>): the set-up in \<^verbatim>\<open>ip_stack_task\<close> and lwIP's functions on interfaces, which frames and packets they take in
  and which they can send.

  \<^bold>\<open>The application.\<close>
  \<^item> \<open>App_Ping\<close>: the ping responder of \<^verbatim>\<open>debug_utils\<close>.
  \<^item> \<open>App_Tasks\<close>: the state of both tasks (record \<open>app\<close>), one definition per stretch of a task between two queue operations, and the
    inductive relations \<open>app_step\<close> and \<open>app_run\<close> with the frames each step moves; the entry point \<open>enc28_test_app\<close>.
  \<^item> \<open>App_Invariant\<close>, \<open>App_Flow\<close>: the invariant (each of the eight buffers in exactly one place, a task waits only on an empty queue, stored lengths fit)
    and what follows: buffers are conserved, no step fails but for a refused transmission.
  \<^item> \<open>App_Frames\<close>: the application refines two first-in first-out queues of frames; what is sent without lwIP.
  \<^item> \<open>App_Runs\<close>: when the tasks wait for each other, a reachable deadlock with lwIP, and a packet the IP stack keeps.
  \<^item> \<open>App_Turns\<close>: how long a frame waits: one frame for each turn of a task, and nothing is sent while the chip is never idle.
  \<^item> \<open>App_Start\<close>: the chip and the tasks when the scheduler starts; the size of sent frames.
  \<^item> \<open>App_Memory\<close>: the memory of the two tasks is there, so that the entry point gets to the scheduler; a failed creation costs nothing.
  \<^item> \<open>App_Chip\<close>: the whole of driver, queues and tasks over the chip: frames in its receive buffer reach the IP stack, frames of the IP stack
    reach its transmit buffer.

  \<^bold>\<open>Bounds.\<close> Eight buffers of 1600 bytes, queues of eight pointers of four bytes, tasks of priority 1 and 2. An address of the buffers is a parameter
  \<open>base\<close> with \<open>base_ok\<close>: the array does not contain the null address or wrap around.

  \<^bold>\<open>Not modelled.\<close> The processor's port of FreeRTOS, and the deletion, suspension and changes of priority of tasks. The step relation of the two
  tasks allows every interleaving at queue operations, which includes those the scheduler chooses. lwIP's protocols: the IP stack is any program that calls the two callbacks of
  \<^verbatim>\<open>ip_stack_task.c\<close>; \<open>keeps\<close> says whether it may keep a packet past its input function. Time-outs of blocking queue calls are answers given
  as parameters, and so is what the others do at each point of such a call. Text output, the stack watermark assertions, the tick source,
  \<^verbatim>\<open>pvPortCalloc\<close>, which nothing calls, and lwIP's configuration header, whose options are stated where they matter.
\<close>

end
